(* ===== verification/Prelude.thy ===== *)
theory Prelude
  imports Main "HOL-Library.Word"
begin

text \<open>
  Shared vocabulary of the development: the result type that turns every failed
  assertion, \<open>llvm_unreachable\<close> and \<open>abort\<close> of the sources into a
  value, and the operations on intrusive lists (\<open>llvm/include/llvm/ADT/ilist.h\<close>)
  that the machine-level passes step through with iterators.
\<close>

section \<open>Failures as values\<close>

datatype err =
    AssertFail string
  | Unreachable string
  | Abort
  | NullDeref
  | OutOfFuel

type_synonym 'a res = "err + 'a"

definition bind_res :: "'a res \<Rightarrow> ('a \<Rightarrow> 'b res) \<Rightarrow> 'b res" where
  "bind_res m f = (case m of Inl e \<Rightarrow> Inl e | Inr x \<Rightarrow> f x)"

lemma bind_res_Inr [simp]: "bind_res (Inr x) f = f x"
  by (simp add: bind_res_def)

lemma bind_res_Inl [simp]: "bind_res (Inl e) f = Inl e"
  by (simp add: bind_res_def)

lemma bind_res_eq_Inr [simp]:
  "bind_res m f = Inr y \<longleftrightarrow> (\<exists>x. m = Inr x \<and> f x = Inr y)"
  by (cases m) simp_all

lemma bind_res_cong [fundef_cong]:
  "m = m' \<Longrightarrow> (\<And>x. m' = Inr x \<Longrightarrow> f x = g x) \<Longrightarrow> bind_res m f = bind_res m' g"
  by (cases m') simp_all

definition assert_res :: "string \<Rightarrow> bool \<Rightarrow> unit res" where
  "assert_res msg b = (if b then Inr () else Inl (AssertFail msg))"

lemma assert_res_True [simp]: "assert_res msg True = Inr ()"
  by (simp add: assert_res_def)

lemma assert_res_False [simp]: "assert_res msg False = Inl (AssertFail msg)"
  by (simp add: assert_res_def)

lemma assert_res_eq_Inr [simp]: "assert_res msg b = Inr u \<longleftrightarrow> b"
  by (simp add: assert_res_def)

section \<open>Intrusive lists and their iterators\<close>

text \<open>
  An \<open>ilist\<close> without repetitions is a list of its elements; an iterator is the element
  it points at, \<open>None\<close> being \<open>end()\<close>. \<open>next_in\<close> is \<open>operator++\<close>,
  \<open>prev_iter\<close> is \<open>operator--\<close> (which takes \<open>end()\<close> to the last
  element) and \<open>insert_before\<close> is \<open>ilist::insert(iterator, node)\<close>.
\<close>

fun next_in :: "'a list \<Rightarrow> 'a \<Rightarrow> 'a option" where
  "next_in [] x = None"
| "next_in (y # ys) x =
     (if y = x then (case ys of [] \<Rightarrow> None | z # _ \<Rightarrow> Some z) else next_in ys x)"

fun prev_in :: "'a list \<Rightarrow> 'a \<Rightarrow> 'a option" where
  "prev_in (y # z # ys) x = (if z = x then Some y else prev_in (z # ys) x)"
| "prev_in _ x = None"

definition prev_iter :: "'a list \<Rightarrow> 'a option \<Rightarrow> 'a option" where
  "prev_iter xs it =
     (case it of
        None \<Rightarrow> (if xs = [] then None else Some (last xs))
      | Some x \<Rightarrow> prev_in xs x)"

definition begin_iter :: "'a list \<Rightarrow> 'a option" where
  "begin_iter xs = (case xs of [] \<Rightarrow> None | x # _ \<Rightarrow> Some x)"

fun insert_before :: "'a option \<Rightarrow> 'a \<Rightarrow> 'a list \<Rightarrow> 'a list" where
  "insert_before None b xs = xs @ [b]"
| "insert_before (Some x) b [] = [b]"
| "insert_before (Some x) b (y # ys) =
     (if y = x then b # y # ys else y # insert_before (Some x) b ys)"

lemma begin_iter_Cons [simp]: "begin_iter (x # xs) = Some x"
  and begin_iter_Nil [simp]: "begin_iter [] = None"
  by (simp_all add: begin_iter_def)

lemma begin_iter_append:
  "begin_iter (xs @ ys) = (if xs = [] then begin_iter ys else Some (hd xs))"
  by (cases xs) simp_all

lemma next_in_append_notin [simp]: "x \<notin> set xs \<Longrightarrow> next_in (xs @ ys) x = next_in ys x"
  by (induction xs) auto

lemma next_in_split: "x \<notin> set xs \<Longrightarrow> next_in (xs @ x # ys) x = begin_iter ys"
  by (simp add: begin_iter_def)

lemma next_in_None: "x \<notin> set xs \<Longrightarrow> next_in xs x = None"
  by (induction xs) auto

lemma next_in_mem: "next_in xs x = Some y \<Longrightarrow> x \<in> set xs \<and> y \<in> set xs"
  by (induction xs) (auto split: if_splits list.splits)

lemma prev_in_split:
  "y \<notin> set xs \<Longrightarrow> x \<noteq> y \<Longrightarrow> prev_in (xs @ x # y # ys) y = Some x"
proof (induction xs)
  case (Cons a xs)
  then show ?case by (cases xs) auto
qed simp

lemma insert_before_split:
  "x \<notin> set xs \<Longrightarrow> insert_before (Some x) b (xs @ x # ys) = xs @ b # x # ys"
  by (induction xs) auto

lemma insert_before_begin:
  "distinct (xs @ ys) \<Longrightarrow> insert_before (begin_iter ys) b (xs @ ys) = xs @ b # ys"
  by (cases ys) (auto simp: insert_before_split)

lemma prev_iter_begin:
  "distinct (xs @ x # ys) \<Longrightarrow> prev_iter (xs @ x # ys) (begin_iter ys) = Some x"
  by (cases ys) (auto simp: prev_iter_def prev_in_split)

lemma next_in_distinct_split:
  assumes "distinct xs" and "next_in xs x = Some y"
  shows "\<exists>as bs. xs = as @ x # y # bs"
  using assms
proof (induction xs)
  case (Cons a xs)
  show ?case
  proof (cases "a = x")
    case True
    with Cons.prems show ?thesis
      by (auto split: list.splits intro: exI [where x = "[]"])
  next
    case False
    with Cons.prems have "next_in xs x = Some y" by simp
    with Cons obtain as bs where "xs = as @ x # y # bs" by auto
    then have "a # xs = (a # as) @ x # y # bs" by simp
    then show ?thesis by blast
  qed
qed simp

section \<open>Erasing by position\<close>

text \<open>\<open>vector::erase(begin() + i)\<close> and \<open>std::find\<close> as an index.\<close>

definition erase_nth :: "nat \<Rightarrow> 'a list \<Rightarrow> 'a list" where
  "erase_nth i xs = take i xs @ drop (Suc i) xs"

fun find_index :: "'a \<Rightarrow> 'a list \<Rightarrow> nat" where
  "find_index x [] = 0"
| "find_index x (y # ys) = (if y = x then 0 else Suc (find_index x ys))"

lemma length_erase_nth [simp]: "i < length xs \<Longrightarrow> length (erase_nth i xs) = length xs - 1"
  by (auto simp: erase_nth_def)

lemma find_index_bound: "find_index x xs \<le> length xs"
  by (induction xs) auto

lemma find_index_mem: "find_index x xs < length xs \<longleftrightarrow> x \<in> set xs"
  by (induction xs) auto

lemma nth_find_index: "x \<in> set xs \<Longrightarrow> xs ! find_index x xs = x"
  by (induction xs) auto

lemma count_list_erase_nth:
  assumes "i < length xs"
  shows "count_list (erase_nth i xs) y + (if xs ! i = y then 1 else 0) = count_list xs y"
proof -
  have "count_list (take i xs @ xs ! i # drop (Suc i) xs) y = count_list xs y"
    using assms by (simp add: id_take_nth_drop [symmetric])
  then show ?thesis by (cases "xs ! i = y") (simp_all add: erase_nth_def)
qed

lemma count_list_remove1: "count_list (remove1 x xs) y = (if x = y then count_list xs y - 1 else count_list xs y)"
  by (induction xs) (auto simp: count_list_0_iff)

lemma count_list_update:
  assumes "i < length xs"
  shows "count_list (xs[i := z]) y + (if xs ! i = y then 1 else 0) = count_list xs y + (if z = y then 1 else 0)"
  using assms
proof (induction xs arbitrary: i)
  case (Cons a xs)
  show ?case
  proof (cases i)
    case (Suc k)
    with Cons.prems Cons.IH [of k] show ?thesis by (auto split: if_splits)
  qed simp
qed simp

lemma count_list_pos: "x \<in> set xs \<longleftrightarrow> 0 < count_list xs x"
  by (metis count_notin count_list_0_iff gr0I less_numeral_extra(3))

end
