(* ===== verification/X86Cond.thy ===== *)
theory X86Cond
  imports Prelude
begin

text \<open>
  Condition codes of the X86 back end (\<open>llvm/lib/Target/X86/X86InstrInfo.cpp\<close>): the
  switch tables between branch, SET and CMOV opcodes and condition codes, the inverse and the
  swapped condition, and the translation of IR comparison predicates. Their meaning is
  given over the EFLAGS register, so that the tables are proved against what the
  instructions test.
\<close>

section \<open>Data\<close>

text \<open>The enumeration \<open>X86::CondCode\<close>, in the order of its values.\<close>

datatype cond_code =
    COND_A | COND_AE | COND_B | COND_BE | COND_E | COND_G | COND_GE | COND_L
  | COND_LE | COND_NE | COND_NO | COND_NP | COND_NS | COND_O | COND_P | COND_S
  | COND_NE_OR_P | COND_E_AND_NP | COND_INVALID

fun cond_val :: "cond_code \<Rightarrow> nat" where
  "cond_val COND_A = 0"
| "cond_val COND_AE = 1"
| "cond_val COND_B = 2"
| "cond_val COND_BE = 3"
| "cond_val COND_E = 4"
| "cond_val COND_G = 5"
| "cond_val COND_GE = 6"
| "cond_val COND_L = 7"
| "cond_val COND_LE = 8"
| "cond_val COND_NE = 9"
| "cond_val COND_NO = 10"
| "cond_val COND_NP = 11"
| "cond_val COND_NS = 12"
| "cond_val COND_O = 13"
| "cond_val COND_P = 14"
| "cond_val COND_S = 15"
| "cond_val COND_NE_OR_P = 16"
| "cond_val COND_E_AND_NP = 17"
| "cond_val COND_INVALID = 18"

definition LAST_VALID_COND :: nat where
  "LAST_VALID_COND = cond_val COND_S"

text \<open>
  TableGen builds the opcode names from a mnemonic and a suffix: \<open>defm JE : ICBr\<close>
  gives \<open>JE_1\<close>, \<open>JE_2\<close>, \<open>JE_4\<close>, and \<open>CMOVE\<close> and
  \<open>SETE\<close> are made the same way. An opcode here is that suffix applied to the mnemonic.
\<close>

datatype mnem =
    mO | mNO | mB | mAE | mE | mNE | mBE | mA | mS | mNS | mP | mNP | mL | mGE | mLE | mG

datatype opcode =
    Jcc_1 mnem | Jcc_2 mnem | Jcc_4 mnem
  | SETr mnem | SETm mnem
  | CMOV16rr mnem | CMOV32rr mnem | CMOV64rr mnem
  | CMOV16rm mnem | CMOV32rm mnem | CMOV64rm mnem
  | JMP_1 | JMP_2 | JMP_4 | JMP64r | JMP64m | JRCXZ
  | RETQ | CALL64pcrel32 | TCRETURNdi64
  | LEA64r | ADD8ri | DBG_VALUE
  | OtherOp nat

text \<open>The opcode byte of each short conditional jump (\<open>X86InstrControl.td\<close>).\<close>

fun ICBr_opc1 :: "mnem \<Rightarrow> 8 word" where
  "ICBr_opc1 mO = 0x70"
| "ICBr_opc1 mNO = 0x71"
| "ICBr_opc1 mB = 0x72"
| "ICBr_opc1 mAE = 0x73"
| "ICBr_opc1 mE = 0x74"
| "ICBr_opc1 mNE = 0x75"
| "ICBr_opc1 mBE = 0x76"
| "ICBr_opc1 mA = 0x77"
| "ICBr_opc1 mS = 0x78"
| "ICBr_opc1 mNS = 0x79"
| "ICBr_opc1 mP = 0x7A"
| "ICBr_opc1 mNP = 0x7B"
| "ICBr_opc1 mL = 0x7C"
| "ICBr_opc1 mGE = 0x7D"
| "ICBr_opc1 mLE = 0x7E"
| "ICBr_opc1 mG = 0x7F"

section \<open>The switch tables\<close>

fun getCondFromBranchOpc :: "opcode \<Rightarrow> cond_code" where
  "getCondFromBranchOpc (Jcc_1 mE) = COND_E"
| "getCondFromBranchOpc (Jcc_1 mNE) = COND_NE"
| "getCondFromBranchOpc (Jcc_1 mL) = COND_L"
| "getCondFromBranchOpc (Jcc_1 mLE) = COND_LE"
| "getCondFromBranchOpc (Jcc_1 mG) = COND_G"
| "getCondFromBranchOpc (Jcc_1 mGE) = COND_GE"
| "getCondFromBranchOpc (Jcc_1 mB) = COND_B"
| "getCondFromBranchOpc (Jcc_1 mBE) = COND_BE"
| "getCondFromBranchOpc (Jcc_1 mA) = COND_A"
| "getCondFromBranchOpc (Jcc_1 mAE) = COND_AE"
| "getCondFromBranchOpc (Jcc_1 mS) = COND_S"
| "getCondFromBranchOpc (Jcc_1 mNS) = COND_NS"
| "getCondFromBranchOpc (Jcc_1 mP) = COND_P"
| "getCondFromBranchOpc (Jcc_1 mNP) = COND_NP"
| "getCondFromBranchOpc (Jcc_1 mO) = COND_O"
| "getCondFromBranchOpc (Jcc_1 mNO) = COND_NO"
| "getCondFromBranchOpc _ = COND_INVALID"

text \<open>The condition a mnemonic names, shared by the SET and CMOV switches.\<close>

fun mnem_cond :: "mnem \<Rightarrow> cond_code" where
  "mnem_cond mA = COND_A"
| "mnem_cond mAE = COND_AE"
| "mnem_cond mB = COND_B"
| "mnem_cond mBE = COND_BE"
| "mnem_cond mE = COND_E"
| "mnem_cond mG = COND_G"
| "mnem_cond mGE = COND_GE"
| "mnem_cond mL = COND_L"
| "mnem_cond mLE = COND_LE"
| "mnem_cond mNE = COND_NE"
| "mnem_cond mNO = COND_NO"
| "mnem_cond mNP = COND_NP"
| "mnem_cond mNS = COND_NS"
| "mnem_cond mO = COND_O"
| "mnem_cond mP = COND_P"
| "mnem_cond mS = COND_S"

fun getCondFromSETOpc :: "opcode \<Rightarrow> cond_code" where
  "getCondFromSETOpc (SETr m) = mnem_cond m"
| "getCondFromSETOpc (SETm m) = mnem_cond m"
| "getCondFromSETOpc _ = COND_INVALID"

fun getCondFromCMovOpc :: "opcode \<Rightarrow> cond_code" where
  "getCondFromCMovOpc (CMOV16rm m) = mnem_cond m"
| "getCondFromCMovOpc (CMOV16rr m) = mnem_cond m"
| "getCondFromCMovOpc (CMOV32rm m) = mnem_cond m"
| "getCondFromCMovOpc (CMOV32rr m) = mnem_cond m"
| "getCondFromCMovOpc (CMOV64rm m) = mnem_cond m"
| "getCondFromCMovOpc (CMOV64rr m) = mnem_cond m"
| "getCondFromCMovOpc _ = COND_INVALID"

fun GetCondBranchFromCond :: "cond_code \<Rightarrow> opcode res" where
  "GetCondBranchFromCond COND_E = Inr (Jcc_1 mE)"
| "GetCondBranchFromCond COND_NE = Inr (Jcc_1 mNE)"
| "GetCondBranchFromCond COND_L = Inr (Jcc_1 mL)"
| "GetCondBranchFromCond COND_LE = Inr (Jcc_1 mLE)"
| "GetCondBranchFromCond COND_G = Inr (Jcc_1 mG)"
| "GetCondBranchFromCond COND_GE = Inr (Jcc_1 mGE)"
| "GetCondBranchFromCond COND_B = Inr (Jcc_1 mB)"
| "GetCondBranchFromCond COND_BE = Inr (Jcc_1 mBE)"
| "GetCondBranchFromCond COND_A = Inr (Jcc_1 mA)"
| "GetCondBranchFromCond COND_AE = Inr (Jcc_1 mAE)"
| "GetCondBranchFromCond COND_S = Inr (Jcc_1 mS)"
| "GetCondBranchFromCond COND_NS = Inr (Jcc_1 mNS)"
| "GetCondBranchFromCond COND_P = Inr (Jcc_1 mP)"
| "GetCondBranchFromCond COND_NP = Inr (Jcc_1 mNP)"
| "GetCondBranchFromCond COND_O = Inr (Jcc_1 mO)"
| "GetCondBranchFromCond COND_NO = Inr (Jcc_1 mNO)"
| "GetCondBranchFromCond _ = Inl (Unreachable ''Illegal condition code!'')"

fun GetOppositeBranchCondition :: "cond_code \<Rightarrow> cond_code res" where
  "GetOppositeBranchCondition COND_E = Inr COND_NE"
| "GetOppositeBranchCondition COND_NE = Inr COND_E"
| "GetOppositeBranchCondition COND_L = Inr COND_GE"
| "GetOppositeBranchCondition COND_LE = Inr COND_G"
| "GetOppositeBranchCondition COND_G = Inr COND_LE"
| "GetOppositeBranchCondition COND_GE = Inr COND_L"
| "GetOppositeBranchCondition COND_B = Inr COND_AE"
| "GetOppositeBranchCondition COND_BE = Inr COND_A"
| "GetOppositeBranchCondition COND_A = Inr COND_BE"
| "GetOppositeBranchCondition COND_AE = Inr COND_B"
| "GetOppositeBranchCondition COND_S = Inr COND_NS"
| "GetOppositeBranchCondition COND_NS = Inr COND_S"
| "GetOppositeBranchCondition COND_P = Inr COND_NP"
| "GetOppositeBranchCondition COND_NP = Inr COND_P"
| "GetOppositeBranchCondition COND_O = Inr COND_NO"
| "GetOppositeBranchCondition COND_NO = Inr COND_O"
| "GetOppositeBranchCondition COND_NE_OR_P = Inr COND_E_AND_NP"
| "GetOppositeBranchCondition COND_E_AND_NP = Inr COND_NE_OR_P"
| "GetOppositeBranchCondition COND_INVALID = Inl (Unreachable ''Illegal condition code!'')"

fun getSwappedCondition :: "cond_code \<Rightarrow> cond_code" where
  "getSwappedCondition COND_E = COND_E"
| "getSwappedCondition COND_NE = COND_NE"
| "getSwappedCondition COND_L = COND_G"
| "getSwappedCondition COND_LE = COND_GE"
| "getSwappedCondition COND_G = COND_L"
| "getSwappedCondition COND_GE = COND_LE"
| "getSwappedCondition COND_B = COND_A"
| "getSwappedCondition COND_BE = COND_AE"
| "getSwappedCondition COND_A = COND_B"
| "getSwappedCondition COND_AE = COND_BE"
| "getSwappedCondition _ = COND_INVALID"

text \<open>\<open>CmpInst::Predicate\<close> (\<open>llvm/IR/InstrTypes.h\<close>).\<close>

datatype cmp_predicate =
    FCMP_FALSE | FCMP_OEQ | FCMP_OGT | FCMP_OGE | FCMP_OLT | FCMP_OLE | FCMP_ONE | FCMP_ORD
  | FCMP_UNO | FCMP_UEQ | FCMP_UGT | FCMP_UGE | FCMP_ULT | FCMP_ULE | FCMP_UNE | FCMP_TRUE
  | ICMP_EQ | ICMP_NE | ICMP_UGT | ICMP_UGE | ICMP_ULT | ICMP_ULE
  | ICMP_SGT | ICMP_SGE | ICMP_SLT | ICMP_SLE

fun getX86ConditionCode :: "cmp_predicate \<Rightarrow> cond_code \<times> bool" where
  "getX86ConditionCode FCMP_UEQ = (COND_E, False)"
| "getX86ConditionCode FCMP_OLT = (COND_A, True)"
| "getX86ConditionCode FCMP_OGT = (COND_A, False)"
| "getX86ConditionCode FCMP_OLE = (COND_AE, True)"
| "getX86ConditionCode FCMP_OGE = (COND_AE, False)"
| "getX86ConditionCode FCMP_UGT = (COND_B, True)"
| "getX86ConditionCode FCMP_ULT = (COND_B, False)"
| "getX86ConditionCode FCMP_UGE = (COND_BE, True)"
| "getX86ConditionCode FCMP_ULE = (COND_BE, False)"
| "getX86ConditionCode FCMP_ONE = (COND_NE, False)"
| "getX86ConditionCode FCMP_UNO = (COND_P, False)"
| "getX86ConditionCode FCMP_ORD = (COND_NP, False)"
| "getX86ConditionCode FCMP_OEQ = (COND_INVALID, False)"
| "getX86ConditionCode FCMP_UNE = (COND_INVALID, False)"
| "getX86ConditionCode ICMP_EQ = (COND_E, False)"
| "getX86ConditionCode ICMP_NE = (COND_NE, False)"
| "getX86ConditionCode ICMP_UGT = (COND_A, False)"
| "getX86ConditionCode ICMP_UGE = (COND_AE, False)"
| "getX86ConditionCode ICMP_ULT = (COND_B, False)"
| "getX86ConditionCode ICMP_ULE = (COND_BE, False)"
| "getX86ConditionCode ICMP_SGT = (COND_G, False)"
| "getX86ConditionCode ICMP_SGE = (COND_GE, False)"
| "getX86ConditionCode ICMP_SLT = (COND_L, False)"
| "getX86ConditionCode ICMP_SLE = (COND_LE, False)"
| "getX86ConditionCode _ = (COND_INVALID, False)"

text \<open>The tables \<open>Opc\<close> of \<open>getSETFromCond\<close> and \<open>getCMovFromCond\<close>.\<close>

definition SET_Opc :: "(opcode \<times> opcode) list" where
  "SET_Opc =
     [(SETr mA, SETm mA), (SETr mAE, SETm mAE), (SETr mB, SETm mB), (SETr mBE, SETm mBE),
      (SETr mE, SETm mE), (SETr mG, SETm mG), (SETr mGE, SETm mGE), (SETr mL, SETm mL),
      (SETr mLE, SETm mLE), (SETr mNE, SETm mNE), (SETr mNO, SETm mNO), (SETr mNP, SETm mNP),
      (SETr mNS, SETm mNS), (SETr mO, SETm mO), (SETr mP, SETm mP), (SETr mS, SETm mS)]"

definition getSETFromCond :: "cond_code \<Rightarrow> bool \<Rightarrow> opcode res" where
  "getSETFromCond CC HasMemoryOperand =
     (if cond_val CC \<le> LAST_VALID_COND
      then Inr ((if HasMemoryOperand then snd else fst) (SET_Opc ! cond_val CC))
      else Inl (AssertFail ''Can only handle standard cond codes''))"

definition CMOV_Opc :: "(opcode \<times> opcode \<times> opcode) list" where
  "CMOV_Opc =
     [(CMOV16rr mA, CMOV32rr mA, CMOV64rr mA),
      (CMOV16rr mAE, CMOV32rr mAE, CMOV64rr mAE),
      (CMOV16rr mB, CMOV32rr mB, CMOV64rr mB),
      (CMOV16rr mBE, CMOV32rr mBE, CMOV64rr mBE),
      (CMOV16rr mE, CMOV32rr mE, CMOV64rr mE),
      (CMOV16rr mG, CMOV32rr mG, CMOV64rr mG),
      (CMOV16rr mGE, CMOV32rr mGE, CMOV64rr mGE),
      (CMOV16rr mL, CMOV32rr mL, CMOV64rr mL),
      (CMOV16rr mLE, CMOV32rr mLE, CMOV64rr mLE),
      (CMOV16rr mNE, CMOV32rr mNE, CMOV64rr mNE),
      (CMOV16rr mNO, CMOV32rr mNO, CMOV64rr mNO),
      (CMOV16rr mNP, CMOV32rr mNP, CMOV64rr mNP),
      (CMOV16rr mNS, CMOV32rr mNS, CMOV64rr mNS),
      (CMOV16rr mO, CMOV32rr mO, CMOV64rr mO),
      (CMOV16rr mP, CMOV32rr mP, CMOV64rr mP),
      (CMOV16rr mS, CMOV32rr mS, CMOV64rr mS),
      (CMOV16rm mA, CMOV32rm mA, CMOV64rm mA),
      (CMOV16rm mAE, CMOV32rm mAE, CMOV64rm mAE),
      (CMOV16rm mB, CMOV32rm mB, CMOV64rm mB),
      (CMOV16rm mBE, CMOV32rm mBE, CMOV64rm mBE),
      (CMOV16rm mE, CMOV32rm mE, CMOV64rm mE),
      (CMOV16rm mG, CMOV32rm mG, CMOV64rm mG),
      (CMOV16rm mGE, CMOV32rm mGE, CMOV64rm mGE),
      (CMOV16rm mL, CMOV32rm mL, CMOV64rm mL),
      (CMOV16rm mLE, CMOV32rm mLE, CMOV64rm mLE),
      (CMOV16rm mNE, CMOV32rm mNE, CMOV64rm mNE),
      (CMOV16rm mNO, CMOV32rm mNO, CMOV64rm mNO),
      (CMOV16rm mNP, CMOV32rm mNP, CMOV64rm mNP),
      (CMOV16rm mNS, CMOV32rm mNS, CMOV64rm mNS),
      (CMOV16rm mO, CMOV32rm mO, CMOV64rm mO),
      (CMOV16rm mP, CMOV32rm mP, CMOV64rm mP),
      (CMOV16rm mS, CMOV32rm mS, CMOV64rm mS)]"

definition getCMovFromCond :: "cond_code \<Rightarrow> nat \<Rightarrow> bool \<Rightarrow> opcode res" where
  "getCMovFromCond CC RegBytes HasMemoryOperand =
     (if \<not> cond_val CC < 16 then Inl (AssertFail ''Can only handle standard cond codes'')
      else
        let Idx = (if HasMemoryOperand then 16 + cond_val CC else cond_val CC)
        in case CMOV_Opc ! Idx of (o16, o32, o64) \<Rightarrow>
             if RegBytes = 2 then Inr o16
             else if RegBytes = 4 then Inr o32
             else if RegBytes = 8 then Inr o64
             else Inl (Unreachable ''Illegal register size!''))"

section \<open>What the conditions mean\<close>

text \<open>
  EFLAGS and the documented test of each condition; \<open>cmp_flags a b\<close> is the state
  that \<open>cmp b, a\<close> (the subtraction \<open>a - b\<close>) leaves.
\<close>

record eflags =
  CF :: bool
  PF :: bool
  ZF :: bool
  SF :: bool
  OF :: bool

fun cond_holds :: "cond_code \<Rightarrow> eflags \<Rightarrow> bool" where
  "cond_holds COND_A f = (\<not> CF f \<and> \<not> ZF f)"
| "cond_holds COND_AE f = (\<not> CF f)"
| "cond_holds COND_B f = CF f"
| "cond_holds COND_BE f = (CF f \<or> ZF f)"
| "cond_holds COND_E f = ZF f"
| "cond_holds COND_G f = (\<not> ZF f \<and> SF f = OF f)"
| "cond_holds COND_GE f = (SF f = OF f)"
| "cond_holds COND_L f = (SF f \<noteq> OF f)"
| "cond_holds COND_LE f = (ZF f \<or> SF f \<noteq> OF f)"
| "cond_holds COND_NE f = (\<not> ZF f)"
| "cond_holds COND_NO f = (\<not> OF f)"
| "cond_holds COND_NP f = (\<not> PF f)"
| "cond_holds COND_NS f = (\<not> SF f)"
| "cond_holds COND_O f = OF f"
| "cond_holds COND_P f = PF f"
| "cond_holds COND_S f = SF f"
| "cond_holds COND_NE_OR_P f = (\<not> ZF f \<or> PF f)"
| "cond_holds COND_E_AND_NP f = (ZF f \<and> \<not> PF f)"
| "cond_holds COND_INVALID f = False"

definition cmp_flags :: "'a::len word \<Rightarrow> 'a word \<Rightarrow> eflags" where
  "cmp_flags a b =
     (let r = a - b in
      \<lparr>CF = a < b, PF = even (length (filter (bit r) [0..<8])), ZF = (a = b),
       SF = (sint r < 0), OF = (sint r \<noteq> sint a - sint b)\<rparr>)"

lemma cmp_flags_sel [simp]:
  "CF (cmp_flags a b) = (a < b)"
  "ZF (cmp_flags a b) = (a = b)"
  "SF (cmp_flags a b) = (sint (a - b) < 0)"
  "OF (cmp_flags a b) = (sint (a - b) \<noteq> sint a - sint b)"
  by (simp_all add: cmp_flags_def Let_def)

lemma cmp_signed_less:
  fixes a b :: "'a::len word"
  shows "(sint (a - b) < 0) \<noteq> (sint (a - b) \<noteq> sint a - sint b) \<longleftrightarrow> sint a < sint b"
proof -
  define n where "n = LENGTH('a) - 1"
  have L: "LENGTH('a) = Suc n" by (simp add: n_def)
  have ra: "- (2 ^ n) \<le> sint a" "sint a < 2 ^ n" and rb: "- (2 ^ n) \<le> sint b" "sint b < 2 ^ n"
    unfolding n_def by (rule sint_ge sint_lt)+
  have d: "sint (a - b) = (sint a - sint b + 2 ^ n) mod (2 * 2 ^ n) - 2 ^ n"
  proof -
    have "sint (a - b) = signed_take_bit n (sint a - sint b)"
      by (simp add: sint_word_ariths n_def)
    then show ?thesis
      by (simp add: signed_take_bit_eq_take_bit_shift take_bit_eq_mod)
  qed
  show ?thesis
  proof (cases "sint a - sint b < - (2 ^ n)")
    case True
    have "(sint a - sint b + 2 ^ n) mod (2 * 2 ^ n) = sint a - sint b + 2 ^ n + 2 * 2 ^ n"
      using True ra rb by (subst mod_add_self2 [symmetric], subst mod_pos_pos_trivial) auto
    with d True ra rb show ?thesis by auto
  next
    case F1: False
    show ?thesis
    proof (cases "sint a - sint b < 2 ^ n")
      case True
      with F1 have "(sint a - sint b + 2 ^ n) mod (2 * 2 ^ n) = sint a - sint b + 2 ^ n"
        by (subst mod_pos_pos_trivial) auto
      with d show ?thesis by auto
    next
      case False
      have "(sint a - sint b + 2 ^ n) mod (2 * 2 ^ n)
          = ((sint a - sint b - 2 ^ n) + 2 * 2 ^ n) mod (2 * 2 ^ n)"
        by (rule arg_cong [where f = "\<lambda>x. x mod (2 * 2 ^ n)"]) simp
      also have "\<dots> = (sint a - sint b - 2 ^ n) mod (2 * 2 ^ n)"
        by (rule mod_add_self2)
      also have "\<dots> = sint a - sint b - 2 ^ n"
        using False ra rb by (subst mod_pos_pos_trivial) auto
      finally show ?thesis using d False ra rb by auto
    qed
  qed
qed

fun icmp_sem :: "cmp_predicate \<Rightarrow> 'a::len word \<Rightarrow> 'a word \<Rightarrow> bool" where
  "icmp_sem ICMP_EQ a b = (a = b)"
| "icmp_sem ICMP_NE a b = (a \<noteq> b)"
| "icmp_sem ICMP_UGT a b = (b < a)"
| "icmp_sem ICMP_UGE a b = (b \<le> a)"
| "icmp_sem ICMP_ULT a b = (a < b)"
| "icmp_sem ICMP_ULE a b = (a \<le> b)"
| "icmp_sem ICMP_SGT a b = (sint b < sint a)"
| "icmp_sem ICMP_SGE a b = (sint b \<le> sint a)"
| "icmp_sem ICMP_SLT a b = (sint a < sint b)"
| "icmp_sem ICMP_SLE a b = (sint a \<le> sint b)"
| "icmp_sem _ a b = False"

definition is_icmp :: "cmp_predicate \<Rightarrow> bool" where
  "is_icmp p = (p \<in> {ICMP_EQ, ICMP_NE, ICMP_UGT, ICMP_UGE, ICMP_ULT, ICMP_ULE,
                      ICMP_SGT, ICMP_SGE, ICMP_SLT, ICMP_SLE})"

lemma sint_inj: "sint a = sint b \<longleftrightarrow> a = b"
  by (auto intro: signed_word_eqI)

lemma cond_holds_cmp [simp]:
  fixes a b :: "'a::len word"
  shows "cond_holds COND_L (cmp_flags a b) = (sint a < sint b)"
    and "cond_holds COND_GE (cmp_flags a b) = (sint b \<le> sint a)"
    and "cond_holds COND_LE (cmp_flags a b) = (sint a \<le> sint b)"
    and "cond_holds COND_G (cmp_flags a b) = (sint b < sint a)"
    and "cond_holds COND_BE (cmp_flags a b) = (a \<le> b)"
    and "cond_holds COND_A (cmp_flags a b) = (b < a)"
    and "cond_holds COND_AE (cmp_flags a b) = (b \<le> a)"
  using cmp_signed_less [of a b] 
  by (auto simp: le_less not_less simp: sint_inj)


text \<open>
  A floating-point comparison has one of four outcomes; \<open>UCOMISS\<close>/\<open>UCOMISD\<close>
  report it in ZF, PF and CF and clear OF and SF.
\<close>

datatype fcmp_outcome = Unordered | FGreater | FLess | FEqual

definition ucomi_flags :: "fcmp_outcome \<Rightarrow> eflags" where
  "ucomi_flags r =
     \<lparr>CF = (r = Unordered \<or> r = FLess), PF = (r = Unordered),
      ZF = (r = Unordered \<or> r = FEqual), SF = False, OF = False\<rparr>"

fun swap_outcome :: "fcmp_outcome \<Rightarrow> fcmp_outcome" where
  "swap_outcome FGreater = FLess"
| "swap_outcome FLess = FGreater"
| "swap_outcome r = r"

fun fcmp_sem :: "cmp_predicate \<Rightarrow> fcmp_outcome \<Rightarrow> bool" where
  "fcmp_sem FCMP_OEQ r = (r = FEqual)"
| "fcmp_sem FCMP_OGT r = (r = FGreater)"
| "fcmp_sem FCMP_OGE r = (r = FGreater \<or> r = FEqual)"
| "fcmp_sem FCMP_OLT r = (r = FLess)"
| "fcmp_sem FCMP_OLE r = (r = FLess \<or> r = FEqual)"
| "fcmp_sem FCMP_ONE r = (r = FLess \<or> r = FGreater)"
| "fcmp_sem FCMP_ORD r = (r \<noteq> Unordered)"
| "fcmp_sem FCMP_UNO r = (r = Unordered)"
| "fcmp_sem FCMP_UEQ r = (r = Unordered \<or> r = FEqual)"
| "fcmp_sem FCMP_UGT r = (r = Unordered \<or> r = FGreater)"
| "fcmp_sem FCMP_UGE r = (r \<noteq> FLess)"
| "fcmp_sem FCMP_ULT r = (r = Unordered \<or> r = FLess)"
| "fcmp_sem FCMP_ULE r = (r \<noteq> FGreater)"
| "fcmp_sem FCMP_UNE r = (r \<noteq> FEqual)"
| "fcmp_sem FCMP_TRUE r = True"
| "fcmp_sem _ r = False"

definition is_fcmp :: "cmp_predicate \<Rightarrow> bool" where
  "is_fcmp p = (p \<in> {FCMP_FALSE, FCMP_OEQ, FCMP_OGT, FCMP_OGE, FCMP_OLT, FCMP_OLE, FCMP_ONE,
                      FCMP_ORD, FCMP_UNO, FCMP_UEQ, FCMP_UGT, FCMP_UGE, FCMP_ULT, FCMP_ULE,
                      FCMP_UNE, FCMP_TRUE})"

section \<open>Tables as encodings of the standard conditions\<close>

definition std_cond :: "cond_code \<Rightarrow> bool" where
  "std_cond c = (cond_val c \<le> LAST_VALID_COND)"

lemma std_cond_iff: "std_cond c \<longleftrightarrow> c \<notin> {COND_NE_OR_P, COND_E_AND_NP, COND_INVALID}"
  by (cases c) (simp_all add: std_cond_def LAST_VALID_COND_def)

text \<open>
  A table that names an opcode for every standard condition together with the switch that
  reads the condition back.
\<close>

locale cond_encoding =
  fixes enc :: "cond_code \<Rightarrow> opcode res"
    and dec :: "opcode \<Rightarrow> cond_code"
  assumes dec_enc: "std_cond c \<Longrightarrow> \<exists>opc. enc c = Inr opc \<and> dec opc = c"
    and enc_fails: "\<not> std_cond c \<Longrightarrow> \<exists>e. enc c = Inl e"
begin

lemma enc_Inr: "enc c = Inr opc \<Longrightarrow> std_cond c \<and> dec opc = c"
  using dec_enc enc_fails by (metis Inl_Inr_False Inr_inject)

lemma enc_inj: "enc c = Inr opc \<Longrightarrow> enc d = Inr opc \<Longrightarrow> c = d"
  using enc_Inr by metis

lemma enc_total: "(\<exists>opc. enc c = Inr opc) \<longleftrightarrow> std_cond c"
  using dec_enc enc_Inr by blast

end

lemma cmov_sizes: "n = 2 \<or> n = 4 \<or> n = (8::nat) \<Longrightarrow> std_cond c \<Longrightarrow>
    \<exists>opc. getCMovFromCond c n m = Inr opc \<and> getCondFromCMovOpc opc = c"
  by (cases c; cases m) (auto simp: getCMovFromCond_def CMOV_Opc_def std_cond_iff)

interpretation br: cond_encoding GetCondBranchFromCond getCondFromBranchOpc
proof
  fix c
  show "std_cond c \<Longrightarrow> \<exists>opc. GetCondBranchFromCond c = Inr opc \<and> getCondFromBranchOpc opc = c"
    by (cases c) (simp_all add: std_cond_iff)
  show "\<not> std_cond c \<Longrightarrow> \<exists>e. GetCondBranchFromCond c = Inl e"
    by (cases c) (simp_all add: std_cond_iff)
qed

interpretation setr: cond_encoding "\<lambda>c. getSETFromCond c False" getCondFromSETOpc
proof
  fix c
  show "std_cond c \<Longrightarrow> \<exists>opc. getSETFromCond c False = Inr opc \<and> getCondFromSETOpc opc = c"
    by (cases c) (simp_all add: std_cond_iff getSETFromCond_def SET_Opc_def LAST_VALID_COND_def)
  show "\<not> std_cond c \<Longrightarrow> \<exists>e. getSETFromCond c False = Inl e"
    by (simp add: std_cond_def getSETFromCond_def)
qed

interpretation setm: cond_encoding "\<lambda>c. getSETFromCond c True" getCondFromSETOpc
proof
  fix c
  show "std_cond c \<Longrightarrow> \<exists>opc. getSETFromCond c True = Inr opc \<and> getCondFromSETOpc opc = c"
    by (cases c) (simp_all add: std_cond_iff getSETFromCond_def SET_Opc_def LAST_VALID_COND_def)
  show "\<not> std_cond c \<Longrightarrow> \<exists>e. getSETFromCond c True = Inl e"
    by (simp add: std_cond_def getSETFromCond_def)
qed

lemma cmov_fails: "\<not> std_cond c \<Longrightarrow> \<exists>e. getCMovFromCond c n m = Inl e"
  by (simp add: std_cond_def getCMovFromCond_def LAST_VALID_COND_def)

interpretation cmov: cond_encoding "\<lambda>c. getCMovFromCond c 8 False" getCondFromCMovOpc
  by unfold_locales (simp_all add: cmov_sizes cmov_fails)

lemma cmov64rr:
  "std_cond c \<Longrightarrow> \<exists>m. getCMovFromCond c 8 False = Inr (CMOV64rr m) \<and> mnem_cond m = c"
  by (cases c) (auto simp: getCMovFromCond_def CMOV_Opc_def std_cond_iff)

lemma branch_opc_std:
  "getCondFromBranchOpc opc \<noteq> COND_INVALID \<Longrightarrow> std_cond (getCondFromBranchOpc opc)"
  by (cases opc rule: getCondFromBranchOpc.cases) (simp_all add: std_cond_iff)

lemma branch_opc_jcc:
  "getCondFromBranchOpc opc \<noteq> COND_INVALID \<Longrightarrow> \<exists>m. opc = Jcc_1 m \<and> mnem_cond m = getCondFromBranchOpc opc"
  by (cases opc rule: getCondFromBranchOpc.cases) simp_all

section \<open>Rows and switches\<close>

definition all_opcodes :: "cond_code \<Rightarrow> mnem \<Rightarrow> bool" where
  "all_opcodes c m \<longleftrightarrow> mnem_cond m = c \<and> GetCondBranchFromCond c = Inr (Jcc_1 m) \<and>
        getSETFromCond c False = Inr (SETr m) \<and> getSETFromCond c True = Inr (SETm m) \<and>
        getCMovFromCond c 2 False = Inr (CMOV16rr m) \<and> getCMovFromCond c 2 True = Inr (CMOV16rm m) \<and>
        getCMovFromCond c 4 False = Inr (CMOV32rr m) \<and> getCMovFromCond c 4 True = Inr (CMOV32rm m) \<and>
        getCMovFromCond c 8 False = Inr (CMOV64rr m) \<and> getCMovFromCond c 8 True = Inr (CMOV64rm m)"

definition no_opcodes :: "cond_code \<Rightarrow> bool" where
  "no_opcodes c \<longleftrightarrow> (\<exists>e. GetCondBranchFromCond c = Inl e) \<and> (\<forall>mem. \<exists>e. getSETFromCond c mem = Inl e) \<and>
      (\<forall>n mem. \<exists>e. getCMovFromCond c n mem = Inl e)"

lemma mnem_cond_std: "std_cond (mnem_cond m)" "mnem_cond m \<noteq> COND_INVALID"
  by (cases m; simp add: std_cond_iff)+

lemma mnem_rows: "all_opcodes (mnem_cond m) m"
  unfolding all_opcodes_def
  by (cases m) (simp_all add: getSETFromCond_def SET_Opc_def LAST_VALID_COND_def getCMovFromCond_def CMOV_Opc_def)

lemma std_mnem: "std_cond c \<Longrightarrow> \<exists>m. c = mnem_cond m"
  using cmov64rr by metis

lemma table_rows: "std_cond c \<Longrightarrow> \<exists>m. all_opcodes c m"
  using std_mnem mnem_rows by blast

lemma cmov_other_size: "n \<notin> {2, 4, 8} \<Longrightarrow> \<exists>e. getCMovFromCond c n mem = Inl e"
  by (simp add: getCMovFromCond_def Let_def split: prod.split)

lemma switch_branch:
  "c \<noteq> COND_INVALID \<Longrightarrow> (getCondFromBranchOpc opc = c) = (GetCondBranchFromCond c = Inr opc)"
  using branch_opc_jcc [of opc] mnem_rows [unfolded all_opcodes_def] br.enc_Inr [of c opc] by metis

text \<open>An opcode with a condition is one of the tables'.\<close>

lemma switch_SET:
  assumes "c \<noteq> COND_INVALID"
  shows "(getCondFromSETOpc opc = c) = (\<exists>mem. getSETFromCond c mem = Inr opc)"
proof
  assume "getCondFromSETOpc opc = c"
  with assms obtain m where "c = mnem_cond m" "opc = SETr m \<or> opc = SETm m" by (cases opc) auto
  with mnem_rows [of m] show "\<exists>mem. getSETFromCond c mem = Inr opc" unfolding all_opcodes_def by blast
next
  assume "\<exists>mem. getSETFromCond c mem = Inr opc"
  then show "getCondFromSETOpc opc = c" using setr.enc_Inr setm.enc_Inr by (metis (full_types))
qed

lemma switch_CMov:
  assumes "c \<noteq> COND_INVALID"
  shows "(getCondFromCMovOpc opc = c) = (\<exists>n mem. getCMovFromCond c n mem = Inr opc)"
proof
  assume "getCondFromCMovOpc opc = c"
  with assms obtain m where "c = mnem_cond m" "opc \<in> {CMOV16rr m, CMOV16rm m, CMOV32rr m, CMOV32rm m, CMOV64rr m, CMOV64rm m}"
    by (cases opc) auto
  with mnem_rows [of m] show "\<exists>n mem. getCMovFromCond c n mem = Inr opc" unfolding all_opcodes_def by blast
next
  assume "\<exists>n mem. getCMovFromCond c n mem = Inr opc"
  then obtain n mem where r: "getCMovFromCond c n mem = Inr opc" by blast
  with cmov_other_size [of n c mem] have "n = 2 \<or> n = 4 \<or> n = 8" by auto
  moreover from r cmov_fails have "std_cond c" by (metis Inl_Inr_False)
  ultimately obtain opc' where "getCMovFromCond c n mem = Inr opc' \<and> getCondFromCMovOpc opc' = c"
    using cmov_sizes by blast
  with r show "getCondFromCMovOpc opc = c" by simp
qed

section \<open>Properties\<close>

text \<open>
  C22. The condition code chosen for an integer comparison predicate tests, after
  \<open>cmp\<close> of the operands at any width, exactly that predicate, and asks for no swap.
\<close>
theorem getX86ConditionCode_icmp:
  "is_icmp p \<Longrightarrow>
     cond_holds (fst (getX86ConditionCode p)) (cmp_flags a b) = icmp_sem p a b
     \<and> \<not> snd (getX86ConditionCode p)"
  by (cases p) (auto simp add: is_icmp_def simp del: cond_holds.simps(1,2,4,6,7,8,9))

lemma getX86ConditionCode_icmp_witness:
  "is_icmp ICMP_SLT \<and>
   cond_holds (fst (getX86ConditionCode ICMP_SLT)) (cmp_flags (0x80 :: 8 word) 0x7F) = True"
proof -
  have p: "is_icmp ICMP_SLT" by (simp add: is_icmp_def)
  show ?thesis
    using getX86ConditionCode_icmp [OF p, of "0x80 :: 8 word" "0x7F"] p by simp
qed

text \<open>
  C23. For a floating-point predicate the code and the swap bit are right after
  \<open>UCOMISS\<close> of the (possibly swapped) operands, for each of the four outcomes; the
  predicates one flag test cannot express are refused.
\<close>
theorem getX86ConditionCode_fcmp:
  assumes "is_fcmp p" and "fst (getX86ConditionCode p) \<noteq> COND_INVALID"
  shows "cond_holds (fst (getX86ConditionCode p))
           (ucomi_flags (if snd (getX86ConditionCode p) then swap_outcome r else r)) = fcmp_sem p r"
  using assms
  by (cases p; cases r) (simp_all add: is_fcmp_def ucomi_flags_def)

lemma getX86ConditionCode_fcmp_witness:
  "is_fcmp FCMP_OLT \<and> fst (getX86ConditionCode FCMP_OLT) = COND_A \<and>
   cond_holds COND_A (ucomi_flags (swap_outcome FLess)) = fcmp_sem FCMP_OLT FLess"
proof -
  have p: "is_fcmp FCMP_OLT" "fst (getX86ConditionCode FCMP_OLT) \<noteq> COND_INVALID"
    by (simp_all add: is_fcmp_def)
  show ?thesis using getX86ConditionCode_fcmp [OF p, of FLess] p by simp
qed

text \<open>
  The opposite condition holds in exactly the flag states in which the condition does
  not, the two-branch conditions included, and taking the opposite twice gives it back.
\<close>
theorem GetOpposite_negates:
  "GetOppositeBranchCondition c = Inr c' \<Longrightarrow>
     cond_holds c' f = (\<not> cond_holds c f) \<and> GetOppositeBranchCondition c' = Inr c"
  by (cases c) auto

lemma GetOpposite_negates_witness:
  "cond_holds COND_E_AND_NP (cmp_flags (3 :: 8 word) 3)
     = (\<not> cond_holds COND_NE_OR_P (cmp_flags (3 :: 8 word) 3))"
proof -
  have p: "GetOppositeBranchCondition COND_NE_OR_P = Inr COND_E_AND_NP" by simp
  show ?thesis using GetOpposite_negates [OF p] by blast
qed

text \<open>
  Inverting a condition changes exactly the lowest bit of the opcode byte of the
  short jump that tests it.
\<close>
lemma GetOpposite_opcode_byte:
  assumes "std_cond c" "GetOppositeBranchCondition c = Inr c'"
    "GetCondBranchFromCond c = Inr (Jcc_1 m)" "GetCondBranchFromCond c' = Inr (Jcc_1 m')"
  shows "ICBr_opc1 m' = xor (ICBr_opc1 m) 1"
  using assms by (cases c) (auto simp: std_cond_iff)

lemma GetOpposite_opcode_byte_witness:
  "GetOppositeBranchCondition COND_G = Inr COND_LE \<and> ICBr_opc1 mLE = xor (ICBr_opc1 mG) 1"
proof -
  have p: "std_cond COND_G" "GetOppositeBranchCondition COND_G = Inr COND_LE"
    "GetCondBranchFromCond COND_G = Inr (Jcc_1 mG)"
    "GetCondBranchFromCond COND_LE = Inr (Jcc_1 mLE)"
    by (simp_all add: std_cond_iff)
  show ?thesis using GetOpposite_opcode_byte [OF p] p(2) by blast
qed

text \<open>
  The swapped condition tests the comparison with its operands exchanged, signed and
  unsigned, at any width.
\<close>
theorem getSwappedCondition_cmp:
  assumes "getSwappedCondition c \<noteq> COND_INVALID"
  shows "cond_holds (getSwappedCondition c) (cmp_flags b a) = cond_holds c (cmp_flags a b)"
  using assms by (cases c) (auto simp del: cond_holds.simps(1,2,4,6,7,8,9))

lemma getSwappedCondition_cmp_witness:
  "cond_holds COND_G (cmp_flags (5 :: 16 word) 9) = cond_holds COND_L (cmp_flags (9 :: 16 word) 5)"
proof -
  have p: "getSwappedCondition COND_L \<noteq> COND_INVALID" by simp
  show ?thesis using getSwappedCondition_cmp [OF p, of "5 :: 16 word" 9] by simp
qed

text \<open>
  C35. For each standard condition one mnemonic names its branch, its register and memory SET and its
  register and memory CMOV of 2, 4 and 8 bytes; for other conditions and other sizes there is none. The
  switches over opcodes are the inverses: they read a condition from exactly the opcodes that the
  tables have for it.
\<close>
theorem cond_tables_roundtrip:
  "(if std_cond c then
      \<exists>m. mnem_cond m = c \<and> GetCondBranchFromCond c = Inr (Jcc_1 m) \<and>
        getSETFromCond c False = Inr (SETr m) \<and> getSETFromCond c True = Inr (SETm m) \<and>
        getCMovFromCond c 2 False = Inr (CMOV16rr m) \<and> getCMovFromCond c 2 True = Inr (CMOV16rm m) \<and>
        getCMovFromCond c 4 False = Inr (CMOV32rr m) \<and> getCMovFromCond c 4 True = Inr (CMOV32rm m) \<and>
        getCMovFromCond c 8 False = Inr (CMOV64rr m) \<and> getCMovFromCond c 8 True = Inr (CMOV64rm m)
    else (\<exists>e. GetCondBranchFromCond c = Inl e) \<and> (\<forall>mem. \<exists>e. getSETFromCond c mem = Inl e) \<and>
      (\<forall>n mem. \<exists>e. getCMovFromCond c n mem = Inl e)) \<and>
   (\<forall>n mem. n \<notin> {2, 4, 8} \<longrightarrow> (\<exists>e. getCMovFromCond c n mem = Inl e)) \<and>
   (c = COND_INVALID \<or>
     (\<forall>opc. (getCondFromBranchOpc opc = c) = (GetCondBranchFromCond c = Inr opc) \<and>
            (getCondFromSETOpc opc = c) = (\<exists>mem. getSETFromCond c mem = Inr opc) \<and>
            (getCondFromCMovOpc opc = c) = (\<exists>n mem. getCMovFromCond c n mem = Inr opc)))"
proof -
  have t: "if std_cond c then \<exists>m. all_opcodes c m else no_opcodes c"
    using table_rows [of c] br.enc_fails setr.enc_fails setm.enc_fails cmov_fails
    unfolding no_opcodes_def all_bool_eq by simp
  moreover have "c = COND_INVALID \<or>
     (\<forall>opc. (getCondFromBranchOpc opc = c) = (GetCondBranchFromCond c = Inr opc) \<and>
            (getCondFromSETOpc opc = c) = (\<exists>mem. getSETFromCond c mem = Inr opc) \<and>
            (getCondFromCMovOpc opc = c) = (\<exists>n mem. getCMovFromCond c n mem = Inr opc))"
    using switch_branch [of c] switch_SET [of c] switch_CMov [of c] by blast
  ultimately show ?thesis
    using cmov_other_size [of _ c] unfolding all_opcodes_def no_opcodes_def by blast
qed

lemma cond_tables_roundtrip_witness:
  "getCMovFromCond COND_L 4 True = Inr (CMOV32rm mL) \<and> getCondFromCMovOpc (CMOV32rm mL) = COND_L"
proof -
  have p: "getCMovFromCond COND_L 4 True = Inr (CMOV32rm mL)" "COND_L \<noteq> COND_INVALID"
    by (simp_all add: getCMovFromCond_def CMOV_Opc_def)
  have "(getCondFromCMovOpc (CMOV32rm mL) = COND_L) = (\<exists>n mem. getCMovFromCond COND_L n mem = Inr (CMOV32rm mL))"
    using cond_tables_roundtrip [of COND_L] p(2) by blast
  with p(1) show ?thesis by blast
qed

end
