(* ===== verification/Words.thy ===== *)
theory Words
  imports Prelude
begin

text \<open>
  Machine words read as natural numbers: when sums, products and conversions between 32 and 64 bits
  do not wrap around, and how a 64-bit word splits into two 32-bit digits.
\<close>


lemma unat_plus_small: "unat x + unat y < 2 ^ LENGTH('a) \<Longrightarrow> unat (x + y) = unat x + unat y"
  for x y :: "'a::len word"
  by (simp add: unat_word_ariths)

lemma unat_mult_small: "unat x * unat y < 2 ^ LENGTH('a) \<Longrightarrow> unat (x * y) = unat x * unat y"
  for x y :: "'a::len word"
  by (simp add: unat_word_ariths)

lemma unat_ucast_mod: "unat (ucast x :: 'b::len word) = unat (x :: 'a::len word) mod 2 ^ LENGTH('b)"
  by (simp add: unsigned_ucast_eq take_bit_eq_mod)

lemma unat_lt_32: "unat (x :: 32 word) < 4294967296"
  using unsigned_less [of x] by simp

lemma unat_lt_64: "unat (x :: 64 word) < 18446744073709551616"
  using unsigned_less [of x] by simp

lemma unat_minus_1_64 [simp]: "unat (- 1 :: 64 word) = 18446744073709551615"
  by (simp add: unsigned_minus_1_eq_mask mask_eq_exp_minus_1)

lemma unat_ucast_32_64 [simp]: "unat (ucast (x :: 32 word) :: 64 word) = unat x"
  using unat_lt_32 [of x] by (simp add: unat_ucast_mod)

lemma unat_ucast_64_32: "unat (ucast (x :: 64 word) :: 32 word) = unat x mod 4294967296"
  by (simp add: unat_ucast_mod)

lemma unat_drop_32: "unat (drop_bit 32 (x :: 64 word)) = unat x div 4294967296"
  by (simp add: drop_bit_eq_div unat_div)

lemma unat_and_low_32: "unat (and x (0xFFFFFFFF :: 64 word)) = unat x mod 4294967296"
proof -
  have "(0xFFFFFFFF :: 64 word) = mask 32" by (simp add: mask_eq_exp_minus_1)
  then have "and x 0xFFFFFFFF = take_bit 32 x" by (simp only: take_bit_eq_mask)
  then have "and x 0xFFFFFFFF = x mod 4294967296" by (simp add: take_bit_eq_mod)
  then show ?thesis by (simp add: unat_mod)
qed

lemma unat_or_push_32:
  assumes "unat (a :: 64 word) < 4294967296" and "unat b < 4294967296"
  shows "unat (or (push_bit 32 a) b) = unat a * 4294967296 + unat b"
proof -
  have b: "b = take_bit 32 b"
    using assms(2) by (intro word_unat_eq_iff [THEN iffD2]) (simp add: unsigned_take_bit_eq take_bit_nat_eq_self)
  have "push_bit 32 a + b = or (push_bit 32 a) b"
    by (subst (1 2) b, rule disjunctive_add) (auto simp: bit_simps)
  moreover have "unat (push_bit 32 a) = unat a * 4294967296"
    using assms(1) by (simp add: push_bit_eq_mult unat_mult_small unat_word_ariths)
  moreover have "unat (push_bit 32 a + b) = unat (push_bit 32 a) + unat b"
    using assms calculation(2) by (intro unat_plus_small) simp
  ultimately show ?thesis by simp
qed


lemma unat_push_32: "unat (a :: 64 word) < 4294967296 \<Longrightarrow> unat (push_bit 32 a) = unat a * 4294967296"
  using unat_or_push_32 [of a 0] by simp

lemma two_digits_64:
  "a < 4294967296 \<Longrightarrow> b < 4294967296 \<Longrightarrow> a * 4294967296 + b < 2 ^ LENGTH(64)" for a b :: nat
  by simp

lemma not_over_32: "unat (a :: 64 word) < 4294967296 \<Longrightarrow> \<not> a > 0xFFFFFFFF"
  by (simp add: word_less_nat_alt)

lemma no_wrap: "unat (x + y :: 'a::len word) = k + unat y \<Longrightarrow> \<not> x + y < y"
  by (simp add: word_less_nat_alt)

lemma min_64: "unat (w :: 64 word) = t \<Longrightarrow> unat w = min (2 ^ 64 - 1) t"
  using unat_lt_64 [of w] by simp

lemma min_64_over: "4294967296 * 4294967296 \<le> t \<Longrightarrow> unat (- 1 :: 64 word) = min (2 ^ 64 - 1) t"
  by simp


lemma word_of_natI: "unat w = n \<Longrightarrow> w = word_of_nat n"
  by auto

lemma unat_sum_32 [simp]: "unat (ucast (x :: 32 word) + ucast (y :: 32 word) :: 64 word) = unat x + unat y"
  using unat_lt_32 [of x] unat_lt_32 [of y] by (intro trans [OF unat_plus_small]) simp_all

lemma unat_prod_32 [simp]: "unat (ucast (x :: 32 word) * ucast (y :: 32 word) :: 64 word) = unat x * unat y"
proof -
  have "unat x * unat y < 4294967296 * 4294967296"
    using unat_lt_32 [of x] unat_lt_32 [of y] by (intro mult_strict_mono') simp_all
  then show ?thesis by (intro trans [OF unat_mult_small]) simp_all
qed

lemma unat_of_nat_32: "n < 2 ^ 32 \<Longrightarrow> unat (word_of_nat n :: 32 word) = n"
  by (simp add: unat_of_nat take_bit_nat_eq_self)

end
