(* ===== verification/BranchProbability.thy ===== *)
theory BranchProbability
  imports Words
begin

text \<open>
  Branch probabilities and block frequencies
  (\<open>llvm/include/llvm/Support/BranchProbability.h\<close>,
  \<open>llvm/lib/Support/BranchProbability.cpp\<close> and \<open>BlockFrequency.cpp\<close>): fixed-point
  fractions over \<open>2 ^ 31\<close> in 32-bit words, and 64-bit counts that saturate. The printers
  are left out.
\<close>

section \<open>Representation\<close>

text \<open>A \<open>BranchProbability\<close> is its numerator \<open>N\<close> over \<open>D\<close>; all ones is unknown.\<close>

type_synonym prob = "32 word"

definition ProbD :: "32 word" where
  "ProbD = push_bit 31 1"

definition UnknownN :: prob where
  "UnknownN = - 1"

definition isZero :: "prob \<Rightarrow> bool" where
  "isZero N = (N = 0)"

definition isUnknown :: "prob \<Rightarrow> bool" where
  "isUnknown N = (N = UnknownN)"

definition getZero :: prob where
  "getZero = 0"

definition getOne :: prob where
  "getOne = ProbD"

definition getRaw :: "32 word \<Rightarrow> prob" where
  "getRaw N = N"

definition getCompl :: "prob \<Rightarrow> prob" where
  "getCompl N = ProbD - N"

text \<open>The constructor \<open>BranchProbability(Numerator, Denominator)\<close>.\<close>

definition mk_prob :: "32 word \<Rightarrow> 32 word \<Rightarrow> prob res" where
  "mk_prob Numerator Denominator =
     bind_res (assert_res ''Denominator cannot be 0!'' (0 < Denominator)) (\<lambda>_.
     bind_res (assert_res ''Probability cannot be bigger than 1!'' (Numerator \<le> Denominator)) (\<lambda>_.
       Inr (if Denominator = ProbD then Numerator
            else
              let Prob64 = (ucast Numerator * ucast ProbD + ucast (Denominator div 2)) div ucast Denominator
                           :: 64 word
              in ucast Prob64)))"

text \<open>The loop of \<open>getBranchProbability\<close> shifts the denominator until it fits 32 bits.\<close>

function scale_down :: "64 word \<Rightarrow> nat \<Rightarrow> 64 word \<times> nat" where
  "scale_down Denominator Scale =
     (if Denominator > 0xFFFFFFFF then scale_down (drop_bit 1 Denominator) (Suc Scale)
      else (Denominator, Scale))"
  by auto

termination
proof (relation "measure (\<lambda>(d, k). unat d)")
  fix d :: "64 word" and k :: nat
  assume "0xFFFFFFFF < d"
  then have "0 < unat d" by (simp add: word_less_nat_alt)
  then show "((drop_bit 1 d, Suc k), d, k) \<in> measure (\<lambda>(d, k). unat d)"
    using unat_div [of d 2] by (simp add: drop_bit_Suc)
qed simp

declare scale_down.simps [simp del]

definition getBranchProbability :: "64 word \<Rightarrow> 64 word \<Rightarrow> prob res" where
  "getBranchProbability Numerator Denominator =
     bind_res (assert_res ''Probability cannot be bigger than 1!'' (Numerator \<le> Denominator)) (\<lambda>_.
       case scale_down Denominator 0 of (d, Scale) \<Rightarrow> mk_prob (ucast (drop_bit Scale Numerator)) (ucast d))"

section \<open>Arithmetic and comparisons\<close>

definition known :: "string \<Rightarrow> prob \<Rightarrow> prob \<Rightarrow> unit res" where
  "known what N R =
     assert_res (''Unknown probability cannot participate in '' @ what) (N \<noteq> UnknownN \<and> R \<noteq> UnknownN)"

definition prob_add :: "prob \<Rightarrow> prob \<Rightarrow> prob res" where
  "prob_add N R = bind_res (known ''arithmetics.'' N R) (\<lambda>_.
     Inr (if (ucast N + ucast R :: 64 word) > ucast ProbD then ProbD else N + R))"

definition prob_sub :: "prob \<Rightarrow> prob \<Rightarrow> prob res" where
  "prob_sub N R = bind_res (known ''arithmetics.'' N R) (\<lambda>_. Inr (if N < R then 0 else N - R))"

definition prob_mul :: "prob \<Rightarrow> prob \<Rightarrow> prob res" where
  "prob_mul N R = bind_res (known ''arithmetics.'' N R) (\<lambda>_.
     Inr (ucast ((ucast N * ucast R + ucast (ProbD div 2)) div ucast ProbD :: 64 word)))"

definition prob_mul_int :: "prob \<Rightarrow> 32 word \<Rightarrow> prob res" where
  "prob_mul_int N R = bind_res (known ''arithmetics.'' N 0) (\<lambda>_.
     Inr (if (ucast N * ucast R :: 64 word) > ucast ProbD then ProbD else N * R))"

definition prob_div_int :: "prob \<Rightarrow> 32 word \<Rightarrow> prob res" where
  "prob_div_int N R = bind_res (known ''arithmetics.'' N 0) (\<lambda>_.
     bind_res (assert_res ''The divider cannot be zero.'' (R > 0)) (\<lambda>_. Inr (N div R)))"

definition prob_less :: "prob \<Rightarrow> prob \<Rightarrow> bool res" where
  "prob_less N R = bind_res (known ''comparisons.'' N R) (\<lambda>_. Inr (N < R))"

definition prob_greater :: "prob \<Rightarrow> prob \<Rightarrow> bool res" where
  "prob_greater N R = bind_res (known ''comparisons.'' N R) (\<lambda>_. prob_less R N)"

definition prob_le :: "prob \<Rightarrow> prob \<Rightarrow> bool res" where
  "prob_le N R = bind_res (known ''comparisons.'' N R) (\<lambda>_. map_sum id Not (prob_less R N))"

definition prob_ge :: "prob \<Rightarrow> prob \<Rightarrow> bool res" where
  "prob_ge N R = bind_res (known ''comparisons.'' N R) (\<lambda>_. map_sum id Not (prob_less N R))"

section \<open>Scaling a 64-bit number\<close>

text \<open>
  The template \<open>scale<ConstD>\<close>: a 64 by 32 bit product in 32-bit digits, divided by
  \<open>D\<close> digit by digit. \<open>ConstD\<close> is the template argument.
\<close>

definition bp_scale :: "32 word \<Rightarrow> 64 word \<Rightarrow> 32 word \<Rightarrow> 32 word \<Rightarrow> 64 word res" where
  "bp_scale ConstD Num N D0 =
     (let D = (if ConstD > 0 then ConstD else D0) in
      bind_res (assert_res ''divide by 0'' (D \<noteq> 0)) (\<lambda>_.
      if Num = 0 \<or> D = N then Inr Num
      else
        let ProductHigh = drop_bit 32 Num * ucast N;
            ProductLow = (and Num 0xFFFFFFFF) * ucast N;
            Upper32 = (ucast (drop_bit 32 ProductHigh) :: 32 word);
            Lower32 = (ucast (and ProductLow 0xFFFFFFFF) :: 32 word);
            Mid32Partial = (ucast (and ProductHigh 0xFFFFFFFF) :: 32 word);
            Mid32 = ucast (ucast Mid32Partial + drop_bit 32 ProductLow);
            Upper32' = (if Mid32 < Mid32Partial then Upper32 + 1 else Upper32)
        in if Upper32' \<ge> D then Inr (- 1)
           else
             let Rem = or (push_bit 32 (ucast Upper32')) (ucast Mid32);
                 UpperQ = Rem div ucast D
             in if UpperQ > 0xFFFFFFFF then Inr (- 1)
                else
                  let Rem' = or (push_bit 32 (Rem mod ucast D)) (ucast Lower32);
                      LowerQ = Rem' div ucast D;
                      Q = push_bit 32 UpperQ + LowerQ
                  in Inr (if Q < LowerQ then - 1 else Q)))"

definition prob_scale :: "prob \<Rightarrow> 64 word \<Rightarrow> 64 word res" where
  "prob_scale N Num = bp_scale ProbD Num N ProbD"

definition scaleByInverse :: "prob \<Rightarrow> 64 word \<Rightarrow> 64 word res" where
  "scaleByInverse N Num = bp_scale 0 Num ProbD N"

section \<open>Normalisation\<close>

text \<open>The accumulation counts the unknown probabilities and sums the others.\<close>

fun sum_known :: "prob list \<Rightarrow> 64 word \<Rightarrow> 32 word \<Rightarrow> 64 word \<times> 32 word" where
  "sum_known [] S UnknownProbCount = (S, UnknownProbCount)"
| "sum_known (BP # rest) S UnknownProbCount =
     (if \<not> isUnknown BP then sum_known rest (S + ucast BP) UnknownProbCount
      else sum_known rest S (UnknownProbCount + 1))"

definition rescale :: "64 word \<Rightarrow> prob \<Rightarrow> prob" where
  "rescale SumN N = ucast ((ucast N * ucast ProbD + SumN div 2) div SumN)"

definition normalizeProbabilities :: "prob list \<Rightarrow> prob list res" where
  "normalizeProbabilities Ps =
     (if Ps = [] then Inr []
      else case sum_known Ps 0 0 of (SumN, UnknownProbCount) \<Rightarrow>
        let ProbForUnknown =
              (if SumN < ucast ProbD then getRaw (ucast ((ucast ProbD - SumN) div ucast UnknownProbCount)) else getZero);
            Ps1 = (if UnknownProbCount > 0
                   then map (\<lambda>BP. if isUnknown BP then ProbForUnknown else BP) Ps else Ps)
        in if UnknownProbCount > 0 \<and> SumN \<le> ucast ProbD then Inr Ps1
           else if SumN = 0 then
             bind_res (mk_prob 1 (of_nat (length Ps1))) (\<lambda>BP. Inr (map (\<lambda>_. BP) Ps1))
           else Inr (map (rescale SumN) Ps1))"

section \<open>Block frequencies\<close>

type_synonym freq = "64 word"

definition freq_mul :: "freq \<Rightarrow> prob \<Rightarrow> freq res" where
  "freq_mul Frequency Prob = prob_scale Prob Frequency"

definition freq_div :: "freq \<Rightarrow> prob \<Rightarrow> freq res" where
  "freq_div Frequency Prob = scaleByInverse Prob Frequency"

definition freq_add :: "freq \<Rightarrow> freq \<Rightarrow> freq" where
  "freq_add Frequency Freq =
     (let Before = Freq; SumN = Frequency + Freq in if SumN < Before then - 1 else SumN)"

definition freq_sub :: "freq \<Rightarrow> freq \<Rightarrow> freq" where
  "freq_sub Frequency Freq = (if Frequency \<le> Freq then 0 else Frequency - Freq)"

definition freq_shr :: "freq \<Rightarrow> nat \<Rightarrow> freq res" where
  "freq_shr Frequency count =
     bind_res (assert_res ''Frequency != 0'' (Frequency \<noteq> 0)) (\<lambda>_.
       let f = drop_bit count Frequency in Inr (if f = 0 then 1 else f))"

section \<open>Scaling is exact\<close>

lemma unat_ProbD [simp]: "unat ProbD = 2147483648" "unat (ucast ProbD :: 64 word) = 2147483648"
  by (simp_all add: ProbD_def push_bit_eq_mult)

text \<open>The long division of \<open>scale\<close>, on digits to the base \<open>B\<close>.\<close>

lemma product_digits:
  fixes B h l n :: nat
  assumes "0 < B" and "l < B" and "n < B"
  defines "mp \<equiv> h * n mod B" and "x \<equiv> l * n div B"
  defines "m \<equiv> (mp + x) mod B"
  shows "(h * B + l) * n = ((h * n div B + (if m < mp then 1 else 0)) * B + m) * B + l * n mod B"
proof -
  have x: "x < B"
  proof -
    have "l * n < B * B" using assms by (intro mult_strict_mono) auto
    then show ?thesis unfolding x_def by (simp add: less_mult_imp_div_less)
  qed
  have mp: "mp < B" using assms by simp
  have c: "mp + x = (if m < mp then 1 else 0) * B + m"
  proof (cases "mp + x < B")
    case True
    then show ?thesis by (simp add: m_def)
  next
    case False
    with x mp have "m = mp + x - B" by (simp add: m_def mod_if)
    with x mp False show ?thesis by simp
  qed
  have "h * n = h * n div B * B + mp" "l * n = x * B + l * n mod B"
    unfolding mp_def x_def by simp_all
  then have "(h * B + l) * n = (h * n div B * B + mp) * B + (x * B + l * n mod B)"
    by (simp add: add_mult_distrib mult.assoc mult.left_commute)
  also have "\<dots> = (h * n div B * B + (mp + x)) * B + l * n mod B" by (simp add: add_mult_distrib)
  also have "\<dots> = ((h * n div B + (if m < mp then 1 else 0)) * B + m) * B + l * n mod B"
    unfolding c by (simp add: add_mult_distrib)
  finally show ?thesis .
qed

lemma product_upper:
  fixes B h l n u m d :: nat
  assumes "(h * B + l) * n = (u * B + m) * B + d" and "h < B" "l < B" "n < B"
  shows "u < B"
proof -
  have "u * (B * B) \<le> (h * B + l) * n" unfolding assms(1) by (simp add: add_mult_distrib mult.assoc)
  also have "\<dots> < (B * B) * B"
  proof (rule mult_strict_mono')
    have "h * B + l < (h + 1) * B" using assms(3) by simp
    also have "\<dots> \<le> B * B" using assms(2) by (intro mult_right_mono) simp_all
    finally show "h * B + l < B * B" .
  qed (use assms(4) in simp_all)
  finally show ?thesis by (simp add: mult.commute)
qed

lemma long_division:
  fixes B d r l :: nat
  assumes "0 < d"
  shows "(r * B + l) div d = r div d * B + (r mod d * B + l) div d"
proof -
  have "r * B + l = d * (r div d * B) + (r mod d * B + l)"
    by (metis add.assoc add_mult_distrib mult.assoc mult_div_mod_eq)
  with assms show ?thesis by (simp only: div_mult_self4 add.commute [of _ "d * _"])
qed

lemma long_division_digit:
  fixes B d r l :: nat
  assumes "r < d" and "l < B"
  shows "(r * B + l) div d < B"
proof -
  have "r * B + l < (r + 1) * B" using assms by simp
  also have "\<dots> \<le> d * B" using assms by (intro mult_right_mono) auto
  finally show ?thesis using assms(1) by (simp add: less_mult_imp_div_less mult.commute)
qed

lemma long_division_overflow:
  fixes B d u m l :: nat
  assumes "0 < d" and "d \<le> u"
  shows "B * B \<le> ((u * B + m) * B + l) div d"
proof -
  have "B * B * d \<le> u * B * B" using assms(2) by (simp add: mult.assoc mult.commute [of _ d])
  also have "\<dots> \<le> (u * B + m) * B + l" by (simp add: add_mult_distrib)
  finally show ?thesis using assms(1) by (simp only: less_eq_div_iff_mult_less_eq)
qed

lemma bp_scale_floor:
  assumes "0 < (if ConstD > 0 then ConstD else D0)"
  shows "\<exists>R. bp_scale ConstD Num N D0 = Inr R \<and>
    unat R = min (2 ^ 64 - 1) (unat Num * unat N div unat (if ConstD > 0 then ConstD else D0))"
proof -
  let ?B = "4294967296 :: nat"
  define D where "D = (if ConstD > 0 then ConstD else D0)"
  have D: "D \<noteq> 0" "0 < unat D" using assms unfolding D_def [symmetric] by (auto simp: word_less_nat_alt)
  show ?thesis
  proof (cases "Num = 0 \<or> D = N")
    case True
    have "unat Num * unat N div unat D = unat Num" using True D by (auto simp: unat_eq_0)
    with True D unat_lt_64 [of Num] show ?thesis by (simp add: bp_scale_def Let_def flip: D_def)
  next
    case False
    let ?h = "unat Num div ?B" and ?l = "unat Num mod ?B" and ?n = "unat N" and ?d = "unat D"
    let ?mp = "?h * ?n mod ?B" and ?L = "?l * ?n mod ?B"
    let ?m = "(?mp + ?l * ?n div ?B) mod ?B"
    let ?u = "?h * ?n div ?B + (if ?m < ?mp then 1 else 0)"
    let ?r = "?u * ?B + ?m"
    have hl: "?h < ?B" "?l < ?B" "?n < ?B" "?d < ?B" "?m < ?B" "?L < ?B"
      using unat_lt_64 [of Num] unat_lt_32 by (simp_all add: less_mult_imp_div_less)
    have prod: "(?h * ?B + ?l) * ?n = ?r * ?B + ?L" by (rule product_digits [OF _ hl(2,3)]) simp
    have u: "?u < ?B" by (rule product_upper [OF prod hl(1-3)])
    have prod: "unat Num * ?n = ?r * ?B + ?L" using prod unfolding div_mult_mod_eq .
    define PH where "PH = drop_bit 32 Num * ucast N"
    define PL where "PL = and Num 0xFFFFFFFF * ucast N"
    define MP :: "32 word" where "MP = ucast (and PH 0xFFFFFFFF)"
    define M :: "32 word" where "M = ucast (ucast MP + drop_bit 32 PL :: 64 word)"
    define U :: "32 word" where "U = (if M < MP then ucast (drop_bit 32 PH) + 1 else ucast (drop_bit 32 PH))"
    define L :: "32 word" where "L = ucast (and PL 0xFFFFFFFF)"
    have PH: "unat PH = ?h * ?n"
      unfolding PH_def using mult_strict_mono' [OF hl(1,3)] by (simp add: unat_mult_small unat_drop_32)
    have PL: "unat PL = ?l * ?n"
      unfolding PL_def using mult_strict_mono' [OF hl(2,3)] by (simp add: unat_mult_small unat_and_low_32)
    have MP: "unat MP = ?mp" by (simp add: MP_def unat_ucast_64_32 unat_and_low_32 PH)
    have L: "unat L = ?L" by (simp add: L_def unat_ucast_64_32 unat_and_low_32 PL)
    have M: "unat M = ?m"
    proof -
      have "?mp + ?l * ?n div ?B < 2 ^ 64" using unat_lt_64 [of PL] by (simp add: PL)
      then show ?thesis
        by (simp add: M_def unat_ucast_64_32 unat_plus_small unat_drop_32 PL MP)
    qed
    have U0: "unat (ucast (drop_bit 32 PH) :: 32 word) = ?h * ?n div ?B"
      using u by (simp add: unat_ucast_64_32 unat_drop_32 PH)
    have U: "unat U = ?u"
    proof (cases "?m < ?mp")
      case True
      with u have "unat (ucast (drop_bit 32 PH) :: 32 word) + 1 < ?B" by (simp add: U0)
      then have "unat (ucast (drop_bit 32 PH) + 1 :: 32 word) = ?h * ?n div ?B + 1"
        using unat_plus_small [of "ucast (drop_bit 32 PH) :: 32 word" 1] U0 by simp
      with True show ?thesis by (simp add: U_def word_less_nat_alt M MP)
    next
      case False
      then show ?thesis by (simp add: U_def word_less_nat_alt M MP U0)
    qed
    have scale: "bp_scale ConstD Num N D0 =
      (if U \<ge> D then Inr (- 1)
       else let Rem = or (push_bit 32 (ucast U)) (ucast M); UpperQ = Rem div ucast D
            in if UpperQ > 0xFFFFFFFF then Inr (- 1)
               else let Rem' = or (push_bit 32 (Rem mod ucast D)) (ucast L);
                        LowerQ = Rem' div ucast D; Q = push_bit 32 UpperQ + LowerQ
                    in Inr (if Q < LowerQ then - 1 else Q))"
      using False D(1)
      unfolding bp_scale_def Let_def U_def M_def MP_def L_def PH_def PL_def D_def [symmetric] by simp
    show ?thesis
    proof (cases "D \<le> U")
      case True
      then have "?d \<le> ?u" by (simp add: word_le_nat_alt U)
      from long_division_overflow [OF D(2) this, of ?B ?m ?L] have "?B * ?B \<le> unat Num * ?n div ?d"
        unfolding prod .
      from min_64_over [OF this] True show ?thesis
        unfolding scale D_def [symmetric] by (simp only: if_True) blast
    next
      case F: False
      then have ud: "?u < ?d" by (simp add: word_le_nat_alt U)
      define R :: "64 word" where "R = or (push_bit 32 (ucast U)) (ucast M)"
      have R: "unat R = ?r"
        unfolding R_def using unat_or_push_32 [of "ucast U" "ucast M"] u hl(5)
        by (simp only: unat_ucast_32_64 U M)
      have UQ: "unat (R div ucast D) = ?r div ?d" by (simp only: unat_div R unat_ucast_32_64)
      have q: "?r div ?d < ?B" by (rule long_division_digit [OF ud hl(5)])
      have "unat (R mod ucast D) = ?r mod ?d" by (simp only: unat_mod R unat_ucast_32_64)
      moreover have "?r mod ?d < ?B" by (rule less_trans [OF mod_less_divisor [OF D(2)] hl(4)])
      ultimately have R2: "unat (or (push_bit 32 (R mod ucast D)) (ucast L)) = ?r mod ?d * ?B + ?L"
        using hl(6) unat_or_push_32 [of "R mod ucast D" "ucast L"] by (simp only: unat_ucast_32_64 L)
      define LQ :: "64 word" where "LQ = or (push_bit 32 (R mod ucast D)) (ucast L) div ucast D"
      have LQ: "unat LQ = (?r mod ?d * ?B + ?L) div ?d" by (simp only: LQ_def unat_div R2 unat_ucast_32_64)
      have lq: "unat LQ < ?B"
        unfolding LQ by (rule long_division_digit [OF mod_less_divisor [OF D(2)] hl(6)])
      have push: "unat (push_bit 32 (R div ucast D)) = ?r div ?d * ?B"
        using unat_push_32 [of "R div ucast D", unfolded UQ, OF q] .
      have Q: "unat (push_bit 32 (R div ucast D) + LQ) = ?r div ?d * ?B + unat LQ"
        using unat_plus_small [of "push_bit 32 (R div ucast D)" LQ, unfolded push, OF two_digits_64 [OF q lq]] .
      have T: "?r div ?d * ?B + unat LQ = unat Num * ?n div ?d"
        unfolding prod LQ by (rule long_division [OF D(2), symmetric])
      have nb: "\<not> R div ucast D > 0xFFFFFFFF" by (rule not_over_32) (simp only: UQ q)
      have nl: "\<not> push_bit 32 (R div ucast D) + LQ < LQ" by (rule no_wrap [OF Q])
      have res: "bp_scale ConstD Num N D0 = Inr (push_bit 32 (R div ucast D) + LQ)"
        unfolding scale R_def [symmetric] Let_def LQ_def [symmetric] by (simp only: F nb nl if_False)
      show ?thesis
        unfolding D_def [symmetric] res using min_64 [OF trans [OF Q T]] by blast
    qed
  qed
qed

section \<open>Rounding\<close>

text \<open>Rounding to the nearest multiple.\<close>

definition near :: "int \<Rightarrow> int \<Rightarrow> int \<Rightarrow> bool" where
  "near e a b \<longleftrightarrow> a \<le> b + e \<and> b \<le> a + e"

lemma round_div_near:
  fixes x s :: nat
  assumes "0 < s"
  shows "near (int s) (2 * int ((x + s div 2) div s) * int s) (2 * int x)"
proof -
  let ?q = "(x + s div 2) div s"
  have "?q * s + (x + s div 2) mod s = x + s div 2" by (rule div_mult_mod_eq)
  moreover have "(x + s div 2) mod s < s" using assms by simp
  moreover have "2 * (s div 2) \<le> s" "s \<le> 2 * (s div 2) + 1" by linarith+
  ultimately have "2 * (?q * s) \<le> 2 * x + s" "2 * x \<le> 2 * (?q * s) + s" by linarith+
  then have "int (2 * (?q * s)) \<le> int (2 * x + s)" "int (2 * x) \<le> int (2 * (?q * s) + s)"
    by (simp_all only: of_nat_le_iff)
  then show ?thesis by (simp add: near_def mult.assoc)
qed

lemma round_le:
  fixes n d :: nat
  assumes "0 < d" "n \<le> d"
  shows "(n * 2147483648 + d div 2) div d \<le> 2147483648"
proof -
  have "n * 2147483648 + d div 2 < (2147483648 + 1) * d"
    using assms by (simp add: add_mult_distrib)
  then show ?thesis using assms(1) by (simp add: less_mult_imp_div_less less_Suc_eq_le [symmetric])
qed

lemma mk_prob_value:
  assumes "0 < Den" and "Num \<le> Den"
  shows "\<exists>N. mk_prob Num Den = Inr N \<and> unat N \<le> 2147483648 \<and>
    unat N = (unat Num * 2147483648 + unat Den div 2) div unat Den"
proof -
  let ?D = "2147483648 :: nat"
  have d: "0 < unat Den" "unat Num \<le> unat Den"
    using assms by (simp_all add: word_less_nat_alt word_le_nat_alt)
  let ?q = "(unat Num * ?D + unat Den div 2) div unat Den"
  have le: "?q \<le> ?D" by (rule round_le [OF d])
  show ?thesis
  proof (cases "Den = ProbD")
    case True
    then have "?q = unat Num" by simp
    with True le d show ?thesis using assms by (simp add: mk_prob_def)
  next
    case False
    let ?P = "(ucast Num * ucast ProbD + ucast (Den div 2)) div ucast Den :: 64 word"
    have m: "unat (ucast Num * ucast ProbD :: 64 word) = unat Num * ?D"
      using unat_lt_32 [of Num] by (intro trans [OF unat_mult_small]) simp_all
    have "unat (ucast Num * ucast ProbD + ucast (Den div 2) :: 64 word) = unat Num * ?D + unat Den div 2"
      using unat_lt_32 [of Num] unat_lt_32 [of Den] m
      by (intro trans [OF unat_plus_small]) (simp_all add: unat_div)
    then have "unat ?P = ?q" by (simp add: unat_div)
    then have "unat (ucast ?P :: 32 word) = ?q" using le by (simp add: unat_ucast_64_32)
    with False assms le show ?thesis by (simp add: mk_prob_def Let_def)
  qed
qed

lemma scale_down_spec:
  "\<exists>j. scale_down d k = (drop_bit j d, k + j) \<and> drop_bit j d \<le> 0xFFFFFFFF \<and>
     (j = 0 \<or> 2147483648 \<le> unat (drop_bit j d))"
proof (induction d k rule: scale_down.induct)
  case (1 d k)
  show ?case
  proof (cases "d > 0xFFFFFFFF")
    case False
    then show ?thesis by (intro exI [where x = 0]) (simp add: scale_down.simps [of d k])
  next
    case True
    from 1 [OF True] obtain j where
      j: "scale_down (drop_bit 1 d) (Suc k) = (drop_bit j (drop_bit 1 d), Suc k + j)"
        "drop_bit j (drop_bit 1 d) \<le> 0xFFFFFFFF"
        "j = 0 \<or> 2147483648 \<le> unat (drop_bit j (drop_bit 1 d))" by blast
    have 1: "drop_bit j (drop_bit 1 d) = drop_bit (Suc j) d" by (simp add: drop_bit_drop_bit)
    have "2147483648 \<le> unat (drop_bit 1 d)"
      using True unat_div [of d 2] by (simp add: drop_bit_Suc word_less_nat_alt)
    with j True 1 show ?thesis
      by (intro exI [where x = "Suc j"]) (auto simp: scale_down.simps [of d k])
  qed
qed

lemma prob_shift_error:
  fixes n d a b p q e :: int
  assumes "0 \<le> n" "n \<le> d" "0 \<le> a" "a < p" "0 \<le> b" "b < p" and "0 < d"
    and near: "near d (2 * q * d) (2 * (n * e))" and pe: "p = 1 \<or> e \<le> d" and e: "0 \<le> e"
  shows "near (3 * (d * p + b)) (2 * q * (d * p + b)) (2 * ((n * p + a) * e))"
proof -
  let ?s = "d * p + b" and ?t = "n * b - a * d"
  let ?X = "2 * q * ?s - 2 * ((n * p + a) * e)" and ?Y = "2 * q * d - 2 * (n * e)"
  have p: "0 < p" "0 < ?s" using assms(3-7) by (auto intro: add_pos_nonneg)
  have Y: "\<bar>?Y\<bar> \<le> d" using near by (simp add: near_def abs_le_iff)
  have t: "\<bar>?t\<bar> \<le> d * p"
  proof -
    have "n * b \<le> d * p" "a * d \<le> d * p" "0 \<le> n * b" "0 \<le> a * d"
      using assms(1-7) mult_mono [of n d b p] mult_mono [of a p d d] by (simp_all add: mult.commute)
    then show ?thesis by linarith
  qed
  have et: "\<bar>e * ?t\<bar> \<le> d * (d * p)"
  proof (cases "p = 1")
    case True
    then have "a = 0" "b = 0" using assms(3-6) by auto
    then show ?thesis using True assms(7) by simp
  next
    case False
    with pe e t assms(7) p show ?thesis unfolding abs_mult by (intro mult_mono) auto
  qed
  have "d * ?X = ?s * ?Y + 2 * (e * ?t)" by (simp add: algebra_simps)
  then have "d * \<bar>?X\<bar> = \<bar>?s * ?Y + 2 * (e * ?t)\<bar>" using assms(7) by (metis abs_mult abs_of_pos)
  also have "\<dots> \<le> \<bar>?s * ?Y\<bar> + 2 * \<bar>e * ?t\<bar>" by (metis abs_triangle_ineq abs_mult abs_numeral)
  also have "\<dots> \<le> ?s * d + 2 * (d * (d * p))"
  proof -
    have "\<bar>?s * ?Y\<bar> = ?s * \<bar>?Y\<bar>" using p by (simp only: abs_mult abs_of_pos)
    then show ?thesis using mult_left_mono [OF Y, of ?s] p et by linarith
  qed
  also have "\<dots> \<le> d * (3 * ?s)" using assms(5,7) by (simp add: algebra_simps)
  finally have "\<bar>?X\<bar> \<le> 3 * ?s" using assms(7) by (simp only: mult_le_cancel_left_pos)
  then show ?thesis by (simp add: near_def abs_le_iff)
qed

lemma int_div_mod: "int (a div 2 ^ j) * 2 ^ j + int (a mod 2 ^ j) = int a"
proof -
  have "int (a div 2 ^ j * 2 ^ j + a mod 2 ^ j) = int a" by (simp only: div_mult_mod_eq)
  then show ?thesis by (simp only: of_nat_add of_nat_mult of_nat_power of_nat_numeral)
qed

lemma getBranchProbability_near:
  assumes "0 < Den" and "Num \<le> Den"
  shows "\<exists>N. getBranchProbability Num Den = Inr N \<and> unat N \<le> 2147483648 \<and>
    near (3 * int (unat Den)) (2 * int (unat N) * int (unat Den)) (2 * (int (unat Num) * 2147483648))"
proof -
  from scale_down_spec [of Den 0] obtain j where
    j: "scale_down Den 0 = (drop_bit j Den, j)" "drop_bit j Den \<le> 0xFFFFFFFF"
      "j = 0 \<or> 2147483648 \<le> unat (drop_bit j Den)" by auto
  let ?d = "unat (drop_bit j Den)" and ?n = "unat (drop_bit j Num)"
  have d: "?d = unat Den div 2 ^ j" "?n = unat Num div 2 ^ j"
    unfolding unat_drop_bit_eq by (simp_all add: drop_bit_eq_div)
  have le: "?n \<le> ?d" using assms(2) by (simp add: d word_le_nat_alt div_le_mono)
  have lt: "?d < 4294967296" using j(2) by (simp add: word_le_nat_alt)
  have pos: "0 < ?d" using j(3) assms(1) by (auto simp: word_less_nat_alt)
  have u: "unat (ucast (drop_bit j Den) :: 32 word) = ?d" "unat (ucast (drop_bit j Num) :: 32 word) = ?n"
    using lt le by (simp_all add: unat_ucast_64_32)
  have "0 < (ucast (drop_bit j Den) :: 32 word)" "(ucast (drop_bit j Num) :: 32 word) \<le> ucast (drop_bit j Den)"
    using pos le by (simp_all add: word_less_nat_alt word_le_nat_alt u)
  from mk_prob_value [OF this] obtain N where
    N: "mk_prob (ucast (drop_bit j Num)) (ucast (drop_bit j Den)) = Inr N" "unat N \<le> 2147483648"
      "unat N = (?n * 2147483648 + ?d div 2) div ?d" unfolding u by blast
  have near: "near (int ?d) (2 * int (unat N) * int ?d) (2 * (int ?n * 2147483648))"
    using round_div_near [OF pos, of "?n * 2147483648"] N(3) by simp
  have "near (3 * (int ?d * 2 ^ j + int (unat Den mod 2 ^ j)))
      (2 * int (unat N) * (int ?d * 2 ^ j + int (unat Den mod 2 ^ j)))
      (2 * ((int ?n * 2 ^ j + int (unat Num mod 2 ^ j)) * 2147483648))"
  proof (rule prob_shift_error [OF _ _ _ _ _ _ _ near])
    show "int (unat Num mod 2 ^ j) < 2 ^ j" "int (unat Den mod 2 ^ j) < 2 ^ j"
      by (metis mod_less_divisor of_nat_less_iff of_nat_numeral of_nat_power zero_less_numeral zero_less_power)+
    show "(2 :: int) ^ j = 1 \<or> 2147483648 \<le> int ?d" using j(3) by (auto simp del: of_nat_unat)
  qed (use le pos in \<open>simp_all del: of_nat_unat\<close>)
  moreover have "int ?d * 2 ^ j + int (unat Den mod 2 ^ j) = int (unat Den)"
    "int ?n * 2 ^ j + int (unat Num mod 2 ^ j) = int (unat Num)"
    unfolding d by (rule int_div_mod)+
  ultimately have "near (3 * int (unat Den)) (2 * int (unat N) * int (unat Den))
      (2 * (int (unat Num) * 2147483648))" by (simp only:)
  moreover have "getBranchProbability Num Den = Inr N"
    using assms(2) j(1) N(1) by (simp add: getBranchProbability_def)
  ultimately show ?thesis using N(2) by blast
qed


text \<open>Normalisation.\<close>

definition known_sum :: "prob list \<Rightarrow> nat" where
  "known_sum Ps = sum_list (map (\<lambda>BP. if isUnknown BP then 0 else unat BP) Ps)"

definition unknowns :: "prob list \<Rightarrow> nat" where
  "unknowns Ps = length (filter isUnknown Ps)"

lemma known_sum_bound: "known_sum Ps \<le> length Ps * 4294967295"
proof (induction Ps)
  case (Cons p Ps)
  then show ?case using unat_lt_32 [of p] by (simp add: known_sum_def)
qed (simp add: known_sum_def)

lemma sum_known_eq:
  assumes "unat S + known_sum Ps < 2 ^ 64" and "unat k + length Ps < 2 ^ 32"
  shows "\<exists>S' k'. sum_known Ps S k = (S', k') \<and> unat S' = unat S + known_sum Ps \<and>
    unat k' = unat k + unknowns Ps"
  using assms
proof (induction Ps arbitrary: S k)
  case Nil
  then show ?case by (simp add: known_sum_def unknowns_def)
next
  case (Cons p Ps)
  show ?case
  proof (cases "isUnknown p")
    case True
    with Cons.prems have "unat (k + 1) = unat k + 1" by (intro trans [OF unat_plus_small]) auto
    with Cons True show ?thesis using Cons.IH [of S "k + 1"] by (auto simp: known_sum_def unknowns_def)
  next
    case False
    with Cons.prems have "unat (S + ucast p) = unat S + unat p"
      by (intro trans [OF unat_plus_small]) (auto simp: known_sum_def)
    with Cons False show ?thesis using Cons.IH [of "S + ucast p" k] by (auto simp: known_sum_def unknowns_def)
  qed
qed


lemma rescale_value:
  assumes "0 < unat S" and "unat N \<le> unat S"
  shows "unat (rescale S N) = (unat N * 2147483648 + unat S div 2) div unat S"
    and "unat (rescale S N) \<le> 2147483648"
proof -
  have m: "unat (ucast N * ucast ProbD :: 64 word) = unat N * 2147483648"
    using unat_lt_32 [of N] by (intro trans [OF unat_mult_small]) simp_all
  have "unat (ucast N * ucast ProbD + S div 2 :: 64 word) = unat N * 2147483648 + unat S div 2"
    using unat_lt_32 [of N] unat_lt_64 [of S] m unat_div [of S 2]
    by (intro trans [OF unat_plus_small]) simp_all
  then have "unat ((ucast N * ucast ProbD + S div 2) div S) = (unat N * 2147483648 + unat S div 2) div unat S"
    by (simp add: unat_div)
  then show *: "unat (rescale S N) = (unat N * 2147483648 + unat S div 2) div unat S"
    using round_le [OF assms] by (simp add: rescale_def unat_ucast_64_32)
  show "unat (rescale S N) \<le> 2147483648" unfolding * by (rule round_le [OF assms])
qed

lemma near_sum:
  fixes f g :: "'a \<Rightarrow> nat"
  assumes "\<And>x. x \<in> set xs \<Longrightarrow> near s (2 * int (f x) * s) (2 * (int (g x) * e))"
  shows "near (int (length xs) * s) (2 * int (sum_list (map f xs)) * s) (2 * (int (sum_list (map g xs)) * e))"
  using assms
proof (induction xs)
  case (Cons x xs)
  then have "near s (2 * int (f x) * s) (2 * (int (g x) * e))"
    "near (int (length xs) * s) (2 * int (sum_list (map f xs)) * s) (2 * (int (sum_list (map g xs)) * e))"
    by simp_all
  then show ?case by (simp add: near_def algebra_simps)
qed (simp add: near_def)

lemma near_cancel:
  assumes "0 < s" "near (n * s) (2 * a * s) (2 * (s * e))"
  shows "near n a e"
proof -
  from assms(2) have "2 * a * s \<le> (2 * e + n) * s" "2 * e * s \<le> (2 * a + n) * s"
    by (simp_all add: near_def algebra_simps)
  with assms(1) have "2 * a \<le> 2 * e + n" "2 * e \<le> 2 * a + n" by (simp_all add: mult_le_cancel_right_pos)
  then show ?thesis by (simp add: near_def)
qed

lemma known_sum_map:
  "known_sum Ps = sum_list (map unat (map (\<lambda>BP. if isUnknown BP then getZero else BP) Ps))"
  by (induction Ps) (auto simp: known_sum_def getZero_def)

lemma sum_filled:
  "sum_list (map unat (map (\<lambda>BP. if isUnknown BP then P else BP) Ps)) = known_sum Ps + unknowns Ps * unat P"
  by (induction Ps) (auto simp: known_sum_def unknowns_def)

lemma known_le_sum: "p \<in> set Ps \<Longrightarrow> \<not> isUnknown p \<Longrightarrow> unat p \<le> known_sum Ps"
  by (induction Ps) (auto simp: known_sum_def)

lemma rescaled_sum:
  assumes "unat S = sum_list (map unat Qs)" and "0 < unat S"
  shows "near (int (length Qs)) (int (sum_list (map unat (map (rescale S) Qs)))) 2147483648 \<and>
    (\<forall>N\<in>set (map (rescale S) Qs). unat N \<le> 2147483648)"
proof -
  have le: "unat N \<le> unat S" if "N \<in> set Qs" for N
    using that member_le_sum_list [of "unat N" "map unat Qs"] by (simp add: assms(1))
  have "near (int (unat S)) (2 * int (unat (rescale S N)) * int (unat S)) (2 * (int (unat N) * 2147483648))"
    if "N \<in> set Qs" for N
    using round_div_near [OF assms(2), of "unat N * 2147483648"] rescale_value(1) [OF assms(2) le [OF that]]
    by (simp del: of_nat_unat)
  from near_sum [of Qs "int (unat S)" "\<lambda>N. unat (rescale S N)" unat 2147483648, OF this] have
    "near (int (length Qs) * int (unat S)) (2 * int (sum_list (map unat (map (rescale S) Qs))) * int (unat S))
      (2 * (int (unat S) * 2147483648))"
    by (simp only: assms(1) map_map o_def)
  then have "near (int (length Qs)) (int (sum_list (map unat (map (rescale S) Qs)))) 2147483648"
    by (rule near_cancel [rotated]) (use assms(2) in \<open>simp del: of_nat_unat\<close>)
  moreover have "\<forall>N\<in>set (map (rescale S) Qs). unat N \<le> 2147483648"
    using rescale_value(2) [OF assms(2) le] by auto
  ultimately show ?thesis by blast
qed


theorem normalize_spec:
  assumes "Ps \<noteq> []" and "length Ps < 2 ^ 32"
  shows "\<exists>Qs. normalizeProbabilities Ps = Inr Qs \<and> length Qs = length Ps \<and>
    (\<forall>N\<in>set Qs. unat N \<le> 2147483648) \<and>
    near (int (length Ps)) (int (sum_list (map unat Qs))) 2147483648"
proof -
  have "unat (0 :: 64 word) + known_sum Ps < 2 ^ 64"
  proof -
    have "length Ps * 4294967295 \<le> 2 ^ 32 * 4294967295" using assms(2) by (intro mult_right_mono) auto
    with known_sum_bound [of Ps] show ?thesis by simp
  qed
  from sum_known_eq [OF this, of 0] assms(2) obtain S k where
    Sk: "sum_known Ps 0 0 = (S, k)" "unat S = known_sum Ps" "unat k = unknowns Ps" by auto
  have kpos: "0 < k \<longleftrightarrow> 0 < unknowns Ps" by (simp add: word_less_nat_alt Sk(3))
  have S0: "S = 0 \<longleftrightarrow> known_sum Ps = 0" by (simp add: unat_eq_0 [symmetric] Sk(2))
  have SD: "S \<le> ucast ProbD \<longleftrightarrow> known_sum Ps \<le> 2147483648" by (simp add: word_le_nat_alt Sk(2))
  have len: "unknowns Ps \<le> length Ps" by (simp add: unknowns_def)
  consider (fill) "0 < unknowns Ps" "known_sum Ps \<le> 2147483648"
    | (even) "unknowns Ps = 0" "known_sum Ps = 0"
    | (scale) "0 < known_sum Ps" "unknowns Ps = 0 \<or> 2147483648 < known_sum Ps" by linarith
  then show ?thesis
  proof cases
    case fill
    define P :: prob where
      "P = (if S < ucast ProbD then getRaw (ucast ((ucast ProbD - S) div ucast k)) else getZero)"
    have P: "unat P = (2147483648 - known_sum Ps) div unknowns Ps"
    proof (cases "S < ucast ProbD")
      case True
      then have "unat (ucast ProbD - S) = 2147483648 - known_sum Ps"
        by (simp add: unat_sub order_less_imp_le Sk(2))
      moreover have "(2147483648 - known_sum Ps) div unknowns Ps < 4294967296"
        using div_le_dividend [of "2147483648 - known_sum Ps" "unknowns Ps"] by linarith
      ultimately show ?thesis using True by (simp add: P_def getRaw_def unat_ucast_64_32 unat_div Sk(3))
    next
      case False
      with fill(2) have "known_sum Ps = 2147483648" by (simp add: word_less_nat_alt Sk(2))
      with False show ?thesis by (simp add: P_def getZero_def)
    qed
    have Pk: "unknowns Ps * unat P \<le> 2147483648 - known_sum Ps"
      "2147483648 - known_sum Ps < unknowns Ps * unat P + unknowns Ps"
      unfolding P using fill(1) dividend_less_times_div [of "unknowns Ps" "2147483648 - known_sum Ps"]
      by (simp_all add: times_div_less_eq_dividend add.commute)
    let ?Qs = "map (\<lambda>BP. if isUnknown BP then P else BP) Ps"
    have "normalizeProbabilities Ps = Inr ?Qs"
      using assms(1) fill by (simp add: normalizeProbabilities_def Sk(1) Let_def kpos SD P_def)
    moreover have "\<forall>N\<in>set ?Qs. unat N \<le> 2147483648"
    proof -
      have "unat P \<le> 2147483648" unfolding P by (meson diff_le_self div_le_dividend le_trans)
      then show ?thesis using known_le_sum fill(2) by (auto dest: known_le_sum)
    qed
    moreover have "near (int (length Ps)) (int (sum_list (map unat ?Qs))) 2147483648"
      unfolding sum_filled near_def using Pk fill(2) len by linarith
    ultimately show ?thesis by (intro exI [of _ ?Qs]) simp
  next
    case even
    let ?n = "of_nat (length Ps) :: 32 word"
    have n: "unat ?n = length Ps" using assms(2) by (simp add: unat_of_nat take_bit_nat_eq_self)
    then have "0 < ?n" "1 \<le> ?n" using assms(1) by (simp_all add: word_less_nat_alt word_le_nat_alt Suc_le_eq)
    from mk_prob_value [OF this] obtain N where
      N: "mk_prob 1 ?n = Inr N" "unat N \<le> 2147483648"
        "unat N = (1 * 2147483648 + length Ps div 2) div length Ps" unfolding n by auto
    have "normalizeProbabilities Ps = Inr (map (\<lambda>_. N) Ps)"
      using assms(1) even N(1) by (simp add: normalizeProbabilities_def Sk(1) Let_def kpos S0)
    moreover have "near (int (length Ps)) (int (sum_list (map unat (map (\<lambda>_. N) Ps)))) 2147483648"
      using round_div_near [of "length Ps" 2147483648] N(3) assms(1)
      by (simp add: near_def map_replicate_const sum_list_replicate mult.commute del: of_nat_unat)
    ultimately show ?thesis using N(2) by (intro exI [of _ "map (\<lambda>_. N) Ps"]) simp
  next
    case scale
    let ?Q = "if 0 < k then map (\<lambda>BP. if isUnknown BP then getZero else BP) Ps else Ps"
    have Q: "sum_list (map unat ?Q) = unat S" "length ?Q = length Ps"
    proof -
      have "map (\<lambda>BP. if isUnknown BP then getZero else BP) Ps = Ps" if "unknowns Ps = 0"
        using that by (intro map_idI) (auto simp: unknowns_def filter_empty_conv)
      then show "sum_list (map unat ?Q) = unat S"
        using known_sum_map [of Ps] by (cases "unknowns Ps = 0") (simp_all del: map_map add: Sk(2) kpos)
    qed simp
    have nb: "\<not> (0 < k \<and> S \<le> ucast ProbD)" using scale by (auto simp: kpos SD)
    then have Z: "0 < k \<Longrightarrow> \<not> S < ucast ProbD" by auto
    have "normalizeProbabilities Ps = Inr (map (rescale S) ?Q)"
      using assms(1) scale nb Z
      by (cases "0 < k") (simp_all add: normalizeProbabilities_def Sk(1) Let_def S0)
    with rescaled_sum [of S ?Q] Q scale(1) show ?thesis
      by (intro exI [of _ "map (rescale S) ?Q"]) (simp del: map_map add: Sk(2))
  qed
qed



section \<open>Properties\<close>

lemma saturated_word: "unat (w :: 64 word) = min (2 ^ 64 - 1) t \<Longrightarrow> w = word_of_nat (min (2 ^ 64 - 1) t)"
  by (rule word_of_natI)

lemma scale_floor:
  "prob_scale N Num = Inr (word_of_nat (min (2 ^ 64 - 1) (unat Num * unat N div 2 ^ 31)))"
proof -
  have "0 < ProbD" by (simp add: word_less_nat_alt)
  with bp_scale_floor [of ProbD ProbD Num N] saturated_word show ?thesis
    unfolding prob_scale_def by force
qed

text \<open>
  C24. Scaling is exact: \<open>scale\<close> is the floor of the product with the fraction and
  \<open>scaleByInverse\<close> the floor of the quotient, computed without rounding in 32-bit digits and
  saturated at the largest 64-bit number; only division by the probability zero is refused.
\<close>

theorem prob_scale_exact:
  "prob_scale N Num = Inr (word_of_nat (min (2 ^ 64 - 1) (unat Num * unat N div 2 ^ 31))) \<and>
   scaleByInverse N Num =
     (if isZero N then Inl (AssertFail ''divide by 0'')
      else Inr (word_of_nat (min (2 ^ 64 - 1) (unat Num * 2 ^ 31 div unat N))))"
proof
  show "prob_scale N Num = Inr (word_of_nat (min (2 ^ 64 - 1) (unat Num * unat N div 2 ^ 31)))"
    by (rule scale_floor)
  show "scaleByInverse N Num =
     (if isZero N then Inl (AssertFail ''divide by 0'')
      else Inr (word_of_nat (min (2 ^ 64 - 1) (unat Num * 2 ^ 31 div unat N))))"
  proof (cases "N = 0")
    case True
    then show ?thesis by (simp add: scaleByInverse_def bp_scale_def isZero_def)
  next
    case False
    then have "0 < (if (0 :: 32 word) > 0 then 0 else N)" by (simp add: word_neq_0_conv)
    from bp_scale_floor [OF this, of Num ProbD] saturated_word False show ?thesis
      unfolding scaleByInverse_def isZero_def by force
  qed
qed

text \<open>
  \<open>getBranchProbability\<close> accepts every fraction of 64-bit numbers up to one and returns a
  numerator no larger than the denominator \<open>2 ^ 31\<close>, at most one and a half units away from
  the exact quotient although the operands are shifted down to 32 bits.
\<close>

theorem getBranchProbability_bound:
  assumes "0 < Den" and "Num \<le> Den"
  shows "\<exists>N. getBranchProbability Num Den = Inr N \<and> unat N \<le> 2 ^ 31 \<and>
    \<bar>2 * (int (unat N) * int (unat Den) - int (unat Num) * 2 ^ 31)\<bar> \<le> 3 * int (unat Den)"
  using getBranchProbability_near [OF assms] by (simp add: near_def abs_le_iff algebra_simps)

theorem getBranchProbability_bound_witness:
  "\<exists>N. getBranchProbability 0x100000000 0x300000000 = Inr N \<and> unat N \<le> 2 ^ 31 \<and>
    \<bar>2 * (int (unat N) * 12884901888 - 4294967296 * 2 ^ 31)\<bar> \<le> 38654705664"
  using getBranchProbability_bound [of "0x300000000" "0x100000000"] by simp

text \<open>
  C37. Normalising a list of probabilities, some of them unknown, leaves no unknown one, keeps every
  entry a probability, and makes them sum to one up to one unit for each entry.
\<close>

theorem normalizeProbabilities_sum:
  assumes "Ps \<noteq> []" and "length Ps < 2 ^ 32"
  shows "\<exists>Qs. normalizeProbabilities Ps = Inr Qs \<and> length Qs = length Ps \<and>
    (\<forall>N\<in>set Qs. \<not> isUnknown N \<and> unat N \<le> 2 ^ 31) \<and>
    \<bar>int (sum_list (map unat Qs)) - 2 ^ 31\<bar> \<le> int (length Ps)"
proof -
  have known: "\<not> isUnknown N" if "unat N \<le> 2147483648" for N
    using that by (auto simp: isUnknown_def UnknownN_def unsigned_minus_1_eq_mask mask_eq_exp_minus_1)
  from normalize_spec [OF assms] obtain Qs where
    Q: "normalizeProbabilities Ps = Inr Qs" "length Qs = length Ps" "\<forall>N\<in>set Qs. unat N \<le> 2147483648"
      "near (int (length Ps)) (int (sum_list (map unat Qs))) 2147483648" by blast
  from Q(4) have "\<bar>int (sum_list (map unat Qs)) - 2147483648\<bar> \<le> int (length Ps)"
    unfolding near_def by linarith
  moreover have "\<forall>N\<in>set Qs. \<not> isUnknown N \<and> unat N \<le> 2147483648" using known Q(3) by blast
  ultimately show ?thesis using Q(1,2) by (intro exI [of _ Qs]) simp
qed

theorem normalizeProbabilities_sum_witness:
  "\<exists>Qs. normalizeProbabilities [UnknownN, 1, 5, UnknownN] = Inr Qs \<and> length Qs = 4 \<and>
    \<bar>int (sum_list (map unat Qs)) - 2 ^ 31\<bar> \<le> 4"
  using normalizeProbabilities_sum [of "[UnknownN, 1, 5, UnknownN]"] by auto

lemma ProbD_numeral: "ProbD = 2147483648"
  by (simp add: ProbD_def push_bit_eq_mult)

lemma valid_known: "unat N \<le> 2 ^ 31 \<Longrightarrow> N \<noteq> UnknownN"
  by (auto simp: UnknownN_def unsigned_minus_1_eq_mask mask_eq_exp_minus_1)

lemma prob_arith_add:
  assumes "unat N \<le> 2 ^ 31" and "unat R \<le> 2 ^ 31"
  shows "prob_add N R = Inr (word_of_nat (min (2 ^ 31) (unat N + unat R)))"
  using unat_plus_small [of N R] valid_known [OF assms(1)] valid_known [OF assms(2)]
  by (auto simp: prob_add_def known_def word_less_nat_alt ProbD_numeral min_def not_le intro!: word_of_natI)

lemma getCompl_valid: "unat N \<le> 2 ^ 31 \<Longrightarrow> getCompl N = word_of_nat (2 ^ 31 - unat N)"
  by (intro word_of_natI) (simp add: getCompl_def unat_sub word_le_nat_alt)

text \<open>
  C40. On known probabilities the arithmetic never trips an assertion, stays within one and is exact
  up to saturation (multiplication of probabilities rounds to nearest).
\<close>

theorem prob_arith_valid:
  assumes "unat N \<le> 2 ^ 31" and "unat R \<le> 2 ^ 31"
  shows "prob_add N R = Inr (word_of_nat (min (2 ^ 31) (unat N + unat R))) \<and>
    prob_sub N R = Inr (word_of_nat (unat N - unat R)) \<and>
    prob_mul N R = Inr (word_of_nat ((unat N * unat R + 2 ^ 30) div 2 ^ 31)) \<and>
    prob_mul_int N k = Inr (word_of_nat (min (2 ^ 31) (unat N * unat k))) \<and>
    getCompl N = word_of_nat (2 ^ 31 - unat N)"
proof (intro conjI)
  have k: "known m N R = Inr ()" "known m N 0 = Inr ()" for m
    using valid_known [OF assms(1)] valid_known [OF assms(2)] valid_known [of 0] by (simp_all add: known_def)
  note D = ProbD_numeral
  show "prob_add N R = Inr (word_of_nat (min (2 ^ 31) (unat N + unat R)))"
    by (rule prob_arith_add [OF assms])
  show "prob_sub N R = Inr (word_of_nat (unat N - unat R))"
    by (auto simp: prob_sub_def k word_less_nat_alt unat_sub word_le_nat_alt intro!: word_of_natI)
  have "unat N * unat R \<le> 2147483648 * 2147483648" using assms by (intro mult_mono) simp_all
  then have "unat (ucast N * ucast R + ucast (ProbD div 2) :: 64 word) = unat N * unat R + 2 ^ 30"
    by (intro trans [OF unat_plus_small]) (simp_all add: unat_div)
  moreover have "(unat N * unat R + 2 ^ 30) div 2 ^ 31 < 4294967296"
    using \<open>unat N * unat R \<le> _\<close> by (simp add: less_mult_imp_div_less)
  ultimately show "prob_mul N R = Inr (word_of_nat ((unat N * unat R + 2 ^ 30) div 2 ^ 31))"
    by (auto simp: prob_mul_def k unat_ucast_64_32 unat_div intro!: word_of_natI)
  show "prob_mul_int N k = Inr (word_of_nat (min (2 ^ 31) (unat N * unat k)))"
    using unat_mult_small [of N k]
    by (auto simp: prob_mul_int_def k word_less_nat_alt D min_def not_le intro!: word_of_natI)
  show "getCompl N = word_of_nat (2 ^ 31 - unat N)"
    by (rule getCompl_valid [OF assms(1)])
qed

theorem prob_arith_valid_witness:
  "prob_add 2147483648 5 = Inr 2147483648 \<and> prob_sub 3 5 = Inr 0 \<and>
   prob_mul_int 1073741824 3 = Inr 2147483648"
  using prob_arith_valid [of 2147483648 5 0] prob_arith_valid [of 3 5 0] prob_arith_valid [of 1073741824 0 3]
  by simp

text \<open>
  Block frequencies never wrap around: addition stops at the maximum, subtraction at zero, a
  shift at one, and scaling by a probability never increases the frequency.
\<close>

theorem freq_saturates:
  "unat (freq_add f g) = min (2 ^ 64 - 1) (unat f + unat g) \<and>
   unat (freq_sub f g) = unat f - unat g \<and>
   freq_shr f n = (if f = 0 then Inl (AssertFail ''Frequency != 0'')
                   else Inr (word_of_nat (max 1 (unat f div 2 ^ n)))) \<and>
   freq_mul f N = Inr (word_of_nat (min (2 ^ 64 - 1) (unat f * unat N div 2 ^ 31)))"
proof (intro conjI)
  show "unat (freq_add f g) = min (2 ^ 64 - 1) (unat f + unat g)"
    using unat_lt_64 [of f] unat_lt_64 [of g]
    by (auto simp: freq_add_def Let_def word_less_nat_alt unat_word_ariths mod_if)
  show "unat (freq_sub f g) = unat f - unat g"
    by (auto simp: freq_sub_def word_le_nat_alt unat_sub)
  show "freq_shr f n = (if f = 0 then Inl (AssertFail ''Frequency != 0'')
                   else Inr (word_of_nat (max 1 (unat f div 2 ^ n))))"
  proof -
    have u: "unat (drop_bit n f) = unat f div 2 ^ n"
      unfolding unat_drop_bit_eq by (simp add: drop_bit_eq_div)
    show ?thesis
    proof (cases "drop_bit n f = 0")
      case True
      with u have "unat f div 2 ^ n = 0" by simp
      with True show ?thesis by (simp add: freq_shr_def)
    next
      case False
      with u have "unat f div 2 ^ n \<noteq> 0" by (metis unat_eq_0)
      then have "max 1 (unat f div 2 ^ n) = unat (drop_bit n f)" by (simp add: u)
      with False show ?thesis by (simp add: freq_shr_def Let_def)
    qed
  qed
  show "freq_mul f N = Inr (word_of_nat (min (2 ^ 64 - 1) (unat f * unat N div 2 ^ 31)))"
    unfolding freq_mul_def by (rule scale_floor)
qed

end
