(* ===== verification/MachineIR.thy ===== *)
theory MachineIR
  imports X86Cond BranchProbability
begin

text \<open>
  The machine-level program representation that the branch passes rewrite
  (\<open>llvm/include/llvm/CodeGen/MachineInstr.h\<close>, \<open>MachineBasicBlock.h\<close>,
  \<open>MachineFunction.h\<close> and \<open>llvm/lib/CodeGen/MachineBasicBlock.cpp\<close>). Blocks
  live in a heap indexed by number; the layout of a function is the list of its block
  numbers. Debug locations, register use lists and the IR back-links are left out.
\<close>

section \<open>Registers, operands and instructions\<close>

datatype gpr =
    RAX | RCX | RDX | RBX | RSP | RBP | RSI | RDI
  | R8 | R9 | R10 | R11 | R12 | R13 | R14 | R15

text \<open>
  \<open>X86::R13\<close> is \<open>Reg64 R13\<close>, \<open>X86::R13D\<close> is \<open>Reg32 R13\<close>,
  \<open>X86::R13W\<close> is \<open>Reg16 R13\<close> and \<open>X86::R13B\<close> is \<open>Reg8 R13\<close>.
\<close>

datatype preg = NoRegister | RIP | Reg64 gpr | Reg32 gpr | Reg16 gpr | Reg8 gpr

datatype operand = MO_Register preg | MO_Immediate int | MO_MachineBasicBlock nat

record minstr =
  opc :: opcode
  ops :: "operand list"

definition isReg :: "operand \<Rightarrow> bool" where
  "isReg op = (case op of MO_Register _ \<Rightarrow> True | _ \<Rightarrow> False)"

definition isMBB :: "operand \<Rightarrow> bool" where
  "isMBB op = (case op of MO_MachineBasicBlock _ \<Rightarrow> True | _ \<Rightarrow> False)"

text \<open>\<open>MachineInstr::getOperand\<close> and \<open>MachineOperand::getMBB\<close>, with their assertions.\<close>

definition getOperand :: "minstr \<Rightarrow> nat \<Rightarrow> operand res" where
  "getOperand MI i =
     (if i < length (ops MI) then Inr (ops MI ! i) else Inl (AssertFail ''getOperand() out of range!''))"

definition getMBB :: "operand \<Rightarrow> nat res" where
  "getMBB op =
     (case op of MO_MachineBasicBlock b \<Rightarrow> Inr b
      | _ \<Rightarrow> Inl (AssertFail ''Wrong MachineOperand accessor''))"

text \<open>
  The instruction descriptor flags TableGen derives from \<open>X86InstrControl.td\<close> for the
  opcodes of the model. \<open>OtherOp\<close> stands for the instructions that only compute.
\<close>

definition desc_isBranch :: "opcode \<Rightarrow> bool" where
  "desc_isBranch opcd =
     (case opcd of Jcc_1 _ \<Rightarrow> True | Jcc_2 _ \<Rightarrow> True | Jcc_4 _ \<Rightarrow> True
      | JMP_1 \<Rightarrow> True | JMP_2 \<Rightarrow> True | JMP_4 \<Rightarrow> True
      | JMP64r \<Rightarrow> True | JMP64m \<Rightarrow> True | JRCXZ \<Rightarrow> True | _ \<Rightarrow> False)"

definition desc_isBarrier :: "opcode \<Rightarrow> bool" where
  "desc_isBarrier opcd =
     (opcd \<in> {JMP_1, JMP_2, JMP_4, JMP64r, JMP64m, RETQ, TCRETURNdi64})"

definition desc_isIndirectBranch :: "opcode \<Rightarrow> bool" where
  "desc_isIndirectBranch opcd = (opcd \<in> {JMP64r, JMP64m})"

definition desc_isReturn :: "opcode \<Rightarrow> bool" where
  "desc_isReturn opcd = (opcd \<in> {RETQ, TCRETURNdi64})"

definition desc_isCall :: "opcode \<Rightarrow> bool" where
  "desc_isCall opcd = (opcd \<in> {CALL64pcrel32, TCRETURNdi64})"

definition desc_isTerminator :: "opcode \<Rightarrow> bool" where
  "desc_isTerminator opcd = (desc_isBranch opcd \<or> desc_isReturn opcd)"

definition isReturn :: "minstr \<Rightarrow> bool" where
  "isReturn MI = desc_isReturn (opc MI)"

definition isCall :: "minstr \<Rightarrow> bool" where
  "isCall MI = desc_isCall (opc MI)"

definition isBarrier :: "minstr \<Rightarrow> bool" where
  "isBarrier MI = desc_isBarrier (opc MI)"

definition isTerminator :: "minstr \<Rightarrow> bool" where
  "isTerminator MI = desc_isTerminator (opc MI)"

definition isBranch :: "minstr \<Rightarrow> bool" where
  "isBranch MI = desc_isBranch (opc MI)"

definition isIndirectBranch :: "minstr \<Rightarrow> bool" where
  "isIndirectBranch MI = desc_isIndirectBranch (opc MI)"

definition isConditionalBranch :: "minstr \<Rightarrow> bool" where
  "isConditionalBranch MI = (isBranch MI \<and> \<not> isBarrier MI \<and> \<not> isIndirectBranch MI)"

definition isUnconditionalBranch :: "minstr \<Rightarrow> bool" where
  "isUnconditionalBranch MI = (isBranch MI \<and> isBarrier MI \<and> \<not> isIndirectBranch MI)"

lemmas desc_defs =
  isReturn_def isCall_def isBarrier_def isTerminator_def isBranch_def isIndirectBranch_def
  isConditionalBranch_def isUnconditionalBranch_def desc_isBranch_def desc_isBarrier_def
  desc_isIndirectBranch_def desc_isReturn_def desc_isCall_def desc_isTerminator_def

section \<open>Blocks and functions\<close>

record mblock =
  insts :: "minstr list"
  Successors :: "nat list"
  Predecessors :: "nat list"
  Probs :: "prob list"
  IsEHPad :: bool

definition empty_block :: mblock where
  "empty_block = \<lparr>insts = [], Successors = [], Predecessors = [], Probs = [], IsEHPad = False\<rparr>"

record mfunc =
  layout :: "nat list"
  heap :: "nat \<Rightarrow> mblock"
  fresh :: nat

definition isReturnBlock :: "mblock \<Rightarrow> bool" where
  "isReturnBlock b = (insts b \<noteq> [] \<and> isReturn (last (insts b)))"

definition upd_block :: "nat \<Rightarrow> (mblock \<Rightarrow> mblock) \<Rightarrow> mfunc \<Rightarrow> mfunc" where
  "upd_block b f MF = MF\<lparr>heap := (heap MF)(b := f (heap MF b))\<rparr>"

text \<open>\<open>MF.CreateMachineBasicBlock()\<close> allocates a block that is not yet in the layout.\<close>

definition CreateMachineBasicBlock :: "mfunc \<Rightarrow> nat \<times> mfunc" where
  "CreateMachineBasicBlock MF =
     (fresh MF, MF\<lparr>heap := (heap MF)(fresh MF := empty_block), fresh := Suc (fresh MF)\<rparr>)"

definition mf_insert :: "nat option \<Rightarrow> nat \<Rightarrow> mfunc \<Rightarrow> mfunc" where
  "mf_insert it b MF = MF\<lparr>layout := insert_before it b (layout MF)\<rparr>"

definition mf_push_front :: "nat \<Rightarrow> mfunc \<Rightarrow> mfunc" where
  "mf_push_front b MF = MF\<lparr>layout := b # layout MF\<rparr>"

text \<open>\<open>BuildMI\<close> at the end of a block, and before the instruction at position \<open>i\<close>.\<close>

definition BuildMI_end :: "nat \<Rightarrow> minstr \<Rightarrow> mfunc \<Rightarrow> mfunc" where
  "BuildMI_end b MI = upd_block b (\<lambda>B. B\<lparr>insts := insts B @ [MI]\<rparr>)"

definition BuildMI_at :: "nat \<Rightarrow> nat \<Rightarrow> minstr \<Rightarrow> mfunc \<Rightarrow> mfunc" where
  "BuildMI_at b i MI = upd_block b (\<lambda>B. B\<lparr>insts := take i (insts B) @ MI # drop i (insts B)\<rparr>)"

definition erase_at :: "nat \<Rightarrow> nat \<Rightarrow> mfunc \<Rightarrow> mfunc" where
  "erase_at b i = upd_block b (\<lambda>B. B\<lparr>insts := take i (insts B) @ drop (Suc i) (insts B)\<rparr>)"

definition addPredecessor :: "nat \<Rightarrow> nat \<Rightarrow> mfunc \<Rightarrow> mfunc" where
  "addPredecessor b Pred = upd_block b (\<lambda>B. B\<lparr>Predecessors := Predecessors B @ [Pred]\<rparr>)"

definition addSuccessor :: "nat \<Rightarrow> nat \<Rightarrow> prob \<Rightarrow> mfunc \<Rightarrow> mfunc" where
  "addSuccessor this Succ Prob MF =
     addPredecessor Succ this
       (upd_block this
          (\<lambda>B. (if \<not> (Probs B = [] \<and> Successors B \<noteq> []) then B\<lparr>Probs := Probs B @ [Prob]\<rparr> else B)
                 \<lparr>Successors := Successors B @ [Succ]\<rparr>) MF)"

definition isSuccessor :: "mfunc \<Rightarrow> nat \<Rightarrow> nat \<Rightarrow> bool" where
  "isSuccessor MF this b = (b \<in> set (Successors (heap MF this)))"

definition isLayoutSuccessor :: "mfunc \<Rightarrow> nat \<Rightarrow> nat \<Rightarrow> bool" where
  "isLayoutSuccessor MF this b = (next_in (layout MF) this = Some b)"

section \<open>Frame facts\<close>

lemma upd_block_sel [simp]:
  "layout (upd_block b f MF) = layout MF"
  "fresh (upd_block b f MF) = fresh MF"
  "heap (upd_block b f MF) = (heap MF)(b := f (heap MF b))"
  by (simp_all add: upd_block_def)

lemma mf_insert_sel [simp]:
  "layout (mf_insert it b MF) = insert_before it b (layout MF)"
  "fresh (mf_insert it b MF) = fresh MF"
  "heap (mf_insert it b MF) = heap MF"
  by (simp_all add: mf_insert_def)

lemma mf_push_front_sel [simp]:
  "layout (mf_push_front b MF) = b # layout MF"
  "fresh (mf_push_front b MF) = fresh MF"
  "heap (mf_push_front b MF) = heap MF"
  by (simp_all add: mf_push_front_def)

lemma BuildMI_end_sel [simp]:
  "layout (BuildMI_end b MI MF) = layout MF"
  "fresh (BuildMI_end b MI MF) = fresh MF"
  "insts (heap (BuildMI_end b MI MF) c) =
     (if c = b then insts (heap MF b) @ [MI] else insts (heap MF c))"
  "Successors (heap (BuildMI_end b MI MF) c) = Successors (heap MF c)"
  by (simp_all add: BuildMI_end_def)

lemma BuildMI_at_sel [simp]:
  "layout (BuildMI_at b i MI MF) = layout MF"
  "fresh (BuildMI_at b i MI MF) = fresh MF"
  "insts (heap (BuildMI_at b i MI MF) c) =
     (if c = b then take i (insts (heap MF b)) @ MI # drop i (insts (heap MF b)) else insts (heap MF c))"
  "Successors (heap (BuildMI_at b i MI MF) c) = Successors (heap MF c)"
  by (simp_all add: BuildMI_at_def)

lemma erase_at_sel [simp]:
  "layout (erase_at b i MF) = layout MF"
  "fresh (erase_at b i MF) = fresh MF"
  "insts (heap (erase_at b i MF) c) =
     (if c = b then take i (insts (heap MF b)) @ drop (Suc i) (insts (heap MF b)) else insts (heap MF c))"
  "Successors (heap (erase_at b i MF) c) = Successors (heap MF c)"
  by (simp_all add: erase_at_def)

lemma addPredecessor_sel [simp]:
  "layout (addPredecessor b p MF) = layout MF"
  "fresh (addPredecessor b p MF) = fresh MF"
  "insts (heap (addPredecessor b p MF) c) = insts (heap MF c)"
  "Successors (heap (addPredecessor b p MF) c) = Successors (heap MF c)"
  by (simp_all add: addPredecessor_def)

lemma addSuccessor_sel [simp]:
  "layout (addSuccessor b s p MF) = layout MF"
  "fresh (addSuccessor b s p MF) = fresh MF"
  "insts (heap (addSuccessor b s p MF) c) = insts (heap MF c)"
  "Successors (heap (addSuccessor b s p MF) c) =
     (if c = b then Successors (heap MF c) @ [s] else Successors (heap MF c))"
  by (simp_all add: addSuccessor_def)

end
