(* ===== verification/BranchAnalysis.thy ===== *)
theory BranchAnalysis
  imports MachineIR
begin

text \<open>
  Branch analysis and branch insertion of the X86 back end
  (\<open>llvm/lib/Target/X86/X86InstrInfo.cpp\<close>) and the layout queries of
  \<open>llvm/lib/CodeGen/MachineBasicBlock.cpp\<close> that are built on them.
\<close>

section \<open>Terminators\<close>

text \<open>
  \<open>isUnpredicatedTerminator\<close>: no X86 instruction is predicable, so a terminator passes
  either the branch test or the predicability test.
\<close>

definition isUnpredicatedTerminator :: "minstr \<Rightarrow> bool" where
  "isUnpredicatedTerminator MI =
     (if \<not> isTerminator MI then False
      else if isBranch MI \<and> \<not> isBarrier MI then True
      else True)"

definition isDebugValue :: "minstr \<Rightarrow> bool" where
  "isDebugValue MI = (opc MI = DBG_VALUE)"

section \<open>Analysis\<close>

text \<open>
  \<open>getFallThroughMBB\<close> walks the successors with the candidate \<open>FallthroughBB\<close>;
  two different non-EH-pad successors besides \<open>TBB\<close> give up.
\<close>

fun getFallThroughMBB_loop :: "mfunc \<Rightarrow> nat option \<Rightarrow> nat option \<Rightarrow> nat list \<Rightarrow> nat option" where
  "getFallThroughMBB_loop MF TBB FallthroughBB [] = FallthroughBB"
| "getFallThroughMBB_loop MF TBB FallthroughBB (SI # rest) =
     (if IsEHPad (heap MF SI) \<or> (Some SI = TBB \<and> FallthroughBB \<noteq> None)
      then getFallThroughMBB_loop MF TBB FallthroughBB rest
      else if FallthroughBB \<noteq> None \<and> FallthroughBB \<noteq> TBB then None
      else getFallThroughMBB_loop MF TBB (Some SI) rest)"

definition getFallThroughMBB :: "mfunc \<Rightarrow> nat \<Rightarrow> nat option \<Rightarrow> nat option" where
  "getFallThroughMBB MF MBB TBB =
     getFallThroughMBB_loop MF TBB None (Successors (heap MF MBB))"

text \<open>
  The result of an analysis that succeeded: \<open>TBB\<close>, \<open>FBB\<close>, \<open>Cond\<close> and
  \<open>CondBranches\<close>. An analysis that gives up (\<open>return true\<close>) is \<open>None\<close>.
\<close>

record branch_info =
  TBB :: "nat option"
  FBB :: "nat option"
  Cond :: "cond_code list"
  CondBranches :: "minstr list"

definition no_branch_info :: branch_info where
  "no_branch_info = \<lparr>TBB = None, FBB = None, Cond = [], CondBranches = []\<rparr>"

text \<open>
  \<open>AnalyzeBranchImpl\<close> with \<open>AllowModify = false\<close>: the loop walks the block from its
  last instruction (the list is the reversed block), so \<open>UnCondBrIter\<close> is never read.
  One turn of the loop continues, leaves the loop at a non-terminator, or gives up.
\<close>

datatype ab_step = Continue branch_info | Break | GiveUp

text \<open>A second or later conditional branch: only two idioms of a pair are understood.\<close>

definition AnalyzeBranch_next_cond ::
  "mfunc \<Rightarrow> nat \<Rightarrow> minstr \<Rightarrow> cond_code \<Rightarrow> nat \<Rightarrow> branch_info \<Rightarrow> ab_step" where
  "AnalyzeBranch_next_cond MF MBB I BranchCode NewTBB bi =
     (let OldBranchCode = hd (Cond bi) in
      if OldBranchCode = BranchCode \<and> TBB bi = Some NewTBB then Continue bi
      else if TBB bi = Some NewTBB \<and>
              (OldBranchCode = COND_P \<and> BranchCode = COND_NE \<or>
               OldBranchCode = COND_NE \<and> BranchCode = COND_P)
      then Continue (bi\<lparr>Cond := [COND_NE_OR_P], CondBranches := CondBranches bi @ [I]\<rparr>)
      else if OldBranchCode = COND_NP \<and> BranchCode = COND_NE \<or>
              OldBranchCode = COND_E \<and> BranchCode = COND_P
      then (if Some NewTBB \<noteq> (case FBB bi of Some f \<Rightarrow> Some f
                             | None \<Rightarrow> getFallThroughMBB MF MBB (TBB bi))
            then GiveUp
            else Continue (bi\<lparr>Cond := [COND_E_AND_NP], CondBranches := CondBranches bi @ [I]\<rparr>))
      else GiveUp)"

definition AnalyzeBranch_step :: "mfunc \<Rightarrow> nat \<Rightarrow> minstr \<Rightarrow> branch_info \<Rightarrow> ab_step res" where
  "AnalyzeBranch_step MF MBB I bi =
     (if isDebugValue I then Inr (Continue bi)
      else if \<not> isUnpredicatedTerminator I then Inr Break
      else if \<not> isBranch I then Inr GiveUp
      else if opc I = JMP_1 then
        bind_res (getOperand I 0) (\<lambda>op0. bind_res (getMBB op0) (\<lambda>t.
          Inr (Continue (bi\<lparr>TBB := Some t\<rparr>))))
      else
        let BranchCode = getCondFromBranchOpc (opc I)
        in if BranchCode = COND_INVALID then Inr GiveUp
           else bind_res (getOperand I 0) (\<lambda>op0. bind_res (getMBB op0) (\<lambda>NewTBB.
             Inr (if Cond bi = [] then
                    Continue (bi\<lparr>FBB := TBB bi, TBB := Some NewTBB, Cond := [BranchCode],
                                CondBranches := CondBranches bi @ [I]\<rparr>)
                  else AnalyzeBranch_next_cond MF MBB I BranchCode NewTBB bi))))"

fun AnalyzeBranch_loop ::
  "mfunc \<Rightarrow> nat \<Rightarrow> minstr list \<Rightarrow> branch_info \<Rightarrow> branch_info option res" where
  "AnalyzeBranch_loop MF MBB [] bi = Inr (Some bi)"
| "AnalyzeBranch_loop MF MBB (I # rest) bi =
     (case AnalyzeBranch_step MF MBB I bi of
        Inl e \<Rightarrow> Inl e
      | Inr (Continue bi') \<Rightarrow> AnalyzeBranch_loop MF MBB rest bi'
      | Inr Break \<Rightarrow> Inr (Some bi)
      | Inr GiveUp \<Rightarrow> Inr None)"

definition analyzeBranch :: "mfunc \<Rightarrow> nat \<Rightarrow> branch_info option res" where
  "analyzeBranch MF MBB =
     AnalyzeBranch_loop MF MBB (rev (insts (heap MF MBB))) no_branch_info"

section \<open>Fallthrough\<close>

text \<open>\<open>MachineBasicBlock::getFallThrough\<close>; X86 instructions are never predicated.\<close>

definition getFallThrough :: "mfunc \<Rightarrow> nat \<Rightarrow> nat option res" where
  "getFallThrough MF this =
     (case next_in (layout MF) this of
        None \<Rightarrow> Inr None
      | Some Fallthrough \<Rightarrow>
          if \<not> isSuccessor MF this Fallthrough then Inr None
          else bind_res (analyzeBranch MF this) (\<lambda>r.
            case r of
              None \<Rightarrow>
                Inr (if insts (heap MF this) = [] \<or> \<not> isBarrier (last (insts (heap MF this)))
                     then Some Fallthrough else None)
            | Some bi \<Rightarrow>
                Inr (if TBB bi = None then Some Fallthrough
                     else if TBB bi = Some Fallthrough \<or> FBB bi = Some Fallthrough
                     then Some Fallthrough
                     else if Cond bi = [] then None
                     else if FBB bi = None then Some Fallthrough else None)))"

end
