(* ===== verification/BranchConversion.thy ===== *)
theory BranchConversion
  imports BranchAnalysis
begin

text \<open>
  The pass \<open>X86BranchConversion\<close> (\<open>llvm/lib/Target/X86/X86BranchConversion.cpp\<close>):
  every branch is replaced by a jump through R15 to a trampoline block placed in front of the
  function, and the pending paths (lanes) are threaded through a trampoline per skipped block.
\<close>

section \<open>State of the pass\<close>

record blockLane =
  currentMBB :: "nat option"
  DestMBB :: "nat option"
  taken :: bool

text \<open>
  The list \<open>takenBlocks\<close>, the set \<open>processedMBBs\<close> and the iterator
  \<open>iMBB\<close>. A pointer to a lane of the list is its position: erased lanes lie behind
  the one a pointer is kept to, and new lanes are appended.
\<close>

record bc_state =
  MF :: mfunc
  takenBlocks :: "blockLane list"
  processedMBBs :: "nat list"
  iMBB :: "nat option"

text \<open>\<open>targetRegOpcode\<close>, \<open>tmpReg\<close> and \<open>tmpReg8\<close>.\<close>

definition targetRegOpcode :: preg where
  "targetRegOpcode = Reg64 R15"

definition tmpReg :: preg where
  "tmpReg = Reg64 R13"

definition tmpReg8 :: preg where
  "tmpReg8 = Reg8 R13"

section \<open>Instructions the pass builds\<close>

definition mk_JMP_4 :: "nat \<Rightarrow> minstr" where
  "mk_JMP_4 b = \<lparr>opc = JMP_4, ops = [MO_MachineBasicBlock b]\<rparr>"

definition mk_JMP64r :: "preg \<Rightarrow> minstr" where
  "mk_JMP64r r = \<lparr>opc = JMP64r, ops = [MO_Register r]\<rparr>"

definition mk_LEA64r :: "preg \<Rightarrow> nat \<Rightarrow> minstr" where
  "mk_LEA64r r b =
     \<lparr>opc = LEA64r,
      ops = [MO_Register r, MO_Register RIP, MO_Immediate 0, MO_Register NoRegister,
             MO_MachineBasicBlock b, MO_Register NoRegister]\<rparr>"

definition mk_CMOV :: "opcode \<Rightarrow> minstr" where
  "mk_CMOV cmovOpcode =
     \<lparr>opc = cmovOpcode,
      ops = [MO_Register (Reg64 R11), MO_Register targetRegOpcode, MO_Register tmpReg]\<rparr>"

definition mk_ADD8ri :: minstr where
  "mk_ADD8ri = \<lparr>opc = ADD8ri, ops = [MO_Register tmpReg8, MO_Register tmpReg8, MO_Immediate 0]\<rparr>"

section \<open>Lanes and trampoline blocks\<close>

definition addBBtoBlockLane ::
  "nat option \<Rightarrow> nat option \<Rightarrow> bool \<Rightarrow> bc_state \<Rightarrow> nat \<times> bc_state" where
  "addBBtoBlockLane MBB dest tk st =
     (length (takenBlocks st),
      st\<lparr>takenBlocks := takenBlocks st @ [\<lparr>currentMBB = MBB, DestMBB = dest, taken = tk\<rparr>]\<rparr>)"

definition updateLane ::
  "nat option \<Rightarrow> nat option \<Rightarrow> nat option \<Rightarrow> bool \<Rightarrow> bc_state \<Rightarrow> bc_state" where
  "updateLane lane a b c st =
     (case lane of
        None \<Rightarrow> st
      | Some i \<Rightarrow>
          st\<lparr>takenBlocks := (takenBlocks st)[i := \<lparr>currentMBB = a, DestMBB = b, taken = c\<rparr>]\<rparr>)"

definition CreateNewBBonTrampoline :: "nat \<Rightarrow> mfunc \<Rightarrow> nat option \<Rightarrow> nat \<times> mfunc" where
  "CreateNewBBonTrampoline MBB MF0 destOnCode =
     (case CreateMachineBasicBlock MF0 of (newBlock, MF1) \<Rightarrow>
        let MF2 = mf_push_front newBlock MF1;
            MF3 = (case destOnCode of
                     None \<Rightarrow> MF2
                   | Some d \<Rightarrow>
                       addSuccessor newBlock d UnknownN (BuildMI_end newBlock (mk_JMP_4 d) MF2))
        in (newBlock, addSuccessor MBB newBlock UnknownN MF3))"

text \<open>One dummy addition for each instruction of the real block but two.\<close>

fun build_dummies :: "nat \<Rightarrow> nat \<Rightarrow> mfunc \<Rightarrow> mfunc" where
  "build_dummies b 0 MF0 = MF0"
| "build_dummies b (Suc n) MF0 = build_dummies b n (BuildMI_end b mk_ADD8ri MF0)"

definition addDummyInstructions :: "nat \<Rightarrow> nat \<Rightarrow> mfunc \<Rightarrow> mfunc" where
  "addDummyInstructions realBlock trampolineBlock MF0 =
     build_dummies trampolineBlock (length (insts (heap MF0 realBlock)) - 2) MF0"

definition getCorrespondingMovOpcode :: "minstr \<Rightarrow> opcode res" where
  "getCorrespondingMovOpcode MI = getCMovFromCond (getCondFromBranchOpc (opc MI)) 8 False"

section \<open>Replacing the end of a block\<close>

text \<open>\<open>BuildMI(MBB, iter, ...)\<close> inserts before \<open>iter\<close>, which stays on its instruction.\<close>

definition replaceNoBranchBlock ::
  "nat \<Rightarrow> nat \<Rightarrow> nat option \<Rightarrow> nat option \<Rightarrow> bc_state \<Rightarrow> bc_state res" where
  "replaceNoBranchBlock MBB iter fallThrough takenLane st =
     (if fallThrough \<noteq> None then
        case CreateNewBBonTrampoline MBB (MF st) None of (zbN_p1, MF1) \<Rightarrow>
          let st1 = updateLane takenLane (Some zbN_p1) None True (st\<lparr>MF := MF1\<rparr>)
          in Inr (st1\<lparr>MF := BuildMI_at MBB (Suc iter) (mk_LEA64r targetRegOpcode zbN_p1) (MF st1)\<rparr>)
      else Inr (updateLane takenLane None None False st))"

definition replaceIndirectJump ::
  "nat \<Rightarrow> nat \<Rightarrow> nat option \<Rightarrow> nat option \<Rightarrow> bc_state \<Rightarrow> bc_state res" where
  "replaceIndirectJump MBB iter fallThrough takenLane st =
     bind_res (getOperand (insts (heap (MF st) MBB) ! iter) 0) (\<lambda>operand.
     bind_res (assert_res ''support for non register operands is unimplemented'' (isReg operand)) (\<lambda>_.
       Inr (updateLane takenLane None None False st)))"

definition replaceUnconditionalJump ::
  "nat \<Rightarrow> nat \<Rightarrow> nat option \<Rightarrow> nat option \<Rightarrow> bc_state \<Rightarrow> bc_state res" where
  "replaceUnconditionalJump MBB iter fallThrough takenLane st =
     bind_res (getOperand (insts (heap (MF st) MBB) ! iter) 0) (\<lambda>operand.
     bind_res (assert_res ''support for non MBB operands is unimplemented'' (isMBB operand)) (\<lambda>_.
     bind_res (getMBB operand) (\<lambda>dstMBB.
       let (zbN_p1, st1) =
             (if dstMBB \<in> set (processedMBBs st) then
                case CreateNewBBonTrampoline MBB (MF st) (Some dstMBB) of (z, MF1) \<Rightarrow>
                  (z, updateLane takenLane None None False (st\<lparr>MF := MF1\<rparr>))
              else
                case CreateNewBBonTrampoline MBB (MF st) None of (z, MF1) \<Rightarrow>
                  (z, updateLane takenLane (Some z) (Some dstMBB) False (st\<lparr>MF := MF1\<rparr>)));
           MF2 = BuildMI_at MBB iter (mk_LEA64r targetRegOpcode zbN_p1) (MF st1)
       in Inr (st1\<lparr>MF := erase_at MBB (Suc iter) MF2\<rparr>))))"

definition replaceConditionalBranch ::
  "nat \<Rightarrow> nat \<Rightarrow> nat option \<Rightarrow> nat option \<Rightarrow> bc_state \<Rightarrow> bc_state res" where
  "replaceConditionalBranch MBB iter fallThrough takenLane st =
     (let MI = insts (heap (MF st) MBB) ! iter in
     bind_res (getOperand MI 0) (\<lambda>dstOperand.
     if \<not> isMBB dstOperand then Inl (Unreachable ''non MBB operands not supported'') else
     bind_res (getMBB dstOperand) (\<lambda>dstMBB.
     bind_res (getCorrespondingMovOpcode MI) (\<lambda>cmovOpcode.
       case CreateNewBBonTrampoline MBB (MF st) None of (zbN_p1_F, MF1) \<Rightarrow>
       let (zbN_p1, st1) =
             (if dstMBB \<in> set (processedMBBs st) then
                case CreateNewBBonTrampoline MBB MF1 (Some dstMBB) of (z, MF2) \<Rightarrow>
                  (z, st\<lparr>MF := MF2\<rparr>)
              else
                case CreateNewBBonTrampoline MBB MF1 None of (z, MF2) \<Rightarrow>
                  (z, snd (addBBtoBlockLane (Some z) (Some dstMBB) False (st\<lparr>MF := MF2\<rparr>))));
           MF3 = BuildMI_at MBB iter (mk_LEA64r targetRegOpcode zbN_p1_F) (MF st1);
           MF4 = BuildMI_at MBB (iter + 1) (mk_LEA64r tmpReg zbN_p1) MF3;
           MF5 = BuildMI_at MBB (iter + 2) (mk_CMOV cmovOpcode) MF4;
           MF6 = erase_at MBB (iter + 3) MF5
       in Inr (updateLane takenLane (Some zbN_p1_F) None True (st1\<lparr>MF := MF6\<rparr>))))))"

section \<open>Updating the lanes that come into a block\<close>

text \<open>
  The \<open>for\<close> loop over \<open>takenBlocks\<close>: the first list holds the lanes kept so far,
  the second those still to be visited. \<open>erase\<close> followed by \<open>laneIterator--\<close> and
  the loop's increment continues with the lane after the erased one.
\<close>

fun update_lanes ::
  "bool \<Rightarrow> nat \<Rightarrow> nat option \<Rightarrow> blockLane list \<Rightarrow> blockLane list \<Rightarrow> nat option \<Rightarrow> mfunc
    \<Rightarrow> (blockLane list \<times> nat option \<times> mfunc) res" where
  "update_lanes dummy MBB fakeBlock kept [] takenLane MF0 = Inr (kept, takenLane, MF0)"
| "update_lanes dummy MBB fakeBlock kept (lane # lanes) takenLane MF0 =
     (if taken lane \<or> DestMBB lane = Some MBB then
        let MF1 = (case currentMBB lane of
                     None \<Rightarrow> MF0
                   | Some z \<Rightarrow> addSuccessor z MBB UnknownN (BuildMI_end z (mk_JMP_4 MBB) MF0))
        in (if takenLane = None
            then update_lanes dummy MBB fakeBlock (kept @ [lane]) lanes (Some (length kept)) MF1
            else update_lanes dummy MBB fakeBlock kept lanes takenLane MF1)
      else
        case currentMBB lane of
          Some z \<Rightarrow>
            (case fakeBlock of
               None \<Rightarrow> Inl (AssertFail ''assuming this will never happen for last block'')
             | Some fb \<Rightarrow>
                 (case CreateNewBBonTrampoline MBB MF0 None of (nextZBlock, MF1) \<Rightarrow>
                    let MF2 = (if dummy then addDummyInstructions MBB z MF1 else MF1);
                        MF3 = BuildMI_end z (mk_LEA64r targetRegOpcode nextZBlock) MF2;
                        MF4 = addSuccessor z fb UnknownN (BuildMI_end z (mk_JMP_4 fb) MF3)
                    in update_lanes dummy MBB fakeBlock (kept @ [lane\<lparr>currentMBB := Some nextZBlock\<rparr>])
                         lanes takenLane MF4))
        | None \<Rightarrow> update_lanes dummy MBB fakeBlock kept lanes takenLane MF0)"

section \<open>One block\<close>

definition create_fake :: "nat \<Rightarrow> nat option \<Rightarrow> mfunc \<Rightarrow> nat option \<times> mfunc" where
  "create_fake MBB it MF0 =
     (if \<not> (it = None \<and> isReturnBlock (heap MF0 MBB)) then
        case CreateMachineBasicBlock MF0 of (fakeBlock, MF1) \<Rightarrow>
          (Some fakeBlock,
           BuildMI_end fakeBlock (mk_JMP64r targetRegOpcode) (mf_insert it fakeBlock MF1))
      else (None, MF0))"

text \<open>The dispatch on the last instruction; \<open>pos\<close> is its position.\<close>

definition split_je_jmp ::
  "nat \<Rightarrow> nat \<Rightarrow> nat option \<Rightarrow> nat option \<Rightarrow> bc_state \<Rightarrow> bc_state res" where
  "split_je_jmp MBB pos originalFallThrough takenLane st =
     bind_res (getOperand (insts (heap (MF st) MBB) ! pos) 0) (\<lambda>op0.
     bind_res (getMBB op0) (\<lambda>dst.
       case CreateMachineBasicBlock (MF st) of (newBlock, MF1) \<Rightarrow>
       let MF2 = mf_insert (iMBB st) newBlock MF1;
           MF3 = BuildMI_end newBlock
                   \<lparr>opc = opc (insts (heap (MF st) MBB) ! pos), ops = [MO_MachineBasicBlock dst]\<rparr> MF2;
           MF4 = addSuccessor MBB newBlock UnknownN MF3;
           st1 = st\<lparr>iMBB := prev_iter (layout MF4) (iMBB st), MF := erase_at MBB pos MF4\<rparr>
       in replaceConditionalBranch MBB (pos - 1) originalFallThrough takenLane st1))"

definition convert_end ::
  "nat \<Rightarrow> nat \<Rightarrow> nat option \<Rightarrow> nat option \<Rightarrow> bc_state \<Rightarrow> bc_state res" where
  "convert_end MBB pos originalFallThrough takenLane st =
     (let is = insts (heap (MF st) MBB); MI = is ! pos in
      if isUnconditionalBranch MI then
        (if pos \<noteq> 0 \<and> isConditionalBranch (is ! (pos - 1))
         then split_je_jmp MBB pos originalFallThrough takenLane st
         else replaceUnconditionalJump MBB pos originalFallThrough takenLane st)
      else if isIndirectBranch MI then
        replaceIndirectJump MBB pos originalFallThrough takenLane st
      else if isConditionalBranch MI then
        replaceConditionalBranch MBB pos originalFallThrough takenLane st
      else
        bind_res (assert_res ''either we have a fallthrough, or we return''
                    (originalFallThrough \<noteq> None \<or> isReturn MI \<or> isCall MI)) (\<lambda>_.
          replaceNoBranchBlock MBB pos originalFallThrough takenLane st))"

definition convert_block :: "bool \<Rightarrow> nat \<Rightarrow> bc_state \<Rightarrow> bc_state res" where
  "convert_block dummy MBB st0 =
     (let st1 = st0\<lparr>iMBB := next_in (layout (MF st0)) MBB,
                    processedMBBs := MBB # processedMBBs st0\<rparr> in
      bind_res (getFallThrough (MF st1) MBB) (\<lambda>originalFallThrough.
      case create_fake MBB (iMBB st1) (MF st1) of (fakeBlock, MF2) \<Rightarrow>
      bind_res (update_lanes dummy MBB fakeBlock [] (takenBlocks st1) None MF2) (\<lambda>(lanes, takenLane, MF3).
        let st3 = st1\<lparr>takenBlocks := lanes, MF := MF3\<rparr>;
            (takenLane', st4) =
              (case takenLane of
                 None \<Rightarrow> (case addBBtoBlockLane None None True st3 of (i, s) \<Rightarrow> (Some i, s))
               | Some i \<Rightarrow> (Some i, st3))
        in if insts (heap (MF st4) MBB) = [] then Inr st4
           else convert_end MBB (length (insts (heap (MF st4) MBB)) - 1)
                  originalFallThrough takenLane' st4)))"

section \<open>The pass\<close>

text \<open>
  The loop \<open>while (iMBB != MF.end())\<close>, with fuel: each block is visited once and a
  block that is split adds one more visit.
\<close>

fun convert_blocks :: "nat \<Rightarrow> bool \<Rightarrow> bc_state \<Rightarrow> bc_state res" where
  "convert_blocks fuel dummy st =
     (case iMBB st of
        None \<Rightarrow> Inr st
      | Some MBB \<Rightarrow>
          (case fuel of
             0 \<Rightarrow> Inl OutOfFuel
           | Suc fuel' \<Rightarrow> bind_res (convert_block dummy MBB st) (convert_blocks fuel' dummy)))"

declare convert_blocks.simps [simp del]

definition convert_fuel :: "mfunc \<Rightarrow> nat" where
  "convert_fuel MF0 = 2 * length (layout MF0)"

definition runOnMachineFunction :: "bool \<Rightarrow> mfunc \<Rightarrow> mfunc res" where
  "runOnMachineFunction dummy MF0 =
     (case layout MF0 of
        [] \<Rightarrow> Inl NullDeref
      | entry # _ \<Rightarrow>
          let st0 = \<lparr>MF = MF0, takenBlocks = [\<lparr>currentMBB = None, DestMBB = None, taken = True\<rparr>],
                     processedMBBs = [], iMBB = begin_iter (layout MF0)\<rparr>
          in bind_res (convert_blocks (convert_fuel MF0) dummy st0) (\<lambda>st.
               case CreateMachineBasicBlock (MF st) of (newBlock, MF1) \<Rightarrow>
                 Inr (addSuccessor newBlock entry UnknownN
                        (BuildMI_end newBlock (mk_JMP_4 entry) (mf_push_front newBlock MF1)))))"

end
