(* ===== verification/LaneThreading.thy ===== *)
theory LaneThreading
  imports BranchConversion
begin

abbreviation code :: "mfunc \<Rightarrow> nat \<Rightarrow> minstr list" where
  "code F b \<equiv> insts (heap F b)"

abbreviation succs :: "mfunc \<Rightarrow> nat \<Rightarrow> nat list" where
  "succs F b \<equiv> Successors (heap F b)"

lemma Create_sel [simp]:
  "fst (CreateMachineBasicBlock F) = fresh F"
  "layout (snd (CreateMachineBasicBlock F)) = layout F"
  "fresh (snd (CreateMachineBasicBlock F)) = Suc (fresh F)"
  "code (snd (CreateMachineBasicBlock F)) b = (if b = fresh F then [] else code F b)"
  "succs (snd (CreateMachineBasicBlock F)) b = (if b = fresh F then [] else succs F b)"
  by (simp_all add: CreateMachineBasicBlock_def empty_block_def)

lemma tramp_None_sel [simp]:
  "fst (CreateNewBBonTrampoline x F None) = fresh F"
  "layout (snd (CreateNewBBonTrampoline x F None)) = fresh F # layout F"
  "fresh (snd (CreateNewBBonTrampoline x F None)) = Suc (fresh F)"
  "code (snd (CreateNewBBonTrampoline x F None)) b = (if b = fresh F then [] else code F b)"
  "b \<noteq> x \<Longrightarrow> b \<noteq> fresh F \<Longrightarrow> succs (snd (CreateNewBBonTrampoline x F None)) b = succs F b"
  by (simp_all add: CreateNewBBonTrampoline_def split_beta Let_def)

lemma tramp_Some_sel [simp]:
  "fst (CreateNewBBonTrampoline x F (Some d)) = fresh F"
  "layout (snd (CreateNewBBonTrampoline x F (Some d))) = fresh F # layout F"
  "fresh (snd (CreateNewBBonTrampoline x F (Some d))) = Suc (fresh F)"
  "code (snd (CreateNewBBonTrampoline x F (Some d))) b = (if b = fresh F then [mk_JMP_4 d] else code F b)"
  "b \<noteq> x \<Longrightarrow> b \<noteq> fresh F \<Longrightarrow> succs (snd (CreateNewBBonTrampoline x F (Some d))) b = succs F b"
  by (simp_all add: CreateNewBBonTrampoline_def split_beta Let_def)

definition skip_lane :: "nat \<Rightarrow> blockLane \<Rightarrow> bool" where
  "skip_lane x l \<longleftrightarrow> \<not> taken l \<and> DestMBB l \<noteq> Some x \<and> currentMBB l \<noteq> None"

definition land_lane :: "nat \<Rightarrow> blockLane \<Rightarrow> bool" where
  "land_lane x l \<longleftrightarrow> taken l \<or> DestMBB l = Some x"

definition moved :: "blockLane \<Rightarrow> nat \<Rightarrow> blockLane" where
  "moved l z = l\<lparr>currentMBB := Some z\<rparr>"

lemma moved_sel [simp]:
  "currentMBB (moved l z) = Some z" "DestMBB (moved l z) = DestMBB l" "taken (moved l z) = taken l"
  by (simp_all add: moved_def)

lemma moved_inj: "moved l z = moved l' z' \<Longrightarrow> z = z'"
  by (metis moved_sel(1) option.inject)

text \<open>What one round of lane updates needs, and what it leaves.\<close>

definition lane_currents :: "blockLane list \<Rightarrow> nat set" where
  "lane_currents lanes = {z. \<exists>l\<in>set lanes. currentMBB l = Some z}"

definition lanes_pre :: "nat \<Rightarrow> nat option \<Rightarrow> blockLane list \<Rightarrow> mfunc \<Rightarrow> bool" where
  "lanes_pre x fk lanes F \<longleftrightarrow>
     (\<forall>z\<in>lane_currents lanes. z < fresh F \<and> code F z = [] \<and> z \<noteq> x) \<and>
     distinct (List.map_filter currentMBB lanes) \<and>
     (fk = None \<longrightarrow> (\<forall>l\<in>set lanes. \<not> skip_lane x l)) \<and>
     x < fresh F"

definition lanes_post ::
  "nat \<Rightarrow> nat option \<Rightarrow> blockLane list \<Rightarrow> mfunc \<Rightarrow> blockLane list \<Rightarrow> mfunc \<Rightarrow> bool" where
  "lanes_post x fk lanes F K F' \<longleftrightarrow>
     fresh F \<le> fresh F' \<and>
     layout F' = rev [fresh F..<fresh F'] @ layout F \<and>
     (\<forall>b<fresh F. b \<notin> lane_currents lanes \<longrightarrow> code F' b = code F b) \<and>
     (\<forall>b<fresh F. b \<notin> lane_currents lanes \<longrightarrow> b \<noteq> x \<longrightarrow> succs F' b = succs F b) \<and>
     (\<forall>l\<in>set lanes. \<forall>z. currentMBB l = Some z \<longrightarrow> land_lane x l \<longrightarrow> code F' z = [mk_JMP_4 x]) \<and>
     (\<forall>l\<in>set lanes. \<forall>z. currentMBB l = Some z \<longrightarrow> \<not> land_lane x l \<longrightarrow>
        (\<exists>f nz. fk = Some f \<and> moved l nz \<in> set K \<and>
           code F' z = [mk_LEA64r targetRegOpcode nz, mk_JMP_4 f])) \<and>
     (\<forall>l'\<in>set K. skip_lane x l' \<longrightarrow>
        (\<exists>l\<in>set lanes. skip_lane x l \<and>
           (\<exists>nz. l' = moved l nz \<and> fresh F \<le> nz \<and> nz < fresh F' \<and> code F' nz = []))) \<and>
     distinct (List.map_filter currentMBB (filter (skip_lane x) K)) \<and>
     fresh F' \<le> fresh F + length lanes \<and> length K \<le> length lanes"

definition taken_spec :: "nat \<Rightarrow> nat option \<Rightarrow> nat \<Rightarrow> blockLane list \<Rightarrow> nat option \<Rightarrow> bool" where
  "taken_spec x tk0 n K tk' \<longleftrightarrow>
     (if tk0 \<noteq> None then tk' = tk0 \<and> (\<forall>l\<in>set K. skip_lane x l)
      else (tk' = None \<and> (\<forall>l\<in>set K. skip_lane x l)) \<or>
           (\<exists>A l B. K = A @ l # B \<and> tk' = Some (n + length A) \<and> land_lane x l \<and>
              (\<forall>l'\<in>set A \<union> set B. skip_lane x l')))"

lemma land_not_skip: "land_lane x l \<Longrightarrow> \<not> skip_lane x l"
  by (auto simp: land_lane_def skip_lane_def)

lemma map_filter_Cons [simp]:
  "List.map_filter f (x # xs) =
     (case f x of None \<Rightarrow> List.map_filter f xs | Some y \<Rightarrow> y # List.map_filter f xs)"
  "List.map_filter f [] = []"
  "List.map_filter f (xs @ ys) = List.map_filter f xs @ List.map_filter f ys"
  by (simp_all add: List.map_filter_def split: option.split)

lemma set_currents [simp]: "set (List.map_filter currentMBB xs) = lane_currents xs"
  by (auto simp: List.map_filter_def lane_currents_def) force

lemma lane_currents_simps [simp]:
  "lane_currents [] = {}"
  "lane_currents (l # xs) = set_option (currentMBB l) \<union> lane_currents xs"
  "lane_currents (xs @ ys) = lane_currents xs \<union> lane_currents ys"
  by (auto simp: lane_currents_def)

lemma lane_currents_mem: "l \<in> set xs \<Longrightarrow> currentMBB l = Some z \<Longrightarrow> z \<in> lane_currents xs"
  by (auto simp: lane_currents_def)

lemma lanes_preD:
  assumes "lanes_pre x fk (l # lanes) F"
  shows "lanes_pre x fk lanes F"
    and "currentMBB l = Some z \<Longrightarrow> z < fresh F \<and> code F z = [] \<and> z \<noteq> x \<and> z \<notin> lane_currents lanes"
    and "fk = None \<Longrightarrow> \<not> skip_lane x l"
  using assms by (auto simp: lanes_pre_def split: option.splits)

lemma lanes_pre_frame:
  assumes "lanes_pre x fk lanes F" and "fresh F \<le> fresh F'"
    and "\<And>z. z \<in> lane_currents lanes \<Longrightarrow> code F' z = code F z"
  shows "lanes_pre x fk lanes F'"
  using assms by (auto simp: lanes_pre_def)

lemma lanes_postD:
  assumes "lanes_post x fk lanes F K F'"
  shows "fresh F \<le> fresh F'"
    and "layout F' = rev [fresh F..<fresh F'] @ layout F"
    and "b < fresh F \<Longrightarrow> b \<notin> lane_currents lanes \<Longrightarrow> code F' b = code F b"
    and "b < fresh F \<Longrightarrow> b \<notin> lane_currents lanes \<Longrightarrow> b \<noteq> x \<Longrightarrow> succs F' b = succs F b"
    and "l \<in> set lanes \<Longrightarrow> currentMBB l = Some z \<Longrightarrow> land_lane x l \<Longrightarrow> code F' z = [mk_JMP_4 x]"
    and "l \<in> set lanes \<Longrightarrow> currentMBB l = Some z \<Longrightarrow> \<not> land_lane x l \<Longrightarrow>
        \<exists>f nz. fk = Some f \<and> moved l nz \<in> set K \<and> code F' z = [mk_LEA64r targetRegOpcode nz, mk_JMP_4 f]"
    and "l' \<in> set K \<Longrightarrow> skip_lane x l' \<Longrightarrow>
        \<exists>l\<in>set lanes. skip_lane x l \<and>
           (\<exists>nz. l' = moved l nz \<and> fresh F \<le> nz \<and> nz < fresh F' \<and> code F' nz = [])"
    and "distinct (List.map_filter currentMBB (filter (skip_lane x) K))"
    and "fresh F' \<le> fresh F + length lanes" and "length K \<le> length lanes"
  using assms unfolding lanes_post_def by (elim conjE; meson)+

lemma lanes_post_land:
  assumes post: "lanes_post x fk lanes F1 K F'" and pre: "lanes_pre x fk (l # lanes) F"
    and land: "land_lane x l"
    and c1: "\<And>b. code F1 b = (if currentMBB l = Some b then code F b @ [mk_JMP_4 x] else code F b)"
    and s1: "\<And>b. currentMBB l \<noteq> Some b \<Longrightarrow> succs F1 b = succs F b"
    and l1: "layout F1 = layout F" "fresh F1 = fresh F"
    and K1: "K1 = K \<or> K1 = l # K"
  shows "lanes_post x fk (l # lanes) F K1 F'"
proof -
  have cz: "code F' z = [mk_JMP_4 x]" if z: "currentMBB l = Some z" for z
    using lanes_preD(2) [OF pre z] post z by (auto simp: lanes_post_def l1 c1)
  have K1': "filter (skip_lane x) K1 = filter (skip_lane x) K" "set K \<subseteq> set K1"
    "\<And>l'. l' \<in> set K1 \<Longrightarrow> skip_lane x l' \<Longrightarrow> l' \<in> set K"
    using K1 land_not_skip [OF land] by auto
  note D = lanes_postD [OF post, unfolded l1]
  have old: "\<forall>b<fresh F. b \<notin> lane_currents (l # lanes) \<longrightarrow> code F' b = code F b"
    "\<forall>b<fresh F. b \<notin> lane_currents (l # lanes) \<longrightarrow> b \<noteq> x \<longrightarrow> succs F' b = succs F b"
    using D(3,4) by (auto simp: c1 s1)
  have landing: "\<forall>l0\<in>set (l # lanes). \<forall>z. currentMBB l0 = Some z \<longrightarrow> land_lane x l0 \<longrightarrow>
      code F' z = [mk_JMP_4 x]"
    using D(5) cz by auto
  have skipping: "\<forall>l0\<in>set (l # lanes). \<forall>z. currentMBB l0 = Some z \<longrightarrow> \<not> land_lane x l0 \<longrightarrow>
      (\<exists>f n. fk = Some f \<and> moved l0 n \<in> set K1 \<and>
         code F' z = [mk_LEA64r targetRegOpcode n, mk_JMP_4 f])"
    using D(6) land K1'(2) by fastforce
  have origin: "\<forall>l'\<in>set K1. skip_lane x l' \<longrightarrow>
      (\<exists>l0\<in>set (l # lanes). skip_lane x l0 \<and>
         (\<exists>n. l' = moved l0 n \<and> fresh F \<le> n \<and> n < fresh F' \<and> code F' n = []))"
    using D(7) K1'(3) by fastforce
  have sizes: "fresh F' \<le> fresh F + length (l # lanes)" "length K1 \<le> length (l # lanes)"
    using D(9,10) K1 by auto
  show ?thesis
    unfolding lanes_post_def
    using D(1,2,8) old landing skipping origin K1'(1) sizes
    by (intro conjI) (simp only:; assumption?)+
qed

lemma lanes_post_skip:
  assumes post: "lanes_post x fk lanes F1 K F'" and pre: "lanes_pre x fk (l # lanes) F"
    and sk: "skip_lane x l" and cur: "currentMBB l = Some z" and f: "fk = Some f"
    and nz: "nz = fresh F"
    and c1: "\<And>b. code F1 b = (if b = z then [mk_LEA64r targetRegOpcode nz, mk_JMP_4 f]
                             else if b = nz then [] else code F b)"
    and s1: "\<And>b. b \<noteq> z \<Longrightarrow> b \<noteq> x \<Longrightarrow> b \<noteq> nz \<Longrightarrow> succs F1 b = succs F b"
    and l1: "layout F1 = nz # layout F" "fresh F1 = Suc nz"
  shows "lanes_post x fk (l # lanes) F (moved l nz # K) F'"
proof -
  note zz = lanes_preD(2) [OF pre cur]
  have nzn: "nz \<notin> lane_currents lanes"
    using pre nz by (auto simp: lanes_pre_def)
  have cnz: "code F' nz = []" and cz: "code F' z = [mk_LEA64r targetRegOpcode nz, mk_JMP_4 f]"
    using post zz nzn nz by (auto simp: lanes_post_def l1 c1)
  have sk': "skip_lane x (moved l nz)" using sk by (simp add: skip_lane_def)
  have nl: "\<not> land_lane x l" using sk land_not_skip by blast
  have le: "Suc nz \<le> fresh F'" using post by (simp add: lanes_post_def l1)
  have lay: "layout F' = rev [fresh F..<fresh F'] @ layout F"
    using post le by (simp add: lanes_post_def l1 nz upt_rec [of "fresh F"])
  have old: "\<forall>b<fresh F. b \<notin> lane_currents (l # lanes) \<longrightarrow> code F' b = code F b"
    "\<forall>b<fresh F. b \<notin> lane_currents (l # lanes) \<longrightarrow> b \<noteq> x \<longrightarrow> succs F' b = succs F b"
    using post cur nz by (auto simp: lanes_post_def l1 c1 s1)
  have landing: "\<forall>l0\<in>set (l # lanes). \<forall>z. currentMBB l0 = Some z \<longrightarrow> land_lane x l0 \<longrightarrow>
      code F' z = [mk_JMP_4 x]"
    using post nl by (simp add: lanes_post_def)
  have skipping: "\<forall>l0\<in>set (l # lanes). \<forall>z. currentMBB l0 = Some z \<longrightarrow> \<not> land_lane x l0 \<longrightarrow>
      (\<exists>f n. fk = Some f \<and> moved l0 n \<in> set (moved l nz # K) \<and>
         code F' z = [mk_LEA64r targetRegOpcode n, mk_JMP_4 f])"
  proof (intro ballI allI impI)
    fix l0 z0
    assume l0: "l0 \<in> set (l # lanes)" "currentMBB l0 = Some z0" "\<not> land_lane x l0"
    show "\<exists>f n. fk = Some f \<and> moved l0 n \<in> set (moved l nz # K) \<and>
        code F' z0 = [mk_LEA64r targetRegOpcode n, mk_JMP_4 f]"
    proof (cases "l0 = l")
      case True
      with l0 cz cur f show ?thesis by auto
    next
      case False
      with l0 lanes_postD(6) [OF post] show ?thesis by fastforce
    qed
  qed
  have origin: "\<forall>l'\<in>set K. skip_lane x l' \<longrightarrow>
      (\<exists>l0\<in>set lanes. skip_lane x l0 \<and>
         (\<exists>n. l' = moved l0 n \<and> Suc nz \<le> n \<and> n < fresh F' \<and> code F' n = []))"
    using post by (simp add: lanes_post_def l1)
  then have origin': "\<forall>l'\<in>set (moved l nz # K). skip_lane x l' \<longrightarrow>
      (\<exists>l0\<in>set (l # lanes). skip_lane x l0 \<and>
         (\<exists>n. l' = moved l0 n \<and> fresh F \<le> n \<and> n < fresh F' \<and> code F' n = []))"
  proof (intro ballI impI)
    fix l'
    assume l': "l' \<in> set (moved l nz # K)" "skip_lane x l'"
    show "\<exists>l0\<in>set (l # lanes). skip_lane x l0 \<and>
        (\<exists>n. l' = moved l0 n \<and> fresh F \<le> n \<and> n < fresh F' \<and> code F' n = [])"
    proof (cases "l' \<in> set K")
      case True
      with origin l'(2) nz show ?thesis by (meson Suc_leD list.set_intros(2))
    next
      case False
      with l' cnz sk le nz show ?thesis by auto
    qed
  qed
  have "nz \<notin> lane_currents (filter (skip_lane x) K)"
    using origin by (fastforce simp: lane_currents_def)
  then have dist: "distinct (List.map_filter currentMBB (filter (skip_lane x) (moved l nz # K)))"
    using post sk' by (simp add: lanes_post_def)
  show ?thesis
    unfolding lanes_post_def
    by (intro conjI lay old landing skipping origin' dist)
       (use le nz lanes_postD(9,10) [OF post] l1 in simp_all)
qed

lemma update_lanes_ok:
  assumes "lanes_pre x fk lanes F"
  shows "\<exists>K tk' F'. update_lanes False x fk kept lanes tk0 F = Inr (kept @ K, tk', F') \<and>
           lanes_post x fk lanes F K F' \<and> taken_spec x tk0 (length kept) K tk'"
  using assms
proof (induction lanes arbitrary: kept tk0 F)
  case Nil
  show ?case
    by (rule exI [where x = "[]"], rule exI [where x = tk0], rule exI [where x = F])
       (simp add: lanes_post_def taken_spec_def)
next
  case (Cons l lanes)
  note pre = Cons.prems
  show ?case
  proof (cases "land_lane x l")
    case land: True
    define F1 where "F1 = (case currentMBB l of None \<Rightarrow> F
        | Some z \<Rightarrow> addSuccessor z x UnknownN (BuildMI_end z (mk_JMP_4 x) F))"
    have c1: "\<And>b. code F1 b = (if currentMBB l = Some b then code F b @ [mk_JMP_4 x] else code F b)"
      by (auto simp: F1_def split: option.splits)
    have s1: "\<And>b. currentMBB l \<noteq> Some b \<Longrightarrow> succs F1 b = succs F b"
      by (auto simp: F1_def split: option.splits)
    have l1: "layout F1 = layout F" "fresh F1 = fresh F"
      by (auto simp: F1_def split: option.splits)
    have pre1: "lanes_pre x fk lanes F1"
      by (rule lanes_pre_frame [OF lanes_preD(1) [OF pre]])
         (use lanes_preD(2) [OF pre] in \<open>auto simp: c1 l1\<close>)
    define kept1 tk1 where "kept1 = (if tk0 = None then kept @ [l] else kept)"
      and "tk1 = (if tk0 = None then Some (length kept) else tk0)"
    from Cons.IH [OF pre1, of kept1 tk1] obtain K tk' F' where
      step: "update_lanes False x fk kept1 lanes tk1 F1 = Inr (kept1 @ K, tk', F')"
      and post: "lanes_post x fk lanes F1 K F'" and tk: "taken_spec x tk1 (length kept1) K tk'"
      by blast
    define K1 where "K1 = (if tk0 = None then l # K else K)"
    have "update_lanes False x fk kept (l # lanes) tk0 F = Inr (kept @ K1, tk', F')"
      using step land by (auto simp: land_lane_def kept1_def tk1_def K1_def F1_def Let_def)
    moreover have "lanes_post x fk (l # lanes) F K1 F'"
      by (rule lanes_post_land [OF post pre land c1 s1 l1]) (simp_all add: K1_def)
    moreover have "taken_spec x tk0 (length kept) K1 tk'"
    proof (cases "tk0 = None")
      case True
      with tk have "tk' = Some (length kept)" "\<forall>l\<in>set K. skip_lane x l"
        by (auto simp: taken_spec_def tk1_def)
      with True land show ?thesis
        unfolding taken_spec_def K1_def
        by (auto intro!: exI [where x = "[]"])
    next
      case False
      with tk show ?thesis by (auto simp: taken_spec_def tk1_def K1_def)
    qed
    ultimately show ?thesis by blast
  next
    case noland: False
    show ?thesis
    proof (cases "currentMBB l")
      case None
      with noland have eq: "update_lanes False x fk kept (l # lanes) tk0 F = update_lanes False x fk kept lanes tk0 F"
        by (simp add: land_lane_def)
      from Cons.IH [OF lanes_preD(1) [OF pre], of kept tk0] obtain K tk' F' where
        "update_lanes False x fk kept lanes tk0 F = Inr (kept @ K, tk', F')"
        "lanes_post x fk lanes F K F'" "taken_spec x tk0 (length kept) K tk'"
        by blast
      moreover from this(2) None noland have "lanes_post x fk (l # lanes) F K F'"
        by (auto simp: lanes_post_def)
      ultimately show ?thesis using eq by metis
    next
      case (Some z)
      with noland have sk: "skip_lane x l"
        by (simp add: skip_lane_def land_lane_def)
      with lanes_preD(3) [OF pre] obtain f where f: "fk = Some f"
        by (cases fk) auto
      note z = lanes_preD(2) [OF pre Some]
      define nz F1 where "nz = fresh F" and
        "F1 = addSuccessor z f UnknownN (BuildMI_end z (mk_JMP_4 f)
                (BuildMI_end z (mk_LEA64r targetRegOpcode nz) (snd (CreateNewBBonTrampoline x F None))))"
      have c1: "\<And>b. code F1 b = (if b = z then [mk_LEA64r targetRegOpcode nz, mk_JMP_4 f]
                             else if b = nz then [] else code F b)"
        using z by (simp add: F1_def nz_def)
      have s1: "\<And>b. b \<noteq> z \<Longrightarrow> b \<noteq> x \<Longrightarrow> b \<noteq> nz \<Longrightarrow> succs F1 b = succs F b"
        by (simp add: F1_def nz_def)
      have l1: "layout F1 = nz # layout F" "fresh F1 = Suc nz"
        by (simp_all add: F1_def nz_def)
      have eq: "update_lanes False x fk kept (l # lanes) tk0 F =
                update_lanes False x fk (kept @ [moved l nz]) lanes tk0 F1"
        using noland Some f
        by (simp add: land_lane_def split_beta Let_def F1_def nz_def moved_def)
      have "nz \<notin> lane_currents lanes"
        using pre by (auto simp: lanes_pre_def nz_def)
      then have pre1: "lanes_pre x fk lanes F1"
        by (intro lanes_pre_frame [OF lanes_preD(1) [OF pre]])
           (use z in \<open>auto simp: c1 l1 nz_def\<close>)
      from Cons.IH [OF pre1, of "kept @ [moved l nz]" tk0] obtain K tk' F' where
        step: "update_lanes False x fk (kept @ [moved l nz]) lanes tk0 F1 = Inr (kept @ moved l nz # K, tk', F')"
        and post: "lanes_post x fk lanes F1 K F'" and tk: "taken_spec x tk0 (Suc (length kept)) K tk'"
        by auto
      have sk': "skip_lane x (moved l nz)" using sk by (simp add: skip_lane_def)
      have "lanes_post x fk (l # lanes) F (moved l nz # K) F'"
        by (rule lanes_post_skip [OF post pre sk Some f nz_def c1 s1 l1])
      moreover have "taken_spec x tk0 (length kept) (moved l nz # K) tk'"
      proof (cases "tk0 = None \<and> tk' \<noteq> None")
        case True
        with tk obtain A l0 B where K: "K = A @ l0 # B" "tk' = Some (Suc (length kept) + length A)"
            "land_lane x l0" "\<forall>l'\<in>set A \<union> set B. skip_lane x l'"
          by (auto simp: taken_spec_def)
        then have "moved l nz # K = (moved l nz # A) @ l0 # B" "tk' = Some (length kept + length (moved l nz # A))"
          "\<forall>l'\<in>set (moved l nz # A) \<union> set B. skip_lane x l'"
          using sk' by auto
        with True K(3) show ?thesis unfolding taken_spec_def by metis
      next
        case False
        with tk sk' show ?thesis by (auto simp: taken_spec_def split: if_splits)
      qed
      ultimately show ?thesis using eq step by auto
    qed
  qed
qed

end
