(* ===== verification/MachineSem.thy ===== *)
theory MachineSem
  imports MachineIR
begin

text \<open>
  What machine code does when it runs: a deterministic small-step semantics of functions in
  the representation of \<open>MachineIR\<close>. Jumps, returns, \<open>LEA\<close> of a block address,
  64-bit \<open>CMOV\<close> and \<open>ADD8ri\<close> have their documented meaning; every other
  instruction is straight-line code whose effect is a parameter of the machine.
\<close>

section \<open>Machine states\<close>

record 'm mstate =
  regs :: "gpr \<Rightarrow> 64 word"
  flags :: eflags
  mem :: 'm

text \<open>
  \<open>loc\<close> gives the address of each block, \<open>compute\<close> the effect of a straight-line
  instruction, \<open>load\<close> the pointer a memory operand holds and \<open>noreturn\<close> the calls
  that do not come back.
\<close>

record 'm machine =
  loc :: "nat \<Rightarrow> 64 word"
  compute :: "minstr \<Rightarrow> 'm mstate \<Rightarrow> 'm mstate"
  load :: "minstr \<Rightarrow> 'm mstate \<Rightarrow> 64 word"
  noreturn :: "minstr \<Rightarrow> bool"

datatype 'm config =
    Run nat nat "'m mstate"
  | Returned "'m mstate"
  | Stuck

section \<open>One instruction\<close>

definition set_reg :: "gpr \<Rightarrow> 64 word \<Rightarrow> 'm mstate \<Rightarrow> 'm mstate" where
  "set_reg r v s = s\<lparr>regs := (regs s)(r := v)\<rparr>"

definition low_byte_add :: "gpr \<Rightarrow> int \<Rightarrow> 'm mstate \<Rightarrow> 'm mstate" where
  "low_byte_add r k s =
     (let old = ucast (regs s r) :: 8 word;
          new = old + word_of_int k
      in set_reg r (or (and (regs s r) (not 0xFF)) (ucast new))
           (s\<lparr>flags := \<lparr>CF = new < old, PF = even (length (filter (bit new) [0..<8])),
                       ZF = (new = 0), SF = (sint new < 0),
                       OF = (sint new \<noteq> sint old + sint (word_of_int k :: 8 word))\<rparr>\<rparr>))"

text \<open>
  The effect of an instruction that does not transfer control. A \<open>CMOV64rr\<close> has its
  first operand tied to the second, and only the second is encoded.
\<close>

definition exec_straight :: "'m machine \<Rightarrow> minstr \<Rightarrow> 'm mstate \<Rightarrow> 'm mstate" where
  "exec_straight M MI s =
     (case (opc MI, ops MI) of
        (LEA64r, [MO_Register (Reg64 r), MO_Register RIP, MO_Immediate k, MO_Register NoRegister,
                  MO_MachineBasicBlock b, MO_Register NoRegister]) \<Rightarrow>
          set_reg r (loc M b + word_of_int k) s
      | (CMOV64rr m, [MO_Register _, MO_Register (Reg64 dst), MO_Register (Reg64 src)]) \<Rightarrow>
          (if cond_holds (mnem_cond m) (flags s) then set_reg dst (regs s src) s else s)
      | (ADD8ri, [MO_Register _, MO_Register (Reg8 r), MO_Immediate k]) \<Rightarrow> low_byte_add r k s
      | _ \<Rightarrow> compute M MI s)"

definition block_at :: "'m machine \<Rightarrow> mfunc \<Rightarrow> 64 word \<Rightarrow> nat option" where
  "block_at M F a = List.find (\<lambda>b. loc M b = a) (layout F)"

definition goto :: "nat option \<Rightarrow> 'm mstate \<Rightarrow> 'm config" where
  "goto b s = (case b of None \<Rightarrow> Stuck | Some t \<Rightarrow> Run t 0 s)"

definition jump_target :: "minstr \<Rightarrow> nat option" where
  "jump_target MI = (case ops MI of MO_MachineBasicBlock t # _ \<Rightarrow> Some t | _ \<Rightarrow> None)"

definition exec_instr :: "'m machine \<Rightarrow> mfunc \<Rightarrow> nat \<Rightarrow> nat \<Rightarrow> minstr \<Rightarrow> 'm mstate \<Rightarrow> 'm config" where
  "exec_instr M F b i MI s =
     (let jcc = (\<lambda>m. if cond_holds (mnem_cond m) (flags s) then goto (jump_target MI) s
                     else Run b (Suc i) s)
      in case opc MI of
        Jcc_1 m \<Rightarrow> jcc m
      | Jcc_2 m \<Rightarrow> jcc m
      | Jcc_4 m \<Rightarrow> jcc m
      | JRCXZ \<Rightarrow> (if regs s RCX = 0 then goto (jump_target MI) s else Run b (Suc i) s)
      | JMP_1 \<Rightarrow> goto (jump_target MI) s
      | JMP_2 \<Rightarrow> goto (jump_target MI) s
      | JMP_4 \<Rightarrow> goto (jump_target MI) s
      | JMP64r \<Rightarrow> (case ops MI of
                      [MO_Register (Reg64 r)] \<Rightarrow> goto (block_at M F (regs s r)) s
                    | _ \<Rightarrow> Stuck)
      | JMP64m \<Rightarrow> goto (block_at M F (load M MI s)) s
      | RETQ \<Rightarrow> Returned s
      | TCRETURNdi64 \<Rightarrow> Returned s
      | _ \<Rightarrow> if isCall MI \<and> noreturn M MI then Returned s
             else Run b (Suc i) (exec_straight M MI s))"

section \<open>Steps and runs\<close>

text \<open>Past the last instruction of a block, control falls to the next block of the layout.\<close>

fun mstep :: "'m machine \<Rightarrow> mfunc \<Rightarrow> 'm config \<Rightarrow> 'm config" where
  "mstep M F (Run b i s) =
     (if i < length (insts (heap F b)) then exec_instr M F b i (insts (heap F b) ! i) s
      else goto (next_in (layout F) b) s)"
| "mstep M F (Returned s) = Returned s"
| "mstep M F Stuck = Stuck"

fun mrun :: "'m machine \<Rightarrow> mfunc \<Rightarrow> nat \<Rightarrow> 'm config \<Rightarrow> 'm config" where
  "mrun M F 0 c = c"
| "mrun M F (Suc n) c = mrun M F n (mstep M F c)"

definition mstart :: "mfunc \<Rightarrow> 'm mstate \<Rightarrow> 'm config" where
  "mstart F s = goto (begin_iter (layout F)) s"

lemma mrun_add: "mrun M F (m + n) c = mrun M F n (mrun M F m c)"
  by (induction m arbitrary: c) simp_all

lemma goto_simps [simp]: "goto (Some t) s = Run t 0 s" "goto None s = Stuck"
  by (simp_all add: goto_def)

lemma block_at_mem: "block_at M F a = Some b \<Longrightarrow> b \<in> set (layout F) \<and> loc M b = a"
  by (auto simp: block_at_def find_Some_iff)

lemma block_at_loc:
  assumes "inj_on (loc M) (set (layout F))" and "b \<in> set (layout F)"
  shows "block_at M F (loc M b) = Some b"
proof -
  have "List.find (\<lambda>c. loc M c = loc M b) xs = (if b \<in> set xs then Some b else None)"
    if "set xs \<subseteq> set (layout F)" for xs
    using that assms(2) by (induction xs) (auto dest: inj_onD [OF assms(1)])
  with assms(2) show ?thesis by (simp add: block_at_def)
qed

end
