(* ===== verification/EndConversion.thy ===== *)
theory EndConversion
  imports BlockEnds
begin

text \<open>
  What \<open>convert_end\<close> leaves behind, for each ending of a block: the new code of the
  block, the trampoline blocks it creates and the lanes it opens. The functions
  \<open>end_code\<close>, \<open>end_tramps\<close>, \<open>end_taken\<close> and \<open>end_added\<close> state
  it, and \<open>convert_end_ok\<close> proves that the four replacement functions do just that.
\<close>

section \<open>The code that replaces an ending\<close>

definition lea_target :: "nat \<Rightarrow> minstr" where
  "lea_target z = mk_LEA64r targetRegOpcode z"

definition cond_target :: "mnem \<Rightarrow> nat \<Rightarrow> nat \<Rightarrow> minstr list" where
  "cond_target m zF zT =
     [mk_LEA64r targetRegOpcode zF, mk_LEA64r tmpReg zT, mk_CMOV (CMOV64rr m)]"

lemma getCMovFromCond_mnem: "getCMovFromCond (mnem_cond m) 8 False = Inr (CMOV64rr m)"
  by (cases m) (simp_all add: getCMovFromCond_def CMOV_Opc_def)

lemma getCorrespondingMovOpcode_jcc:
  "is_jcc j m t \<Longrightarrow> getCorrespondingMovOpcode j = Inr (CMOV64rr m)"
  by (simp add: getCorrespondingMovOpcode_def is_jcc_flags(7) getCMovFromCond_mnem)

text \<open>
  The state after the end of block \<open>x\<close> was rewritten: the code of \<open>x\<close>, the new
  trampoline blocks \<open>zs\<close> (in the order of the layout) with their code, and the lanes.
\<close>

definition ended ::
  "nat \<Rightarrow> minstr list \<Rightarrow> (nat \<times> minstr list) list \<Rightarrow> blockLane list \<Rightarrow> bc_state \<Rightarrow> bc_state \<Rightarrow> bool" where
  "ended x cx zs ls st st' \<longleftrightarrow>
     layout (MF st') = map fst zs @ layout (MF st) \<and>
     fresh (MF st') = fresh (MF st) + length zs \<and>
     map fst zs = rev [fresh (MF st)..<fresh (MF st')] \<and>
     code (MF st') x = cx \<and>
     (\<forall>(z, c)\<in>set zs. code (MF st') z = c) \<and>
     (\<forall>b<fresh (MF st). b \<noteq> x \<longrightarrow>
        code (MF st') b = code (MF st) b \<and> succs (MF st') b = succs (MF st) b) \<and>
     takenBlocks st' = ls \<and> iMBB st' = iMBB st \<and> processedMBBs st' = processedMBBs st"

lemma updateLane_sel [simp]:
  "MF (updateLane ln a b c st) = MF st"
  "iMBB (updateLane ln a b c st) = iMBB st"
  "processedMBBs (updateLane ln a b c st) = processedMBBs st"
  "takenBlocks (updateLane (Some i) a b c st) =
     (takenBlocks st)[i := \<lparr>currentMBB = a, DestMBB = b, taken = c\<rparr>]"
  by (simp_all add: updateLane_def split: option.split)

lemma replaceNoBranchBlock_fall:
  assumes "code (MF st) x = body" "body \<noteq> []" "x < fresh (MF st)"
    and "takenBlocks st = A @ l # B" "ft \<noteq> None"
  defines "z \<equiv> fresh (MF st)"
  shows "\<exists>st'. replaceNoBranchBlock x (length body - 1) ft (Some (length A)) st = Inr st' \<and>
    ended x (body @ [lea_target z]) [(z, [])]
      (A @ \<lparr>currentMBB = Some z, DestMBB = None, taken = True\<rparr> # B) st st'"
  using assms
  by (auto simp: replaceNoBranchBlock_def split_beta Let_def ended_def lea_target_def)

lemma replaceNoBranchBlock_stop:
  assumes "takenBlocks st = A @ l # B"
  shows "\<exists>st'. replaceNoBranchBlock x i None (Some (length A)) st = Inr st' \<and>
    ended x (code (MF st) x) [] (A @ \<lparr>currentMBB = None, DestMBB = None, taken = False\<rparr> # B) st st'"
  using assms by (auto simp: replaceNoBranchBlock_def ended_def)

lemma replaceIndirectJump_ok:
  assumes "code (MF st) x = body @ [k]" "is_indirect k" "takenBlocks st = A @ l # B"
  shows "\<exists>st'. replaceIndirectJump x (length body) ft (Some (length A)) st = Inr st' \<and>
    ended x (body @ [k]) [] (A @ \<lparr>currentMBB = None, DestMBB = None, taken = False\<rparr> # B) st st'"
proof -
  from assms(2) obtain op where "getOperand k 0 = Inr op" "isReg op"
    by (cases "ops k") (auto simp: is_indirect_def getOperand_def)
  with assms show ?thesis by (simp add: replaceIndirectJump_def ended_def)
qed

lemma replaceUnconditionalJump_ok:
  assumes "code (MF st) x = body @ [k]" "is_jmp k u" "x < fresh (MF st)"
    and "takenBlocks st = A @ l # B"
  defines "z \<equiv> fresh (MF st)"
  shows "\<exists>st'. replaceUnconditionalJump x (length body) ft (Some (length A)) st = Inr st' \<and>
    ended x (body @ [lea_target z])
      [(z, if u \<in> set (processedMBBs st) then [mk_JMP_4 u] else [])]
      (A @ (if u \<in> set (processedMBBs st)
            then \<lparr>currentMBB = None, DestMBB = None, taken = False\<rparr>
            else \<lparr>currentMBB = Some z, DestMBB = Some u, taken = False\<rparr>) # B) st st'"
proof -
  from assms(2) have "getOperand k 0 = Inr (MO_MachineBasicBlock u)"
    by (simp add: is_jmp_def jump_target_operand)
  with assms show ?thesis
    by (auto simp: replaceUnconditionalJump_def split_beta Let_def ended_def lea_target_def)
qed

lemma replaceConditionalBranch_ok:
  assumes "code (MF st) x = body @ [j]" "is_jcc j m t" "x < fresh (MF st)"
    and "takenBlocks st = A @ l # B"
  defines "zF \<equiv> fresh (MF st)" and "zT \<equiv> Suc (fresh (MF st))"
  shows "\<exists>st'. replaceConditionalBranch x (length body) ft (Some (length A)) st = Inr st' \<and>
    ended x (body @ cond_target m zF zT)
      [(zT, if t \<in> set (processedMBBs st) then [mk_JMP_4 t] else []), (zF, [])]
      (A @ \<lparr>currentMBB = Some zF, DestMBB = None, taken = True\<rparr> # B @
        (if t \<in> set (processedMBBs st) then []
         else [\<lparr>currentMBB = Some zT, DestMBB = Some t, taken = False\<rparr>])) st st'"
proof -
  from assms(2) have "getOperand j 0 = Inr (MO_MachineBasicBlock t)"
    by (simp add: is_jcc_def jump_target_operand)
  with assms getCorrespondingMovOpcode_jcc [OF assms(2)] show ?thesis
    by (auto simp: replaceConditionalBranch_def split_beta Let_def ended_def cond_target_def
        addBBtoBlockLane_def numeral_eq_Suc list_update_append)
qed

section \<open>All endings at once\<close>

fun end_code :: "ending \<Rightarrow> minstr list \<Rightarrow> minstr list \<Rightarrow> nat \<Rightarrow> minstr list" where
  "end_code (ECond m t) body T n = body @ cond_target m n (Suc n)"
| "end_code (ECondJmp m t u) body T n = body @ cond_target m n (Suc n)"
| "end_code (EJump u) body T n = body @ [lea_target n]"
| "end_code EFall body T n = body @ [lea_target n]"
| "end_code _ body T n = body @ T"

definition tramp_code :: "nat set \<Rightarrow> nat \<Rightarrow> minstr list" where
  "tramp_code P t = (if t \<in> P then [mk_JMP_4 t] else [])"

fun end_tramps :: "nat set \<Rightarrow> ending \<Rightarrow> nat \<Rightarrow> (nat \<times> minstr list) list" where
  "end_tramps P (ECond m t) n = [(Suc n, tramp_code P t), (n, [])]"
| "end_tramps P (ECondJmp m t u) n = [(Suc n, tramp_code P t), (n, [])]"
| "end_tramps P (EJump u) n = [(n, tramp_code P u)]"
| "end_tramps P EFall n = [(n, [])]"
| "end_tramps P _ n = []"

definition next_lane :: "nat \<Rightarrow> blockLane" where
  "next_lane z = \<lparr>currentMBB = Some z, DestMBB = None, taken = True\<rparr>"

definition jump_lane :: "nat \<Rightarrow> nat \<Rightarrow> blockLane" where
  "jump_lane z t = \<lparr>currentMBB = Some z, DestMBB = Some t, taken = False\<rparr>"

definition dead_lane :: blockLane where
  "dead_lane = \<lparr>currentMBB = None, DestMBB = None, taken = False\<rparr>"

text \<open>What becomes of the taken lane, and the lanes the ending adds.\<close>

fun end_taken :: "nat set \<Rightarrow> ending \<Rightarrow> nat \<Rightarrow> blockLane" where
  "end_taken P (ECond m t) n = next_lane n"
| "end_taken P (ECondJmp m t u) n = next_lane n"
| "end_taken P (EJump u) n = (if u \<in> P then dead_lane else jump_lane n u)"
| "end_taken P EFall n = next_lane n"
| "end_taken P _ n = dead_lane"

fun end_added :: "nat set \<Rightarrow> ending \<Rightarrow> nat \<Rightarrow> blockLane list" where
  "end_added P (ECond m t) n = (if t \<in> P then [] else [jump_lane (Suc n) t])"
| "end_added P (ECondJmp m t u) n = (if t \<in> P then [] else [jump_lane (Suc n) t])"
| "end_added P _ n = []"

text \<open>The block that receives the unconditional jump of a split block.\<close>

definition split_off :: "nat \<Rightarrow> nat list \<Rightarrow> nat list \<Rightarrow> nat \<Rightarrow> bc_state \<Rightarrow> bc_state \<Rightarrow> bool" where
  "split_off x ls todo u st st1 \<longleftrightarrow>
     layout (MF st1) = ls @ fresh (MF st) # todo \<and> fresh (MF st1) = Suc (fresh (MF st)) \<and>
     (\<exists>k. code (MF st1) (fresh (MF st)) = [k] \<and> is_jmp k u) \<and>
     (\<forall>b<fresh (MF st). b \<noteq> x \<longrightarrow>
        code (MF st1) b = code (MF st) b \<and> succs (MF st1) b = succs (MF st) b) \<and>
     iMBB st1 = Some (fresh (MF st)) \<and> takenBlocks st1 = takenBlocks st \<and>
     processedMBBs st1 = processedMBBs st"

lemma split_je_jmp_ok:
  assumes code: "code (MF st) x = body @ [j, k]" and j: "is_jcc j m t" and k: "is_jmp k u"
    and x: "x < fresh (MF st)" and lanes: "takenBlocks st = A @ l # B"
    and lay: "layout (MF st) = ls @ todo" and dist: "distinct (ls @ todo)"
    and fr: "\<forall>b\<in>set (ls @ todo). b < fresh (MF st)" and it: "iMBB st = begin_iter todo"
  shows "\<exists>st1 st'. split_je_jmp x (Suc (length body)) ft (Some (length A)) st = Inr st' \<and>
    split_off x ls todo u st st1 \<and>
    ended x (body @ cond_target m (fresh (MF st1)) (Suc (fresh (MF st1))))
      [(Suc (fresh (MF st1)), if t \<in> set (processedMBBs st) then [mk_JMP_4 t] else []),
       (fresh (MF st1), [])]
      (A @ \<lparr>currentMBB = Some (fresh (MF st1)), DestMBB = None, taken = True\<rparr> # B @
        (if t \<in> set (processedMBBs st) then []
         else [\<lparr>currentMBB = Some (Suc (fresh (MF st1))), DestMBB = Some t, taken = False\<rparr>])) st1 st'"
proof -
  let ?N = "fresh (MF st)"
  from k have op: "getOperand k 0 = Inr (MO_MachineBasicBlock u)"
    by (simp add: is_jmp_def jump_target_operand)
  define F1 where "F1 = addSuccessor x ?N UnknownN
      (BuildMI_end ?N \<lparr>opc = opc k, ops = [MO_MachineBasicBlock u]\<rparr>
        (mf_insert (iMBB st) ?N (snd (CreateMachineBasicBlock (MF st)))))"
  define st1 where "st1 = st\<lparr>iMBB := prev_iter (layout F1) (iMBB st), MF := erase_at x (Suc (length body)) F1\<rparr>"
  have layF: "layout F1 = ls @ ?N # todo"
    using insert_before_begin [of ls todo] dist by (simp add: F1_def lay it)
  moreover have "distinct (ls @ ?N # todo)" using dist fr by auto
  ultimately have "prev_iter (layout F1) (iMBB st) = Some ?N"
    using prev_iter_begin [of ls ?N todo] by (simp add: it)
  then have so: "split_off x ls todo u st st1"
    using layF k x by (auto simp: split_off_def st1_def F1_def is_jmp_def jump_target_def)
  have eq: "split_je_jmp x (Suc (length body)) ft (Some (length A)) st =
      replaceConditionalBranch x (length body) ft (Some (length A)) st1"
    using op by (simp add: split_je_jmp_def code nth_append split_beta Let_def st1_def F1_def)
  have "code (MF st1) x = body @ [j]" "x < fresh (MF st1)" "takenBlocks st1 = A @ l # B"
    "processedMBBs st1 = processedMBBs st"
    using code x lanes by (simp_all add: st1_def F1_def)
  from replaceConditionalBranch_ok [OF this(1) j this(2,3), of ft] this(4) eq so show ?thesis
    by auto
qed

lemma convert_end_ok:
  assumes code: "code (MF st) x = body @ T" and str: "straight body" and ends: "ends_with E body T"
    and x: "x < fresh (MF st)" and lanes: "takenBlocks st = A @ l # B"
    and lay: "layout (MF st) = ls @ todo" and dist: "distinct (ls @ todo)"
    and fr: "\<forall>b\<in>set (ls @ todo). b < fresh (MF st)" and it: "iMBB st = begin_iter todo"
    and fall: "E = EFall \<Longrightarrow> ft \<noteq> None" and stop: "E = EReturn \<or> E = ENoReturn \<Longrightarrow> ft = None"
  defines "P \<equiv> set (processedMBBs st)"
  shows "\<exists>st1 st'. convert_end x (length (body @ T) - 1) ft (Some (length A)) st = Inr st' \<and>
    (case E of ECondJmp m t u \<Rightarrow> split_off x ls todo u st st1 | _ \<Rightarrow> st1 = st) \<and>
    ended x (end_code E body T (fresh (MF st1))) (end_tramps P E (fresh (MF st1)))
      (A @ end_taken P E (fresh (MF st1)) # B @ end_added P E (fresh (MF st1))) st1 st'"
proof -
  have last_body: "\<not> isConditionalBranch ((body @ T) ! (length body - 1))" if "body \<noteq> []"
  proof -
    have "(body @ T) ! (length body - 1) \<in> set body" using that by (simp add: nth_append)
    with str show ?thesis by (auto simp: straight_def list_all_iff dest: straight_flags)
  qed
  show ?thesis
  proof (cases E)
    case (ECond m t)
    with ends obtain j where T: "T = [j]" "is_jcc j m t"
      by (cases "(E, body, T)" rule: ends_with.cases) auto
    from replaceConditionalBranch_ok [OF _ T(2) x lanes, of body ft] code T
    show ?thesis
      by (auto simp: convert_end_def Let_def nth_append is_jcc_flags ECond P_def tramp_code_def
          next_lane_def jump_lane_def)
  next
    case (ECondJmp m t u)
    with ends obtain j k where T: "T = [j, k]" "is_jcc j m t" "is_jmp k u"
      by (cases "(E, body, T)" rule: ends_with.cases) auto
    from split_je_jmp_ok [OF _ T(2,3) x lanes lay dist fr it, of body ft] code T(1)
    obtain st1 st' where "split_je_jmp x (Suc (length body)) ft (Some (length A)) st = Inr st'"
      "split_off x ls todo u st st1"
      "ended x (end_code E body T (fresh (MF st1))) (end_tramps P E (fresh (MF st1)))
        (A @ end_taken P E (fresh (MF st1)) # B @ end_added P E (fresh (MF st1))) st1 st'"
      by (auto simp: ECondJmp P_def tramp_code_def next_lane_def jump_lane_def cong: if_cong)
    moreover have "convert_end x (length (body @ T) - 1) ft (Some (length A)) st =
        split_je_jmp x (Suc (length body)) ft (Some (length A)) st"
      using code T by (simp add: convert_end_def Let_def nth_append is_jcc_flags is_jmp_flags)
    ultimately show ?thesis using ECondJmp by auto
  next
    case (EJump u)
    with ends obtain k where T: "T = [k]" "is_jmp k u"
      by (cases "(E, body, T)" rule: ends_with.cases) auto
    have "convert_end x (length (body @ T) - 1) ft (Some (length A)) st =
        replaceUnconditionalJump x (length body) ft (Some (length A)) st"
      using code T last_body by (auto simp: convert_end_def Let_def nth_append is_jmp_flags)
    with replaceUnconditionalJump_ok [OF _ T(2) x lanes, of body ft] code T(1) show ?thesis
      by (auto simp: EJump P_def tramp_code_def dead_lane_def jump_lane_def)
  next
    case EIndirect
    with ends obtain k where T: "T = [k]" "is_indirect k"
      by (cases "(E, body, T)" rule: ends_with.cases) auto
    with replaceIndirectJump_ok [OF _ T(2) lanes, of x body ft] code show ?thesis
      by (auto simp: EIndirect convert_end_def Let_def nth_append is_indirect_flags dead_lane_def)
  next
    case EReturn
    with ends obtain k where T: "T = [k]" "isReturn k"
      by (cases "(E, body, T)" rule: ends_with.cases) auto
    with replaceNoBranchBlock_stop [OF lanes, of x "length body"] code stop EReturn show ?thesis
      by (auto simp: convert_end_def Let_def nth_append isReturn_flags dead_lane_def)
  next
    case EFall
    with ends have T: "T = []" "body \<noteq> []"
      by (cases "(E, body, T)" rule: ends_with.cases; simp)+
    then have lb: "\<not> isTerminator (body ! (length body - 1))"
      using str by (simp add: straight_def list_all_iff)
    with replaceNoBranchBlock_fall [OF _ T(2) x lanes fall [OF EFall]] code T EFall fall show ?thesis
      by (auto simp: convert_end_def Let_def straight_flags next_lane_def)
  next
    case ENoReturn
    with ends have T: "T = []" "body \<noteq> []" "isCall (last body)"
      by (cases "(E, body, T)" rule: ends_with.cases; simp)+
    then have lb: "\<not> isTerminator (body ! (length body - 1))" "isCall (body ! (length body - 1))"
      using str by (simp_all add: straight_def list_all_iff last_conv_nth)
    with replaceNoBranchBlock_stop [OF lanes, of x "length body - 1"] code T stop ENoReturn show ?thesis
      by (auto simp: convert_end_def Let_def straight_flags dead_lane_def)
  qed
qed
end
