(* ===== verification/ConversionInvariant.thy ===== *)
theory ConversionInvariant
  imports EndConversion
begin

text \<open>
  The loop invariant of \<open>runOnMachineFunction\<close>. The processed blocks with their fake
  blocks are the spine; each exit of a processed block goes through a chain of trampolines,
  one per fake block it skips, and ends in a jump to its target or in an open lane.
\<close>

section \<open>Chains of trampolines\<close>

type_synonym spine = "(nat \<times> nat option) list"

fun weave :: "spine \<Rightarrow> nat list" where
  "weave [] = []"
| "weave ((x, None) # ps) = x # weave ps"
| "weave ((x, Some f) # ps) = x # f # weave ps"

definition fakes :: "spine \<Rightarrow> nat list" where
  "fakes ps = List.map_filter snd ps"

fun after :: "spine \<Rightarrow> nat \<Rightarrow> spine" where
  "after [] x = []"
| "after ((y, fk) # ps) x = (if y = x then ps else after ps x)"

primrec chain :: "nat set \<Rightarrow> mfunc \<Rightarrow> nat \<Rightarrow> nat list \<Rightarrow> nat \<Rightarrow> bool" where
  "chain Z F z [] z' = (z = z' \<and> z \<in> Z)"
| "chain Z F z (f # fs) z' =
     (z \<in> Z \<and> (\<exists>z1. code F z = [lea_target z1, mk_JMP_4 f] \<and> chain Z F z1 fs z'))"

definition open_lane :: "blockLane set \<Rightarrow> nat option \<Rightarrow> nat \<Rightarrow> nat \<Rightarrow> bool" where
  "open_lane L nxt z t \<longleftrightarrow>
     (\<exists>l\<in>L. currentMBB l = Some z \<and>
        (taken l \<and> nxt = Some t \<or> \<not> taken l \<and> DestMBB l = Some t))"

definition exit_to ::
  "nat set \<Rightarrow> mfunc \<Rightarrow> blockLane set \<Rightarrow> nat option \<Rightarrow> spine \<Rightarrow> nat \<Rightarrow> nat \<Rightarrow> nat \<Rightarrow> bool" where
  "exit_to Z F L nxt dn x z t \<longleftrightarrow>
     z \<in> Z \<and> code F z = [mk_JMP_4 t] \<and> t \<in> fst ` set dn \<and> t \<notin> fst ` set (after dn x) \<or>
     (\<exists>p1 fk p2 z'. after dn x = p1 @ (t, fk) # p2 \<and> chain Z F z (fakes p1) z' \<and>
        code F z' = [mk_JMP_4 t]) \<or>
     (\<exists>z'. chain Z F z (fakes (after dn x)) z' \<and> open_lane L nxt z' t)"

lemma weave_append [simp]: "weave (ps @ qs) = weave ps @ weave qs"
  by (induction ps rule: weave.induct) auto

lemma set_weave: "set (weave ps) = fst ` set ps \<union> set (fakes ps)"
  by (induction ps rule: weave.induct) (auto simp: fakes_def)

lemma fakes_simps [simp]:
  "fakes [] = []" "fakes ((x, None) # ps) = fakes ps" "fakes ((x, Some f) # ps) = f # fakes ps"
  "fakes (ps @ qs) = fakes ps @ fakes qs"
  by (simp_all add: fakes_def)

lemma after_append:
  "after (ps @ qs) x = (if x \<in> fst ` set ps then after ps x @ qs else after qs x)"
  by (induction ps x rule: after.induct) auto

lemma after_subset: "set (after ps x) \<subseteq> set ps"
  by (induction ps x rule: after.induct) auto

lemma chain_in: "chain Z F z fs z' \<Longrightarrow> z \<in> Z \<and> z' \<in> Z"
  by (induction fs arbitrary: z) auto

lemma chain_append:
  "chain Z F z (fs @ gs) z' \<longleftrightarrow> (\<exists>w. chain Z F z fs w \<and> chain Z F w gs z')"
  by (induction fs arbitrary: z) (auto dest: chain_in)

lemma chain_mono:
  assumes "chain Z F z fs z'" and "Z \<subseteq> Z'"
    and "\<And>b. b \<in> Z \<Longrightarrow> code F b \<noteq> [] \<Longrightarrow> code F' b = code F b"
  shows "chain Z' F' z fs z'"
  using assms(1)
proof (induction fs arbitrary: z)
  case Nil
  then show ?case using assms(2) by auto
next
  case (Cons f fs)
  then obtain z1 where "z \<in> Z" "code F z = [lea_target z1, mk_JMP_4 f]" "chain Z F z1 fs z'" by auto
  moreover with assms(3) [of z] have "code F' z = code F z" by simp
  ultimately show ?case using Cons.IH assms(2) by auto
qed

text \<open>An exit survives the rewriting of the end of another block.\<close>

lemma exit_to_mono:
  assumes ex: "exit_to Z F L nxt0 dn x z t" and nxt: "nxt0 = None \<or> nxt0 = nxt"
    and Z: "Z \<subseteq> Z'" and L: "L \<subseteq> L'"
    and c: "\<And>b. b \<in> Z \<Longrightarrow> code F' b = code F b"
  shows "exit_to Z' F' L' nxt dn x z t"
proof -
  have ch: "chain Z' F' a fs z'" "z' \<in> Z" if "chain Z F a fs z'" for a fs z'
    using chain_mono [OF that Z] c chain_in [OF that] by auto
  have ol: "open_lane L' nxt a t" if "open_lane L nxt0 a t" for a
    using that L nxt by (auto simp: open_lane_def)
  from ex consider
      (behind) "z \<in> Z" "code F z = [mk_JMP_4 t]" "t \<in> fst ` set dn" "t \<notin> fst ` set (after dn x)"
    | (land) p1 fk p2 z' where "after dn x = p1 @ (t, fk) # p2" "chain Z F z (fakes p1) z'"
        "code F z' = [mk_JMP_4 t]"
    | (pend) z' where "chain Z F z (fakes (after dn x)) z'" "open_lane L nxt0 z' t"
    unfolding exit_to_def by blast
  then show ?thesis
  proof cases
    case behind
    then have "z \<in> Z'" "code F' z = [mk_JMP_4 t]" using Z c by auto
    with behind show ?thesis unfolding exit_to_def by simp
  next
    case land
    then have "chain Z' F' z (fakes p1) z'" "code F' z' = [mk_JMP_4 t]" using ch c by auto
    with land(1) show ?thesis unfolding exit_to_def by blast
  next
    case pend
    then have "chain Z' F' z (fakes (after dn x)) z'" "open_lane L' nxt z' t" using ch ol by auto
    then show ?thesis unfolding exit_to_def by blast
  qed
qed

text \<open>An exit after the lanes came past block \<open>m\<close>.\<close>

lemma exit_to_lanes:
  assumes ex: "exit_to Z F (set lanes) (Some m) dn x z t" and xd: "x \<in> fst ` set dn"
    and md: "m \<notin> fst ` set dn"
    and fk: "fk = None \<Longrightarrow> \<forall>l\<in>set lanes. \<not> skip_lane m l"
    and post: "lanes_post m fk lanes F K F'" and Z': "Z \<union> {fresh F..<fresh F'} \<subseteq> Z'"
    and Zf: "\<And>b. b \<in> Z \<Longrightarrow> b < fresh F"
    and empty: "\<And>b. b \<in> lane_currents lanes \<Longrightarrow> code F b = []"
    and L': "{l\<in>set K. skip_lane m l} \<subseteq> L'"
  shows "exit_to Z' F' L' None (dn @ [(m, fk)]) x z t"
proof -
  have keep: "code F' b = code F b" if "b \<in> Z" "code F b \<noteq> []" for b
    using lanes_postD(3) [OF post Zf [OF that(1)]] empty that by auto
  have ch: "chain Z' F' a fs z'" "z' \<in> Z" if "chain Z F a fs z'" for a fs z'
    using chain_mono [OF that _ keep] Z' chain_in [OF that] by auto
  have af: "after (dn @ [(m, fk)]) x = after dn x @ [(m, fk)]"
    using xd by (simp add: after_append)
  consider
      (behind) "z \<in> Z" "code F z = [mk_JMP_4 t]" "t \<in> fst ` set dn" "t \<notin> fst ` set (after dn x)"
    | (land) p1 fk' p2 z' where "after dn x = p1 @ (t, fk') # p2" "chain Z F z (fakes p1) z'"
        "code F z' = [mk_JMP_4 t]"
    | (pend) z' l where "chain Z F z (fakes (after dn x)) z'" "l \<in> set lanes" "currentMBB l = Some z'"
        "taken l \<and> m = t \<or> \<not> taken l \<and> DestMBB l = Some t"
    using ex by (auto simp: exit_to_def open_lane_def)
  then show ?thesis
  proof cases
    case behind
    with keep Z' md show ?thesis by (auto simp: exit_to_def af)
  next
    case land
    from ch [OF land(2)] keep land(3) have "chain Z' F' z (fakes p1) z'" "code F' z' = [mk_JMP_4 t]"
      by auto
    with land(1) have "after (dn @ [(m, fk)]) x = p1 @ (t, fk') # (p2 @ [(m, fk)])" by (simp add: af)
    with \<open>chain Z' F' z (fakes p1) z'\<close> \<open>code F' z' = [mk_JMP_4 t]\<close> show ?thesis
      unfolding exit_to_def by blast
  next
    case pend
    note c = ch [OF pend(1)]
    show ?thesis
    proof (cases "land_lane m l")
      case True
      with pend(4) have "t = m \<or> \<not> taken l \<and> DestMBB l = Some t" by auto
      with True have tm: "t = m" by (auto simp: land_lane_def)
      from lanes_postD(5) [OF post pend(2,3) True] have "code F' z' = [mk_JMP_4 t]" by (simp add: tm)
      moreover have "after (dn @ [(m, fk)]) x = after dn x @ (t, fk) # []" by (simp add: af tm)
      ultimately show ?thesis using c(1) unfolding exit_to_def by blast
    next
      case False
      from lanes_postD(6) [OF post pend(2,3) False] obtain f nz where
        f: "fk = Some f" and K: "moved l nz \<in> set K" and cz: "code F' z' = [lea_target nz, mk_JMP_4 f]"
        by (auto simp: lea_target_def)
      have sk: "skip_lane m (moved l nz)" using False by (auto simp: skip_lane_def land_lane_def)
      from lanes_postD(7) [OF post K this] have "nz \<in> Z'" using Z'
        by (auto dest: moved_inj)
      with c cz Z' have "chain Z' F' z (fakes (after dn x) @ [f]) nz" by (auto simp: chain_append)
      moreover have "open_lane L' None nz t"
        using False pend(4) K sk L' by (auto simp: open_lane_def land_lane_def intro!: bexI [of _ "moved l nz"])
      moreover have "fakes (after (dn @ [(m, fk)]) x) = fakes (after dn x) @ [f]"
        unfolding af by (simp add: f)
      ultimately show ?thesis unfolding exit_to_def by metis
    qed
  qed
qed


section \<open>Well-formed input\<close>

definition wf_block :: "mfunc \<Rightarrow> nat \<Rightarrow> nat option \<Rightarrow> bool" where
  "wf_block F x nxt \<longleftrightarrow>
     (\<exists>E body T. code F x = body @ T \<and> straight body \<and> ends_with E body T \<and> wf_ending F x nxt E)"

definition wf_fun :: "mfunc \<Rightarrow> bool" where
  "wf_fun F \<longleftrightarrow>
     layout F \<noteq> [] \<and> distinct (layout F) \<and>
     (\<forall>b\<in>set (layout F). b < fresh F \<and> wf_block F b (next_in (layout F) b))"

section \<open>The invariant\<close>

text \<open>
  A converted block, against its original code; the block split off from a block that ends
  in a conditional and an unconditional jump is a stub, still to be converted or converted.
\<close>

definition jump_stub ::
  "mfunc \<Rightarrow> (nat \<Rightarrow> nat \<Rightarrow> nat \<Rightarrow> bool) \<Rightarrow> nat set \<Rightarrow> nat set \<Rightarrow> nat \<Rightarrow> nat \<Rightarrow> bool" where
  "jump_stub F XT D todo N u \<longleftrightarrow>
     N \<in> todo \<and> (\<exists>k. code F N = [k] \<and> is_jmp k u) \<or>
     N \<in> D \<and> (\<exists>z. code F N = [lea_target z] \<and> XT N z u)"

definition block_conv ::
  "mfunc \<Rightarrow> mfunc \<Rightarrow> (nat \<Rightarrow> nat \<Rightarrow> nat \<Rightarrow> bool) \<Rightarrow> nat set \<Rightarrow> nat set \<Rightarrow> nat \<Rightarrow> bool" where
  "block_conv F0 F XT D todo x \<longleftrightarrow>
     (\<exists>E body T n. code F0 x = body @ T \<and> straight body \<and> ends_with E body T \<and>
        wf_ending F0 x (next_in (layout F0) x) E \<and> code F x = end_code E body T n \<and>
        (case E of
           ECond m t \<Rightarrow> (\<exists>nx. next_in (layout F0) x = Some nx \<and> XT x n nx) \<and> XT x (Suc n) t
         | ECondJmp m t u \<Rightarrow>
             XT x (Suc n) t \<and> (\<exists>N. N \<notin> set (layout F0) \<and> XT x n N \<and> jump_stub F XT D todo N u)
         | EJump u \<Rightarrow> XT x n u
         | EFall \<Rightarrow> (\<exists>nx. next_in (layout F0) x = Some nx \<and> XT x n nx)
         | _ \<Rightarrow> True))"

text \<open>The block right after \<open>x\<close> in the spine, and the blocks that may still come to stand there.\<close>

definition nexts :: "spine \<Rightarrow> nat \<Rightarrow> nat set" where
  "nexts dn x = (case after dn x of [] \<Rightarrow> {} | (y, _) # _ \<Rightarrow> {y})"

definition pendq :: "spine \<Rightarrow> nat list \<Rightarrow> nat \<Rightarrow> nat set" where
  "pendq dn todo x = (if after dn x = [] then set todo else {})"

lemma nexts_sub: "y \<in> nexts dn x \<Longrightarrow> y \<in> fst ` set dn"
  using after_subset [of dn x] by (force simp: nexts_def split: list.splits)

lemma pendq_sub: "y \<in> pendq dn todo x \<Longrightarrow> y \<in> set todo"
  by (simp add: pendq_def split: if_splits)

lemma pendq_Nil [simp]: "pendq dn [] x = {}"
  by (simp add: pendq_def)

lemma nexts_append: "x \<in> fst ` set dn \<Longrightarrow> nexts dn x \<subseteq> nexts (dn @ ps) x"
  by (auto simp: nexts_def after_append split: list.splits)

definition fakes_ok :: "mfunc \<Rightarrow> spine \<Rightarrow> bool" where
  "fakes_ok F dn \<longleftrightarrow>
     (\<forall>(x, fk)\<in>set dn.
        case fk of None \<Rightarrow> isReturnBlock (heap F x)
        | Some f \<Rightarrow> code F f = [mk_JMP64r targetRegOpcode])"

definition lanes_ok :: "nat set \<Rightarrow> nat set \<Rightarrow> mfunc \<Rightarrow> blockLane list \<Rightarrow> bool" where
  "lanes_ok Z todo F ls \<longleftrightarrow>
     (\<forall>z\<in>lane_currents ls. z \<in> Z \<and> code F z = []) \<and>
     distinct (List.map_filter currentMBB ls) \<and>
     (\<forall>l\<in>set ls. \<not> taken l \<longrightarrow> currentMBB l \<noteq> None \<longrightarrow> (\<exists>t\<in>todo. DestMBB l = Some t))"

definition layout_ok :: "mfunc \<Rightarrow> nat list \<Rightarrow> spine \<Rightarrow> nat list \<Rightarrow> mfunc \<Rightarrow> bool" where
  "layout_ok F0 zs dn todo F \<longleftrightarrow>
     layout F = zs @ weave dn @ todo \<and> distinct (layout F) \<and> (\<forall>b\<in>set (layout F). b < fresh F) \<and>
     set (layout F0) \<subseteq> fst ` set dn \<union> set todo \<and>
     filter (\<lambda>b. b \<in> set (layout F0)) (map fst dn @ todo) = layout F0"

definition rest_ok :: "mfunc \<Rightarrow> nat list \<Rightarrow> mfunc \<Rightarrow> bool" where
  "rest_ok F0 rest F \<longleftrightarrow>
     (\<exists>pre. layout F0 = pre @ rest) \<and>
     (\<forall>b\<in>set rest. code F b = code F0 b \<and> succs F b = succs F0 b)"

definition stub_ok :: "mfunc \<Rightarrow> nat list \<Rightarrow> mfunc \<Rightarrow> bool" where
  "stub_ok F0 Ns F \<longleftrightarrow>
     Ns = [] \<or>
     (\<exists>N k u. Ns = [N] \<and> N \<notin> set (layout F0) \<and> u \<in> set (layout F0) \<and> code F N = [k] \<and> is_jmp k u)"

definition conv_inv :: "mfunc \<Rightarrow> nat list \<Rightarrow> spine \<Rightarrow> nat list \<Rightarrow> nat list \<Rightarrow> bc_state \<Rightarrow> bool" where
  "conv_inv F0 zs dn Ns rest st \<longleftrightarrow>
     layout_ok F0 zs dn (Ns @ rest) (MF st) \<and> rest_ok F0 rest (MF st) \<and> stub_ok F0 Ns (MF st) \<and>
     iMBB st = begin_iter (Ns @ rest) \<and> set (processedMBBs st) = fst ` set dn \<and>
     fakes_ok (MF st) dn \<and> lanes_ok (set zs) (set (Ns @ rest)) (MF st) (takenBlocks st) \<and>
     (\<forall>x\<in>fst ` set dn \<inter> set (layout F0).
        block_conv F0 (MF st)
          (exit_to (set zs) (MF st) (set (takenBlocks st)) (begin_iter (Ns @ rest)) dn)
          (nexts dn x) (pendq dn (Ns @ rest) x) x)"

text \<open>The state in which the end of block \<open>m\<close> is rewritten.\<close>

definition mid_inv ::
  "mfunc \<Rightarrow> nat list \<Rightarrow> spine \<Rightarrow> nat \<Rightarrow> nat option \<Rightarrow> nat list \<Rightarrow> nat list \<Rightarrow> blockLane list \<Rightarrow>
    blockLane \<Rightarrow> blockLane list \<Rightarrow> bc_state \<Rightarrow> bool" where
  "mid_inv F0 zs dn m fk Ns rest A l B st \<longleftrightarrow>
     layout_ok F0 zs (dn @ [(m, fk)]) (Ns @ rest) (MF st) \<and> rest_ok F0 rest (MF st) \<and>
     stub_ok F0 Ns (MF st) \<and> iMBB st = begin_iter (Ns @ rest) \<and> set (processedMBBs st) = fst ` set (dn @ [(m, fk)]) \<and>
     fakes_ok (MF st) (dn @ [(m, fk)]) \<and>
     takenBlocks st = A @ l # B \<and> lanes_ok (set zs) (set rest) (MF st) (A @ B) \<and>
     (\<forall>x\<in>fst ` set dn \<inter> set (layout F0).
        block_conv F0 (MF st)
          (exit_to (set zs) (MF st) (set (A @ B)) None (dn @ [(m, fk)]))
          (nexts dn x) (pendq dn (m # rest) x) x)"

lemma block_conv_mono:
  assumes "block_conv F0 F XT D todo x" and "code F' x = code F x"
    and "\<And>z t. XT x z t \<Longrightarrow> XT' x z t"
    and "\<And>N u. N \<notin> set (layout F0) \<Longrightarrow> jump_stub F XT D todo N u \<Longrightarrow> jump_stub F' XT' D' todo' N u"
  shows "block_conv F0 F' XT' D' todo' x"
proof -
  from assms(1) obtain E body T n where
    c: "code F0 x = body @ T" "straight body" "ends_with E body T"
      "wf_ending F0 x (next_in (layout F0) x) E" "code F x = end_code E body T n"
    and E: "case E of
           ECond m t \<Rightarrow> (\<exists>nx. next_in (layout F0) x = Some nx \<and> XT x n nx) \<and> XT x (Suc n) t
         | ECondJmp m t u \<Rightarrow>
             XT x (Suc n) t \<and> (\<exists>N. N \<notin> set (layout F0) \<and> XT x n N \<and> jump_stub F XT D todo N u)
         | EJump u \<Rightarrow> XT x n u
         | EFall \<Rightarrow> (\<exists>nx. next_in (layout F0) x = Some nx \<and> XT x n nx)
         | _ \<Rightarrow> True"
    unfolding block_conv_def by blast
  have "case E of
           ECond m t \<Rightarrow> (\<exists>nx. next_in (layout F0) x = Some nx \<and> XT' x n nx) \<and> XT' x (Suc n) t
         | ECondJmp m t u \<Rightarrow>
             XT' x (Suc n) t \<and> (\<exists>N. N \<notin> set (layout F0) \<and> XT' x n N \<and> jump_stub F' XT' D' todo' N u)
         | EJump u \<Rightarrow> XT' x n u
         | EFall \<Rightarrow> (\<exists>nx. next_in (layout F0) x = Some nx \<and> XT' x n nx)
         | _ \<Rightarrow> True"
    using E assms(3,4) by (cases E) (auto, blast?)
  with c assms(2) show ?thesis unfolding block_conv_def by metis
qed

lemma jump_stub_mono:
  assumes "jump_stub F XT D todo N u" and "N \<in> D \<union> todo \<Longrightarrow> code F' N = code F N"
    and "\<And>z t. N \<in> D \<Longrightarrow> XT N z t \<Longrightarrow> XT' N z t" and "D \<subseteq> D'" and "todo \<subseteq> todo'"
  shows "jump_stub F' XT' D' todo' N u"
  using assms unfolding jump_stub_def by (metis UnCI subsetD)

lemma jump_stub_frame:
  assumes "jump_stub F XT (nexts dn x) (pendq dn q x) N u" and "N \<notin> S"
    and "\<And>b. b \<in> fst ` set dn \<union> set q \<Longrightarrow> b \<notin> S \<Longrightarrow> code F' b = code F b"
    and "\<And>z t. N \<in> fst ` set dn \<Longrightarrow> XT N z t \<Longrightarrow> XT' N z t"
  shows "jump_stub F' XT' (nexts dn x) (pendq dn q x) N u"
proof (rule jump_stub_mono [OF assms(1) _ _ subset_refl subset_refl])
  show "code F' N = code F N" if "N \<in> nexts dn x \<union> pendq dn q x"
    using that assms(2,3) nexts_sub [of N dn x] pendq_sub [of N dn q x] by blast
  show "XT' N z t" if "N \<in> nexts dn x" "XT N z t" for z t
    using assms(4) that nexts_sub [of N dn x] by blast
qed

lemma mid_invD:
  assumes "mid_inv F0 zs dn m fk Ns rest A l B st"
  shows "layout_ok F0 zs (dn @ [(m, fk)]) (Ns @ rest) (MF st)" and "rest_ok F0 rest (MF st)"
    and "stub_ok F0 Ns (MF st)" and "iMBB st = begin_iter (Ns @ rest)"
    and "set (processedMBBs st) = fst ` set (dn @ [(m, fk)])"
    and "fakes_ok (MF st) (dn @ [(m, fk)])" and "takenBlocks st = A @ l # B"
    and "lanes_ok (set zs) (set rest) (MF st) (A @ B)"
    and "x \<in> fst ` set dn \<inter> set (layout F0) \<Longrightarrow>
      block_conv F0 (MF st) (exit_to (set zs) (MF st) (set (A @ B)) None (dn @ [(m, fk)]))
        (nexts dn x) (pendq dn (m # rest) x) x"
  using assms unfolding mid_inv_def by blast+

lemma exit_to_new:
  assumes "z \<in> Z" and "after dn m = []"
    and "code F z = [mk_JMP_4 t] \<and> t \<in> fst ` set dn \<or> open_lane L nxt z t"
  shows "exit_to Z F L nxt dn m z t"
  using assms by (auto simp: exit_to_def)

end
