(* ===== verification/ConversionLoop.thy ===== *)
theory ConversionLoop
  imports ConversionInvariant
begin

text \<open>
  One turn of the loop of \<open>runOnMachineFunction\<close> keeps the invariant: the fake block
  is inserted, the lanes are led past or into the block, and the end of the block is
  rewritten. The last section proves that the fuel of the loop suffices.
\<close>

section \<open>The fake block\<close>

lemma layout_ok_dist: "layout_ok F0 zs dn todo F \<Longrightarrow> distinct (zs @ weave dn @ todo)"
  by (simp only: layout_ok_def) metis

lemma layout_okD:
  assumes "layout_ok F0 zs dn (m # rest) F"
  shows "next_in (layout F) m = begin_iter rest" and "m < fresh F" and "m \<notin> fst ` set dn"
    and "m \<notin> set zs" and "m \<notin> set rest"
proof -
  from layout_ok_dist [OF assms] have d: "m \<notin> set (zs @ weave dn)" "m \<notin> set rest" by auto
  then show "m \<notin> fst ` set dn" "m \<notin> set zs" "m \<notin> set rest" by (simp_all add: set_weave)
  from assms have l: "layout F = (zs @ weave dn) @ m # rest" by (simp add: layout_ok_def)
  then show "next_in (layout F) m = begin_iter rest"
    using next_in_split [OF d(1)] by metis
  show "m < fresh F" using assms by (simp add: layout_ok_def)
qed

lemma layout_ok_fresh:
  assumes "layout_ok F0 zs dn todo F"
  shows "b \<in> set zs \<Longrightarrow> b < fresh F" and "x \<in> fst ` set dn \<Longrightarrow> x < fresh F"
    and "t \<in> set todo \<Longrightarrow> t < fresh F" and "f \<in> set (fakes dn) \<Longrightarrow> f < fresh F"
proof -
  from assms have "\<forall>b\<in>set (zs @ weave dn @ todo). b < fresh F" by (simp add: layout_ok_def)
  then show "b \<in> set zs \<Longrightarrow> b < fresh F" and "x \<in> fst ` set dn \<Longrightarrow> x < fresh F"
    and "t \<in> set todo \<Longrightarrow> t < fresh F" and "f \<in> set (fakes dn) \<Longrightarrow> f < fresh F"
    by (simp_all add: set_weave)
qed

lemma distinct_weave: "distinct (weave ps) \<Longrightarrow> fst ` set ps \<inter> set (fakes ps) = {}"
  by (induction ps rule: weave.induct) (auto simp: set_weave)

lemma layout_ok_disj:
  assumes "layout_ok F0 zs dn todo F"
  shows "set zs \<inter> fst ` set dn = {}" and "set zs \<inter> set todo = {}" and "set zs \<inter> set (fakes dn) = {}"
    and "set todo \<inter> fst ` set dn = {}" and "set todo \<inter> set (fakes dn) = {}"
    and "fst ` set dn \<inter> set (fakes dn) = {}"
  using layout_ok_dist [OF assms] distinct_weave [of dn] by (auto simp: set_weave)

lemma fakes_mem: "(x, Some f) \<in> set dn \<Longrightarrow> f \<in> set (fakes dn)"
  by (force simp: fakes_def List.map_filter_def)

lemma fakes_ok_append:
  "fakes_ok F (dn @ [(x, fk)]) \<longleftrightarrow> fakes_ok F dn \<and>
     (case fk of None \<Rightarrow> isReturnBlock (heap F x) | Some f \<Rightarrow> code F f = [mk_JMP64r targetRegOpcode])"
  by (auto simp: fakes_ok_def)

lemma fakes_ok_frame:
  assumes "fakes_ok F dn"
    and "\<And>x f. (x, Some f) \<in> set dn \<Longrightarrow> code F' f = code F f"
    and "\<And>x. x \<in> fst ` set dn \<Longrightarrow> code F' x = code F x"
  shows "fakes_ok F' dn"
  using assms by (fastforce simp: fakes_ok_def isReturnBlock_def split: option.splits)

lemma create_fake_ok:
  assumes lay: "layout_ok F0 zs dn (m # rest) F" and fk: "fakes_ok F dn"
  shows "\<exists>fk F2. create_fake m (begin_iter rest) F = (fk, F2) \<and>
    layout_ok F0 zs (dn @ [(m, fk)]) rest F2 \<and> fakes_ok F2 (dn @ [(m, fk)]) \<and> fresh F \<le> fresh F2 \<and> fresh F2 \<le> Suc (fresh F) \<and>
    (\<forall>b<fresh F. code F2 b = code F b \<and> succs F2 b = succs F b) \<and>
    (fk = None \<longrightarrow> rest = [])"
proof (cases "rest = [] \<and> isReturnBlock (heap F m)")
  case True
  then have "create_fake m (begin_iter rest) F = (None, F)" by (simp add: create_fake_def)
  moreover have "layout_ok F0 zs (dn @ [(m, None)]) rest F"
    using lay layout_ok_dist [OF lay] True by (simp add: layout_ok_def)
  ultimately show ?thesis using True fk by (auto simp: fakes_ok_def)
next
  case False
  let ?f = "fresh F"
  define F2 where "F2 = BuildMI_end ?f (mk_JMP64r targetRegOpcode)
    (mf_insert (begin_iter rest) ?f (snd (CreateMachineBasicBlock F)))"
  have eq: "create_fake m (begin_iter rest) F = (Some ?f, F2)"
    using False by (cases rest) (auto simp: create_fake_def F2_def split_beta)
  have dist: "distinct ((zs @ weave dn @ [m]) @ rest)" using layout_ok_dist [OF lay] by simp
  from insert_before_begin [OF dist, of ?f]
  have "layout F2 = zs @ weave (dn @ [(m, Some ?f)]) @ rest"
    using lay by (simp add: F2_def layout_ok_def)
  then have "layout_ok F0 zs (dn @ [(m, Some ?f)]) rest F2"
    using lay layout_ok_dist [OF lay] by (auto simp: layout_ok_def F2_def less_Suc_eq ball_Un)
  moreover have c: "code F2 b = (if b = ?f then [mk_JMP64r targetRegOpcode] else code F b)" for b
    by (simp add: F2_def)
  have n: "\<And>x f. (x, Some f) \<in> set dn \<Longrightarrow> f \<noteq> ?f" "\<And>x. x \<in> fst ` set dn \<Longrightarrow> x \<noteq> ?f"
    using layout_ok_fresh(2,4) [OF lay] fakes_mem by (metis less_irrefl)+
  have "fakes_ok F2 dn"
    by (rule fakes_ok_frame [OF fk]) (simp_all only: c n if_False)
  then have "fakes_ok F2 (dn @ [(m, Some ?f)])"
    by (simp add: fakes_ok_append c)
  ultimately show ?thesis using eq c by (auto simp: F2_def)
qed

section \<open>Entering a block\<close>

definition head_ok ::
  "mfunc \<Rightarrow> mfunc \<Rightarrow> nat \<Rightarrow> nat list \<Rightarrow> ending \<Rightarrow> minstr list \<Rightarrow> minstr list \<Rightarrow> bool" where
  "head_ok F0 F m rest E body T \<longleftrightarrow>
     code F m = body @ T \<and> straight body \<and> ends_with E body T \<and>
     wf_ending F0 m (begin_iter rest) E \<and>
     (if m \<in> set (layout F0)
      then code F0 m = body @ T \<and> next_in (layout F0) m = begin_iter rest \<and> succs F m = succs F0 m
      else \<exists>u. E = EJump u \<and> body = [])"

lemma head_okI:
  assumes wf: "wf_fun F0" and lay: "layout_ok F0 zs dn (Ns @ rest0) F" and rest: "rest_ok F0 rest0 F"
    and stub: "stub_ok F0 Ns F" and todo: "Ns @ rest0 = m # rest"
  shows "\<exists>E body T. head_ok F0 F m rest E body T" and "rest_ok F0 rest F"
proof -
  from stub todo consider (stub) k u where "Ns = [m]" "rest0 = rest" "m \<notin> set (layout F0)"
      "u \<in> set (layout F0)" "code F m = [k]" "is_jmp k u"
    | (orig) "Ns = []" "rest0 = m # rest"
    by (auto simp: stub_ok_def)
  then have "(\<exists>E body T. head_ok F0 F m rest E body T) \<and> rest_ok F0 rest F"
  proof cases
    case stub
    then have "head_ok F0 F m rest (EJump u) [] [k]"
      by (simp add: head_ok_def straight_def wf_ending_def)
    with stub rest show ?thesis by auto
  next
    case orig
    from rest orig obtain pre where pre: "layout F0 = pre @ m # rest"
      by (auto simp: rest_ok_def)
    moreover from wf have "distinct (layout F0)" by (simp add: wf_fun_def)
    ultimately have nx: "next_in (layout F0) m = begin_iter rest" and mi: "m \<in> set (layout F0)"
      using next_in_split [of m pre rest] by auto
    with wf have "wf_block F0 m (begin_iter rest)" by (auto simp: wf_fun_def)
    then obtain E body T where "code F0 m = body @ T" "straight body" "ends_with E body T"
        "wf_ending F0 m (begin_iter rest) E"
      by (auto simp: wf_block_def)
    moreover have "code F m = code F0 m" "succs F m = succs F0 m"
      using rest orig by (auto simp: rest_ok_def)
    ultimately have "head_ok F0 F m rest E body T"
      using nx mi by (simp add: head_ok_def)
    moreover have "rest_ok F0 rest F"
      using rest orig pre by (auto simp: rest_ok_def intro!: exI [where x = "pre @ [m]"])
    ultimately show ?thesis by blast
  qed
  then show "\<exists>E body T. head_ok F0 F m rest E body T" and "rest_ok F0 rest F" by blast+
qed

lemma head_ok_fall:
  assumes h: "head_ok F0 F m rest E body T" and nx: "next_in (layout F) m = begin_iter rest"
    and sub: "set (layout F0) \<subseteq> set (layout F)"
  shows "\<exists>ft. getFallThrough F m = Inr ft \<and>
    (E = EFall \<longrightarrow> ft \<noteq> None) \<and> (E = EReturn \<or> E = ENoReturn \<longrightarrow> ft = None)"
proof -
  have "wf_ending F m (next_in (layout F) m) E"
    using h nx sub
    by (cases E) (auto simp: head_ok_def wf_ending_def isSuccessor_def split: if_splits option.splits)
  from getFallThrough_wf [OF _ _ _ this, of body T] h nx show ?thesis
    by (auto simp: head_ok_def wf_ending_def split: option.splits)
qed


section \<open>Leading the lanes past or into the block\<close>

lemma lanes_ok_pre:
  assumes lanes: "lanes_ok (set zs) (set (m # rest)) F ls"
    and lay: "layout_ok F0 zs (dn @ [(m, fk)]) rest F" and fk: "fk = None \<longrightarrow> rest = []"
  shows "lanes_pre m fk ls F"
proof -
  have "z < fresh F \<and> code F z = [] \<and> z \<noteq> m" if "z \<in> lane_currents ls" for z
    using lanes that layout_ok_fresh(1) [OF lay] layout_ok_disj(1) [OF lay]
    by (auto simp: lanes_ok_def)
  moreover have "\<not> skip_lane m l" if "l \<in> set ls" "fk = None" for l
    using lanes that fk by (auto simp: lanes_ok_def skip_lane_def)
  moreover have "m < fresh F" using layout_ok_fresh(2) [OF lay, of m] by simp
  ultimately show ?thesis using lanes by (auto simp: lanes_pre_def lanes_ok_def)
qed

lemma lanes_ok_post:
  assumes lanes: "lanes_ok Z (set (m # rest)) F ls" and post: "lanes_post m fk ls F K F'"
    and Z': "{fresh F..<fresh F'} \<subseteq> Z'" and kept: "filter (skip_lane m) K = A @ B"
  shows "lanes_ok Z' (set rest) F' (A @ B)"
proof -
  have mem: "l' \<in> set K \<and> skip_lane m l'" if "l' \<in> set (A @ B)" for l'
    using that kept by (metis filter_is_subset set_filter mem_Collect_eq)
  have "z \<in> Z' \<and> code F' z = []" if z: "z \<in> lane_currents (A @ B)" for z
  proof -
    from z obtain l' where l': "l' \<in> set (A @ B)" "currentMBB l' = Some z"
      by (auto simp: lane_currents_def)
    from lanes_postD(7) [OF post] mem [OF l'(1)] obtain l nz where
      "l' = moved l nz" "fresh F \<le> nz" "nz < fresh F'" "code F' nz = []" by blast
    with l'(2) Z' show ?thesis by auto
  qed
  moreover have "\<exists>t\<in>set rest. DestMBB l' = Some t" if l': "l' \<in> set (A @ B)" for l'
  proof -
    from lanes_postD(7) [OF post] mem [OF l'] obtain l nz where
      l: "l \<in> set ls" "skip_lane m l" "l' = moved l nz" by blast
    with lanes show ?thesis by (auto simp: lanes_ok_def skip_lane_def)
  qed
  ultimately show ?thesis
    using lanes_postD(8) [OF post] kept by (simp add: lanes_ok_def)
qed

lemma layout_ok_prepend:
  assumes lay: "layout_ok F0 zs dn todo F" and le: "fresh F \<le> fresh F'"
    and new: "layout F' = rev [fresh F..<fresh F'] @ layout F"
  shows "layout_ok F0 (rev [fresh F..<fresh F'] @ zs) dn todo F'"
proof -
  have old: "\<forall>b\<in>set (layout F). b < fresh F" "distinct (layout F)"
    using lay unfolding layout_ok_def by blast+
  then have "distinct (layout F')" "\<forall>b\<in>set (layout F'). b < fresh F'"
    using le by (auto simp: new)
  with lay new show ?thesis by (simp add: layout_ok_def)
qed

lemma lanes_round:
  assumes lay: "layout_ok F0 zs (dn @ [(m, fk)]) rest F" and rest: "rest_ok F0 rest F"
    and fakes: "fakes_ok F (dn @ [(m, fk)])" and lanes: "lanes_ok (set zs) (set (m # rest)) F ls"
    and fk: "fk = None \<longrightarrow> rest = []" and md: "m \<notin> fst ` set dn"
    and conv: "\<forall>x\<in>fst ` set dn \<inter> set (layout F0).
      block_conv F0 F (exit_to (set zs) F (set ls) (Some m) dn) (nexts dn x) (pendq dn (m # rest) x) x"
  shows "\<exists>K tk F' zs'. update_lanes False m fk [] ls None F = Inr (K, tk, F') \<and>
    taken_spec m None 0 K tk \<and>
    layout_ok F0 zs' (dn @ [(m, fk)]) rest F' \<and> rest_ok F0 rest F' \<and>
    fakes_ok F' (dn @ [(m, fk)]) \<and> code F' m = code F m \<and>
    fresh F' \<le> fresh F + length ls \<and> length K \<le> length ls \<and>
    (\<forall>A B. filter (skip_lane m) K = A @ B \<longrightarrow> lanes_ok (set zs') (set rest) F' (A @ B) \<and>
      (\<forall>x\<in>fst ` set dn \<inter> set (layout F0).
        block_conv F0 F' (exit_to (set zs') F' (set (A @ B)) None (dn @ [(m, fk)]))
          (nexts dn x) (pendq dn (m # rest) x) x))"
proof -
  note pre = lanes_ok_pre [OF lanes lay fk]
  from update_lanes_ok [OF pre, of "[]" None] obtain K tk F' where
    upd: "update_lanes False m fk [] ls None F = Inr (K, tk, F')"
    and post: "lanes_post m fk ls F K F'" and tk: "taken_spec m None 0 K tk" by auto
  define zs' where "zs' = rev [fresh F..<fresh F'] @ zs"
  have lay': "layout_ok F0 zs' (dn @ [(m, fk)]) rest F'"
    unfolding zs'_def using lanes_postD(1,2) [OF post] by (rule layout_ok_prepend [OF lay])
  have cur: "z \<in> set zs" if "z \<in> lane_currents ls" for z
    using lanes that by (auto simp: lanes_ok_def)
  have same: "code F' b = code F b"
    if "b \<in> fst ` set (dn @ [(m, fk)]) \<or> b \<in> set (fakes (dn @ [(m, fk)])) \<or> b \<in> set rest" for b
  proof -
    have "b < fresh F" using that layout_ok_fresh [OF lay] by blast
    moreover have "b \<notin> set zs" using that layout_ok_disj [OF lay] by blast
    ultimately show ?thesis using lanes_postD(3) [OF post] cur by blast
  qed
  have keep: "code F' b = code F b" if "b \<in> fst ` set dn \<union> set (m # rest)" for b
    using that same [of b] by auto
  have sucs: "succs F' b = succs F b" if "b \<in> set rest" for b
  proof -
    have "b < fresh F" "b \<notin> set zs" "b \<noteq> m"
      using that layout_ok_fresh [OF lay] layout_ok_disj [OF lay] by auto
    then show ?thesis using lanes_postD(4) [OF post] cur by blast
  qed
  have rest': "rest_ok F0 rest F'" using rest same sucs by (auto simp: rest_ok_def)
  have fakes': "fakes_ok F' (dn @ [(m, fk)])"
    by (rule fakes_ok_frame [OF fakes]) (use same fakes_mem in blast)+
  have cm: "code F' m = code F m" using same by simp
  have kept: "lanes_ok (set zs') (set rest) F' (A @ B) \<and>
      (\<forall>x\<in>fst ` set dn \<inter> set (layout F0).
        block_conv F0 F' (exit_to (set zs') F' (set (A @ B)) None (dn @ [(m, fk)]))
          (nexts dn x) (pendq dn (m # rest) x) x)"
    if AB: "filter (skip_lane m) K = A @ B" for A B
  proof (intro conjI ballI)
    show "lanes_ok (set zs') (set rest) F' (A @ B)"
      by (rule lanes_ok_post [OF lanes post _ AB]) (auto simp: zs'_def)
    fix x assume x: "x \<in> fst ` set dn \<inter> set (layout F0)"
    have ex: "exit_to (set zs') F' (set (A @ B)) None (dn @ [(m, fk)]) y z t"
      if "exit_to (set zs) F (set ls) (Some m) dn y z t" "y \<in> fst ` set dn" for y z t
    proof (rule exit_to_lanes [OF that md _ post])
      show "fk = None \<Longrightarrow> \<forall>l\<in>set ls. \<not> skip_lane m l" using pre by (simp add: lanes_pre_def)
      show "set zs \<union> {fresh F..<fresh F'} \<subseteq> set zs'" by (auto simp: zs'_def)
      show "\<And>b. b \<in> set zs \<Longrightarrow> b < fresh F" by (rule layout_ok_fresh(1) [OF lay])
      show "\<And>b. b \<in> lane_currents ls \<Longrightarrow> code F b = []" using lanes by (simp add: lanes_ok_def)
      show "{l \<in> set K. skip_lane m l} \<subseteq> set (A @ B)" using AB by (metis order_refl set_filter)
    qed
    show "block_conv F0 F' (exit_to (set zs') F' (set (A @ B)) None (dn @ [(m, fk)]))
        (nexts dn x) (pendq dn (m # rest) x) x"
    proof (rule block_conv_mono [OF conv [rule_format, OF x]])
      show "code F' x = code F x" using x same by auto
      show "\<And>z t. exit_to (set zs) F (set ls) (Some m) dn x z t \<Longrightarrow>
          exit_to (set zs') F' (set (A @ B)) None (dn @ [(m, fk)]) x z t" using ex x by blast
      fix N u
      assume "jump_stub F (exit_to (set zs) F (set ls) (Some m) dn) (nexts dn x) (pendq dn (m # rest) x) N u"
      then show "jump_stub F' (exit_to (set zs') F' (set (A @ B)) None (dn @ [(m, fk)]))
          (nexts dn x) (pendq dn (m # rest) x) N u"
        by (rule jump_stub_frame [where S = "{}"]) (simp, rule keep, simp, rule ex)
    qed
  qed
  show ?thesis using upd tk lay' rest' fakes' cm kept lanes_postD(9,10) [OF post] by blast
qed


lemma conv_invD:
  assumes "conv_inv F0 zs dn Ns rest st"
  shows "layout_ok F0 zs dn (Ns @ rest) (MF st)" and "rest_ok F0 rest (MF st)"
    and "stub_ok F0 Ns (MF st)" and "iMBB st = begin_iter (Ns @ rest)"
    and "set (processedMBBs st) = fst ` set dn" and "fakes_ok (MF st) dn"
    and "lanes_ok (set zs) (set (Ns @ rest)) (MF st) (takenBlocks st)"
    and "x \<in> fst ` set dn \<inter> set (layout F0) \<Longrightarrow>
      block_conv F0 (MF st)
        (exit_to (set zs) (MF st) (set (takenBlocks st)) (begin_iter (Ns @ rest)) dn)
        (nexts dn x) (pendq dn (Ns @ rest) x) x"
  using assms unfolding conv_inv_def by blast+

lemma taken_split:
  assumes "taken_spec m None 0 K tk"
  shows "\<exists>A l B. filter (skip_lane m) K = A @ B \<and>
    (case tk of
       None \<Rightarrow> K @ [\<lparr>currentMBB = None, DestMBB = None, taken = True\<rparr>] = A @ l # B \<and> length A = length K
     | Some i \<Rightarrow> K = A @ l # B \<and> i = length A)"
proof (cases tk)
  case None
  with assms have "filter (skip_lane m) K = K @ []" by (auto simp: taken_spec_def)
  with None show ?thesis
    by (intro exI [where x = K] exI [where x = "\<lparr>currentMBB = None, DestMBB = None, taken = True\<rparr>"]
        exI [where x = "[] :: blockLane list"]) simp
next
  case (Some i)
  with assms obtain A l B where "K = A @ l # B" "i = length A" "land_lane m l"
      "\<forall>l'\<in>set A \<union> set B. skip_lane m l'"
    by (auto simp: taken_spec_def)
  then have "filter (skip_lane m) K = A @ B" using land_not_skip by simp
  with Some \<open>K = _\<close> \<open>i = _\<close> show ?thesis by auto
qed

lemma bc_upd_comm: "st\<lparr>MF := F, takenBlocks := ls\<rparr> = st\<lparr>takenBlocks := ls, MF := F\<rparr>"
  by simp

lemma convert_block_enter:
  assumes wf: "wf_fun F0" and inv: "conv_inv F0 zs dn Ns rest0 st" and todo: "Ns @ rest0 = m # rest"
  shows "\<exists>E body T ft fk zs' A l B st4.
    head_ok F0 (MF st) m rest E body T \<and> mid_inv F0 zs' dn m fk [] rest A l B st4 \<and>
    code (MF st4) m = body @ T \<and> m \<notin> fst ` set dn \<and>
    fresh (MF st4) \<le> Suc (fresh (MF st) + length (takenBlocks st)) \<and>
    length (A @ l # B) \<le> Suc (length (takenBlocks st)) \<and>
    (E = EFall \<longrightarrow> ft \<noteq> None) \<and> (E = EReturn \<or> E = ENoReturn \<longrightarrow> ft = None) \<and>
    convert_block False m st = convert_end m (length (body @ T) - 1) ft (Some (length A)) st4"
proof -
  note D = conv_invD [OF inv, unfolded todo]
  from head_okI [OF wf conv_invD(1-3) [OF inv] todo] obtain E body T where
    head: "head_ok F0 (MF st) m rest E body T" and rest: "rest_ok F0 rest (MF st)" by blast
  note lay = D(1)
  have nx: "next_in (layout (MF st)) m = begin_iter rest" and mF: "m < fresh (MF st)"
    and md: "m \<notin> fst ` set dn" by (rule layout_okD [OF lay])+
  have "set (layout F0) \<subseteq> set (layout (MF st))"
    using lay by (auto simp: layout_ok_def set_weave)
  from head_ok_fall [OF head nx this] obtain ft where
    ft: "getFallThrough (MF st) m = Inr ft"
    and ftE: "E = EFall \<longrightarrow> ft \<noteq> None" "E = EReturn \<or> E = ENoReturn \<longrightarrow> ft = None" by blast
  from create_fake_ok [OF lay D(6)] obtain fk F2 where
    cf: "create_fake m (begin_iter rest) (MF st) = (fk, F2)"
    and lay2: "layout_ok F0 zs (dn @ [(m, fk)]) rest F2" and fakes2: "fakes_ok F2 (dn @ [(m, fk)])"
    and same: "\<forall>b<fresh (MF st). code F2 b = code (MF st) b \<and> succs F2 b = succs (MF st) b"
    and fk: "fk = None \<longrightarrow> rest = []" and g2: "fresh F2 \<le> Suc (fresh (MF st))" by blast
  have rest2: "rest_ok F0 rest F2"
    using rest same layout_ok_fresh(3) [OF lay] by (auto simp: rest_ok_def)
  have zsame: "code F2 b = code (MF st) b" if "b \<in> set zs" for b
    using same layout_ok_fresh(1) [OF lay that] by simp
  have old: "code F2 b = code (MF st) b" if "b \<in> fst ` set dn \<union> set (m # rest)" for b
    using that same layout_ok_fresh(2,3) [OF lay] by blast
  have lanes2: "lanes_ok (set zs) (set (m # rest)) F2 (takenBlocks st)"
    using D(7) zsame by (auto simp: lanes_ok_def)
  have conv2: "\<forall>x\<in>fst ` set dn \<inter> set (layout F0).
      block_conv F0 F2 (exit_to (set zs) F2 (set (takenBlocks st)) (Some m) dn)
        (nexts dn x) (pendq dn (m # rest) x) x"
  proof
    fix x assume x: "x \<in> fst ` set dn \<inter> set (layout F0)"
    have ex: "exit_to (set zs) F2 (set (takenBlocks st)) (Some m) dn y z t"
      if "exit_to (set zs) (MF st) (set (takenBlocks st)) (begin_iter (m # rest)) dn y z t" for y z t
      by (rule exit_to_mono [OF that]) (simp_all add: zsame)
    show "block_conv F0 F2 (exit_to (set zs) F2 (set (takenBlocks st)) (Some m) dn)
        (nexts dn x) (pendq dn (m # rest) x) x"
    proof (rule block_conv_mono [OF D(8) [OF x]])
      show "code F2 x = code (MF st) x" using same layout_ok_fresh(2) [OF lay] x by auto
      fix N u
      assume "jump_stub (MF st) (exit_to (set zs) (MF st) (set (takenBlocks st)) (begin_iter (m # rest)) dn)
        (nexts dn x) (pendq dn (m # rest) x) N u"
      then show "jump_stub F2 (exit_to (set zs) F2 (set (takenBlocks st)) (Some m) dn)
          (nexts dn x) (pendq dn (m # rest) x) N u"
        by (rule jump_stub_frame [where S = "{}"]) (simp, rule old, assumption, rule ex)
    qed (rule ex)
  qed
  from lanes_round [OF lay2 rest2 fakes2 lanes2 fk md conv2] obtain K tk F' zs' where
    upd: "update_lanes False m fk [] (takenBlocks st) None F2 = Inr (K, tk, F')"
    and tk: "taken_spec m None 0 K tk"
    and lay': "layout_ok F0 zs' (dn @ [(m, fk)]) rest F'" and rest': "rest_ok F0 rest F'"
    and fakes': "fakes_ok F' (dn @ [(m, fk)])" and cm: "code F' m = code F2 m"
    and kept: "\<And>A B. filter (skip_lane m) K = A @ B \<Longrightarrow> lanes_ok (set zs') (set rest) F' (A @ B) \<and>
      (\<forall>x\<in>fst ` set dn \<inter> set (layout F0).
        block_conv F0 F' (exit_to (set zs') F' (set (A @ B)) None (dn @ [(m, fk)]))
          (nexts dn x) (pendq dn (m # rest) x) x)"
    and g3: "fresh F' \<le> fresh F2 + length (takenBlocks st)" "length K \<le> length (takenBlocks st)"
    by blast
  from taken_split [OF tk] obtain A l B where
    AB: "filter (skip_lane m) K = A @ B"
    and K: "case tk of
       None \<Rightarrow> K @ [\<lparr>currentMBB = None, DestMBB = None, taken = True\<rparr>] = A @ l # B \<and> length A = length K
     | Some i \<Rightarrow> K = A @ l # B \<and> i = length A" by blast
  define st4 where "st4 = st\<lparr>iMBB := begin_iter rest, processedMBBs := m # processedMBBs st,
      takenBlocks := A @ l # B, MF := F'\<rparr>"
  have c4: "code (MF st4) m = body @ T"
    using cm same mF head by (simp add: st4_def head_ok_def)
  have ne: "body @ T \<noteq> []"
    using head by (cases "(E, body, T)" rule: ends_with.cases) (auto simp: head_ok_def)
  have mid: "mid_inv F0 zs' dn m fk [] rest A l B st4"
    using lay' rest' fakes' kept [OF AB] D(5) unfolding mid_inv_def by (simp add: st4_def stub_ok_def)
  have "convert_block False m st = convert_end m (length (body @ T) - 1) ft (Some (length A)) st4"
  proof -
    have c: "code F' m = body @ T" "(body @ T = []) = False" using c4 ne by (simp_all add: st4_def)
    show ?thesis
      using K unfolding convert_block_def
      by (cases tk)
         (simp_all add: Let_def nx ft cf upd addBBtoBlockLane_def st4_def c bc_upd_comm
           del: append_is_Nil_conv)
  qed
  moreover have "fresh (MF st4) \<le> Suc (fresh (MF st) + length (takenBlocks st))"
    using g2 g3 by (simp add: st4_def)
  moreover have "length (A @ l # B) \<le> Suc (length (takenBlocks st))"
  proof (cases tk)
    case None
    with K have "K @ [\<lparr>currentMBB = None, DestMBB = None, taken = True\<rparr>] = A @ l # B" by simp
    from arg_cong [OF this, of length] g3 show ?thesis by simp
  next
    case (Some i)
    with K g3 show ?thesis by simp
  qed
  ultimately show ?thesis using head mid c4 md ftE by blast
qed

end
