(* ===== verification/ConversionEnd.thy ===== *)
theory ConversionEnd
  imports ConversionLoop
begin

section \<open>Rewriting the end of the block\<close>

lemma mid_split:
  assumes mid: "mid_inv F0 zs dn m fk [] rest A l B st" and md: "m \<notin> fst ` set dn"
    and so: "split_off m (zs @ weave (dn @ [(m, fk)])) rest u st st1"
    and fk: "fk \<noteq> None" and u: "u \<in> set (layout F0)" and mF: "m \<in> set (layout F0)"
  shows "mid_inv F0 zs dn m fk [fresh (MF st)] rest A l B st1"
proof -
  note D = mid_invD [OF mid, unfolded append_Nil]
  note lay = D(1)
  let ?N = "fresh (MF st)"
  have same: "code (MF st1) b = code (MF st) b \<and> succs (MF st1) b = succs (MF st) b"
    if "b < ?N" "b \<noteq> m" for b using so that by (simp add: split_off_def)
  have lay1: "layout (MF st1) = zs @ weave (dn @ [(m, fk)]) @ ?N # rest" "fresh (MF st1) = Suc ?N"
    using so by (simp_all add: split_off_def)
  have nN: "?N \<notin> set (layout F0)"
    using lay layout_ok_fresh(2,3) [OF lay] unfolding layout_ok_def by blast
  have "layout_ok F0 zs (dn @ [(m, fk)]) ([?N] @ rest) (MF st1)"
  proof -
    have "?N \<notin> set (zs @ weave (dn @ [(m, fk)]) @ rest)" "\<forall>b\<in>set (zs @ weave (dn @ [(m, fk)]) @ rest). b < ?N"
      using lay by (auto simp: layout_ok_def)
    with lay lay1 layout_ok_dist [OF lay] nN show ?thesis
      unfolding layout_ok_def by (auto simp: less_Suc_eq)
  qed
  moreover have rn: "b < ?N \<and> b \<noteq> m" if "b \<in> set rest" for b
    using that layout_ok_fresh(3) [OF lay] layout_ok_disj(4) [OF lay] by auto
  then have "rest_ok F0 rest (MF st1)" using D(2) same by (auto simp: rest_ok_def)
  moreover have "stub_ok F0 [?N] (MF st1)"
    using nN so u by (auto simp: stub_ok_def split_off_def)
  moreover have old: "code (MF st1) b = code (MF st) b"
    if "b \<in> fst ` set dn \<or> b \<in> set zs \<or> b \<in> set (fakes (dn @ [(m, fk)])) \<or> b \<in> set rest" for b
  proof -
    have "b < ?N" using that layout_ok_fresh [OF lay] by auto
    moreover have "b \<noteq> m" using that layout_ok_disj [OF lay] md by auto
    ultimately show ?thesis using same by blast
  qed
  have keep: "code (MF st1) b = code (MF st) b" if "b \<in> fst ` set dn \<union> set (m # rest)" "b \<noteq> m" for b
    using that old [of b] by auto
  have "fakes_ok (MF st1) dn"
    by (rule fakes_ok_frame [of "MF st"])
       (use D(6) fakes_ok_append old fakes_mem [of _ _ dn] in auto)
  with D(6) fk have "fakes_ok (MF st1) (dn @ [(m, fk)])"
    using old by (auto simp: fakes_ok_append)
  moreover have "lanes_ok (set zs) (set rest) (MF st1) (A @ B)"
    using D(8) old by (auto simp: lanes_ok_def)
  moreover have "block_conv F0 (MF st1) (exit_to (set zs) (MF st1) (set (A @ B)) None (dn @ [(m, fk)]))
        (nexts dn x) (pendq dn (m # rest) x) x" if x: "x \<in> fst ` set dn \<inter> set (layout F0)" for x
  proof -
    have ex: "exit_to (set zs) (MF st1) (set (A @ B)) None (dn @ [(m, fk)]) y z t"
      if "exit_to (set zs) (MF st) (set (A @ B)) None (dn @ [(m, fk)]) y z t" for y z t
      by (rule exit_to_mono [OF that]) (simp_all add: old)
    show ?thesis
    proof (rule block_conv_mono [OF D(9) [OF x]])
      show "code (MF st1) x = code (MF st) x" using x old by blast
      fix N v
      assume "N \<notin> set (layout F0)" and "jump_stub (MF st)
          (exit_to (set zs) (MF st) (set (A @ B)) None (dn @ [(m, fk)])) (nexts dn x) (pendq dn (m # rest) x) N v"
      from this(2) show "jump_stub (MF st1)
          (exit_to (set zs) (MF st1) (set (A @ B)) None (dn @ [(m, fk)])) (nexts dn x) (pendq dn (m # rest) x) N v"
        by (rule jump_stub_frame [where S = "{m}"])
           (use mF \<open>N \<notin> set (layout F0)\<close> in blast, rule keep, assumption, simp, rule ex)
    qed (rule ex)
  qed
  ultimately show ?thesis
    using so D(5,7) unfolding mid_inv_def by (simp add: split_off_def)
qed


lemma open_next: "next_lane z \<in> L \<Longrightarrow> nxt = Some t \<Longrightarrow> open_lane L nxt z t"
  by (force simp: open_lane_def next_lane_def)

lemma open_jump: "jump_lane z t \<in> L \<Longrightarrow> open_lane L nxt z t"
  by (force simp: open_lane_def jump_lane_def)

text \<open>The exits that the rewritten end of a block opens.\<close>

lemma end_exits:
  assumes zs: "\<forall>(z, c)\<in>set (end_tramps P E n). code F z = c \<and> z \<in> Z"
    and L: "end_taken P E n \<in> L" "set (end_added P E n) \<subseteq> L"
    and P: "P = fst ` set dn" and af: "after dn m = []"
  shows "case E of
      ECond mm t \<Rightarrow> (\<forall>nx. nxt = Some nx \<longrightarrow> exit_to Z F L nxt dn m n nx) \<and> exit_to Z F L nxt dn m (Suc n) t
    | ECondJmp mm t u \<Rightarrow>
        (\<forall>nx. nxt = Some nx \<longrightarrow> exit_to Z F L nxt dn m n nx) \<and> exit_to Z F L nxt dn m (Suc n) t
    | EJump u \<Rightarrow> exit_to Z F L nxt dn m n u
    | EFall \<Rightarrow> (\<forall>nx. nxt = Some nx \<longrightarrow> exit_to Z F L nxt dn m n nx)
    | _ \<Rightarrow> True"
proof -
  have jump: "exit_to Z F L nxt dn m z t"
    if "z \<in> Z" "code F z = tramp_code P t" "t \<notin> P \<longrightarrow> jump_lane z t \<in> L" for z t
    using that exit_to_new [OF that(1) af] by (cases "t \<in> P") (auto simp: tramp_code_def P open_jump)
  have fall: "exit_to Z F L nxt dn m z nx"
    if "z \<in> Z" "next_lane z \<in> L" "nxt = Some nx" for z nx
    using exit_to_new [OF that(1) af] open_next [OF that(2,3)] by blast
  show ?thesis
  proof (cases E)
    case (ECond mm t)
    with zs L have "n \<in> Z" "Suc n \<in> Z" "code F (Suc n) = tramp_code P t" "next_lane n \<in> L"
      "t \<notin> P \<longrightarrow> jump_lane (Suc n) t \<in> L" by (auto split: if_splits)
    note h = this
    have "exit_to Z F L nxt dn m (Suc n) t" by (rule jump [OF h(2,3,5)])
    moreover have "exit_to Z F L nxt dn m n nx" if "nxt = Some nx" for nx
      by (rule fall [OF h(1,4) that])
    ultimately have "exit_to Z F L nxt dn m (Suc n) t" "\<And>nx. nxt = Some nx \<Longrightarrow> exit_to Z F L nxt dn m n nx"
      by blast+
    with ECond show ?thesis by simp
  next
    case (ECondJmp mm t u)
    with zs L have "n \<in> Z" "Suc n \<in> Z" "code F (Suc n) = tramp_code P t" "next_lane n \<in> L"
      "t \<notin> P \<longrightarrow> jump_lane (Suc n) t \<in> L" by (auto split: if_splits)
    note h = this
    have "exit_to Z F L nxt dn m (Suc n) t" by (rule jump [OF h(2,3,5)])
    moreover have "exit_to Z F L nxt dn m n nx" if "nxt = Some nx" for nx
      by (rule fall [OF h(1,4) that])
    ultimately have "exit_to Z F L nxt dn m (Suc n) t" "\<And>nx. nxt = Some nx \<Longrightarrow> exit_to Z F L nxt dn m n nx"
      by blast+
    with ECondJmp show ?thesis by simp
  next
    case (EJump u)
    with zs L have "n \<in> Z" "code F n = tramp_code P u" "u \<notin> P \<longrightarrow> jump_lane n u \<in> L"
      by (auto split: if_splits)
    then have "exit_to Z F L nxt dn m n u" by (rule jump)
    with EJump show ?thesis by simp
  next
    case EFall
    with zs L have "n \<in> Z" "next_lane n \<in> L" by auto
    then have "nxt = Some nx \<Longrightarrow> exit_to Z F L nxt dn m n nx" for nx by (rule fall)
    with EFall show ?thesis by simp
  qed simp_all
qed

lemma end_lanes_ok:
  assumes lanes: "lanes_ok (set zs) (set rest) F (A @ B)" and zs: "\<forall>z\<in>set zs. z < n"
    and c: "\<And>b. b \<in> set zs \<Longrightarrow> code F' b = code F b" and sub: "set zs \<subseteq> Z"
    and new: "\<forall>(z, c)\<in>set (end_tramps P E n). code F' z = c \<and> z \<in> Z"
    and todo: "set rest \<subseteq> todo"
    and tg: "\<And>t. E = EJump t \<or> (\<exists>mm. E = ECond mm t) \<or> (\<exists>mm u. E = ECondJmp mm t u) \<Longrightarrow>
        t \<in> P \<or> t \<in> todo"
  shows "lanes_ok Z todo F' (A @ end_taken P E n # B @ end_added P E n)"
proof -
  have old: "z \<in> set zs \<and> code F' z = [] \<and> z < n" if "z \<in> lane_currents (A @ B)" for z
    using lanes that c zs by (auto simp: lanes_ok_def)
  have cur: "lane_currents [end_taken P E n] \<union> lane_currents (end_added P E n)
      \<subseteq> {z. (z, []) \<in> set (end_tramps P E n) \<and> n \<le> z}"
    by (cases E) (auto simp: next_lane_def jump_lane_def dead_lane_def tramp_code_def)
  have dist: "distinct (List.map_filter currentMBB (end_taken P E n # end_added P E n))"
    by (cases E) (auto simp: next_lane_def jump_lane_def dead_lane_def)
  have "z \<in> Z \<and> code F' z = []"
    if "z \<in> lane_currents (A @ end_taken P E n # B @ end_added P E n)" for z
  proof -
    from that have "z \<in> lane_currents (A @ B) \<or>
        z \<in> lane_currents [end_taken P E n] \<union> lane_currents (end_added P E n)" by auto
    then show ?thesis
    proof
      assume "z \<in> lane_currents (A @ B)"
      with old sub show ?thesis by blast
    next
      assume "z \<in> lane_currents [end_taken P E n] \<union> lane_currents (end_added P E n)"
      with cur have "(z, []) \<in> set (end_tramps P E n)" by blast
      with new have "(\<lambda>(z, c). code F' z = c \<and> z \<in> Z) (z, [])" by (rule bspec)
      then show ?thesis by simp
    qed
  qed
  moreover have "distinct (List.map_filter currentMBB (A @ end_taken P E n # B @ end_added P E n))"
  proof -
    have "lane_currents (A @ B) \<inter> (lane_currents [end_taken P E n] \<union> lane_currents (end_added P E n)) = {}"
    proof -
      have "False" if "z \<in> lane_currents (A @ B)"
        "z \<in> lane_currents [end_taken P E n] \<union> lane_currents (end_added P E n)" for z
      proof -
        from cur that(2) have "n \<le> z" by blast
        with old [OF that(1)] show ?thesis by simp
      qed
      then show ?thesis by blast
    qed
    with lanes dist show ?thesis
      by (cases "currentMBB (end_taken P E n)") (auto simp: lanes_ok_def)
  qed
  moreover have "\<forall>l\<in>set (end_taken P E n # end_added P E n).
      \<not> taken l \<longrightarrow> currentMBB l \<noteq> None \<longrightarrow> (\<exists>t\<in>todo. DestMBB l = Some t)"
    using tg by (cases E) (auto simp: next_lane_def jump_lane_def dead_lane_def)
  moreover have "\<forall>l\<in>set (A @ B). \<not> taken l \<longrightarrow> currentMBB l \<noteq> None \<longrightarrow> (\<exists>t\<in>todo. DestMBB l = Some t)"
    using lanes todo unfolding lanes_ok_def by (meson subsetD)
  ultimately show ?thesis unfolding lanes_ok_def by auto
qed


text \<open>What the ending needs of the block it closes.\<close>

definition closing ::
  "mfunc \<Rightarrow> mfunc \<Rightarrow> nat \<Rightarrow> nat option \<Rightarrow> nat list \<Rightarrow> nat list \<Rightarrow> ending \<Rightarrow> minstr list \<Rightarrow> minstr list \<Rightarrow> bool" where
  "closing F0 F m fk Ns rest E body T \<longleftrightarrow>
     straight body \<and> ends_with E body T \<and> wf_ending F0 m (begin_iter rest) E \<and>
     (if m \<in> set (layout F0) then code F0 m = body @ T \<and> next_in (layout F0) m = begin_iter rest
      else \<exists>u k. E = EJump u \<and> body = [] \<and> code F m = [k] \<and> is_jmp k u) \<and>
     (case E of
        ECondJmp mm t u \<Rightarrow> \<exists>N k. Ns = [N] \<and> code F N = [k] \<and> is_jmp k u
      | _ \<Rightarrow> Ns = []) \<and>
     (fk = None \<longrightarrow> E = EReturn \<and> code F m = body @ T)"

lemma closing_targets:
  assumes "closing F0 F m fk Ns rest E body T"
    and "E = EJump t \<or> (\<exists>mm. E = ECond mm t) \<or> (\<exists>mm u. E = ECondJmp mm t u)"
  shows "t \<in> set (layout F0)"
  using assms by (auto simp: closing_def wf_ending_def)

lemma endedD:
  assumes "ended m cx zs ls st st'"
  shows "layout (MF st') = rev [fresh (MF st)..<fresh (MF st')] @ layout (MF st)"
    and "fresh (MF st) \<le> fresh (MF st')" and "code (MF st') m = cx"
    and "\<forall>(z, c)\<in>set zs. code (MF st') z = c \<and> z \<in> {fresh (MF st)..<fresh (MF st')}"
    and "b < fresh (MF st) \<Longrightarrow> b \<noteq> m \<Longrightarrow>
        code (MF st') b = code (MF st) b \<and> succs (MF st') b = succs (MF st) b"
    and "takenBlocks st' = ls" and "iMBB st' = iMBB st" and "processedMBBs st' = processedMBBs st"
    and "fresh (MF st') = fresh (MF st) + length zs"
proof -
  have m: "map fst zs = rev [fresh (MF st)..<fresh (MF st')]" using assms by (simp add: ended_def)
  have "z \<in> {fresh (MF st)..<fresh (MF st')}" if "(z, c) \<in> set zs" for z c
  proof -
    have "z \<in> set (map fst zs)" using that by force
    then show ?thesis by (simp add: m)
  qed
  with assms show "\<forall>(z, c)\<in>set zs. code (MF st') z = c \<and> z \<in> {fresh (MF st)..<fresh (MF st')}"
    by (auto simp: ended_def)
qed (use assms in \<open>simp_all add: ended_def\<close>)

lemma after_last: "m \<notin> fst ` set dn \<Longrightarrow> after (dn @ [(m, fk)]) m = []"
  by (simp add: after_append)

lemma closing_conv:
  assumes cl: "closing F0 F m fk Ns rest E body T" and mF: "m \<in> set (layout F0)"
    and cm: "code F' m = end_code E body T n"
    and stub: "\<And>N. N \<in> set Ns \<Longrightarrow> N \<notin> set (layout F0) \<and> code F' N = code F N"
    and ex: "case E of
      ECond mm t \<Rightarrow> (\<forall>nx. begin_iter (Ns @ rest) = Some nx \<longrightarrow> XT m n nx) \<and> XT m (Suc n) t
    | ECondJmp mm t u \<Rightarrow> (\<forall>nx. begin_iter (Ns @ rest) = Some nx \<longrightarrow> XT m n nx) \<and> XT m (Suc n) t
    | EJump u \<Rightarrow> XT m n u
    | EFall \<Rightarrow> (\<forall>nx. begin_iter (Ns @ rest) = Some nx \<longrightarrow> XT m n nx)
    | _ \<Rightarrow> True"
  shows "block_conv F0 F' XT D (set (Ns @ rest)) m"
proof -
  have c: "code F0 m = body @ T" "straight body" "ends_with E body T"
    "next_in (layout F0) m = begin_iter rest" "wf_ending F0 m (next_in (layout F0) m) E"
    using cl mF by (auto simp: closing_def)
  have "case E of
           ECond mm t \<Rightarrow> (\<exists>nx. next_in (layout F0) m = Some nx \<and> XT m n nx) \<and> XT m (Suc n) t
         | ECondJmp mm t u \<Rightarrow>
             XT m (Suc n) t \<and>
             (\<exists>N. N \<notin> set (layout F0) \<and> XT m n N \<and> jump_stub F' XT D (set (Ns @ rest)) N u)
         | EJump u \<Rightarrow> XT m n u
         | EFall \<Rightarrow> (\<exists>nx. next_in (layout F0) m = Some nx \<and> XT m n nx)
         | _ \<Rightarrow> True"
  proof (cases E)
    case (ECond mm t)
    with cl have "Ns = []" "begin_iter rest \<noteq> None" by (simp_all add: closing_def wf_ending_def)
    with ex ECond c(4) show ?thesis by auto
  next
    case (ECondJmp mm t u)
    with cl obtain N k where "Ns = [N]" "code F N = [k]" "is_jmp k u" by (auto simp: closing_def)
    with ex ECondJmp stub [of N] show ?thesis by (auto simp: jump_stub_def)
  next
    case EFall
    with cl have "Ns = []" "begin_iter rest \<noteq> None"
      by (auto simp: closing_def wf_ending_def split: option.splits)
    with ex EFall c(4) show ?thesis by auto
  qed (use ex in auto)
  with c cm show ?thesis unfolding block_conv_def by blast
qed


lemma mid_end:
  assumes mid: "mid_inv F0 zs dn m fk Ns rest A l B st" and md: "m \<notin> fst ` set dn"
    and cl: "closing F0 (MF st) m fk Ns rest E body T"
    and ended: "ended m (end_code E body T (fresh (MF st)))
      (end_tramps (set (processedMBBs st)) E (fresh (MF st)))
      (A @ end_taken (set (processedMBBs st)) E (fresh (MF st)) # B
        @ end_added (set (processedMBBs st)) E (fresh (MF st))) st st'"
  shows "\<exists>zs'. conv_inv F0 zs' (dn @ [(m, fk)]) Ns rest st'"
proof -
  note D = mid_invD [OF mid]
  note X = endedD [OF ended]
  note lay = D(1)
  let ?n = "fresh (MF st)" and ?dn = "dn @ [(m, fk)]" and ?P = "set (processedMBBs st)"
  define zs' where "zs' = rev [?n..<fresh (MF st')] @ zs"
  let ?XT = "exit_to (set zs') (MF st') (set (takenBlocks st')) (begin_iter (Ns @ rest)) ?dn"
  have P: "?P = fst ` set ?dn" by (rule D(5))
  have lay': "layout_ok F0 zs' ?dn (Ns @ rest) (MF st')"
    unfolding zs'_def by (rule layout_ok_prepend [OF lay X(2,1)])
  have old: "code (MF st') b = code (MF st) b \<and> succs (MF st') b = succs (MF st) b"
    if "b \<in> fst ` set dn \<or> b \<in> set zs \<or> b \<in> set (fakes ?dn) \<or> b \<in> set (Ns @ rest)" for b
  proof -
    have "b < ?n" using that layout_ok_fresh [OF lay] by auto
    moreover have "b \<noteq> m" using that layout_ok_disj [OF lay] md by auto
    ultimately show ?thesis by (rule X(5))
  qed
  have keep: "code (MF st') b = code (MF st) b" if "b \<in> fst ` set dn" for b
    using that old by blast
  have rest': "rest_ok F0 rest (MF st')" using D(2) old by (auto simp: rest_ok_def)
  have stub': "stub_ok F0 Ns (MF st')" using D(3) old by (auto simp: stub_ok_def)
  have "fakes_ok (MF st') dn"
    by (rule fakes_ok_frame [of "MF st"])
       (use D(6) fakes_ok_append old fakes_mem [of _ _ dn] in auto)
  moreover have "case fk of None \<Rightarrow> isReturnBlock (heap (MF st') m)
      | Some f \<Rightarrow> code (MF st') f = [mk_JMP64r targetRegOpcode]"
  proof (cases fk)
    case None
    with cl have "E = EReturn" "code (MF st) m = body @ T" by (simp_all add: closing_def)
    with X(3) None D(6) show ?thesis by (simp add: fakes_ok_append isReturnBlock_def)
  next
    case (Some f)
    with D(6) old [of f] show ?thesis by (simp add: fakes_ok_append)
  qed
  ultimately have fakes': "fakes_ok (MF st') ?dn" by (simp add: fakes_ok_append)
  have new: "\<forall>(z, c)\<in>set (end_tramps ?P E ?n). code (MF st') z = c \<and> z \<in> set zs'"
    using X(4) by (auto simp: zs'_def)
  have lanes': "lanes_ok (set zs') (set (Ns @ rest)) (MF st') (takenBlocks st')"
    unfolding X(6)
  proof (rule end_lanes_ok [OF D(8) _ _ _ new])
    show "\<forall>z\<in>set zs. z < ?n" using layout_ok_fresh(1) [OF lay] by blast
    fix t assume "E = EJump t \<or> (\<exists>mm. E = ECond mm t) \<or> (\<exists>mm u. E = ECondJmp mm t u)"
    then have "t \<in> set (layout F0)" by (rule closing_targets [OF cl])
    with lay show "t \<in> ?P \<or> t \<in> set (Ns @ rest)" unfolding layout_ok_def P by blast
  qed (use old in \<open>auto simp: zs'_def\<close>)
  have ex: "?XT y z t"
    if "exit_to (set zs) (MF st) (set (A @ B)) None ?dn y z t" for y z t
    by (rule exit_to_mono [OF that]) (use old X(6) in \<open>auto simp: zs'_def\<close>)
  have newex: "case E of
      ECond mm t \<Rightarrow> (\<forall>nx. begin_iter (Ns @ rest) = Some nx \<longrightarrow> ?XT m ?n nx) \<and> ?XT m (Suc ?n) t
    | ECondJmp mm t u \<Rightarrow> (\<forall>nx. begin_iter (Ns @ rest) = Some nx \<longrightarrow> ?XT m ?n nx) \<and> ?XT m (Suc ?n) t
    | EJump u \<Rightarrow> ?XT m ?n u
    | EFall \<Rightarrow> (\<forall>nx. begin_iter (Ns @ rest) = Some nx \<longrightarrow> ?XT m ?n nx)
    | _ \<Rightarrow> True"
    by (rule end_exits [OF new _ _ P after_last [OF md]]) (auto simp: X(6))
  have conv: "block_conv F0 (MF st') ?XT (nexts ?dn x) (pendq ?dn (Ns @ rest) x) x"
    if x: "x \<in> fst ` set ?dn \<inter> set (layout F0)" for x
  proof (cases "x = m")
    case True
    have "pendq ?dn (Ns @ rest) m = set (Ns @ rest)" by (simp add: pendq_def after_last [OF md])
    show ?thesis unfolding True \<open>pendq _ _ _ = _\<close>
    proof (rule closing_conv [where XT = ?XT, OF cl _ X(3) _ newex])
      show "m \<in> set (layout F0)" using x True by simp
      show "N \<notin> set (layout F0) \<and> code (MF st') N = code (MF st) N" if "N \<in> set Ns" for N
        using D(3) that old by (auto simp: stub_ok_def)
    qed
  next
    case False
    with x have xd: "x \<in> fst ` set dn \<inter> set (layout F0)" by auto
    then have xdn: "x \<in> fst ` set dn" by blast
    show ?thesis
    proof (rule block_conv_mono [OF D(9) [OF xd]])
      show "code (MF st') x = code (MF st) x" using xd old by blast
      fix N u
      assume N: "N \<notin> set (layout F0)" and stub: "jump_stub (MF st)
          (exit_to (set zs) (MF st) (set (A @ B)) None ?dn) (nexts dn x) (pendq dn (m # rest) x) N u"
      show "jump_stub (MF st') ?XT (nexts ?dn x) (pendq ?dn (Ns @ rest) x) N u"
      proof (cases "N = m")
        case True
        have "m \<notin> nexts dn x" using md nexts_sub by blast
        with stub True obtain k where "code (MF st) m = [k]" "is_jmp k u" and p: "m \<in> pendq dn (m # rest) x"
          by (auto simp: jump_stub_def)
        moreover from p have "m \<in> nexts ?dn x"
          using xdn by (auto simp: nexts_def pendq_def after_append split: if_splits)
        ultimately have mk: "code (MF st) m = [k]" "is_jmp k u" "m \<in> nexts ?dn x" by blast+
        with cl N True have "E = EJump u" "body = []" by (auto simp: closing_def is_jmp_def)
        with X(3) newex True mk(3) show ?thesis by (auto simp: jump_stub_def)
      next
        case False
        have "N \<notin> set rest" using N D(2) by (auto simp: rest_ok_def)
        with False stub have "jump_stub (MF st)
          (exit_to (set zs) (MF st) (set (A @ B)) None ?dn) (nexts dn x) {} N u"
          by (auto simp: jump_stub_def pendq_def split: if_splits)
        then show ?thesis
        proof (rule jump_stub_mono)
          show "code (MF st') N = code (MF st) N" if "N \<in> nexts dn x \<union> {}"
            using that keep nexts_sub [of N dn x] by simp
        qed (use ex nexts_append [OF xdn] in simp_all)
      qed
    qed (rule ex)
  qed
  have "conv_inv F0 zs' ?dn Ns rest st'"
    unfolding conv_inv_def
    using lay' rest' stub' fakes' lanes' conv X(7,8) D(4,5) by auto
  then show ?thesis by blast
qed


section \<open>One turn of the loop\<close>

lemma ends_return:
  assumes "straight body" "ends_with E body T" "isReturn (last (body @ T))"
  shows "E = EReturn"
proof -
  have b: "\<not> isReturn (last body)" if "body \<noteq> []"
    using assms(1) that by (auto simp: straight_def list_all_iff dest: straight_flags)
  have "\<not> isReturn k" if "isBranch k" for k
    using that isReturn_flags by blast
  with assms b show ?thesis
    by (cases "(E, body, T)" rule: ends_with.cases)
       (auto dest: is_jcc_flags is_jmp_flags is_indirect_flags)
qed

lemma ends_jump: "ends_with (EJump u) body T \<Longrightarrow> \<exists>k. T = [k] \<and> is_jmp k u"
  by (cases "(EJump u, body, T)" rule: ends_with.cases) auto

lemma convert_block_step:
  assumes wf: "wf_fun F0" and inv: "conv_inv F0 zs dn Ns rest0 st" and todo: "Ns @ rest0 = m # rest"
  shows "\<exists>st' fk zs' Ns'. convert_block False m st = Inr st' \<and>
    conv_inv F0 zs' (dn @ [(m, fk)]) Ns' rest st' \<and> length Ns' + length Ns \<le> 1 \<and>
    fresh (MF st') \<le> fresh (MF st) + length (takenBlocks st) + 4 \<and>
    length (takenBlocks st') \<le> length (takenBlocks st) + 2"
proof -
  from convert_block_enter [OF wf inv todo] obtain E body T ft fk zs4 A l B st4 where
    head: "head_ok F0 (MF st) m rest E body T" and mid: "mid_inv F0 zs4 dn m fk [] rest A l B st4"
    and c4: "code (MF st4) m = body @ T" and md: "m \<notin> fst ` set dn"
    and ft: "E = EFall \<Longrightarrow> ft \<noteq> None" "E = EReturn \<or> E = ENoReturn \<Longrightarrow> ft = None"
    and cb: "convert_block False m st = convert_end m (length (body @ T) - 1) ft (Some (length A)) st4"
    and g4: "fresh (MF st4) \<le> Suc (fresh (MF st) + length (takenBlocks st))"
      "length (A @ l # B) \<le> Suc (length (takenBlocks st))"
    by blast
  note D = mid_invD [OF mid, unfolded append_Nil]
  have str: "straight body" "ends_with E body T" using head by (simp_all add: head_ok_def)
  have mfr: "m < fresh (MF st4)" using layout_ok_fresh(2) [OF D(1), of m] by simp
  have lay: "layout (MF st4) = (zs4 @ weave (dn @ [(m, fk)])) @ rest"
    using D(1) by (simp add: layout_ok_def)
  have dist: "distinct ((zs4 @ weave (dn @ [(m, fk)])) @ rest)"
    using layout_ok_dist [OF D(1)] by simp
  have fr: "\<forall>b\<in>set ((zs4 @ weave (dn @ [(m, fk)])) @ rest). b < fresh (MF st4)"
    using D(1) unfolding lay [symmetric] by (simp add: layout_ok_def)
  from convert_end_ok [OF c4 str mfr D(7) lay dist fr D(4) ft] obtain st1 st' where
    ce: "convert_end m (length (body @ T) - 1) ft (Some (length A)) st4 = Inr st'"
    and sp: "case E of ECondJmp mm t u \<Rightarrow> split_off m (zs4 @ weave (dn @ [(m, fk)])) rest u st4 st1
             | _ \<Rightarrow> st1 = st4"
    and en: "ended m (end_code E body T (fresh (MF st1)))
      (end_tramps (set (processedMBBs st4)) E (fresh (MF st1)))
      (A @ end_taken (set (processedMBBs st4)) E (fresh (MF st1)) # B
        @ end_added (set (processedMBBs st4)) E (fresh (MF st1))) st1 st'" by blast
  have "fresh (MF st1) \<le> Suc (fresh (MF st4))"
    using sp by (cases E) (auto simp: split_off_def)
  moreover have "length (end_tramps (set (processedMBBs st4)) E (fresh (MF st1))) \<le> 2"
    by (cases E) simp_all
  ultimately have "fresh (MF st') \<le> fresh (MF st4) + 3"
    unfolding endedD(9) [OF en] by linarith
  with g4(1) have g1: "fresh (MF st') \<le> fresh (MF st) + length (takenBlocks st) + 4" by linarith
  have "length (end_added (set (processedMBBs st4)) E (fresh (MF st1))) \<le> 1"
    by (cases E) simp_all
  with g4(2) have g2: "length (takenBlocks st') \<le> length (takenBlocks st) + 2"
    unfolding endedD(6) [OF en] by simp
  have fkE: "E = EReturn" if "fk = None"
  proof (rule ends_return [OF str])
    from D(6) that have "isReturnBlock (heap (MF st4) m)" by (simp add: fakes_ok_append)
    then show "isReturn (last (body @ T))" by (simp add: isReturnBlock_def c4)
  qed
  show ?thesis
  proof (cases "\<exists>mm t u. E = ECondJmp mm t u")
    case True
    then obtain mm t u where E: "E = ECondJmp mm t u" by blast
    with sp have so: "split_off m (zs4 @ weave (dn @ [(m, fk)])) rest u st4 st1" by simp
    from head E have mF: "m \<in> set (layout F0)" and u: "u \<in> set (layout F0)"
      by (auto simp: head_ok_def wf_ending_def split: if_splits)
    have fk': "fk \<noteq> None" using fkE E by auto
    note mid1 = mid_split [OF mid md so fk' u mF]
    have "closing F0 (MF st1) m fk [fresh (MF st4)] rest E body T"
      using head E mF fk' so by (auto simp: closing_def head_ok_def split_off_def)
    from mid_end [OF mid1 md this] en so obtain zs' where
      "conv_inv F0 zs' (dn @ [(m, fk)]) [fresh (MF st4)] rest st'"
      by (auto simp: split_off_def)
    moreover have "Ns = []"
    proof (rule ccontr)
      assume "Ns \<noteq> []"
      with conv_invD(3) [OF inv] todo have "m \<notin> set (layout F0)" by (auto simp: stub_ok_def)
      with mF show False by simp
    qed
    ultimately show ?thesis using cb ce g1 g2 by force
  next
    case False
    with sp have st1: "st1 = st4" by (cases E) auto
    have "closing F0 (MF st4) m fk [] rest E body T"
      using head False fkE c4 str ends_jump [of _ body T]
      by (cases E) (auto simp: closing_def head_ok_def split: if_splits)
    from mid_end [OF mid md this] en st1 obtain zs' where
      "conv_inv F0 zs' (dn @ [(m, fk)]) [] rest st'" by auto
    moreover have "length Ns \<le> 1" using conv_invD(3) [OF inv] by (auto simp: stub_ok_def)
    ultimately show ?thesis using cb ce g1 g2 by force
  qed
qed

section \<open>The whole loop\<close>

lemma convert_blocks_ok:
  assumes "wf_fun F0" and "conv_inv F0 zs dn Ns rest st" and "2 * length rest + length Ns \<le> fuel"
  shows "\<exists>st' zs' dn'. convert_blocks fuel False st = Inr st' \<and> conv_inv F0 zs' dn' [] [] st' \<and>
    fresh (MF st') \<le> fresh (MF st) + fuel * (length (takenBlocks st) + fuel + 4)"
  using assms
proof (induction fuel arbitrary: zs dn Ns rest st)
  case 0
  then have "Ns @ rest = []" by simp
  with conv_invD(4) [OF "0.prems"(2)] have "convert_blocks 0 False st = Inr st"
    by (simp add: convert_blocks.simps)
  with 0 show ?case by auto
next
  case (Suc fuel)
  show ?case
  proof (cases "Ns @ rest")
    case Nil
    with conv_invD(4) [OF Suc.prems(2)] have "convert_blocks (Suc fuel) False st = Inr st"
      by (simp add: convert_blocks.simps)
    with Suc.prems Nil show ?thesis by auto
  next
    case (Cons m rest')
    from convert_block_step [OF Suc.prems(1,2) Cons] obtain st1 fk zs' Ns' where
      step: "convert_block False m st = Inr st1"
      and inv: "conv_inv F0 zs' (dn @ [(m, fk)]) Ns' rest' st1"
      and le: "length Ns' + length Ns \<le> 1"
      and g: "fresh (MF st1) \<le> fresh (MF st) + length (takenBlocks st) + 4"
        "length (takenBlocks st1) \<le> length (takenBlocks st) + 2" by blast
    have "2 * length rest' + length Ns' \<le> fuel"
      using Suc.prems(3) le arg_cong [OF Cons, of length] by auto
    from Suc.IH [OF Suc.prems(1) inv this] obtain st' zs2 dn2 where
      run: "convert_blocks fuel False st1 = Inr st'" and inv': "conv_inv F0 zs2 dn2 [] [] st'"
      and g': "fresh (MF st') \<le> fresh (MF st1) + fuel * (length (takenBlocks st1) + fuel + 4)" by blast
    have "fuel * (length (takenBlocks st1) + fuel + 4) \<le> fuel * (length (takenBlocks st) + fuel + 6)"
      using g(2) by (intro mult_left_mono) auto
    with g' g(1) have "fresh (MF st') \<le>
        fresh (MF st) + length (takenBlocks st) + 4 + fuel * (length (takenBlocks st) + fuel + 6)"
      by linarith
    also have "\<dots> \<le> fresh (MF st) + Suc fuel * (length (takenBlocks st) + Suc fuel + 4)"
      by (simp add: algebra_simps)
    finally have "fresh (MF st') \<le>
        fresh (MF st) + Suc fuel * (length (takenBlocks st) + Suc fuel + 4)" .
    moreover have "convert_blocks (Suc fuel) False st = Inr st'"
      using step run conv_invD(4) [OF Suc.prems(2)] Cons
      by (simp add: convert_blocks.simps [of "Suc fuel"])
    ultimately show ?thesis using inv' by blast
  qed
qed

end
