(* ===== verification/ConversionCorrect.thy ===== *)
theory ConversionCorrect
  imports ConversionEnd
begin

text \<open>
  The converted function: its structure, that the pass always produces it for a well-formed
  function, and that it computes what the original function computes.
\<close>

section \<open>The result of the pass\<close>

definition final_exit :: "nat list \<Rightarrow> mfunc \<Rightarrow> spine \<Rightarrow> nat \<Rightarrow> nat \<Rightarrow> nat \<Rightarrow> bool" where
  "final_exit zs F dn = exit_to (set zs) F {} None dn"

definition converted :: "mfunc \<Rightarrow> nat list \<Rightarrow> spine \<Rightarrow> nat \<Rightarrow> mfunc \<Rightarrow> bool" where
  "converted F0 zs dn e F \<longleftrightarrow>
     layout F = e # zs @ weave dn \<and> distinct (layout F) \<and> (\<forall>b\<in>set (layout F). b < fresh F) \<and>
     code F e = [mk_JMP_4 (hd (layout F0))] \<and> fakes_ok F dn \<and>
     filter (\<lambda>b. b \<in> set (layout F0)) (map fst dn) = layout F0 \<and>
     (\<forall>x\<in>set (layout F0). block_conv F0 F (final_exit zs F dn) (nexts dn x) {} x)"

lemma conv_inv_init:
  assumes "wf_fun F0"
  shows "conv_inv F0 [] [] [] (layout F0)
    \<lparr>MF = F0, takenBlocks = [\<lparr>currentMBB = None, DestMBB = None, taken = True\<rparr>],
     processedMBBs = [], iMBB = begin_iter (layout F0)\<rparr>"
  using assms
  by (auto simp: conv_inv_def layout_ok_def rest_ok_def stub_ok_def fakes_ok_def lanes_ok_def wf_fun_def)

lemma exit_to_closed:
  assumes "exit_to Z F (set ls) None dn x z t" and "lanes_ok Z {} F ls"
  shows "exit_to Z F {} None dn x z t"
proof -
  have "\<not> open_lane (set ls) None z' t" for z'
    using assms(2) by (auto simp: open_lane_def lanes_ok_def)
  with assms(1) show ?thesis by (auto simp: exit_to_def)
qed

lemma runOnMachineFunction_converted:
  assumes wf: "wf_fun F0"
  shows "\<exists>F zs dn e. runOnMachineFunction False F0 = Inr F \<and> converted F0 zs dn e F \<and>
    fresh F \<le> fresh F0 + 2 * length (layout F0) * (2 * length (layout F0) + 5) + 1"
proof -
  from wf obtain e0 ls where l0: "layout F0 = e0 # ls" by (auto simp: wf_fun_def neq_Nil_conv)
  from convert_blocks_ok [OF wf conv_inv_init [OF wf], of "convert_fuel F0"] obtain st zs dn where
    run: "convert_blocks (convert_fuel F0) False
      \<lparr>MF = F0, takenBlocks = [\<lparr>currentMBB = None, DestMBB = None, taken = True\<rparr>],
       processedMBBs = [], iMBB = begin_iter (layout F0)\<rparr> = Inr st"
    and inv: "conv_inv F0 zs dn [] [] st"
    and g: "fresh (MF st) \<le> fresh F0 + convert_fuel F0 * (1 + convert_fuel F0 + 4)"
    by (auto simp: convert_fuel_def)
  note D = conv_invD [OF inv, unfolded append_Nil]
  let ?n = "fresh (MF st)"
  define F where "F = addSuccessor ?n e0 UnknownN (BuildMI_end ?n (mk_JMP_4 e0)
      (mf_push_front ?n (snd (CreateMachineBasicBlock (MF st)))))"
  have run': "runOnMachineFunction False F0 = Inr F"
    using run l0 by (simp add: runOnMachineFunction_def split_beta F_def Let_def)
  have c: "code F b = (if b = ?n then [mk_JMP_4 e0] else code (MF st) b)" for b by (simp add: F_def)
  have lay: "layout F = ?n # zs @ weave dn" using D(1) by (simp add: F_def layout_ok_def)
  have nn: "b < ?n" if "b \<in> set zs \<or> b \<in> fst ` set dn \<or> b \<in> set (fakes dn)" for b
    using that layout_ok_fresh [OF D(1)] by blast
  have dist: "distinct (layout F)"
  proof -
    have "?n \<notin> set (zs @ weave dn)" using nn by (auto simp: set_weave)
    with layout_ok_dist [OF D(1)] show ?thesis by (simp add: lay)
  qed
  have same: "code F b = code (MF st) b" if "b \<in> set zs \<or> b \<in> fst ` set dn \<or> b \<in> set (fakes dn)" for b
    using nn [OF that] by (simp add: c)
  have fakes: "fakes_ok F dn"
    by (rule fakes_ok_frame [OF D(6)]) (use same fakes_mem in blast)+
  have conv: "block_conv F0 F (final_exit zs F dn) (nexts dn x) {} x" if x: "x \<in> set (layout F0)" for x
  proof -
    from x D(1) have xd: "x \<in> fst ` set dn" by (auto simp: layout_ok_def)
    have ex: "final_exit zs F dn y z t"
      if "exit_to (set zs) (MF st) (set (takenBlocks st)) (begin_iter []) dn y z t" for y z t
    proof -
      from that D(7) have "exit_to (set zs) (MF st) {} None dn y z t"
        by (intro exit_to_closed) auto
      then show ?thesis unfolding final_exit_def
        by (rule exit_to_mono) (use same in auto)
    qed
    have xi: "x \<in> fst ` set dn \<inter> set (layout F0)" using x xd by blast
    show ?thesis
    proof (rule block_conv_mono [OF D(8) [OF xi]])
      show "code F x = code (MF st) x" using same xd by blast
      fix N u
      assume "jump_stub (MF st) (exit_to (set zs) (MF st) (set (takenBlocks st)) (begin_iter []) dn)
        (nexts dn x) (pendq dn [] x) N u"
      then have "jump_stub (MF st) (exit_to (set zs) (MF st) (set (takenBlocks st)) (begin_iter []) dn)
        (nexts dn x) {} N u"
        by simp
      then show "jump_stub F (final_exit zs F dn) (nexts dn x) {} N u"
        by (rule jump_stub_mono) (use same nexts_sub ex in auto)
    qed (rule ex)
  qed
  have "filter (\<lambda>b. b \<in> set (layout F0)) (map fst dn) = layout F0"
    using D(1) by (simp add: layout_ok_def)
  moreover have "\<forall>b\<in>set (layout F). b < fresh F"
  proof -
    have "b \<le> ?n" if "b \<in> set (?n # zs @ weave dn)" for b
      using that nn [of b] less_imp_le [of b ?n] unfolding list.set set_append set_weave by blast
    moreover have "fresh F = Suc ?n" by (simp add: F_def)
    ultimately show ?thesis by (simp add: lay less_Suc_eq_le)
  qed
  ultimately have "converted F0 zs dn ?n F"
    using lay dist fakes conv by (simp add: converted_def c l0)
  moreover have "fresh F = Suc ?n" by (simp add: F_def)
  with g have "fresh F \<le> fresh F0 + 2 * length (layout F0) * (2 * length (layout F0) + 5) + 1"
    by (simp add: convert_fuel_def add.commute)
  ultimately show ?thesis using run' by blast
qed

end
