(* ===== verification/ConversionExit.thy ===== *)
theory ConversionExit
  imports ConversionCorrect
begin

text \<open>
  Running a converted block to its end and out of it: the trampolines an exit goes through, the
  state they leave, and the jumps through R15 executed on the way.
\<close>

section \<open>States up to the two registers of the pass\<close>

definition agree :: "'m mstate \<Rightarrow> 'm mstate \<Rightarrow> bool" where
  "agree s s' \<longleftrightarrow> flags s = flags s' \<and> mem s = mem s' \<and> (\<forall>r. r \<noteq> R13 \<longrightarrow> r \<noteq> R15 \<longrightarrow> regs s r = regs s' r)"

lemma agree_refl [simp]: "agree s s"
  by (simp add: agree_def)

lemma agree_trans: "agree s s' \<Longrightarrow> agree s' s'' \<Longrightarrow> agree s s''"
  by (simp add: agree_def)

lemma agree_set [simp]:
  "agree s (set_reg R15 v s') = agree s s'" "agree s (set_reg R13 v s') = agree s s'"
  by (auto simp: agree_def set_reg_def)

lemma set_reg_regs [simp]: "regs (set_reg r v s) q = (if q = r then v else regs s q)"
  "flags (set_reg r v s) = flags s"
  by (simp_all add: set_reg_def)

text \<open>The instructions of a function neither read nor write R13 and R15.\<close>

definition avoids_instr :: "'m machine \<Rightarrow> minstr \<Rightarrow> bool" where
  "avoids_instr M MI \<longleftrightarrow>
     (\<forall>s s'. agree s s' \<longrightarrow> agree (exec_straight M MI s) (exec_straight M MI s')
        \<and> load M MI s = load M MI s') \<and>
     (opc MI = JMP64r \<longrightarrow> ops MI \<noteq> [MO_Register (Reg64 R13)] \<and> ops MI \<noteq> [MO_Register (Reg64 R15)])"

definition avoids :: "'m machine \<Rightarrow> mfunc \<Rightarrow> bool" where
  "avoids M F \<longleftrightarrow> (\<forall>b\<in>set (layout F). \<forall>MI\<in>set (code F b). avoids_instr M MI)"

section \<open>The jumps that are executed\<close>

text \<open>
  The blocks whose jump through R15 is executed in the first \<open>n\<close> steps: what an observer of
  the branch predictor sees of the converted code outside the trampolines.
\<close>

definition fake_jump :: "mfunc \<Rightarrow> 'm config \<Rightarrow> nat list" where
  "fake_jump F c =
     (case c of
        Run b i s \<Rightarrow>
          if i < length (code F b) \<and> code F b ! i = mk_JMP64r targetRegOpcode then [b] else []
      | _ \<Rightarrow> [])"

primrec jump_trace :: "'m machine \<Rightarrow> mfunc \<Rightarrow> nat \<Rightarrow> 'm config \<Rightarrow> nat list" where
  "jump_trace M F 0 c = []"
| "jump_trace M F (Suc n) c = fake_jump F c @ jump_trace M F n (mstep M F c)"

lemma jump_trace_add:
  "jump_trace M F (m + n) c = jump_trace M F m c @ jump_trace M F n (mrun M F m c)"
  by (induction m arbitrary: c) simp_all

lemma jump_trace_trans:
  "mrun M F m c = c' \<Longrightarrow> jump_trace M F (m + n) c = jump_trace M F m c @ jump_trace M F n c'"
  by (simp add: jump_trace_add)

lemma fake_jump_not:
  assumes "opc MI \<noteq> JMP64r" and "code F b ! i = MI"
  shows "fake_jump F (Run b i s) = []"
  using assms by (auto simp: fake_jump_def mk_JMP64r_def)

lemma opc_mk [simp]:
  "opc (mk_LEA64r r z) = LEA64r" "opc (mk_JMP_4 t) = JMP_4" "opc (mk_CMOV c) = c"
  by (simp_all add: mk_LEA64r_def mk_JMP_4_def mk_CMOV_def)

section \<open>Running the trampolines\<close>

lemma mstep_lea:
  assumes "i < length (code F b)" "code F b ! i = mk_LEA64r (Reg64 r) z"
  shows "mstep M F (Run b i s) = Run b (Suc i) (set_reg r (loc M z) s)"
  using assms
  by (simp add: mk_LEA64r_def exec_instr_def Let_def exec_straight_def isCall_def desc_isCall_def)

lemma mstep_jmp:
  assumes "i < length (code F b)" "code F b ! i = mk_JMP_4 t"
  shows "mstep M F (Run b i s) = Run t 0 s"
  using assms by (simp add: mk_JMP_4_def exec_instr_def Let_def jump_target_def)

lemma fake_jump_built:
  "code F b ! i = mk_LEA64r r z \<Longrightarrow> fake_jump F (Run b i s) = []"
  "code F b ! i = mk_JMP_4 t \<Longrightarrow> fake_jump F (Run b i s) = []"
  "code F b ! i = mk_CMOV (CMOV64rr m) \<Longrightarrow> fake_jump F (Run b i s) = []"
  "length (code F b) \<le> i \<Longrightarrow> fake_jump F (Run b i s) = []"
  by (rule fake_jump_not [rotated], assumption, simp)+ (simp add: fake_jump_def)

lemma mstep_fake:
  assumes "code F f = [mk_JMP64r targetRegOpcode]" and "regs s R15 = loc M z"
    and "inj_on (loc M) (set (layout F))" and "z \<in> set (layout F)"
  shows "mstep M F (Run f 0 s) = Run z 0 s" and "fake_jump F (Run f 0 s) = [f]"
  using assms block_at_loc [OF assms(3,4)]
  by (simp_all add: mk_JMP64r_def targetRegOpcode_def exec_instr_def Let_def fake_jump_def)

lemma chain_run:
  assumes "chain Z F z fs z'" and "inj_on (loc M) (set (layout F))" and "Z \<subseteq> set (layout F)"
    and "\<And>f. f \<in> set fs \<Longrightarrow> code F f = [mk_JMP64r targetRegOpcode]"
  shows "\<exists>n s'. mrun M F n (Run z 0 s) = Run z' 0 s' \<and> agree s s' \<and> jump_trace M F n (Run z 0 s) = fs"
  using assms(1,4)
proof (induction fs arbitrary: z s)
  case Nil
  then show ?case by (intro exI [where x = 0]) auto
next
  case (Cons f fs)
  then obtain z1 where c: "code F z = [lea_target z1, mk_JMP_4 f]" "chain Z F z1 fs z'" by auto
  let ?s = "set_reg R15 (loc M z1) s"
  from chain_in [OF c(2)] assms(3) have z1: "z1 \<in> set (layout F)" by auto
  have 1: "mstep M F (Run z 0 s) = Run z 1 ?s" "fake_jump F (Run z 0 s) = []"
    using mstep_lea [of 0 F z R15 z1 M s] fake_jump_built(1) [of F z 0 "Reg64 R15" z1 s] c(1)
    by (simp_all add: lea_target_def targetRegOpcode_def)
  have 2: "mstep M F (Run z 1 ?s) = Run f 0 ?s" "fake_jump F (Run z 1 ?s) = []"
    using mstep_jmp [of 1 F z f M ?s] fake_jump_built(2) [of F z 1 f ?s] c(1) by simp_all
  have 3: "mstep M F (Run f 0 ?s) = Run z1 0 ?s" "fake_jump F (Run f 0 ?s) = [f]"
    by (rule mstep_fake [OF _ _ assms(2) z1]; use Cons.prems(2) in simp)+
  from Cons.IH [OF c(2), of ?s] Cons.prems(2) obtain n s' where
    n: "mrun M F n (Run z1 0 ?s) = Run z' 0 s'" "agree ?s s'" "jump_trace M F n (Run z1 0 ?s) = fs" by auto
  have "mrun M F (Suc (Suc (Suc n))) (Run z 0 s) = Run z' 0 s'"
    by (simp only: mrun.simps 1 2 3 n(1))
  moreover have "jump_trace M F (Suc (Suc (Suc n))) (Run z 0 s) = f # fs"
    by (simp only: jump_trace.simps 1 2 3 n(3) append.simps)
  moreover have "agree s s'" using n(2) agree_set(1) [of s "loc M z1" s] agree_trans agree_refl by blast
  ultimately show ?case by blast
qed

section \<open>Leaving a block\<close>

text \<open>\<open>ps\<close> is the part of the spine from \<open>x\<close> up to, and without, \<open>t\<close>.\<close>

definition between :: "spine \<Rightarrow> nat \<Rightarrow> spine \<Rightarrow> nat \<Rightarrow> bool" where
  "between dn x ps t \<longleftrightarrow> (\<exists>a b fx fk ps'. dn = a @ ps @ (t, fk) # b \<and> ps = (x, fx) # ps')"

lemma after_split: "x \<in> fst ` set dn \<Longrightarrow> \<exists>a fx. dn = a @ (x, fx) # after dn x \<and> x \<notin> fst ` set a"
proof (induction dn)
  case (Cons p dn)
  obtain y fy where p: "p = (y, fy)" by (cases p)
  show ?case
  proof (cases "y = x")
    case True
    with p show ?thesis by (intro exI [where x = "[]"] exI [where x = fy]) simp
  next
    case False
    with Cons p obtain a fx where "dn = a @ (x, fx) # after dn x" "x \<notin> fst ` set a" by auto
    with False p show ?thesis by (intro exI [where x = "p # a"] exI [where x = fx]) simp
  qed
qed simp

lemma distinct_weave_fst: "distinct (weave ps) \<Longrightarrow> distinct (map fst ps)"
  by (induction ps rule: weave.induct) (auto simp: set_weave)

lemma between_after:
  assumes "distinct (map fst dn)" "(x, fx) \<in> set dn" "after dn x = p1 @ (t, fk) # p2"
  shows "between dn x ((x, fx) # p1) t"
proof -
  from assms(2) have "x \<in> fst ` set dn" by force
  from after_split [OF this] obtain a gx where a: "dn = a @ (x, gx) # after dn x" "x \<notin> fst ` set a"
    by blast
  then have d: "dn = a @ (x, gx) # p1 @ (t, fk) # p2" using assms(3) by simp
  have "gx = fx"
    using assms(1,2) unfolding d by (force simp: image_iff)
  with d show ?thesis unfolding between_def by fastforce
qed

lemma keyed_split_unique:
  assumes "distinct (map fst (as @ p # bs))" and "as @ p # bs = cs @ q # ds" and "fst p = fst q"
  shows "as = cs \<and> p = q \<and> bs = ds"
proof -
  have "q \<in> set (as @ p # bs)" unfolding assms(2) by simp
  moreover have "p \<in> set (as @ p # bs)" by simp
  ultimately have pq: "p = q"
    using assms(1,3) eq_key_imp_eq_value [of "as @ p # bs" "fst p" "snd p" "snd q"]
    by (metis prod.collapse)
  have "p \<notin> set as" "p \<notin> set bs" using assms(1) by force+
  with assms(2) pq show ?thesis using append_Cons_eq_iff [of p as bs cs ds] by simp
qed

lemma between_trans:
  assumes "distinct (map fst dn)" "between dn x ps y" "between dn y qs t"
  shows "between dn x (ps @ qs) t"
proof -
  from assms(2) obtain a b fx fy ps' where 1: "dn = (a @ ps) @ (y, fy) # b" "ps = (x, fx) # ps'"
    unfolding between_def by auto
  from assms(3) obtain c d gy ft qs' where 2: "dn = c @ (y, gy) # qs' @ (t, ft) # d" "qs = (y, gy) # qs'"
    unfolding between_def by auto
  from keyed_split_unique [OF _ trans [OF 1(1) [symmetric] 2(1)]] assms(1) 1(1)
  have "a @ ps = c" "b = qs' @ (t, ft) # d" "gy = fy" by auto
  with 1 2 show ?thesis unfolding between_def by force
qed

lemma between_unique:
  assumes "distinct (map fst dn)" "between dn x ps t" "between dn x qs t"
  shows "ps = qs"
proof -
  from assms(2) obtain a b fx ft ps' where 1: "dn = a @ (x, fx) # ps' @ (t, ft) # b" "ps = (x, fx) # ps'"
    unfolding between_def by auto
  from assms(3) obtain c d gx gt qs' where 2: "dn = c @ (x, gx) # qs' @ (t, gt) # d" "qs = (x, gx) # qs'"
    unfolding between_def by auto
  from keyed_split_unique [OF _ trans [OF 1(1) [symmetric] 2(1)]] assms(1) 1(1)
  have xs: "ps' @ (t, ft) # b = qs' @ (t, gt) # d" "gx = fx" by auto
  have "distinct (map fst (ps' @ (t, ft) # b))" using assms(1) unfolding 1(1) by simp
  from keyed_split_unique [OF this xs(1)] show ?thesis using 1 2 xs by simp
qed

lemma weave_next: "distinct (weave ps) \<Longrightarrow> (x, Some f) \<in> set ps \<Longrightarrow> next_in (weave ps) x = Some f"
proof (induction ps rule: weave.induct)
  case (2 y ps)
  then have "x \<noteq> y" by (force simp: set_weave)
  with 2 show ?case by auto
next
  case (3 y g ps)
  show ?case
  proof (cases "(x, Some f) = (y, Some g)")
    case False
    with 3 have "x \<in> set (weave ps)" by (force simp: set_weave)
    with 3 False show ?thesis by auto
  qed simp
qed simp

lemma convertedD:
  assumes "converted F0 zs dn e F"
  shows "set zs \<subseteq> set (layout F)" and "set (layout F0) \<subseteq> fst ` set dn"
    and "fst ` set dn \<subseteq> set (layout F)" and "fakes_ok F dn"
    and "x \<in> set (layout F0) \<Longrightarrow> block_conv F0 F (final_exit zs F dn) (nexts dn x) {} x"
    and "(x, Some f) \<in> set dn \<Longrightarrow> next_in (layout F) x = Some f"
    and "f \<in> set (fakes dn) \<Longrightarrow> code F f = [mk_JMP64r targetRegOpcode]"
    and "distinct (map fst dn)"
proof -
  have lay: "layout F = e # zs @ weave dn" and "distinct (layout F)"
    and flt: "filter (\<lambda>b. b \<in> set (layout F0)) (map fst dn) = layout F0"
    using assms unfolding converted_def by blast+
  then have dist: "distinct (e # zs @ weave dn)" by simp
  then show "distinct (map fst dn)" using distinct_weave_fst by simp
  show "set zs \<subseteq> set (layout F)" "fst ` set dn \<subseteq> set (layout F)" by (auto simp: lay set_weave)
  have "set (filter (\<lambda>b. b \<in> set (layout F0)) (map fst dn)) = set (layout F0)"
    using arg_cong [OF flt, of set] .
  then show "set (layout F0) \<subseteq> fst ` set dn" by auto
  show fk: "fakes_ok F dn" using assms by (simp add: converted_def)
  show "x \<in> set (layout F0) \<Longrightarrow> block_conv F0 F (final_exit zs F dn) (nexts dn x) {} x"
    using assms by (simp add: converted_def)
  show "next_in (layout F) x = Some f" if "(x, Some f) \<in> set dn"
  proof -
    have "x \<in> set (weave dn)" using that by (force simp: set_weave)
    with dist have "x \<notin> set (e # zs)" by auto
    then have "next_in ((e # zs) @ weave dn) x = next_in (weave dn) x" by (rule next_in_append_notin)
    then show ?thesis using weave_next [OF _ that] dist by (simp add: lay)
  qed
  show "f \<in> set (fakes dn) \<Longrightarrow> code F f = [mk_JMP64r targetRegOpcode]"
    using fk by (auto simp: fakes_ok_def fakes_def List.map_filter_def split: option.splits)
qed

lemma fake_of:
  assumes "converted F0 zs dn e F" and "x \<in> fst ` set dn"
    and "\<not> isReturn (last (code F x))"
  shows "\<exists>f. (x, Some f) \<in> set dn"
proof -
  from assms(2) obtain fk where fk: "(x, fk) \<in> set dn" by auto
  with convertedD(4) [OF assms(1)] assms(3) show ?thesis
    by (cases fk) (auto simp: fakes_ok_def isReturnBlock_def split: option.splits)
qed

definition forward_trace :: "spine \<Rightarrow> nat \<Rightarrow> nat \<Rightarrow> nat list \<Rightarrow> bool" where
  "forward_trace dn x t tr \<longleftrightarrow>
     (t \<in> fst ` set (after dn x) \<longrightarrow> (\<exists>ps. between dn x ps t \<and> tr = fakes ps))"

lemma forward_trace_next:
  assumes "distinct (map fst dn)" "x \<in> fst ` set dn" "N \<in> nexts dn x"
    and "forward_trace dn x N tr1" "forward_trace dn N u tr2" "u \<noteq> N"
  shows "forward_trace dn x u (tr1 @ tr2)"
proof -
  from assms(3) obtain fN ps where af: "after dn x = (N, fN) # ps"
    by (auto simp: nexts_def split: list.splits)
  from after_split [OF assms(2)] af obtain a fx where dn: "dn = (a @ [(x, fx)]) @ (N, fN) # ps" by auto
  have "N \<notin> fst ` set (a @ [(x, fx)])" using assms(1) unfolding dn by auto
  then have "after dn N = ps" unfolding dn after_append by simp
  then show ?thesis
    using assms(4-6) af between_trans [OF assms(1)] unfolding forward_trace_def by fastforce
qed

lemma exit_run:
  assumes conv: "converted F0 zs dn e F" and ex: "final_exit zs F dn x z t"
    and x: "(x, Some f) \<in> set dn" and inj: "inj_on (loc M) (set (layout F))"
    and r: "regs s R15 = loc M z"
  shows "\<exists>n s'. mrun M F (Suc n) (Run x (length (code F x)) s) = Run t 0 s' \<and> agree s s' \<and>
    forward_trace dn x t (jump_trace M F (Suc n) (Run x (length (code F x)) s))"
proof -
  note D = convertedD [OF conv]
  let ?c0 = "Run x (length (code F x)) s"
  have fd: "f \<in> set (fakes dn)" by (rule fakes_mem [OF x])
  have "z \<in> set zs" using ex chain_in by (auto simp: final_exit_def exit_to_def)
  with D(1) have z: "z \<in> set (layout F)" by auto
  have 1: "mstep M F ?c0 = Run f 0 s" "fake_jump F ?c0 = []"
    using D(6) [OF x] by (simp_all add: fake_jump_built(4))
  have 2: "mstep M F (Run f 0 s) = Run z 0 s" "fake_jump F (Run f 0 s) = [f]"
    by (rule mstep_fake [OF D(7) [OF fd] r inj z])+
  have "\<exists>n s' z' fs. mrun M F n (Run z 0 s) = Run z' 0 s' \<and> agree s s' \<and> code F z' = [mk_JMP_4 t] \<and>
      jump_trace M F n (Run z 0 s) = fs \<and> forward_trace dn x t (f # fs)"
  proof (cases "z \<in> set zs \<and> code F z = [mk_JMP_4 t] \<and> t \<in> fst ` set dn \<and> t \<notin> fst ` set (after dn x)")
    case True
    then show ?thesis
      by (intro exI [where x = 0] exI [where x = s] exI [where x = z]) (simp add: forward_trace_def)
  next
    case False
    with ex obtain p1 fk p2 z' where p: "after dn x = p1 @ (t, fk) # p2"
        "chain (set zs) F z (fakes p1) z'" "code F z' = [mk_JMP_4 t]"
      unfolding final_exit_def exit_to_def open_lane_def by blast
    have "set (fakes p1) \<subseteq> set (fakes dn)"
      using after_subset [of dn x] p(1) by (fastforce simp: fakes_def List.map_filter_def)
    with chain_run [OF p(2) inj D(1), of s] D(7) obtain n s' where
      "mrun M F n (Run z 0 s) = Run z' 0 s'" "agree s s'" "jump_trace M F n (Run z 0 s) = fakes p1"
      by blast
    moreover have "forward_trace dn x t (f # fakes p1)"
      using between_after [OF D(8) x p(1)] by (auto simp: forward_trace_def)
    ultimately show ?thesis using p(3) by blast
  qed
  then obtain n s' z' fs where n: "mrun M F n (Run z 0 s) = Run z' 0 s'" "agree s s'"
    "jump_trace M F n (Run z 0 s) = fs"
    and z': "code F z' = [mk_JMP_4 t]" and tr: "forward_trace dn x t (f # fs)" by blast
  have 3: "mstep M F (Run z' 0 s') = Run t 0 s'" "fake_jump F (Run z' 0 s') = []"
    using mstep_jmp [of 0 F z' t M s'] fake_jump_built(2) [of F z' 0 t s'] z' by simp_all
  have 4: "mrun M F (n + 1) (Run z 0 s) = Run t 0 s'" "jump_trace M F (n + 1) (Run z 0 s) = fs"
    by (simp_all only: mrun_add jump_trace_add n(1,3) mrun.simps jump_trace.simps 3 One_nat_def
        append_Nil2)
  have "mrun M F (Suc (Suc (n + 1))) ?c0 = Run t 0 s'"
    unfolding mrun.simps(2) [of M F "Suc (n + 1)"] 1 mrun.simps(2) [of M F "n + 1"] 2 by (rule 4(1))
  moreover have "jump_trace M F (Suc (Suc (n + 1))) ?c0 = f # fs"
    unfolding jump_trace.simps(2) [of M F "Suc (n + 1)"] 1 jump_trace.simps(2) [of M F "n + 1"] 2 4(2)
    by simp
  ultimately show ?thesis using n(2) tr by metis
qed

lemma lea_exit_run:
  assumes conv: "converted F0 zs dn e F" and ex: "final_exit zs F dn x z t"
    and x: "x \<in> fst ` set dn" and inj: "inj_on (loc M) (set (layout F))"
    and c: "code F x = body @ [lea_target z]"
  shows "\<exists>n s'. mrun M F (Suc n) (Run x (length body) s) = Run t 0 s' \<and> agree s s' \<and>
    forward_trace dn x t (jump_trace M F (Suc n) (Run x (length body) s))"
proof -
  let ?s = "set_reg R15 (loc M z) s"
  have "\<not> isReturn (last (code F x))"
    by (simp add: c lea_target_def mk_LEA64r_def isReturn_def desc_isReturn_def)
  with fake_of [OF conv x] obtain f where f: "(x, Some f) \<in> set dn" by blast
  have 1: "mstep M F (Run x (length body) s) = Run x (length (code F x)) ?s"
    using mstep_lea [of "length body" F x R15 z M s] c by (simp add: lea_target_def targetRegOpcode_def)
  have 2: "fake_jump F (Run x (length body) s) = []"
    using fake_jump_built(1) [of F x "length body" targetRegOpcode z s] c by (simp add: lea_target_def)
  from exit_run [OF conv ex f inj, of ?s] obtain n s' where
    n: "mrun M F (Suc n) (Run x (length (code F x)) ?s) = Run t 0 s'" "agree ?s s'"
      "forward_trace dn x t (jump_trace M F (Suc n) (Run x (length (code F x)) ?s))" by auto
  have "mrun M F (Suc (Suc n)) (Run x (length body) s) = Run t 0 s'"
    unfolding mrun.simps(2) [of M F "Suc n"] 1 by (rule n(1))
  moreover have "agree s s'" using n(2) agree_set(1) [of s "loc M z" s] agree_trans agree_refl by blast
  moreover have "jump_trace M F (Suc (Suc n)) (Run x (length body) s) =
      jump_trace M F (Suc n) (Run x (length (code F x)) ?s)"
    unfolding jump_trace.simps(2) [of M F "Suc n"] 1 2 by simp
  ultimately show ?thesis using n(3) by metis
qed

lemma cond_run:
  assumes conv: "converted F0 zs dn e F" and x: "x \<in> fst ` set dn"
    and c: "code F x = body @ cond_target m zF zT"
  shows "\<exists>s'. mrun M F 3 (Run x (length body) s) = Run x (length (code F x)) s' \<and> agree s s' \<and>
      regs s' R15 = loc M (if cond_holds (mnem_cond m) (flags s) then zT else zF)"
    and "jump_trace M F 3 (Run x (length body) s) = []"
    and "\<exists>f. (x, Some f) \<in> set dn"
proof -
  let ?b = "cond_holds (mnem_cond m) (flags s)"
  let ?s1 = "set_reg R15 (loc M zF) s"
  let ?s2 = "set_reg R13 (loc M zT) ?s1"
  let ?s3 = "if ?b then set_reg R15 (loc M zT) ?s2 else ?s2"
  have "\<not> isReturn (last (code F x))"
    by (simp add: c cond_target_def mk_CMOV_def isReturn_def desc_isReturn_def)
  with fake_of [OF conv x] show "\<exists>f. (x, Some f) \<in> set dn" .
  have 1: "mstep M F (Run x (length body) s) = Run x (length body + 1) ?s1"
    using mstep_lea [of "length body" F x R15 zF M s] c by (simp add: cond_target_def targetRegOpcode_def)
  have 2: "mstep M F (Run x (length body + 1) ?s1) = Run x (length body + 2) ?s2"
    using mstep_lea [of "length body + 1" F x R13 zT M ?s1] c
    by (simp add: cond_target_def tmpReg_def nth_append)
  have 3: "mstep M F (Run x (length body + 2) ?s2) = Run x (length (code F x)) ?s3"
    by (simp add: c cond_target_def nth_append mk_CMOV_def exec_instr_def exec_straight_def
        targetRegOpcode_def tmpReg_def isCall_def desc_isCall_def Let_def)
  have 4: "fake_jump F (Run x (length body) q) = []" "fake_jump F (Run x (length body + 1) q) = []"
    "fake_jump F (Run x (length body + 2) q) = []" for q
    by (rule fake_jump_built(1), simp add: c cond_target_def,
        rule fake_jump_built(1), simp add: c cond_target_def nth_append,
        rule fake_jump_built(3), simp add: c cond_target_def nth_append)
  show "jump_trace M F 3 (Run x (length body) s) = []"
    by (simp only: jump_trace.simps numeral_3_eq_3 1 2 4 append.simps)
  have "mrun M F 3 (Run x (length body) s) = Run x (length (code F x)) ?s3"
    using 1 2 3 by (simp only: mrun.simps numeral_3_eq_3)
  moreover have "agree s ?s3" "regs ?s3 R15 = loc M (if ?b then zT else zF)" by simp_all
  ultimately show "\<exists>s'. mrun M F 3 (Run x (length body) s) = Run x (length (code F x)) s' \<and> agree s s' \<and>
      regs s' R15 = loc M (if ?b then zT else zF)" by blast
qed

end
