(* ===== verification/ConversionSim.thy ===== *)
theory ConversionSim
  imports ConversionExit
begin

text \<open>
  A run of the original function is matched by a run of the converted one. The two programs
  agree on everything but R13 and R15, the registers the pass writes; the program may not
  observe them (\<open>avoids\<close>), which is what reserving them would guarantee.
\<close>

section \<open>Forward simulation\<close>

text \<open>
  The interface between a small step of the original program and the steps that match it: a
  relation on states kept by a step that does not go wrong, at the price of at least one step.
\<close>

locale forward_simulation =
  fixes step0 step1 :: "'c \<Rightarrow> 'c"
    and bad final :: "'c \<Rightarrow> bool"
    and R :: "'c \<Rightarrow> 'c \<Rightarrow> bool"
  assumes sim: "R c d \<Longrightarrow> \<not> bad (step0 c) \<Longrightarrow> \<exists>n. R (step0 c) ((step1 ^^ Suc n) d)"
    and R_final: "R c d \<Longrightarrow> final c = final d"
    and final_stays: "final d \<Longrightarrow> step1 d = d"
begin

lemma sim_run:
  assumes "R c d" and "\<And>k. \<not> bad ((step0 ^^ k) c)"
  shows "\<exists>m\<ge>n. R ((step0 ^^ n) c) ((step1 ^^ m) d)"
proof (induction n)
  case 0
  then show ?case using assms(1) by (intro exI [where x = 0]) simp
next
  case (Suc n)
  then obtain m where m: "n \<le> m" "R ((step0 ^^ n) c) ((step1 ^^ m) d)" by blast
  from sim [OF m(2)] assms(2) [of "Suc n"] obtain k where
    "R ((step0 ^^ Suc n) c) ((step1 ^^ Suc k) ((step1 ^^ m) d))" by auto
  moreover have "(step1 ^^ Suc k) ((step1 ^^ m) d) = (step1 ^^ (Suc k + m)) d"
    by (simp only: funpow_add o_apply)
  ultimately have "R ((step0 ^^ Suc n) c) ((step1 ^^ (Suc k + m)) d)" by (simp only:)
  with m(1) show ?case by (intro exI [where x = "Suc k + m"]) auto
qed

lemma final_run: "final d \<Longrightarrow> (step1 ^^ n) d = d"
  by (induction n) (simp_all add: final_stays)

text \<open>Whatever the matching program ends in is matched by the original one.\<close>

lemma sim_back:
  assumes R: "R c d" and ok: "\<And>k. \<not> bad ((step0 ^^ k) c)" and fin: "final ((step1 ^^ m) d)"
  shows "\<exists>n. R ((step0 ^^ n) c) ((step1 ^^ m) d)"
proof -
  from sim_run [OF R ok, of m] obtain k where k: "m \<le> k" "R ((step0 ^^ m) c) ((step1 ^^ k) d)" by blast
  have "(step1 ^^ k) d = (step1 ^^ (k - m)) ((step1 ^^ m) d)"
    using fun_cong [OF funpow_add [of "k - m" m step1], of d] k(1) by simp
  also have "\<dots> = (step1 ^^ m) d" using final_run [OF fin] .
  finally show ?thesis using k(2) by metis
qed

end

section \<open>The simulation relation\<close>

text \<open>
  A block whose last instruction is no terminator and that does not fall through ends in a
  call that does not return.
\<close>

definition calls_stop :: "'m machine \<Rightarrow> mfunc \<Rightarrow> bool" where
  "calls_stop M F \<longleftrightarrow>
     (\<forall>b\<in>set (layout F).
        code F b \<noteq> [] \<longrightarrow> \<not> isTerminator (last (code F b)) \<longrightarrow>
        (\<forall>n. next_in (layout F) b = Some n \<longrightarrow> \<not> isSuccessor F b n) \<longrightarrow>
        noreturn M (last (code F b)))"

definition body_len :: "minstr list \<Rightarrow> nat" where
  "body_len is = length (takeWhile (\<lambda>MI. \<not> isTerminator MI) is)"

definition falls :: "mfunc \<Rightarrow> nat \<Rightarrow> bool" where
  "falls F b \<longleftrightarrow> (\<exists>n. next_in (layout F) b = Some n \<and> isSuccessor F b n)"

text \<open>
  Where control goes from position \<open>i\<close>, past the conditional branch of block \<open>b\<close>: to the
  next block, or by the unconditional jump that the pass moved to a block of its own.
\<close>

definition resumes :: "mfunc \<Rightarrow> nat list \<Rightarrow> mfunc \<Rightarrow> spine \<Rightarrow> nat \<Rightarrow> nat \<Rightarrow> nat \<Rightarrow> bool" where
  "resumes F0 zs F dn b i t \<longleftrightarrow>
     i \<noteq> 0 \<and>
     (i = length (code F0 b) \<and> next_in (layout F0) b = Some t \<or>
      i < length (code F0 b) \<and>
       (\<exists>u. is_jmp (code F0 b ! i) u \<and> u \<in> set (layout F0) \<and> t \<notin> set (layout F0) \<and>
          jump_stub F (final_exit zs F dn) (nexts dn b) {} t u))"

fun matches ::
  "'m machine \<Rightarrow> mfunc \<Rightarrow> nat list \<Rightarrow> mfunc \<Rightarrow> spine \<Rightarrow> 'm config \<Rightarrow> 'm config \<Rightarrow> bool" where
  "matches M F0 zs F dn (Run b i s) (Run b' i' s') =
     (agree s s' \<and> b \<in> set (layout F0) \<and> b' = b \<and>
      (i' = i \<and> i \<le> body_len (code F0 b) \<and> (i = length (code F0 b) \<longrightarrow> falls F0 b) \<or>
       i' = length (code F b) \<and> (\<exists>f. (b, Some f) \<in> set dn) \<and>
         (\<exists>z t. regs s' R15 = loc M z \<and> final_exit zs F dn b z t \<and> resumes F0 zs F dn b i t)))"
| "matches M F0 zs F dn (Returned s) (Returned s') = agree s s'"
| "matches M F0 zs F dn _ _ = False"

text \<open>
  The jumps through R15 that the converted code executes for one step of the original: none while
  the step stays in its block, those on the way from the block to a later one when it leaves it.
\<close>

fun step_trace :: "mfunc \<Rightarrow> spine \<Rightarrow> 'm config \<Rightarrow> 'm config \<Rightarrow> nat list \<Rightarrow> bool" where
  "step_trace F0 dn (Run b i s) (Run t j r) tr =
     (if j = 0
      then i < length (code F0 b) \<and> isIndirectBranch (code F0 b ! i) \<or> forward_trace dn b t tr
      else tr = [])"
| "step_trace F0 dn _ _ tr = True"

lemma ends_body_len:
  assumes "straight body" "ends_with E body T"
  shows "body_len (body @ T) = length body"
proof -
  have "T = [] \<or> isTerminator (hd T)"
    using assms(2) by (cases "(E, body, T)" rule: ends_with.cases)
      (auto dest: is_jcc_flags is_jmp_flags is_indirect_flags isReturn_flags)
  moreover have "takeWhile (\<lambda>MI. \<not> isTerminator MI) (body @ T) = body @ takeWhile (\<lambda>MI. \<not> isTerminator MI) T"
    using assms(1) by (simp add: straight_def list_all_iff takeWhile_append2)
  moreover have "takeWhile (\<lambda>MI. \<not> isTerminator MI) T = []"
    using calculation(1) by (cases T) auto
  ultimately show ?thesis by (simp add: body_len_def)
qed

lemma exec_instr_straight:
  assumes "\<not> isTerminator MI"
  shows "exec_instr M F b i MI s =
    (if isCall MI \<and> noreturn M MI then Returned s else Run b (Suc i) (exec_straight M MI s))"
  using assms
  by (cases "opc MI") (simp_all add: exec_instr_def Let_def isTerminator_def desc_isTerminator_def
      desc_isBranch_def desc_isReturn_def)

lemma end_code_prefix: "take (length body) (end_code E body T n) = body \<and> length body \<le> length (end_code E body T n)"
  by (cases E) simp_all

lemma matches_enter:
  assumes wf: "wf_fun F0" and t: "t \<in> set (layout F0)" and ag: "agree s s'"
  shows "matches M F0 zs F dn (Run t 0 s) (Run t 0 s')"
proof -
  from wf t obtain E body T where "code F0 t = body @ T" "ends_with E body T"
    by (auto simp: wf_fun_def wf_block_def)
  then have "code F0 t \<noteq> []" by (cases "(E, body, T)" rule: ends_with.cases) auto
  with t ag show ?thesis by simp
qed

text \<open>A step inside the body of a block.\<close>

lemma step_body:
  assumes c0: "code F0 b = body @ T" and str: "straight body" and ends: "ends_with E body T"
    and c: "code F b = end_code E body T n" and i: "i < length body"
    and b: "b \<in> set (layout F0)" and wfE: "wf_ending F0 b (next_in (layout F0) b) E"
    and ag: "agree s s'" and av: "avoids M F0" and cs: "calls_stop M F0"
  shows "matches M F0 zs F dn (mstep M F0 (Run b i s)) (mstep M F (Run b i s')) \<and>
    step_trace F0 dn (Run b i s) (mstep M F0 (Run b i s)) (fake_jump F (Run b i s'))"
proof -
  let ?MI = "body ! i"
  have mi: "\<not> isTerminator ?MI" using str i by (simp add: straight_def list_all_iff)
  have n0: "i < length (code F0 b)" "code F0 b ! i = ?MI" using c0 i by (simp_all add: nth_append)
  have n1: "i < length (code F b)" "code F b ! i = ?MI"
    using end_code_prefix [of body E T n] i c by (simp_all, metis nth_take)
  have 0: "mstep M F0 (Run b i s) =
      (if isCall ?MI \<and> noreturn M ?MI then Returned s else Run b (Suc i) (exec_straight M ?MI s))"
    using n0 mi by (simp add: exec_instr_straight)
  have 1: "mstep M F (Run b i s') =
      (if isCall ?MI \<and> noreturn M ?MI then Returned s' else Run b (Suc i) (exec_straight M ?MI s'))"
    using n1 mi by (simp add: exec_instr_straight)
  have "?MI \<in> set (code F0 b)" using c0 i by simp
  with av b ag have ag': "agree (exec_straight M ?MI s) (exec_straight M ?MI s')"
    by (auto simp: avoids_def avoids_instr_def)
  have "opc ?MI \<noteq> JMP64r" using mi by (auto simp: isTerminator_def desc_isTerminator_def desc_isBranch_def)
  then have fj: "fake_jump F (Run b i s') = []" by (rule fake_jump_not) (rule n1(2))
  have bl: "body_len (code F0 b) = length body" unfolding c0 by (rule ends_body_len [OF str ends])
  have fl: "falls F0 b" if e: "Suc i = length (code F0 b)" and nc: "\<not> (isCall ?MI \<and> noreturn M ?MI)"
  proof -
    from e c0 have "Suc i = length body + length T" by simp
    with i have "length T = 0" "length body = Suc i" by linarith+
    then have T: "T = []" by simp
    have ne: "code F0 b \<noteq> []" using n0(1) by auto
    have "length (code F0 b) - 1 = i" using e by simp
    with last_conv_nth [OF ne] n0(2) have last: "last (code F0 b) = ?MI" "code F0 b \<noteq> []"
      using ne by simp_all
    from T ends have "E = EFall \<or> E = ENoReturn \<and> isCall (last body)"
      by (cases "(E, body, T)" rule: ends_with.cases) auto
    then show ?thesis
    proof
      assume "E = EFall"
      with wfE show ?thesis by (auto simp: wf_ending_def falls_def split: option.splits)
    next
      assume En: "E = ENoReturn \<and> isCall (last body)"
      with wfE have "\<forall>n. next_in (layout F0) b = Some n \<longrightarrow> \<not> isSuccessor F0 b n"
        by (auto simp: wf_ending_def)
      with cs b last mi have "noreturn M ?MI" unfolding calls_stop_def by metis
      with En nc last c0 T show ?thesis by simp
    qed
  qed
  show ?thesis
    unfolding 0 1 fj using ag ag' b bl i fl by auto
qed


text \<open>The step that leaves the body of a block.\<close>

lemma mrun_trans: "mrun M F m c = c' \<Longrightarrow> mrun M F n c' = c'' \<Longrightarrow> mrun M F (m + n) c = c''"
  by (simp only: mrun_add)

lemma resume_step:
  assumes wf: "wf_fun F0" and conv: "converted F0 zs dn e F"
    and inj: "inj_on (loc M) (set (layout F))" and f: "(b, Some f) \<in> set dn"
    and r: "regs s' R15 = loc M z" and ex: "final_exit zs F dn b z t"
    and res: "resumes F0 zs F dn b i t" and ag: "agree s s'"
  shows "\<exists>n. matches M F0 zs F dn (mstep M F0 (Run b i s))
      (mrun M F (Suc n) (Run b (length (code F b)) s')) \<and>
    step_trace F0 dn (Run b i s) (mstep M F0 (Run b i s))
      (jump_trace M F (Suc n) (Run b (length (code F b)) s'))"
proof -
  from exit_run [OF conv ex f inj r] obtain n s1 where
    n: "mrun M F (Suc n) (Run b (length (code F b)) s') = Run t 0 s1" "agree s' s1"
      "forward_trace dn b t (jump_trace M F (Suc n) (Run b (length (code F b)) s'))" by blast
  note ag1 = agree_trans [OF ag n(2)]
  from res show ?thesis
    unfolding resumes_def
  proof (elim disjE conjE exE)
    assume i: "i = length (code F0 b)" and nx: "next_in (layout F0) b = Some t"
    then have "mstep M F0 (Run b i s) = Run t 0 s" by simp
    moreover have "matches M F0 zs F dn (Run t 0 s) (Run t 0 s1)"
      using next_in_mem [OF nx] ag1 by (intro matches_enter [OF wf]) auto
    ultimately show ?thesis using n(1,3)
      by (intro exI [where x = n]) (simp only: step_trace.simps simp_thms if_True)
  next
    fix u
    assume i: "i < length (code F0 b)" and u: "is_jmp (code F0 b ! i) u" "u \<in> set (layout F0)"
      and tn: "t \<notin> set (layout F0)" and stub: "jump_stub F (final_exit zs F dn) (nexts dn b) {} t u"
    then obtain z' where N: "t \<in> fst ` set dn" "code F t = [] @ [lea_target z']" "final_exit zs F dn t z' u"
      and nt: "t \<in> nexts dn b"
      using nexts_sub [of t dn b] by (auto simp: jump_stub_def)
    from lea_exit_run [OF conv N(3,1) inj N(2), of s1] obtain k s2 where
      k: "mrun M F (Suc k) (Run t 0 s1) = Run u 0 s2" "agree s1 s2"
        "forward_trace dn t u (jump_trace M F (Suc k) (Run t 0 s1))"
      by (auto simp del: mrun.simps jump_trace.simps)
    have "mstep M F0 (Run b i s) = Run u 0 s"
      using u i by (auto simp: is_jmp_def exec_instr_def Let_def)
    moreover have "matches M F0 zs F dn (Run u 0 s) (Run u 0 s2)"
      by (rule matches_enter [OF wf u(2) agree_trans [OF ag1 k(2)]])
    moreover have "mrun M F (Suc (n + Suc k)) (Run b (length (code F b)) s') = Run u 0 s2"
      using mrun_trans [OF n(1) k(1)] by (simp only: add_Suc)
    moreover have "forward_trace dn b u (jump_trace M F (Suc (n + Suc k)) (Run b (length (code F b)) s'))"
    proof -
      have bd: "b \<in> fst ` set dn" using f by force
      from u(2) tn have "u \<noteq> t" by blast
      moreover have "jump_trace M F (Suc (n + Suc k)) (Run b (length (code F b)) s') =
          jump_trace M F (Suc n) (Run b (length (code F b)) s') @ jump_trace M F (Suc k) (Run t 0 s1)"
        using jump_trace_trans [OF n(1), of "Suc k"] by (simp only: add_Suc)
      ultimately show ?thesis
        using forward_trace_next [OF convertedD(8) [OF conv] bd nt n(3) k(3)] by (simp only: simp_thms)
    qed
    ultimately show ?thesis
      by (intro exI [where x = "n + Suc k"]) (simp only: step_trace.simps simp_thms if_True)
  qed
qed

lemma indirect_step:
  assumes k: "is_indirect k" and av: "avoids_instr M k" and ag: "agree s s'"
    and inj: "inj_on (loc M) (set (layout F))" and sub: "set (layout F0) \<subseteq> set (layout F)"
    and ok: "exec_instr M F0 b i k s \<noteq> Stuck"
  shows "\<exists>t\<in>set (layout F0). exec_instr M F0 b i k s = Run t 0 s \<and> exec_instr M F b i k s' = Run t 0 s'"
proof -
  have "\<exists>a. exec_instr M F0 b i k s = goto (block_at M F0 a) s \<and>
      exec_instr M F b i k s' = goto (block_at M F a) s'"
  proof (cases "opc k = JMP64m")
    case True
    from av ag have "load M k s = load M k s'" unfolding avoids_instr_def by blast
    with True show ?thesis
      by (intro exI [where x = "load M k s'"]) (simp add: exec_instr_def Let_def)
  next
    case False
    with k have o: "opc k = JMP64r"
      by (auto simp: is_indirect_def isIndirectBranch_def desc_isIndirectBranch_def)
    with ok obtain r where r: "ops k = [MO_Register (Reg64 r)]"
      by (auto simp: exec_instr_def Let_def split: list.splits operand.splits preg.splits)
    with av o have "r \<noteq> R13" "r \<noteq> R15" by (auto simp: avoids_instr_def)
    with ag o r show ?thesis by (auto simp: exec_instr_def Let_def agree_def)
  qed
  then obtain a where a: "exec_instr M F0 b i k s = goto (block_at M F0 a) s"
    "exec_instr M F b i k s' = goto (block_at M F a) s'" by blast
  with ok obtain t where t: "block_at M F0 a = Some t" by (cases "block_at M F0 a") auto
  with block_at_mem [OF t] sub block_at_loc [OF inj, of t] have "t \<in> set (layout F0)" "block_at M F a = Some t"
    by auto
  with a t show ?thesis by auto
qed

lemma step_end:
  assumes wf: "wf_fun F0" and conv: "converted F0 zs dn e F"
    and inj: "inj_on (loc M) (set (layout F))"
    and c0: "code F0 b = body @ T" and str: "straight body" and ends: "ends_with E body T"
    and c: "code F b = end_code E body T n" and b: "b \<in> set (layout F0)"
    and wfE: "wf_ending F0 b (next_in (layout F0) b) E"
    and ex: "case E of
           ECond m t \<Rightarrow> (\<exists>nx. next_in (layout F0) b = Some nx \<and> final_exit zs F dn b n nx)
             \<and> final_exit zs F dn b (Suc n) t
         | ECondJmp m t u \<Rightarrow>
             final_exit zs F dn b (Suc n) t \<and> (\<exists>N. N \<notin> set (layout F0) \<and> final_exit zs F dn b n N
               \<and> jump_stub F (final_exit zs F dn) (nexts dn b) {} N u)
         | EJump u \<Rightarrow> final_exit zs F dn b n u
         | EFall \<Rightarrow> (\<exists>nx. next_in (layout F0) b = Some nx \<and> final_exit zs F dn b n nx)
         | _ \<Rightarrow> True"
    and ag: "agree s s'" and av: "avoids M F0"
    and fl: "T = [] \<longrightarrow> falls F0 b" and ok: "mstep M F0 (Run b (length body) s) \<noteq> Stuck"
  shows "\<exists>k. matches M F0 zs F dn (mstep M F0 (Run b (length body) s)) (mrun M F (Suc k) (Run b (length body) s')) \<and>
    step_trace F0 dn (Run b (length body) s) (mstep M F0 (Run b (length body) s))
      (jump_trace M F (Suc k) (Run b (length body) s'))"
proof -
  note D = convertedD [OF conv]
  have bd: "b \<in> fst ` set dn" using b D(2) by auto
  have sub: "set (layout F0) \<subseteq> set (layout F)" using D(2,3) by blast
  have enter: "matches M F0 zs F dn (Run t 0 s) (Run t 0 s1)" if "t \<in> set (layout F0)" "agree s' s1" for t s1
    using matches_enter [OF wf that(1) agree_trans [OF ag that(2)]] .
  have fs: "flags s' = flags s" using ag by (simp add: agree_def)
  have nl: "nx \<in> set (layout F0)" if "next_in (layout F0) b = Some nx" for nx
    using next_in_mem [OF that] by simp
  have cond_step: ?thesis
    if cc: "code F b = body @ cond_target m n (Suc n)" and xT: "final_exit zs F dn b (Suc n) t"
      and xF: "final_exit zs F dn b n nx" and t: "t \<in> set (layout F0)"
      and s0: "mstep M F0 (Run b (length body) s) =
        (if cond_holds (mnem_cond m) (flags s) then Run t 0 s else Run b (Suc (length body)) s)"
      and res: "resumes F0 zs F dn b (Suc (length body)) nx" for m t nx
  proof -
    note tr0 = cond_run(2) [OF conv bd cc, of M s']
    from cond_run(1) [OF conv bd cc, of M s'] cond_run(3) [OF conv bd cc] fs obtain s1 f where
      s1: "mrun M F 3 (Run b (length body) s') = Run b (length (code F b)) s1" "agree s' s1"
        "regs s1 R15 = loc M (if cond_holds (mnem_cond m) (flags s) then Suc n else n)"
      and f: "(b, Some f) \<in> set dn" by auto
    show ?thesis
    proof (cases "cond_holds (mnem_cond m) (flags s)")
      case True
      with s1(3) have r: "regs s1 R15 = loc M (Suc n)" by simp
      from exit_run [OF conv xT f inj r] obtain k s2 where
        k: "mrun M F (Suc k) (Run b (length (code F b)) s1) = Run t 0 s2" "agree s1 s2"
          "forward_trace dn b t (jump_trace M F (Suc k) (Run b (length (code F b)) s1))" by blast
      have "mrun M F (Suc (2 + Suc k)) (Run b (length body) s') = Run t 0 s2"
        using mrun_trans [OF s1(1) k(1)] by (simp only: numeral_3_eq_3 numeral_2_eq_2 add_Suc add_0)
      moreover have "forward_trace dn b t (jump_trace M F (Suc (2 + Suc k)) (Run b (length body) s'))"
        using jump_trace_trans [OF s1(1), of "Suc k"] k(3) unfolding tr0
        by (simp only: numeral_3_eq_3 numeral_2_eq_2 add_Suc add_0 append.simps)
      moreover have "matches M F0 zs F dn (Run t 0 s) (Run t 0 s2)"
        by (rule enter [OF t agree_trans [OF s1(2) k(2)]])
      ultimately show ?thesis using s0 True
        by (intro exI [where x = "2 + Suc k"]) (simp only: step_trace.simps simp_thms if_True)
    next
      case False
      have "matches M F0 zs F dn (Run b (Suc (length body)) s) (Run b (length (code F b)) s1)"
        using False s1 f xF res b agree_trans [OF ag s1(2)] by auto
      moreover have "mrun M F (Suc 2) (Run b (length body) s') = Run b (length (code F b)) s1"
        using s1(1) by (simp only: numeral_3_eq_3 numeral_2_eq_2)
      moreover have "jump_trace M F (Suc 2) (Run b (length body) s') = []"
        using tr0 by (simp only: numeral_3_eq_3 numeral_2_eq_2)
      ultimately show ?thesis using s0 False
        by (intro exI [where x = 2])
           (simp only: step_trace.simps simp_thms if_False nat.distinct)
    qed
  qed
  show ?thesis
  proof (cases E)
    case (ECond m t)
    with ends obtain j where T: "T = [j]" "is_jcc j m t"
      by (cases "(E, body, T)" rule: ends_with.cases) auto
    from ex ECond obtain nx where nx: "next_in (layout F0) b = Some nx" "final_exit zs F dn b n nx"
      "final_exit zs F dn b (Suc n) t" by auto
    have cc: "code F b = body @ cond_target m n (Suc n)" using c ECond by simp
    have t: "t \<in> set (layout F0)" using wfE ECond by (simp add: wf_ending_def)
    have "mstep M F0 (Run b (length body) s) =
        (if cond_holds (mnem_cond m) (flags s) then Run t 0 s else Run b (Suc (length body)) s)"
      using c0 T by (auto simp: is_jcc_def exec_instr_def Let_def)
    moreover have "resumes F0 zs F dn b (Suc (length body)) nx"
      using nx(1) c0 T by (simp add: resumes_def)
    ultimately show ?thesis by (intro cond_step [OF cc nx(3,2) t])
  next
    case (ECondJmp m t u)
    with ends obtain j k where T: "T = [j, k]" "is_jcc j m t" "is_jmp k u"
      by (cases "(E, body, T)" rule: ends_with.cases) auto
    from ex ECondJmp obtain N where N: "final_exit zs F dn b (Suc n) t" "final_exit zs F dn b n N"
      "jump_stub F (final_exit zs F dn) (nexts dn b) {} N u" "N \<notin> set (layout F0)" by auto
    have cc: "code F b = body @ cond_target m n (Suc n)" using c ECondJmp by simp
    have t: "t \<in> set (layout F0)" "u \<in> set (layout F0)" using wfE ECondJmp by (simp_all add: wf_ending_def)
    have "mstep M F0 (Run b (length body) s) =
        (if cond_holds (mnem_cond m) (flags s) then Run t 0 s else Run b (Suc (length body)) s)"
      using c0 T by (auto simp: is_jcc_def exec_instr_def Let_def)
    moreover have "resumes F0 zs F dn b (Suc (length body)) N"
      using N(3,4) t(2) c0 T by (auto simp: resumes_def nth_append)
    ultimately show ?thesis by (intro cond_step [OF cc N(1,2) t(1)])
  next
    case (EJump u)
    with ends obtain k where T: "T = [k]" "is_jmp k u" using ends_jump [of u body T] by auto
    from lea_exit_run [OF conv _ bd inj, of n u body s'] ex EJump c obtain k' s1 where
      k': "mrun M F (Suc k') (Run b (length body) s') = Run u 0 s1" "agree s' s1"
        "forward_trace dn b u (jump_trace M F (Suc k') (Run b (length body) s'))"
      by (auto simp del: mrun.simps jump_trace.simps)
    have "mstep M F0 (Run b (length body) s) = Run u 0 s"
      using c0 T by (auto simp: is_jmp_def exec_instr_def Let_def)
    moreover have "u \<in> set (layout F0)" using wfE EJump by (simp add: wf_ending_def)
    ultimately show ?thesis using enter [OF _ k'(2)] k'(1,3)
      by (intro exI [where x = k']) (simp only: step_trace.simps simp_thms if_True)
  next
    case EIndirect
    with ends obtain k where T: "T = [k]" "is_indirect k"
      by (cases "(E, body, T)" rule: ends_with.cases) auto
    have k: "code F0 b ! length body = k" "code F b ! length body = k"
      "length body < length (code F0 b)" "length body < length (code F b)" "k \<in> set (code F0 b)"
      using c0 c EIndirect T by simp_all
    have "avoids_instr M k" using av b k(5) by (auto simp: avoids_def)
    from indirect_step [OF T(2) this ag inj sub, of b "length body"] ok k obtain t where
      "t \<in> set (layout F0)" "mstep M F0 (Run b (length body) s) = Run t 0 s"
      "mstep M F (Run b (length body) s') = Run t 0 s'" by auto
    moreover have "isIndirectBranch (code F0 b ! length body)" using T(2) k(1) by (simp add: is_indirect_flags)
    ultimately show ?thesis using enter [of t s'] k(3) by (intro exI [where x = 0]) simp
  next
    case EReturn
    with ends obtain k where T: "T = [k]" "isReturn k"
      by (cases "(E, body, T)" rule: ends_with.cases) auto
    then have r: "exec_instr M G b (length body) k q = Returned q" for G q
      by (auto simp: isReturn_def desc_isReturn_def exec_instr_def Let_def)
    have "mstep M F0 (Run b (length body) s) = Returned s" using c0 T r by simp
    moreover have "mrun M F (Suc 0) (Run b (length body) s') = Returned s'" using c EReturn T r by simp
    ultimately show ?thesis using ag
      by (intro exI [where x = 0]) (simp only: step_trace.simps matches.simps simp_thms)
  next
    case EFall
    then have T: "T = []" using ends by (cases "(E, body, T)" rule: ends_with.cases) auto
    from ex EFall obtain nx where nx: "next_in (layout F0) b = Some nx" "final_exit zs F dn b n nx" by auto
    from lea_exit_run [OF conv nx(2) bd inj, of body s'] c EFall obtain k s1 where
      k: "mrun M F (Suc k) (Run b (length body) s') = Run nx 0 s1" "agree s' s1"
        "forward_trace dn b nx (jump_trace M F (Suc k) (Run b (length body) s'))"
      by (auto simp del: mrun.simps jump_trace.simps)
    have "mstep M F0 (Run b (length body) s) = Run nx 0 s" using c0 T nx by simp
    with enter [OF nl [OF nx(1)] k(2)] k(1,3) show ?thesis
      by (intro exI [where x = k]) (simp only: step_trace.simps simp_thms if_True)
  next
    case ENoReturn
    then have "T = []" using ends by (cases "(E, body, T)" rule: ends_with.cases) auto
    with fl wfE ENoReturn show ?thesis by (auto simp: falls_def wf_ending_def split: option.splits)
  qed
qed


lemma matches_step:
  assumes wf: "wf_fun F0" and conv: "converted F0 zs dn e F"
    and inj: "inj_on (loc M) (set (layout F))" and av: "avoids M F0" and cs: "calls_stop M F0"
    and m: "matches M F0 zs F dn c d" and ok: "mstep M F0 c \<noteq> Stuck"
  shows "\<exists>n. matches M F0 zs F dn (mstep M F0 c) (mrun M F (Suc n) d) \<and>
    step_trace F0 dn c (mstep M F0 c) (jump_trace M F (Suc n) d)"
proof (cases c)
  case (Run b i s)
  with m obtain i' s' where d: "d = Run b i' s'" and ag: "agree s s'" and b: "b \<in> set (layout F0)"
    by (cases d) auto
  from m Run d consider
      (body) "i' = i" "i \<le> body_len (code F0 b)" "i = length (code F0 b) \<longrightarrow> falls F0 b"
    | (resume) f z t where "i' = length (code F b)" "(b, Some f) \<in> set dn" "regs s' R15 = loc M z"
        "final_exit zs F dn b z t" "resumes F0 zs F dn b i t"
    by auto
  then show ?thesis
  proof cases
    case resume
    from resume_step [OF wf conv inj resume(2-5) ag] show ?thesis by (simp only: Run d resume(1))
  next
    case body
    from convertedD(5) [OF conv b] obtain E bd T n where
      c0: "code F0 b = bd @ T" "straight bd" "ends_with E bd T" "code F b = end_code E bd T n"
      and wfE: "wf_ending F0 b (next_in (layout F0) b) E"
      and ex: "case E of
           ECond m t \<Rightarrow> (\<exists>nx. next_in (layout F0) b = Some nx \<and> final_exit zs F dn b n nx)
             \<and> final_exit zs F dn b (Suc n) t
         | ECondJmp m t u \<Rightarrow>
             final_exit zs F dn b (Suc n) t \<and> (\<exists>N. N \<notin> set (layout F0) \<and> final_exit zs F dn b n N
               \<and> jump_stub F (final_exit zs F dn) (nexts dn b) {} N u)
         | EJump u \<Rightarrow> final_exit zs F dn b n u
         | EFall \<Rightarrow> (\<exists>nx. next_in (layout F0) b = Some nx \<and> final_exit zs F dn b n nx)
         | _ \<Rightarrow> True"
      unfolding block_conv_def by blast
    have bl: "body_len (code F0 b) = length bd" unfolding c0(1) by (rule ends_body_len [OF c0(2,3)])
    show ?thesis
    proof (cases "i < length bd")
      case True
      from step_body [OF c0(1-4) True b wfE ag av cs]
      show ?thesis unfolding Run d body(1)
        by (intro exI [where x = 0]) (simp only: mrun.simps jump_trace.simps append_Nil2 simp_thms)
    next
      case False
      with body bl have i: "i = length bd" by simp
      have fl: "T = [] \<longrightarrow> falls F0 b" using body(3) i c0(1) by simp
      have ok': "mstep M F0 (Run b (length bd) s) \<noteq> Stuck" using ok Run i by simp
      from step_end [OF wf conv inj c0 b wfE ex ag av fl ok'] show ?thesis
        by (simp only: Run d body(1) i)
    qed
  qed
next
  case (Returned s)
  with m obtain s' where "d = Returned s'" "agree s s'" by (cases d) auto
  with Returned show ?thesis by (intro exI [where x = 0]) simp
next
  case Stuck
  with m show ?thesis by (cases d) auto
qed

section \<open>The simulation as an instance of the interface\<close>

type_synonym 'm sim_state = "('m machine \<times> mfunc \<times> mfunc) \<times> 'm config"

definition source_step :: "'m sim_state \<Rightarrow> 'm sim_state" where
  "source_step x = (case x of ((M, F0, F), c) \<Rightarrow> ((M, F0, F), mstep M F0 c))"

definition target_step :: "'m sim_state \<Rightarrow> 'm sim_state" where
  "target_step x = (case x of ((M, F0, F), c) \<Rightarrow> ((M, F0, F), mstep M F c))"

definition is_stuck :: "'m sim_state \<Rightarrow> bool" where
  "is_stuck x = (snd x = Stuck)"

definition has_returned :: "'m sim_state \<Rightarrow> bool" where
  "has_returned x = (case snd x of Returned _ \<Rightarrow> True | _ \<Rightarrow> False)"

definition sim_rel :: "'m sim_state \<Rightarrow> 'm sim_state \<Rightarrow> bool" where
  "sim_rel x y \<longleftrightarrow>
     (\<exists>M F0 F zs dn e. fst x = (M, F0, F) \<and> fst y = (M, F0, F) \<and>
        wf_fun F0 \<and> converted F0 zs dn e F \<and> inj_on (loc M) (set (layout F)) \<and>
        avoids M F0 \<and> calls_stop M F0 \<and> matches M F0 zs F dn (snd x) (snd y))"

lemma mrun_Suc: "mrun M F (Suc n) c = mstep M F (mrun M F n c)"
  using mrun_add [of M F n 1 c] by simp

lemma source_steps: "(source_step ^^ n) ((M, F0, F), c) = ((M, F0, F), mrun M F0 n c)"
  by (induction n) (simp_all del: mrun.simps(2) add: mrun_Suc source_step_def)

lemma target_steps: "(target_step ^^ n) ((M, F0, F), c) = ((M, F0, F), mrun M F n c)"
  by (induction n) (simp_all del: mrun.simps(2) add: mrun_Suc target_step_def)

lemma matches_returned:
  "matches M F0 zs F dn c d \<Longrightarrow> (\<exists>s. c = Returned s) \<longleftrightarrow> (\<exists>s. d = Returned s)"
  by (cases c; cases d) auto

interpretation conv: forward_simulation source_step target_step is_stuck has_returned sim_rel
proof
  fix x y :: "'m sim_state"
  assume R: "sim_rel x y"
  then obtain M F0 F zs dn e where k: "fst x = (M, F0, F)" "fst y = (M, F0, F)"
    and h: "wf_fun F0" "converted F0 zs dn e F" "inj_on (loc M) (set (layout F))"
      "avoids M F0" "calls_stop M F0" and m: "matches M F0 zs F dn (snd x) (snd y)"
    unfolding sim_rel_def by blast
  then have xy: "x = ((M, F0, F), snd x)" "y = ((M, F0, F), snd y)" by (metis prod.collapse)+
  show "has_returned x = has_returned y"
    using matches_returned [OF m] by (cases "snd x"; cases "snd y") (auto simp: has_returned_def)
  assume "\<not> is_stuck (source_step x)"
  then have "mstep M F0 (snd x) \<noteq> Stuck"
    by (subst (asm) xy) (simp add: is_stuck_def source_step_def)
  from matches_step [OF h m this] obtain n where
    n: "matches M F0 zs F dn (mstep M F0 (snd x)) (mrun M F (Suc n) (snd y))" by blast
  have "source_step x = ((M, F0, F), mstep M F0 (snd x))"
    by (subst xy) (simp add: source_step_def)
  moreover have "(target_step ^^ Suc n) y = ((M, F0, F), mrun M F (Suc n) (snd y))"
    by (subst xy) (rule target_steps)
  ultimately have "sim_rel (source_step x) ((target_step ^^ Suc n) y)"
    using h n unfolding sim_rel_def by auto
  then show "\<exists>n. sim_rel (source_step x) ((target_step ^^ Suc n) y)" by blast
next
  fix x :: "'m sim_state"
  assume "has_returned x"
  then obtain K s where "x = (K, Returned s)"
    by (cases x) (auto simp: has_returned_def split: config.splits)
  then show "target_step x = x" by (cases K) (simp add: target_step_def)
qed


lemma sim_rel_start:
  assumes wf: "wf_fun F0" and conv: "converted F0 zs dn e F"
    and inj: "inj_on (loc M) (set (layout F))" and av: "avoids M F0" and cs: "calls_stop M F0"
    and ag: "agree s s'"
  shows "sim_rel ((M, F0, F), mstart F0 s) ((M, F0, F), mrun M F 1 (mstart F s'))"
proof -
  from wf obtain h ls where l0: "layout F0 = h # ls" by (auto simp: wf_fun_def neq_Nil_conv)
  from conv have e: "layout F = e # zs @ weave dn" "code F e = [mk_JMP_4 h]"
    unfolding converted_def l0 by simp_all
  have 0: "mstart F0 s = Run h 0 s" by (simp add: mstart_def l0)
  have 1: "mrun M F 1 (mstart F s') = Run h 0 s'"
    using mstep_jmp [of 0 F e h M s'] e by (simp add: mstart_def)
  have "matches M F0 zs F dn (mstart F0 s) (mrun M F 1 (mstart F s'))"
    unfolding 0 1 by (rule matches_enter [OF wf _ ag]) (simp add: l0)
  with assms show ?thesis unfolding sim_rel_def by auto
qed

lemma mrun_stuck: "mrun M F n Stuck = Stuck"
  by (induction n) simp_all

lemma mrun_returned: "mrun M F n (Returned s) = Returned s"
  by (induction n) simp_all

text \<open>The three consequences of the simulation for a converted function.\<close>

lemma conversion_runs:
  assumes wf: "wf_fun F0" and run: "runOnMachineFunction False F0 = Inr F"
    and av: "avoids M F0" and cs: "calls_stop M F0" and inj: "inj_on (loc M) (set (layout F))"
    and ag: "agree s s'" and ok: "\<And>n. mrun M F0 n (mstart F0 s) \<noteq> Stuck"
  shows "mrun M F0 n (mstart F0 s) = Returned r \<Longrightarrow>
      \<exists>k r'. mrun M F k (mstart F s') = Returned r' \<and> agree r r'"
    and "mrun M F k (mstart F s') = Returned r' \<Longrightarrow>
      \<exists>n r. mrun M F0 n (mstart F0 s) = Returned r \<and> agree r r'"
    and "mrun M F k (mstart F s') \<noteq> Stuck"
proof -
  from runOnMachineFunction_converted [OF wf] run obtain zs dn e where
    conv: "converted F0 zs dn e F" by auto
  let ?x = "((M, F0, F), mstart F0 s)" and ?y = "((M, F0, F), mrun M F 1 (mstart F s'))"
  have R: "sim_rel ?x ?y" by (rule sim_rel_start [OF wf conv inj av cs ag])
  have nb: "\<not> is_stuck ((source_step ^^ n) ?x)" for n
    using ok by (simp add: source_steps is_stuck_def)
  have y: "(target_step ^^ k) ?y = ((M, F0, F), mrun M F (Suc k) (mstart F s'))" for k
    by (simp only: target_steps mrun_add [symmetric] plus_1_eq_Suc)
  have rel: "\<exists>zs dn. matches M F0 zs F dn c d"
    if "sim_rel ((M, F0, F), c) ((M, F0, F), d)" for c d
    using that by (auto simp: sim_rel_def)
  have fwd: "\<exists>m\<ge>n. \<exists>zs dn. matches M F0 zs F dn (mrun M F0 n (mstart F0 s)) (mrun M F (Suc m) (mstart F s'))"
    for n
    using conv.sim_run [OF R nb, of n] rel unfolding y source_steps by blast
  show "\<exists>k r'. mrun M F k (mstart F s') = Returned r' \<and> agree r r'"
    if "mrun M F0 n (mstart F0 s) = Returned r"
  proof -
    from fwd [of n] that obtain m zs dn where
      "matches M F0 zs F dn (Returned r) (mrun M F (Suc m) (mstart F s'))" by auto
    then obtain r' where "mrun M F (Suc m) (mstart F s') = Returned r'" "agree r r'"
      by (cases "mrun M F (Suc m) (mstart F s')") (simp_all del: mrun.simps)
    then show ?thesis by blast
  qed
  show "mrun M F k (mstart F s') \<noteq> Stuck"
  proof
    assume st: "mrun M F k (mstart F s') = Stuck"
    from fwd [of k] obtain m zs dn where m: "k \<le> m"
      "matches M F0 zs F dn (mrun M F0 k (mstart F0 s)) (mrun M F (Suc m) (mstart F s'))" by auto
    have "mrun M F (k + (Suc m - k)) (mstart F s') = Stuck"
      unfolding mrun_add st by (rule mrun_stuck)
    with m show False by (cases "mrun M F0 k (mstart F0 s)") auto
  qed
  show "\<exists>n r. mrun M F0 n (mstart F0 s) = Returned r \<and> agree r r'"
    if "mrun M F k (mstart F s') = Returned r'"
  proof -
    from fwd [of k] obtain m zs dn where m: "k \<le> m"
      "matches M F0 zs F dn (mrun M F0 k (mstart F0 s)) (mrun M F (Suc m) (mstart F s'))" by auto
    have "mrun M F (k + (Suc m - k)) (mstart F s') = Returned r'"
      unfolding mrun_add that by (rule mrun_returned)
    with m show ?thesis by (cases "mrun M F0 k (mstart F0 s)") auto
  qed
qed

end
