(* ===== verification/ConversionTrace.thy ===== *)
theory ConversionTrace
  imports ConversionSim
begin

text \<open>
  What an observer of the branch predictor learns: as long as control moves forward, the jumps
  through R15 that the converted code executes between two blocks are the same on every path.
\<close>

section \<open>Forward runs of the original function\<close>

definition later :: "'a list \<Rightarrow> 'a \<Rightarrow> 'a \<Rightarrow> bool" where
  "later xs x y \<longleftrightarrow> (\<exists>as bs. xs = as @ x # bs \<and> y \<in> set bs)"

text \<open>A step that stays in its block, or goes to a later block by other means than an indirect jump.\<close>

definition forward_step :: "mfunc \<Rightarrow> 'm config \<Rightarrow> 'm config \<Rightarrow> bool" where
  "forward_step F c c' \<longleftrightarrow>
     (case (c, c') of
        (Run b i s, Run t j r) \<Rightarrow>
          (if j = 0 then (i < length (code F b) \<longrightarrow> \<not> isIndirectBranch (code F b ! i)) \<and> later (layout F) b t
           else t = b)
      | _ \<Rightarrow> False)"

primrec forward_run :: "'m machine \<Rightarrow> mfunc \<Rightarrow> nat \<Rightarrow> 'm config \<Rightarrow> bool" where
  "forward_run M F 0 c = True"
| "forward_run M F (Suc n) c = (forward_step F c (mstep M F c) \<and> forward_run M F n (mstep M F c))"

section \<open>Later blocks lie later in the spine\<close>

lemma later_filter:
  assumes "filter P (map fst dn) = xs" and "later xs x y"
  shows "y \<in> fst ` set (after dn x)"
  using assms
proof (induction dn arbitrary: xs)
  case Nil
  then show ?case by (auto simp: later_def)
next
  case (Cons p dn)
  obtain z fz where p: "p = (z, fz)" by (cases p)
  from Cons.prems(2) obtain as bs where xs: "xs = as @ x # bs" "y \<in> set bs" by (auto simp: later_def)
  show ?case
  proof (cases "z = x")
    case True
    have "y \<in> set (filter P (map fst dn))"
    proof (cases "P z")
      case T: True
      with Cons.prems(1) p xs have "z # filter P (map fst dn) = as @ x # bs" by simp
      then have "filter P (map fst dn) = (if as = [] then bs else List.tl as @ x # bs)" by (cases as) auto
      with xs(2) show ?thesis by auto
    next
      case F: False
      with Cons.prems(1) p xs have "filter P (map fst dn) = as @ x # bs" by simp
      with xs(2) show ?thesis by (metis in_set_conv_decomp append_Cons append_assoc)
    qed
    with p True show ?thesis by auto
  next
    case False
    have "later (filter P (map fst dn)) x y"
    proof (cases "P z")
      case True
      with Cons.prems(1) p have "z # filter P (map fst dn) = as @ x # bs" using xs by simp
      with False obtain as' where "filter P (map fst dn) = as' @ x # bs" by (cases as) auto
      with xs(2) show ?thesis by (auto simp: later_def)
    next
      case F: False
      with Cons.prems p show ?thesis by simp
    qed
    from Cons.IH [OF refl this] p False show ?thesis by simp
  qed
qed

lemma converted_later:
  assumes "converted F0 zs dn e F" and "later (layout F0) b t"
  shows "t \<in> fst ` set (after dn b)"
proof -
  have "filter (\<lambda>x. x \<in> set (layout F0)) (map fst dn) = layout F0"
    using assms(1) by (simp add: converted_def)
  then show ?thesis by (rule later_filter [OF _ assms(2)])
qed

section \<open>The trace of a forward run\<close>

definition passes :: "spine \<Rightarrow> nat \<Rightarrow> nat \<Rightarrow> nat list \<Rightarrow> bool" where
  "passes dn b t tr \<longleftrightarrow> (\<exists>ps. between dn b ps t \<and> tr = fakes ps)"

lemma passes_trans:
  "distinct (map fst dn) \<Longrightarrow> passes dn b c tr \<Longrightarrow> passes dn c t tr' \<Longrightarrow> passes dn b t (tr @ tr')"
  unfolding passes_def using between_trans by fastforce

lemma passes_unique:
  "distinct (map fst dn) \<Longrightarrow> passes dn b t tr \<Longrightarrow> passes dn b t tr' \<Longrightarrow> tr = tr'"
  unfolding passes_def using between_unique by blast

lemma passes_irrefl: "distinct (map fst dn) \<Longrightarrow> \<not> passes dn b b tr"
proof
  assume d: "distinct (map fst dn)" and "passes dn b b tr"
  then obtain a c f g ps where "dn = a @ ((b, f) # ps) @ (b, g) # c"
    unfolding passes_def between_def by blast
  with d show False by auto
qed

lemma forward_run_trace:
  assumes wf: "wf_fun F0" and conv: "converted F0 zs dn e F"
    and inj: "inj_on (loc M) (set (layout F))" and av: "avoids M F0" and cs: "calls_stop M F0"
    and "matches M F0 zs F dn (Run b i s) d" and "forward_run M F0 n (Run b i s)"
    and "mrun M F0 n (Run b i s) = Run t 0 r"
  shows "\<exists>k. matches M F0 zs F dn (Run t 0 r) (mrun M F k d) \<and>
    (n = 0 \<and> t = b \<and> k = 0 \<or> passes dn b t (jump_trace M F k d))"
  using assms(6-8)
proof (induction n arbitrary: b i s d)
  case 0
  then show ?case by (intro exI [where x = 0]) simp
next
  case (Suc n)
  note dist = convertedD(8) [OF conv]
  let ?c = "Run b i s"
  let ?c' = "mstep M F0 ?c"
  from Suc.prems(2) have fs: "forward_step F0 ?c ?c'" and fr: "forward_run M F0 n ?c'" by simp_all
  from fs obtain b' i' s' where c': "?c' = Run b' i' s'"
    by (auto simp: forward_step_def split: config.splits)
  then have "?c' \<noteq> Stuck" by simp
  from matches_step [OF wf conv inj av cs Suc.prems(1) this] obtain m where
    m: "matches M F0 zs F dn (Run b' i' s') (mrun M F (Suc m) d)"
      "step_trace F0 dn ?c (Run b' i' s') (jump_trace M F (Suc m) d)"
    unfolding c' by blast
  from Suc.prems(3) have "mrun M F0 n (Run b' i' s') = Run t 0 r" unfolding mrun.simps c' .
  from Suc.IH [OF m(1) fr [unfolded c'] this] obtain k where
    k: "matches M F0 zs F dn (Run t 0 r) (mrun M F k (mrun M F (Suc m) d))"
      "n = 0 \<and> t = b' \<and> k = 0 \<or> passes dn b' t (jump_trace M F k (mrun M F (Suc m) d))" by blast
  have run: "mrun M F (Suc m + k) d = mrun M F k (mrun M F (Suc m) d)" by (rule mrun_add)
  have tr: "jump_trace M F (Suc m + k) d =
      jump_trace M F (Suc m) d @ jump_trace M F k (mrun M F (Suc m) d)" by (rule jump_trace_add)
  have "passes dn b t (jump_trace M F (Suc m + k) d)"
  proof (cases "i' = 0")
    case True
    with fs c' have "later (layout F0) b b'" and
      "i < length (code F0 b) \<longrightarrow> \<not> isIndirectBranch (code F0 b ! i)"
      by (simp_all add: forward_step_def)
    with m(2) True converted_later [OF conv] have 1: "passes dn b b' (jump_trace M F (Suc m) d)"
      by (auto simp: forward_trace_def passes_def simp del: jump_trace.simps)
    from k(2) show ?thesis
    proof
      assume "n = 0 \<and> t = b' \<and> k = 0"
      with 1 tr show ?thesis by (simp del: jump_trace.simps(2))
    qed (use passes_trans [OF dist 1] tr in simp)
  next
    case False
    with fs c' have b': "b' = b" by (simp add: forward_step_def)
    from m(2) False have 1: "jump_trace M F (Suc m) d = []" by (simp del: jump_trace.simps)
    from k(2) show ?thesis
    proof
      assume n: "n = 0 \<and> t = b' \<and> k = 0"
      with \<open>mrun M F0 n (Run b' i' s') = Run t 0 r\<close> False show ?thesis by simp
    next
      assume "passes dn b' t (jump_trace M F k (mrun M F (Suc m) d))"
      then show ?thesis unfolding tr 1 b' by simp
    qed
  qed
  with k(1) run show ?case by metis
qed

lemma oblivious_runs:
  assumes wf: "wf_fun F0" and run: "runOnMachineFunction False F0 = Inr F"
    and inj: "inj_on (loc M) (set (layout F))" and av: "avoids M F0" and cs: "calls_stop M F0"
    and b: "b \<in> set (layout F0)"
    and f1: "forward_run M F0 n1 (Run b 0 s1)" "mrun M F0 n1 (Run b 0 s1) = Run t 0 r1"
    and f2: "forward_run M F0 n2 (Run b 0 s2)" "mrun M F0 n2 (Run b 0 s2) = Run t 0 r2"
  shows "\<exists>k1 k2 r1' r2'. mrun M F k1 (Run b 0 s1) = Run t 0 r1' \<and> agree r1 r1' \<and>
    mrun M F k2 (Run b 0 s2) = Run t 0 r2' \<and> agree r2 r2' \<and>
    jump_trace M F k1 (Run b 0 s1) = jump_trace M F k2 (Run b 0 s2)"
proof -
  from runOnMachineFunction_converted [OF wf] run obtain zs dn e where
    conv: "converted F0 zs dn e F" by auto
  note dist = convertedD(8) [OF conv]
  note R = forward_run_trace [OF wf conv inj av cs matches_enter [OF wf b agree_refl]]
  from R [OF f1] obtain k1 where
    k1: "matches M F0 zs F dn (Run t 0 r1) (mrun M F k1 (Run b 0 s1))"
      "n1 = 0 \<and> t = b \<and> k1 = 0 \<or> passes dn b t (jump_trace M F k1 (Run b 0 s1))" by blast
  from R [OF f2] obtain k2 where
    k2: "matches M F0 zs F dn (Run t 0 r2) (mrun M F k2 (Run b 0 s2))"
      "n2 = 0 \<and> t = b \<and> k2 = 0 \<or> passes dn b t (jump_trace M F k2 (Run b 0 s2))" by blast
  have start: "\<exists>r'. mrun M F k (Run b 0 s) = Run t 0 r' \<and> agree r r'"
    if "matches M F0 zs F dn (Run t 0 r) (mrun M F k (Run b 0 s))" for k r s
    using that by (cases "mrun M F k (Run b 0 s)") (auto simp: resumes_def simp del: mrun.simps)
  from start [OF k1(1)] obtain r1' where 1: "mrun M F k1 (Run b 0 s1) = Run t 0 r1'" "agree r1 r1'" by blast
  from start [OF k2(1)] obtain r2' where 2: "mrun M F k2 (Run b 0 s2) = Run t 0 r2'" "agree r2 r2'" by blast
  have "jump_trace M F k1 (Run b 0 s1) = jump_trace M F k2 (Run b 0 s2)"
  proof (cases "t = b")
    case True
    then have "k1 = 0" "k2 = 0" using k1(2) k2(2) passes_irrefl [OF dist] by blast+
    then show ?thesis by simp
  next
    case False
    then show ?thesis using k1(2) k2(2) passes_unique [OF dist] by blast
  qed
  with 1 2 show ?thesis by blast
qed

end
