(* ===== verification/ConversionExample.thy ===== *)
theory ConversionExample
  imports ConversionTrace
begin

text \<open>
  A function of three blocks (a conditional branch over a straight-line block, and a return) and
  a machine to run it on: the instance on which the properties of the pass are applied.
\<close>

definition ex_block :: "minstr list \<Rightarrow> nat list \<Rightarrow> mblock" where
  "ex_block is su = \<lparr>insts = is, Successors = su, Predecessors = [], Probs = [], IsEHPad = False\<rparr>"

definition ex_op :: "nat \<Rightarrow> minstr" where
  "ex_op n = \<lparr>opc = OtherOp n, ops = []\<rparr>"

definition ex_jcc :: minstr where
  "ex_jcc = \<lparr>opc = Jcc_1 mE, ops = [MO_MachineBasicBlock 2]\<rparr>"

definition ex_ret :: minstr where
  "ex_ret = \<lparr>opc = RETQ, ops = []\<rparr>"

definition ex_fun :: mfunc where
  "ex_fun = \<lparr>layout = [0, 1, 2],
     heap = (\<lambda>b. empty_block)
       (0 := ex_block [ex_op 0, ex_jcc] [2, 1],
        1 := ex_block [ex_op 1] [2],
        2 := ex_block [ex_op 2, ex_ret] []),
     fresh = 3\<rparr>"

definition ex_machine :: "unit machine" where
  "ex_machine = \<lparr>loc = (\<lambda>b. word_of_nat b), compute = (\<lambda>_ s. s), load = (\<lambda>_ _. 0),
                 noreturn = (\<lambda>_. False)\<rparr>"

definition ex_state :: "bool \<Rightarrow> 64 word \<Rightarrow> unit mstate" where
  "ex_state z v =
     \<lparr>regs = (\<lambda>_. 0)(R13 := v, R15 := v),
      flags = \<lparr>CF = False, PF = False, ZF = z, SF = False, OF = False\<rparr>, mem = ()\<rparr>"

lemma ex_layout [simp]: "layout ex_fun = [0, 1, 2]" "fresh ex_fun = 3"
  by (simp_all add: ex_fun_def)

lemma ex_code [simp]:
  "code ex_fun 0 = [ex_op 0, ex_jcc]" "code ex_fun (Suc 0) = [ex_op 1]"
  "code ex_fun 2 = [ex_op 2, ex_ret]" "code ex_fun (Suc (Suc 0)) = [ex_op 2, ex_ret]"
  by (simp_all add: ex_fun_def ex_block_def)

lemma ex_op_flags [simp]: "\<not> isTerminator (ex_op n)" "opc (ex_op n) = OtherOp n"
  by (simp_all add: ex_op_def desc_defs)

lemma ex_wf: "wf_fun ex_fun"
proof -
  have "wf_block ex_fun 0 (Some 1)" unfolding wf_block_def
    by (rule exI [of _ "ECond mE 2"], rule exI [of _ "[ex_op 0]"], rule exI [of _ "[ex_jcc]"])
       (simp add: straight_def wf_ending_def is_jcc_def ex_jcc_def jump_target_def)
  moreover have "wf_block ex_fun (Suc 0) (Some 2)" unfolding wf_block_def
    by (rule exI [of _ EFall], rule exI [of _ "[ex_op 1]"], rule exI [of _ "[]"])
       (simp add: straight_def wf_ending_def isSuccessor_def ex_fun_def ex_block_def)
  moreover have "wf_block ex_fun 2 None" unfolding wf_block_def
    by (rule exI [of _ EReturn], rule exI [of _ "[ex_op 2]"], rule exI [of _ "[ex_ret]"])
       (simp add: straight_def wf_ending_def ex_ret_def isReturn_def desc_isReturn_def)
  ultimately show ?thesis by (simp add: wf_fun_def)
qed

lemma ex_avoids: "avoids ex_machine ex_fun"
  by (simp add: avoids_def avoids_instr_def exec_straight_def ex_machine_def ex_jcc_def ex_ret_def
      ex_op_def)

lemma ex_calls_stop: "calls_stop ex_machine ex_fun"
  by (simp add: calls_stop_def ex_jcc_def ex_ret_def desc_defs isSuccessor_def)
     (simp add: ex_fun_def ex_block_def)

lemma ex_run:
  "mrun ex_machine ex_fun 4 (mstart ex_fun (ex_state True v)) = Returned (ex_state True v)"
  by (simp add: numeral_eq_Suc mstart_def exec_instr_def Let_def ex_jcc_def ex_ret_def jump_target_def
      ex_op_def exec_straight_def ex_machine_def isCall_def desc_isCall_def cond_holds.simps ex_state_def)

lemma ex_agree: "agree (ex_state z v) (ex_state z w)"
  by (simp add: agree_def ex_state_def)

lemma ex_never_stuck:
  "mrun ex_machine ex_fun n (mstart ex_fun (ex_state True v)) \<noteq> Stuck"
proof
  assume st: "mrun ex_machine ex_fun n (mstart ex_fun (ex_state True v)) = Stuck"
  have "mrun ex_machine ex_fun (n + 4) (mstart ex_fun (ex_state True v)) = Stuck"
    unfolding mrun_add st by (rule mrun_stuck)
  moreover have "mrun ex_machine ex_fun (4 + n) (mstart ex_fun (ex_state True v)) =
      Returned (ex_state True v)"
    unfolding mrun_add ex_run by (rule mrun_returned)
  ultimately show False by (simp add: add.commute)
qed

lemma ex_loc_inj:
  assumes "runOnMachineFunction False ex_fun = Inr F"
  shows "inj_on (loc ex_machine) (set (layout F))"
proof -
  from runOnMachineFunction_converted [OF ex_wf] assms obtain zs dn e where
    "converted ex_fun zs dn e F" and f: "fresh F \<le> fresh ex_fun +
       2 * length (layout ex_fun) * (2 * length (layout ex_fun) + 5) + 1" by auto
  then have b: "b < 2 ^ 64" if "b \<in> set (layout F)" for b
    using that f by (auto simp: converted_def dest!: bspec)
  show ?thesis
  proof (rule inj_onI)
    fix a b
    assume "a \<in> set (layout F)" "b \<in> set (layout F)" "loc ex_machine a = loc ex_machine b"
    then have "unat (word_of_nat a :: 64 word) = unat (word_of_nat b :: 64 word)"
      by (simp add: ex_machine_def)
    then show "a = b" using b [OF \<open>a \<in> _\<close>] b [OF \<open>b \<in> _\<close>]
      by (simp add: unat_of_nat take_bit_nat_eq_self)
  qed
qed

text \<open>Both ways from block 0 to block 2: over the conditional jump, and through block 1.\<close>

lemma ex_later: "later [0, Suc 0, 2] 0 2" "later [0, Suc 0, 2] 0 (Suc 0)" "later [0, Suc 0, 2] (Suc 0) 2"
  unfolding later_def
  by (rule exI [of _ "[]"], simp, rule exI [of _ "[]"], simp, rule exI [of _ "[0]"], simp)

lemmas ex_steps =
  numeral_eq_Suc exec_instr_def Let_def ex_jcc_def jump_target_def ex_op_def exec_straight_def
  ex_machine_def isCall_def desc_isCall_def cond_holds.simps ex_state_def

lemma ex_forward_jump:
  "mrun ex_machine ex_fun 2 (Run 0 0 (ex_state True v)) = Run 2 0 (ex_state True v)"
  "forward_run ex_machine ex_fun 2 (Run 0 0 (ex_state True v))"
  using ex_later
  by (simp_all add: ex_steps forward_step_def isIndirectBranch_def desc_isIndirectBranch_def)

lemma ex_forward_fall:
  "mrun ex_machine ex_fun 5 (Run 0 0 (ex_state False v)) = Run 2 0 (ex_state False v)"
  "forward_run ex_machine ex_fun 5 (Run 0 0 (ex_state False v))"
  using ex_later
  by (simp_all add: ex_steps forward_step_def isIndirectBranch_def desc_isIndirectBranch_def)

end
