(* ===== verification/ConversionSafety.thy ===== *)
theory ConversionSafety
  imports ConversionCorrect
begin

text \<open>
  What branches are left: the pass adds no conditional branch to any block, and the blocks of
  the original function keep only their indirect jumps and returns.
\<close>

section \<open>No operation of the pass adds a conditional branch\<close>

definition no_cond :: "nat set \<Rightarrow> mfunc \<Rightarrow> bool" where
  "no_cond S F \<longleftrightarrow> (\<forall>b\<in>set (layout F) - S. \<forall>MI\<in>set (code F b). \<not> isConditionalBranch MI)"

named_theorems no_cond_ops

lemma plain_instrs [simp]:
  "\<not> isConditionalBranch (mk_JMP_4 t)" "\<not> isConditionalBranch (mk_JMP64r r)"
  "\<not> isConditionalBranch (mk_LEA64r r t)" "\<not> isConditionalBranch mk_ADD8ri"
  "\<not> isConditionalBranch \<lparr>opc = CMOV64rr m, ops = p\<rparr>"
  by (simp_all add: mk_JMP_4_def mk_JMP64r_def mk_LEA64r_def mk_ADD8ri_def desc_defs)

lemma no_cond_end [no_cond_ops]:
  "no_cond S F \<Longrightarrow> \<not> isConditionalBranch MI \<Longrightarrow> no_cond S (BuildMI_end b MI F)"
  by (auto simp: no_cond_def)

lemma no_cond_at [no_cond_ops]:
  "no_cond S F \<Longrightarrow> \<not> isConditionalBranch MI \<Longrightarrow> no_cond S (BuildMI_at b i MI F)"
  by (auto simp: no_cond_def dest: in_set_takeD in_set_dropD)

lemma no_cond_erase [no_cond_ops]: "no_cond S F \<Longrightarrow> no_cond S (erase_at b i F)"
  by (auto simp: no_cond_def dest: in_set_takeD in_set_dropD)

lemma no_cond_succ [no_cond_ops]: "no_cond S F \<Longrightarrow> no_cond S (addSuccessor b c p F)"
  by (auto simp: no_cond_def)

lemma set_insert_before: "set (insert_before it b xs) = insert b (set xs)"
  by (induction it b xs rule: insert_before.induct) auto

lemma no_cond_insert [no_cond_ops]:
  "no_cond S F \<Longrightarrow>
     no_cond S (mf_insert it (fresh F) (snd (CreateMachineBasicBlock F)))"
  by (auto simp: no_cond_def set_insert_before)

lemma no_cond_front [no_cond_ops]:
  "no_cond S F \<Longrightarrow>
     no_cond S (mf_push_front (fresh F) (snd (CreateMachineBasicBlock F)))"
  by (auto simp: no_cond_def)

lemma no_cond_tramp [no_cond_ops]:
  "no_cond S F \<Longrightarrow> no_cond S (snd (CreateNewBBonTrampoline b F d))"
  unfolding CreateNewBBonTrampoline_def split_beta Let_def
  by (cases d) (auto intro!: no_cond_ops)

lemma no_cond_dummies [no_cond_ops]: "no_cond S F \<Longrightarrow> no_cond S (build_dummies b n F)"
  by (induction n arbitrary: F) (simp_all add: no_cond_end)

lemma no_cond_addDummy [no_cond_ops]: "no_cond S F \<Longrightarrow> no_cond S (addDummyInstructions r t F)"
  by (simp add: addDummyInstructions_def no_cond_dummies)

lemma update_lanes_no_cond:
  "update_lanes dummy m fk kept lanes tk F = Inr (K, tk', F') \<Longrightarrow> no_cond S F \<Longrightarrow> no_cond S F'"
proof (induction lanes arbitrary: kept tk F)
  case (Cons l lanes)
  note run = Cons.prems(1) and nc = Cons.prems(2)
  show ?case
  proof (cases "taken l \<or> DestMBB l = Some m")
    case True
    define F1 where "F1 = (case currentMBB l of None \<Rightarrow> F
        | Some z \<Rightarrow> addSuccessor z m UnknownN (BuildMI_end z (mk_JMP_4 m) F))"
    have "no_cond S F1" using nc by (auto simp: F1_def intro!: no_cond_ops split: option.split)
    moreover have "\<exists>kept' tk0. update_lanes dummy m fk kept' lanes tk0 F1 = Inr (K, tk', F')"
      using run True by (auto simp: F1_def Let_def split: if_splits)
    ultimately show ?thesis using Cons.IH by blast
  next
    case False
    show ?thesis
    proof (cases "currentMBB l")
      case None
      with run False have "update_lanes dummy m fk kept lanes tk F = Inr (K, tk', F')" by simp
      with Cons.IH nc show ?thesis by blast
    next
      case (Some z)
      with run False obtain f where f: "fk = Some f" by (cases fk) simp_all
      define F1 where "F1 = snd (CreateNewBBonTrampoline m F None)"
      define F2 where "F2 = (if dummy then addDummyInstructions m z F1 else F1)"
      define F3 where "F3 = addSuccessor z f UnknownN (BuildMI_end z (mk_JMP_4 f)
          (BuildMI_end z (mk_LEA64r targetRegOpcode (fresh F)) F2))"
      have "no_cond S F3"
        using nc by (auto simp: F1_def F2_def F3_def intro!: no_cond_ops)
      moreover have "\<exists>kept'. update_lanes dummy m fk kept' lanes tk F3 = Inr (K, tk', F')"
        using run False Some f by (auto simp: F1_def F2_def F3_def split_beta Let_def)
      ultimately show ?thesis using Cons.IH by blast
    qed
  qed
qed simp

lemma replaceNoBranchBlock_no_cond:
  "replaceNoBranchBlock b i ft ln st = Inr st' \<Longrightarrow> no_cond S (MF st) \<Longrightarrow> no_cond S (MF st')"
  by (auto simp: replaceNoBranchBlock_def split_beta Let_def intro!: no_cond_ops split: if_splits)

lemma replaceIndirectJump_no_cond:
  "replaceIndirectJump b i ft ln st = Inr st' \<Longrightarrow> no_cond S (MF st) \<Longrightarrow> no_cond S (MF st')"
  by (auto simp: replaceIndirectJump_def)

lemma replaceUnconditionalJump_no_cond:
  "replaceUnconditionalJump b i ft ln st = Inr st' \<Longrightarrow> no_cond S (MF st) \<Longrightarrow> no_cond S (MF st')"
  by (auto simp: replaceUnconditionalJump_def split_beta Let_def intro!: no_cond_ops split: if_splits)

lemma cmov_plain:
  "getCorrespondingMovOpcode MI = Inr c \<Longrightarrow> \<not> isConditionalBranch (mk_CMOV c)"
  unfolding getCorrespondingMovOpcode_def
  using cmov.enc_Inr [of "getCondFromBranchOpc (opc MI)" c] cmov64rr [of "getCondFromBranchOpc (opc MI)"]
  by (auto simp: mk_CMOV_def)

lemma replaceConditionalBranch_no_cond:
  assumes run: "replaceConditionalBranch b i ft ln st = Inr st'" and nc: "no_cond S (MF st)"
  shows "no_cond S (MF st')"
proof -
  let ?MI = "insts (heap (MF st) b) ! i"
  from run obtain op t c where r: "getOperand ?MI 0 = Inr op" "isMBB op" "getMBB op = Inr t"
      "getCorrespondingMovOpcode ?MI = Inr c"
    by (auto simp: replaceConditionalBranch_def Let_def split: if_splits)
  note plain = cmov_plain [OF r(4)]
  define F1 where "F1 = snd (CreateNewBBonTrampoline b (MF st) None)"
  define F2 where "F2 d = snd (CreateNewBBonTrampoline b F1 d)" for d
  have F1: "no_cond S F1" unfolding F1_def by (rule no_cond_tramp [OF nc])
  have F2: "no_cond S (F2 d)" for d unfolding F2_def by (rule no_cond_tramp [OF F1])
  define out where "out d = erase_at b (i + 3) (BuildMI_at b (i + 2) (mk_CMOV c)
      (BuildMI_at b (i + 1) (mk_LEA64r tmpReg (Suc (fresh (MF st))))
        (BuildMI_at b i (mk_LEA64r targetRegOpcode (fresh (MF st))) (F2 d))))" for d
  have out: "no_cond S (out d)" for d unfolding out_def by (intro no_cond_ops F2 plain plain_instrs)
  show ?thesis
  proof (cases "t \<in> set (processedMBBs st)")
    case True
    with run r have "MF st' = out (Some t)"
      by (auto simp: replaceConditionalBranch_def split_beta Let_def F1_def F2_def out_def)
    with out show ?thesis by simp
  next
    case False
    with run r have "MF st' = out None"
      by (auto simp: replaceConditionalBranch_def split_beta Let_def addBBtoBlockLane_def F1_def F2_def
          out_def)
    with out show ?thesis by simp
  qed
qed

lemma split_je_jmp_no_cond:
  assumes run: "split_je_jmp b i ft ln st = Inr st'" and nc: "no_cond S (MF st)"
    and u: "isUnconditionalBranch (insts (heap (MF st) b) ! i)"
  shows "no_cond S (MF st')"
proof -
  let ?k = "insts (heap (MF st) b) ! i"
  from run obtain op t where r: "getOperand ?k 0 = Inr op" "getMBB op = Inr t"
    by (auto simp: split_je_jmp_def)
  define MI where "MI = \<lparr>opc = opc ?k, ops = [MO_MachineBasicBlock t]\<rparr>"
  have MI: "\<not> isConditionalBranch MI"
    using u by (simp add: MI_def isConditionalBranch_def isUnconditionalBranch_def isBarrier_def
        isIndirectBranch_def)
  define F1 where "F1 = addSuccessor b (fresh (MF st)) UnknownN (BuildMI_end (fresh (MF st)) MI
      (mf_insert (iMBB st) (fresh (MF st)) (snd (CreateMachineBasicBlock (MF st)))))"
  define st1 where "st1 = st\<lparr>iMBB := prev_iter (layout F1) (iMBB st), MF := erase_at b i F1\<rparr>"
  have "no_cond S (MF st1)"
    unfolding st1_def F1_def using nc MI by (simp add: no_cond_ops)
  moreover have "replaceConditionalBranch b (i - 1) ft ln st1 = Inr st'"
    using run r by (simp add: split_je_jmp_def split_beta Let_def st1_def F1_def MI_def)
  ultimately show ?thesis using replaceConditionalBranch_no_cond by blast
qed

lemma convert_end_no_cond:
  assumes "convert_end b i ft ln st = Inr st'" "no_cond S (MF st)"
  shows "no_cond S (MF st')"
proof -
  let ?k = "insts (heap (MF st) b) ! i"
  consider "isUnconditionalBranch ?k" "split_je_jmp b i ft ln st = Inr st'"
    | "replaceUnconditionalJump b i ft ln st = Inr st'"
    | "replaceIndirectJump b i ft ln st = Inr st'"
    | "replaceConditionalBranch b i ft ln st = Inr st'"
    | "replaceNoBranchBlock b i ft ln st = Inr st'"
    using assms(1) by (auto simp: convert_end_def Let_def split: if_splits)
  then show ?thesis
    using assms(2) split_je_jmp_no_cond replaceUnconditionalJump_no_cond replaceIndirectJump_no_cond
      replaceConditionalBranch_no_cond replaceNoBranchBlock_no_cond
    by cases blast+
qed

lemma create_fake_no_cond: "no_cond S F \<Longrightarrow> no_cond S (snd (create_fake b it F))"
  by (auto simp: create_fake_def split_beta intro!: no_cond_ops)

lemma convert_block_no_cond:
  assumes run: "convert_block dummy b st = Inr st'" and nc: "no_cond S (MF st)"
  shows "no_cond S (MF st')"
proof -
  let ?it = "next_in (layout (MF st)) b"
  obtain fk F2 where cf: "create_fake b ?it (MF st) = (fk, F2)" by fastforce
  from run obtain ft where "getFallThrough (MF st) b = Inr ft"
    by (auto simp: convert_block_def Let_def)
  with run cf obtain K tk F' where
    upd: "update_lanes dummy b fk [] (takenBlocks st) None F2 = Inr (K, tk, F')"
    by (auto simp: convert_block_def Let_def)
  have "no_cond S F2" using create_fake_no_cond [OF nc, of b ?it] cf by simp
  from update_lanes_no_cond [OF upd this] have "no_cond S F'" .
  with run cf upd \<open>getFallThrough _ _ = _\<close> show ?thesis
    by (cases tk) (auto simp: convert_block_def Let_def addBBtoBlockLane_def split: if_splits
        dest!: convert_end_no_cond)
qed

lemma convert_blocks_no_cond:
  "convert_blocks fuel dummy st = Inr st' \<Longrightarrow> no_cond S (MF st) \<Longrightarrow> no_cond S (MF st')"
proof (induction fuel arbitrary: st)
  case 0
  then show ?case by (auto simp: convert_blocks.simps split: option.splits)
next
  case (Suc fuel)
  show ?case
  proof (cases "iMBB st")
    case None
    with Suc.prems show ?thesis by (auto simp: convert_blocks.simps)
  next
    case (Some b)
    with Suc.prems obtain st1 where "convert_block dummy b st = Inr st1"
        "convert_blocks fuel dummy st1 = Inr st'"
      by (auto simp: convert_blocks.simps [of "Suc fuel"])
    with Suc convert_block_no_cond show ?thesis by blast
  qed
qed

lemma run_no_cond:
  assumes "runOnMachineFunction dummy F0 = Inr F"
  shows "no_cond (set (layout F0)) F"
proof -
  from assms obtain h ls where l0: "layout F0 = h # ls"
    by (cases "layout F0") (auto simp: runOnMachineFunction_def)
  define st0 where "st0 = \<lparr>MF = F0, takenBlocks = [\<lparr>currentMBB = None, DestMBB = None, taken = True\<rparr>],
      processedMBBs = [], iMBB = begin_iter (layout F0)\<rparr>"
  from assms l0 obtain st where
    run: "convert_blocks (convert_fuel F0) dummy st0 = Inr st"
    and F: "F = addSuccessor (fresh (MF st)) h UnknownN (BuildMI_end (fresh (MF st)) (mk_JMP_4 h)
      (mf_push_front (fresh (MF st)) (snd (CreateMachineBasicBlock (MF st)))))"
    by (auto simp: runOnMachineFunction_def split_beta Let_def st0_def)
  have "no_cond (set (layout F0)) (MF st0)" by (simp add: no_cond_def st0_def)
  from convert_blocks_no_cond [OF run this] show ?thesis
    unfolding F by (auto intro!: no_cond_ops)
qed

lemma weave_fake_notin:
  "b \<in> set (fakes ps) \<Longrightarrow> distinct (weave ps) \<Longrightarrow> b \<notin> fst ` set ps"
proof (induction ps rule: weave.induct)
  case (2 x ps)
  then show ?case by (auto simp: set_weave)
next
  case (3 x f ps)
  then show ?case by (auto simp: set_weave)
qed simp

lemma converted_order:
  assumes "converted F0 zs dn e F"
  shows "filter (\<lambda>b. b \<in> set (layout F0)) (layout F) = layout F0"
proof -
  from assms have lay: "layout F = e # zs @ weave dn" and dist: "distinct (layout F)"
    and ord: "filter (\<lambda>b. b \<in> set (layout F0)) (map fst dn) = layout F0"
    by (auto simp: converted_def)
  have sub: "set (layout F0) \<subseteq> fst ` set dn"
    using arg_cong [OF ord, of set] by auto
  have out: "b \<notin> set (layout F0)" if "b \<in> insert e (set zs) \<union> set (fakes dn)" for b
  proof -
    have "b \<notin> fst ` set dn"
    proof (cases "b \<in> insert e (set zs)")
      case True
      with dist lay show ?thesis by (auto simp: set_weave)
    next
      case False
      with that have "b \<in> set (fakes dn)" by blast
      moreover have "distinct (weave dn)" using dist lay by simp
      ultimately show ?thesis by (rule weave_fake_notin)
    qed
    with sub show ?thesis by blast
  qed
  have "filter (\<lambda>b. b \<in> set (layout F0)) (weave ps) = filter (\<lambda>b. b \<in> set (layout F0)) (map fst ps)"
    if "set (fakes ps) \<inter> set (layout F0) = {}" for ps
    using that by (induction ps rule: weave.induct) auto
  from this [of dn] out ord lay show ?thesis by (auto simp: filter_empty_conv)
qed

section \<open>The branches of the converted function\<close>

lemma end_code_branches:
  assumes "straight body" "ends_with E body T" "MI \<in> set (end_code E body T n)"
  shows "\<not> isConditionalBranch MI \<and>
    (isBranch MI \<longrightarrow> isIndirectBranch MI \<and> MI \<in> set (body @ T))"
proof -
  have b: "\<not> isConditionalBranch MI \<and> \<not> isBranch MI" if "MI \<in> set body"
    using that assms(1) by (auto simp: straight_def list_all_iff dest: straight_flags)
  have l: "\<not> isBranch MI" if "MI \<in> set (cond_target m k j) \<or> MI = lea_target k" for m k j
    using that by (auto simp: cond_target_def lea_target_def mk_LEA64r_def mk_CMOV_def desc_defs)
  have "MI \<in> set body \<or> (\<exists>m k j. MI \<in> set (cond_target m k j) \<or> MI = lea_target k) \<or>
      MI \<in> set T \<and> (is_indirect MI \<or> isReturn MI)"
    using assms(2,3) by (cases "(E, body, T)" rule: ends_with.cases) auto
  then show ?thesis
    using b l isReturn_flags [of MI] is_indirect_flags [of MI]
    by (auto simp: isConditionalBranch_def)
qed

lemma converted_branches:
  assumes "wf_fun F0" and "runOnMachineFunction False F0 = Inr F"
  shows "(\<forall>b\<in>set (layout F). \<forall>MI\<in>set (code F b). \<not> isConditionalBranch MI) \<and>
    filter (\<lambda>b. b \<in> set (layout F0)) (layout F) = layout F0 \<and>
    (\<forall>b\<in>set (layout F0). \<forall>MI\<in>set (code F b). isBranch MI \<longrightarrow>
       isIndirectBranch MI \<and> MI \<in> set (code F0 b))"
proof -
  from runOnMachineFunction_converted [OF assms(1)] assms(2) obtain zs dn e where
    C: "converted F0 zs dn e F" by auto
  have own: "\<not> isConditionalBranch MI \<and> (isBranch MI \<longrightarrow> isIndirectBranch MI \<and> MI \<in> set (code F0 b))"
    if "b \<in> set (layout F0)" "MI \<in> set (code F b)" for b MI
  proof -
    from C that(1) have "block_conv F0 F (final_exit zs F dn) (nexts dn b) {} b"
      unfolding converted_def by blast
    then obtain E body T n where "code F0 b = body @ T" "straight body" "ends_with E body T"
      "code F b = end_code E body T n" unfolding block_conv_def by blast
    with end_code_branches [of body E T MI n] that(2) show ?thesis by simp
  qed
  have "\<forall>b\<in>set (layout F). \<forall>MI\<in>set (code F b). \<not> isConditionalBranch MI"
    using own run_no_cond [OF assms(2)] unfolding no_cond_def by blast
  moreover have "filter (\<lambda>b. b \<in> set (layout F0)) (layout F) = layout F0"
    by (rule converted_order [OF C])
  ultimately show ?thesis using own by blast
qed

end
