(* ===== verification/BranchInsertion.thy ===== *)
theory BranchInsertion
  imports BranchAnalysis MachineSem
begin

text \<open>
  Removing, inserting and inverting the branches at the end of a block
  (\<open>llvm/lib/Target/X86/X86InstrInfo.cpp\<close>) and \<open>updateTerminator\<close>
  (\<open>llvm/lib/CodeGen/MachineBasicBlock.cpp\<close>), which repairs them after the blocks have been
  reordered. Debug locations are left out.
\<close>

section \<open>Removing branches\<close>

text \<open>
  The loop of \<open>removeBranch\<close> on the reversed block: \<open>dbg\<close> are the debug values it has
  skipped since the last restart from the end.
\<close>

definition removable :: "minstr \<Rightarrow> bool" where
  "removable MI = (opc MI = JMP_1 \<or> getCondFromBranchOpc (opc MI) \<noteq> COND_INVALID)"

function removeBranch_loop :: "minstr list \<Rightarrow> minstr list \<Rightarrow> nat \<Rightarrow> minstr list \<times> nat" where
  "removeBranch_loop dbg [] Count = (dbg, Count)"
| "removeBranch_loop dbg (I # rest) Count =
     (if isDebugValue I then removeBranch_loop (dbg @ [I]) rest Count
      else if \<not> removable I then (dbg @ I # rest, Count)
      else removeBranch_loop [] (dbg @ rest) (Suc Count))"
  by pat_completeness auto

termination
  by (relation "measures [\<lambda>(d, r, n). length d + length r, \<lambda>(d, r, n). length r]") auto

definition removeBranch :: "nat \<Rightarrow> mfunc \<Rightarrow> nat \<times> mfunc" where
  "removeBranch MBB MF =
     (case removeBranch_loop [] (rev (insts (heap MF MBB))) 0 of
        (is, Count) \<Rightarrow> (Count, upd_block MBB (\<lambda>B. B\<lparr>insts := rev is\<rparr>) MF))"

section \<open>Inserting branches\<close>

definition mk_branch :: "opcode \<Rightarrow> nat \<Rightarrow> minstr" where
  "mk_branch opcd b = \<lparr>opc = opcd, ops = [MO_MachineBasicBlock b]\<rparr>"

text \<open>The conditional part of \<open>insertBranch\<close>; it may choose the fallthrough as \<open>FBB\<close>.\<close>

definition insert_cond ::
  "nat \<Rightarrow> nat \<Rightarrow> nat option \<Rightarrow> cond_code \<Rightarrow> mfunc \<Rightarrow> (nat \<times> nat option \<times> mfunc) res" where
  "insert_cond MBB T F CC MF =
     (case CC of
        COND_NE_OR_P \<Rightarrow>
          Inr (2, F, BuildMI_end MBB (mk_branch (Jcc_1 mP) T) (BuildMI_end MBB (mk_branch (Jcc_1 mNE) T) MF))
      | COND_E_AND_NP \<Rightarrow>
          (let F' = (if F = None then getFallThroughMBB MF MBB (Some T) else F) in
           case F' of
             None \<Rightarrow> Inl (AssertFail ''MBB cannot be the last block in function when the false body is a fall-through.'')
           | Some f \<Rightarrow>
               Inr (2, F', BuildMI_end MBB (mk_branch (Jcc_1 mNP) T) (BuildMI_end MBB (mk_branch (Jcc_1 mNE) f) MF)))
      | _ \<Rightarrow> bind_res (GetCondBranchFromCond CC) (\<lambda>Opc. Inr (1, F, BuildMI_end MBB (mk_branch Opc T) MF)))"

definition insertBranch ::
  "nat \<Rightarrow> nat option \<Rightarrow> nat option \<Rightarrow> cond_code list \<Rightarrow> mfunc \<Rightarrow> (nat \<times> mfunc) res" where
  "insertBranch MBB T F C MF =
     (case T of
        None \<Rightarrow> Inl (AssertFail ''insertBranch must not be told to insert a fallthrough'')
      | Some t \<Rightarrow>
          bind_res (assert_res ''X86 branch conditions have one component!'' (length C \<le> 1)) (\<lambda>_.
          case C of
            [] \<Rightarrow> bind_res (assert_res ''Unconditional branch with multiple successors!'' (F = None)) (\<lambda>_.
                    Inr (1, BuildMI_end MBB (mk_branch JMP_1 t) MF))
          | CC # _ \<Rightarrow>
              let FallThru = (F = None) in
              bind_res (insert_cond MBB t F CC MF) (\<lambda>(Count, F', MF1).
                if \<not> FallThru then
                  (case F' of
                     Some f \<Rightarrow> Inr (Suc Count, BuildMI_end MBB (mk_branch JMP_1 f) MF1)
                   | None \<Rightarrow> Inl NullDeref)
                else Inr (Count, MF1))))"

text \<open>Returns the new condition; the source returns false, for success, in all cases.\<close>

definition reverseBranchCondition :: "cond_code list \<Rightarrow> cond_code list res" where
  "reverseBranchCondition C =
     bind_res (assert_res ''Invalid X86 branch condition!'' (length C = 1)) (\<lambda>_.
       bind_res (GetOppositeBranchCondition (hd C)) (\<lambda>c. Inr [c]))"

section \<open>Repairing the end of a block\<close>

definition canFallThrough :: "mfunc \<Rightarrow> nat \<Rightarrow> bool res" where
  "canFallThrough MF this = bind_res (getFallThrough MF this) (\<lambda>r. Inr (r \<noteq> None))"

text \<open>
  The two loops over the successors for the fallthrough block: the landing pads, and the target of
  the conditional branch, are passed over.
\<close>

fun find_fallthrough :: "string \<Rightarrow> mfunc \<Rightarrow> nat option \<Rightarrow> nat option \<Rightarrow> nat list \<Rightarrow> nat option res" where
  "find_fallthrough msg MF T r [] = Inr r"
| "find_fallthrough msg MF T r (SI # rest) =
     (if IsEHPad (heap MF SI) \<or> Some SI = T then find_fallthrough msg MF T r rest
      else bind_res (assert_res msg (r = None)) (\<lambda>_. find_fallthrough msg MF T (Some SI) rest))"

definition layout_succ :: "mfunc \<Rightarrow> nat \<Rightarrow> nat option \<Rightarrow> bool" where
  "layout_succ MF this b = (case b of None \<Rightarrow> next_in (layout MF) this = None | Some c \<Rightarrow> isLayoutSuccessor MF this c)"

definition reinsert ::
  "nat \<Rightarrow> nat option \<Rightarrow> nat option \<Rightarrow> cond_code list \<Rightarrow> mfunc \<Rightarrow> mfunc res" where
  "reinsert this T F C MF =
     bind_res (insertBranch this T F C (snd (removeBranch this MF))) (\<lambda>r. Inr (snd r))"

definition updateTerminator :: "nat \<Rightarrow> mfunc \<Rightarrow> mfunc res" where
  "updateTerminator this MF =
     (if Successors (heap MF this) = [] then Inr MF
      else bind_res (analyzeBranch MF this) (\<lambda>r.
        case r of
          None \<Rightarrow> Inl (AssertFail ''UpdateTerminators requires analyzable predecessors!'')
        | Some bi \<Rightarrow>
          if Cond bi = [] then
            (if TBB bi \<noteq> None then
               Inr (if layout_succ MF this (TBB bi) then snd (removeBranch this MF) else MF)
             else
               bind_res (find_fallthrough ''Found more than one non-landing-pad successor!'' MF None None
                           (Successors (heap MF this))) (\<lambda>t.
                 if t = None then Inr MF
                 else if \<not> layout_succ MF this t
                 then bind_res (insertBranch this t None (Cond bi) MF) (\<lambda>r. Inr (snd r))
                 else Inr MF))
          else if FBB bi \<noteq> None then
            (if layout_succ MF this (TBB bi) then
               bind_res (reverseBranchCondition (Cond bi)) (\<lambda>c. reinsert this (FBB bi) None c MF)
             else if layout_succ MF this (FBB bi) then reinsert this (TBB bi) None (Cond bi) MF
             else Inr MF)
          else
            bind_res (find_fallthrough ''Found more than one fallthrough successor.'' MF (TBB bi) None
                        (Successors (heap MF this))) (\<lambda>f.
              if f = None then
                bind_res (canFallThrough MF this) (\<lambda>ft.
                  if ft then
                    (let MF1 = snd (removeBranch this MF) in
                     if \<not> layout_succ MF1 this (TBB bi)
                     then bind_res (insertBranch this (TBB bi) None (Cond bi) MF1) (\<lambda>r. Inr (snd r))
                     else Inr MF1)
                  else reinsert this (TBB bi) None [] MF)
              else if layout_succ MF this (TBB bi) then
                bind_res (reverseBranchCondition (Cond bi)) (\<lambda>c. reinsert this f None c MF)
              else if \<not> layout_succ MF this f then reinsert this (TBB bi) f (Cond bi) MF
              else Inr MF)))"

section \<open>Tail calls\<close>

text \<open>
  The subtarget, the function information and the condition operand are arguments; of the tail call
  opcodes only \<open>TCRETURNdi64\<close> is in the model, and its stack offset is operand 1.
\<close>

definition isUnconditionalTailCall :: "minstr \<Rightarrow> bool" where
  "isUnconditionalTailCall MI = (opc MI = TCRETURNdi64)"

definition canMakeTailCallConditional ::
  "bool \<Rightarrow> bool \<Rightarrow> int \<Rightarrow> cond_code list \<Rightarrow> minstr \<Rightarrow> bool res" where
  "canMakeTailCallConditional isTargetWin64 hasWinCFI TCReturnAddrDelta BranchCond TailCall =
     (if opc TailCall \<noteq> TCRETURNdi64 then Inr False
      else if isTargetWin64 \<and> hasWinCFI then Inr False
      else bind_res (assert_res ''BranchCond.size() == 1'' (length BranchCond = 1)) (\<lambda>_.
        if cond_val (hd BranchCond) > LAST_VALID_COND then Inr False
        else if TCReturnAddrDelta \<noteq> 0 then Inr False
        else bind_res (getOperand TailCall 1) (\<lambda>op.
          case op of MO_Immediate k \<Rightarrow> Inr (k = 0) | _ \<Rightarrow> Inl (AssertFail ''Wrong MachineOperand accessor''))))"

section \<open>Where the branches of a block lead\<close>

text \<open>
  The block that runs after the branches \<open>T\<close> at the end of a block, in flag state \<open>fl\<close>,
  if control falls through to \<open>nxt\<close>.
\<close>

fun branch_dest :: "eflags \<Rightarrow> nat option \<Rightarrow> minstr list \<Rightarrow> nat option" where
  "branch_dest fl nxt [] = nxt"
| "branch_dest fl nxt (I # rest) =
     (if opc I = JMP_1 \<or> cond_holds (getCondFromBranchOpc (opc I)) fl then jump_target I
      else branch_dest fl nxt rest)"

definition jcc :: "minstr \<Rightarrow> bool" where
  "jcc I = (getCondFromBranchOpc (opc I) \<noteq> COND_INVALID \<and> jump_target I \<noteq> None)"

definition jmp :: "minstr \<Rightarrow> bool" where
  "jmp I = (opc I = JMP_1 \<and> jump_target I \<noteq> None)"

text \<open>Conditional branches, then possibly a jump.\<close>

definition branch_tail :: "minstr list \<Rightarrow> bool" where
  "branch_tail T \<longleftrightarrow> (\<exists>C J. T = C @ J \<and> list_all jcc C \<and> (J = [] \<or> (\<exists>j. J = [j] \<and> jmp j)))"

lemma jcc_opc:
  assumes "getCondFromBranchOpc opcd \<noteq> COND_INVALID"
  obtains m where "opcd = Jcc_1 m"
  using assms by (cases opcd) auto

lemma jcc_flags:
  assumes "jcc I"
  shows "isBranch I" "isTerminator I" "\<not> isDebugValue I" "opc I \<noteq> JMP_1" "removable I"
    and "\<not> isBarrier I"
proof -
  from assms have ne: "getCondFromBranchOpc (opc I) \<noteq> COND_INVALID" by (simp add: jcc_def)
  then obtain m where m: "opc I = Jcc_1 m" by (rule jcc_opc)
  show "isBranch I" "isTerminator I" "\<not> isDebugValue I" "opc I \<noteq> JMP_1" "removable I" "\<not> isBarrier I"
    using ne by (simp_all add: m removable_def isBranch_def isTerminator_def desc_isTerminator_def
      desc_isBranch_def isDebugValue_def isBarrier_def desc_isBarrier_def)
qed

lemma jmp_flags:
  assumes "jmp I"
  shows "isBranch I" "isTerminator I" "\<not> isDebugValue I" "opc I = JMP_1" "removable I"
  using assms by (auto simp: jmp_def removable_def isBranch_def isTerminator_def desc_isTerminator_def
      desc_isBranch_def isDebugValue_def)

lemma jcc_target: "jcc I \<Longrightarrow> \<exists>t. jump_target I = Some t \<and> getOperand I 0 = Inr (MO_MachineBasicBlock t)"
  by (auto simp: jcc_def jump_target_def getOperand_def split: list.splits operand.splits)

lemma jmp_target: "jmp I \<Longrightarrow> \<exists>t. jump_target I = Some t \<and> getOperand I 0 = Inr (MO_MachineBasicBlock t)"
  by (auto simp: jmp_def jump_target_def getOperand_def split: list.splits operand.splits)

text \<open>The machine goes there.\<close>

lemma branch_steps:
  assumes "insts (heap F b) = pre @ T" and "list_all (\<lambda>I. jcc I \<or> jmp I) T"
  shows "\<exists>n. mrun M F (Suc n) (Run b (length pre) s) = goto (branch_dest (flags s) (next_in (layout F) b) T) s"
  using assms
proof (induction T arbitrary: pre)
  case Nil
  then show ?case by (intro exI [of _ 0]) simp
next
  case (Cons I T)
  let ?fl = "flags s"
  have I: "length pre < length (insts (heap F b))" "insts (heap F b) ! length pre = I"
    using Cons.prems(1) by simp_all
  show ?case
  proof (cases "opc I = JMP_1 \<or> cond_holds (getCondFromBranchOpc (opc I)) ?fl")
    case True
    have "mstep M F (Run b (length pre) s) = goto (jump_target I) s"
    proof (cases "opc I = JMP_1")
      case True
      with I show ?thesis by (simp add: exec_instr_def Let_def)
    next
      case False
      with Cons.prems(2) have "jcc I" by (auto simp: jmp_def)
      then obtain m where m: "opc I = Jcc_1 m" by (auto simp: jcc_def elim: jcc_opc)
      have "getCondFromBranchOpc (Jcc_1 m) = mnem_cond m" by (cases m) simp_all
      with True False I m show ?thesis by (simp add: exec_instr_def Let_def)
    qed
    with True show ?thesis by (intro exI [of _ 0]) simp
  next
    case False
    with Cons.prems(2) have "jcc I" by (auto simp: jmp_def)
    then obtain m where m: "opc I = Jcc_1 m" by (auto simp: jcc_def elim: jcc_opc)
    have "getCondFromBranchOpc (Jcc_1 m) = mnem_cond m" by (cases m) simp_all
    with False I m have 1: "mstep M F (Run b (length pre) s) = Run b (length (pre @ [I])) s"
      by (simp add: exec_instr_def Let_def)
    from Cons.IH [of "pre @ [I]"] Cons.prems obtain n where
      "mrun M F (Suc n) (Run b (length (pre @ [I])) s) = goto (branch_dest ?fl (next_in (layout F) b) T) s" by auto
    with 1 have "mrun M F (Suc (Suc n)) (Run b (length pre) s) = goto (branch_dest ?fl (next_in (layout F) b) T) s"
      by (simp only: mrun.simps)
    with False show ?thesis by (intro exI [of _ "Suc n"]) (simp only: branch_dest.simps if_False)
  qed
qed

lemma branch_runs:
  assumes "insts (heap F b) = pre @ T" and "list_all (\<lambda>I. jcc I \<or> jmp I) T"
  shows "\<exists>n. mrun M F n (Run b (length pre) s) = goto (branch_dest (flags s) (next_in (layout F) b) T) s"
  using branch_steps [OF assms] by blast

section \<open>The analysis is sound\<close>

definition straight_line :: "minstr list \<Rightarrow> bool" where
  "straight_line is = list_all (\<lambda>MI. \<not> isTerminator MI) is"

definition bi_dest :: "eflags \<Rightarrow> nat option \<Rightarrow> branch_info \<Rightarrow> nat option" where
  "bi_dest fl g bi =
     (case Cond bi of
        [] \<Rightarrow> (if TBB bi = None then g else TBB bi)
      | c # _ \<Rightarrow> if cond_holds c fl then TBB bi else if FBB bi = None then g else FBB bi)"

definition bi_means :: "minstr list \<Rightarrow> nat option \<Rightarrow> branch_info \<Rightarrow> bool" where
  "bi_means U g bi \<longleftrightarrow> length (Cond bi) \<le> 1 \<and> COND_INVALID \<notin> set (Cond bi) \<and> (Cond bi = [] \<longrightarrow> FBB bi = None) \<and>
     (Cond bi \<noteq> [] \<longrightarrow> TBB bi \<noteq> None) \<and> (\<forall>fl. branch_dest fl g U = bi_dest fl g bi)"

lemma loop_straight:
  "straight_line is \<Longrightarrow> AnalyzeBranch_loop MF b is bi = Inr (Some bi)"
  by (induction "is")
     (auto simp: straight_line_def AnalyzeBranch_step_def isUnpredicatedTerminator_def)

lemma step_cond:
  assumes "jcc I" and "AnalyzeBranch_step MF b I bi = Inr r"
  shows "\<exists>t. jump_target I = Some t \<and>
    r = (if Cond bi = [] then
           Continue (bi\<lparr>FBB := TBB bi, TBB := Some t, Cond := [getCondFromBranchOpc (opc I)],
                       CondBranches := CondBranches bi @ [I]\<rparr>)
         else AnalyzeBranch_next_cond MF b I (getCondFromBranchOpc (opc I)) t bi)"
proof -
  from jcc_target [OF assms(1)] obtain t where t: "jump_target I = Some t"
    "getOperand I 0 = Inr (MO_MachineBasicBlock t)" by blast
  with assms(2) jcc_flags [OF assms(1)] assms(1) show ?thesis
    by (auto simp: AnalyzeBranch_step_def isUnpredicatedTerminator_def Let_def jcc_def getMBB_def)
qed

lemma next_cond_stable:
  "AnalyzeBranch_next_cond MF b I c t bi = Continue bi' \<Longrightarrow>
     TBB bi' = TBB bi \<and> FBB bi' = FBB bi \<and> (Cond bi \<noteq> [] \<longrightarrow> Cond bi' \<noteq> [])"
  by (auto simp: AnalyzeBranch_next_cond_def Let_def split: if_splits)

lemma cond_loop_stable:
  assumes "list_all jcc R" and "AnalyzeBranch_loop MF b (R @ is) bi = Inr (Some bi')"
    and "straight_line is" and "Cond bi \<noteq> []"
  shows "TBB bi' = TBB bi \<and> FBB bi' = FBB bi \<and> Cond bi' \<noteq> []"
  using assms
proof (induction R arbitrary: bi)
  case Nil
  then show ?case by (simp add: loop_straight)
next
  case (Cons I R)
  from Cons.prems(2) obtain r where r: "AnalyzeBranch_step MF b I bi = Inr r"
    by (cases "AnalyzeBranch_step MF b I bi") auto
  from Cons.prems(1) have I: "jcc I" by simp
  from step_cond [OF I r] Cons.prems(4) obtain t where
    t: "r = AnalyzeBranch_next_cond MF b I (getCondFromBranchOpc (opc I)) t bi" by auto
  have "r \<noteq> Break" by (auto simp: t AnalyzeBranch_next_cond_def Let_def split: if_splits)
  with Cons.prems(2) r obtain bi1 where bi1: "r = Continue bi1" by (cases r) auto
  with next_cond_stable [of MF b I _ t bi bi1] t Cons.prems(4) have
    "TBB bi1 = TBB bi" "FBB bi1 = FBB bi" "Cond bi1 \<noteq> []" by auto
  with Cons.IH [of bi1] Cons.prems r bi1 show ?case by auto
qed

lemma next_cond_means:
  assumes "bi_means U g bi" "Cond bi \<noteq> []" "jcc I" "jump_target I = Some t"
    and "AnalyzeBranch_next_cond MF b I (getCondFromBranchOpc (opc I)) t bi = Continue bi'"
    and "FBB bi = None \<longrightarrow> getFallThroughMBB MF b (TBB bi) \<in> {None, g}"
  shows "bi_means (I # U) g bi'"
proof -
  from assms(1,2) obtain c T where c: "Cond bi = [c]" "TBB bi = Some T"
    by (cases "Cond bi") (auto simp: bi_means_def)
  have d: "branch_dest fl g U = (if cond_holds c fl then Some T else if FBB bi = None then g else FBB bi)" for fl
    using assms(1) c by (simp add: bi_means_def bi_dest_def)
  let ?B = "getCondFromBranchOpc (opc I)"
  note flags = jcc_flags [OF assms(3)]
  have valid: "getCondFromBranchOpc (opc I) \<noteq> COND_INVALID" "COND_INVALID \<noteq> getCondFromBranchOpc (opc I)"
    using assms(3) by (auto simp: jcc_def)
  consider (same) "c = ?B" "T = t" "bi' = bi"
    | (pair_or) "T = t" "c = COND_P \<and> ?B = COND_NE \<or> c = COND_NE \<and> ?B = COND_P"
        "bi' = bi\<lparr>Cond := [COND_NE_OR_P], CondBranches := CondBranches bi @ [I]\<rparr>"
    | (pair_and) "c = COND_NP \<and> ?B = COND_NE \<or> c = COND_E \<and> ?B = COND_P"
        "Some t = (case FBB bi of Some f \<Rightarrow> Some f | None \<Rightarrow> getFallThroughMBB MF b (TBB bi))"
        "bi' = bi\<lparr>Cond := [COND_E_AND_NP], CondBranches := CondBranches bi @ [I]\<rparr>"
  proof -
    define pat where "pat \<longleftrightarrow> c = COND_P \<and> ?B = COND_NE \<or> c = COND_NE \<and> ?B = COND_P"
    define pat' where "pat' \<longleftrightarrow> c = COND_NP \<and> ?B = COND_NE \<or> c = COND_E \<and> ?B = COND_P"
    define ft where "ft = (case FBB bi of Some f \<Rightarrow> Some f | None \<Rightarrow> getFallThroughMBB MF b (TBB bi))"
    have S: "(if c = ?B \<and> T = t then Continue bi
        else if T = t \<and> pat then Continue (bi\<lparr>Cond := [COND_NE_OR_P], CondBranches := CondBranches bi @ [I]\<rparr>)
        else if pat' then (if Some t \<noteq> ft then GiveUp
          else Continue (bi\<lparr>Cond := [COND_E_AND_NP], CondBranches := CondBranches bi @ [I]\<rparr>))
        else GiveUp) = Continue bi'"
      using assms(5) unfolding AnalyzeBranch_next_cond_def Let_def c list.sel option.inject
        pat_def pat'_def ft_def .
    show thesis
    proof (cases "c = ?B \<and> T = t")
      case True
      with S have "bi' = bi" by simp
      with True same show thesis by blast
    next
      case F: False
      show thesis
      proof (cases "T = t \<and> pat")
        case True
        with S F have "bi' = bi\<lparr>Cond := [COND_NE_OR_P], CondBranches := CondBranches bi @ [I]\<rparr>"
          by (simp only: if_False if_True ab_step.inject simp_thms)
        with True pair_or show thesis unfolding pat_def by blast
      next
        case F2: False
        with S F have "pat'" "Some t = ft" "bi' = bi\<lparr>Cond := [COND_E_AND_NP], CondBranches := CondBranches bi @ [I]\<rparr>"
          by (simp_all only: if_False ab_step.inject ab_step.distinct split: if_split_asm)
        with pair_and show thesis unfolding pat'_def ft_def by blast
      qed
    qed
  qed
  then show ?thesis
  proof cases
    case same
    with c d assms(4) flags(4) valid show ?thesis by (auto simp: bi_means_def bi_dest_def)
  next
    case pair_or
    with c d assms(4) flags(4) valid show ?thesis by (auto simp: bi_means_def bi_dest_def)
  next
    case pair_and
    have "FBB bi = None \<longrightarrow> Some t = g" "FBB bi \<noteq> None \<longrightarrow> Some t = FBB bi"
      using pair_and(2) assms(6) by (auto split: option.splits)
    with pair_and c d assms(4) flags(4) valid show ?thesis by (auto simp: bi_means_def bi_dest_def)
  qed
qed

lemma cond_loop_means:
  assumes "list_all jcc R" and "AnalyzeBranch_loop MF b (R @ is) bi = Inr (Some bi')"
    and "straight_line is" and "bi_means U g bi"
    and "FBB bi' = None \<longrightarrow> Cond bi' \<noteq> [] \<longrightarrow> getFallThroughMBB MF b (TBB bi') \<in> {None, g}"
  shows "bi_means (rev R @ U) g bi'"
  using assms
proof (induction R arbitrary: bi U)
  case Nil
  then show ?case by (simp add: loop_straight)
next
  case (Cons I R)
  from Cons.prems(2) obtain r where r: "AnalyzeBranch_step MF b I bi = Inr r"
    by (cases "AnalyzeBranch_step MF b I bi") auto
  from Cons.prems(1) have I: "jcc I" by simp
  from step_cond [OF I r] obtain t where t: "jump_target I = Some t" and
    rt: "r = (if Cond bi = [] then
           Continue (bi\<lparr>FBB := TBB bi, TBB := Some t, Cond := [getCondFromBranchOpc (opc I)],
                       CondBranches := CondBranches bi @ [I]\<rparr>)
         else AnalyzeBranch_next_cond MF b I (getCondFromBranchOpc (opc I)) t bi)" by blast
  have "r \<noteq> Break" by (auto simp: rt AnalyzeBranch_next_cond_def Let_def split: if_splits)
  with Cons.prems(2) r obtain bi1 where bi1: "r = Continue bi1" by (cases r) auto
  have loop: "AnalyzeBranch_loop MF b (R @ is) bi1 = Inr (Some bi')" using Cons.prems(2) r bi1 by simp
  have R: "list_all jcc R" using Cons.prems(1) by simp
  have "bi_means (I # U) g bi1"
  proof (cases "Cond bi = []")
    case True
    have "COND_INVALID \<noteq> getCondFromBranchOpc (opc I)" using I by (auto simp: jcc_def)
    with True rt bi1 Cons.prems(4) jcc_flags(4) [OF I] t show ?thesis
      by (auto simp: bi_means_def bi_dest_def)
  next
    case False
    with rt bi1 have n: "AnalyzeBranch_next_cond MF b I (getCondFromBranchOpc (opc I)) t bi = Continue bi1"
      by simp
    from next_cond_stable [OF n] False have "Cond bi1 \<noteq> []" "TBB bi1 = TBB bi" "FBB bi1 = FBB bi" by auto
    with cond_loop_stable [OF R loop Cons.prems(3)] Cons.prems(5)
    have "FBB bi = None \<longrightarrow> getFallThroughMBB MF b (TBB bi) \<in> {None, g}" by auto
    from next_cond_means [OF Cons.prems(4) False I t n this] show ?thesis .
  qed
  from Cons.IH [OF R loop Cons.prems(3) this Cons.prems(5)] show ?case by simp
qed

lemma analyzeBranch_means:
  assumes "insts (heap MF b) = body @ T" "straight_line body" "branch_tail T"
    and "analyzeBranch MF b = Inr (Some bi)"
    and "FBB bi = None \<longrightarrow> Cond bi \<noteq> [] \<longrightarrow> getFallThroughMBB MF b (TBB bi) \<in> {None, g}"
  shows "bi_means T g bi"
proof -
  from assms(3) obtain C J where T: "T = C @ J" "list_all jcc C" "J = [] \<or> (\<exists>j. J = [j] \<and> jmp j)"
    by (auto simp: branch_tail_def)
  have C: "list_all jcc (rev C)" and body: "straight_line (rev body)"
    using T(2) assms(2) by (simp_all add: straight_line_def)
  from T(3) show ?thesis
  proof
    assume J: "J = []"
    with assms(1,4) T(1) have "AnalyzeBranch_loop MF b (rev C @ rev body) no_branch_info = Inr (Some bi)"
      by (simp add: analyzeBranch_def)
    moreover have "bi_means [] g no_branch_info" by (simp add: bi_means_def bi_dest_def no_branch_info_def)
    ultimately show ?thesis using cond_loop_means [OF C _ body _ assms(5)] J T(1) by fastforce
  next
    assume "\<exists>j. J = [j] \<and> jmp j"
    then obtain j where J: "J = [j]" "jmp j" by blast
    from jmp_target [OF J(2)] obtain t where t: "jump_target j = Some t"
      "getOperand j 0 = Inr (MO_MachineBasicBlock t)" by blast
    let ?bi = "no_branch_info\<lparr>TBB := Some t\<rparr>"
    have "AnalyzeBranch_step MF b j no_branch_info = Inr (Continue ?bi)"
      using jmp_flags [OF J(2)] t by (simp add: AnalyzeBranch_step_def isUnpredicatedTerminator_def getMBB_def)
    with assms(1,4) T(1) J(1) have "AnalyzeBranch_loop MF b (rev C @ rev body) ?bi = Inr (Some bi)"
      by (simp add: analyzeBranch_def)
    moreover have "bi_means [j] g ?bi"
      using jmp_flags(4) [OF J(2)] t(1) by (simp add: bi_means_def bi_dest_def no_branch_info_def)
    ultimately show ?thesis using cond_loop_means [OF C _ body _ assms(5)] J T(1) by fastforce
  qed
qed

section \<open>Removing and inserting\<close>

lemma removable_terminator: "removable I \<Longrightarrow> isTerminator I"
  unfolding removable_def
  by (erule disjE, simp add: isTerminator_def desc_isTerminator_def desc_isBranch_def,
      erule jcc_opc, simp add: isTerminator_def desc_isTerminator_def desc_isBranch_def)

lemma removeBranch_loop_straight:
  "straight_line is \<Longrightarrow> removeBranch_loop d is k = (d @ is, k)"
proof (induction "is" arbitrary: d)
  case (Cons I "is")
  then have "\<not> isTerminator I" by (simp add: straight_line_def)
  with removable_terminator have "\<not> removable I" by blast
  with Cons show ?case by (simp add: straight_line_def)
qed simp

lemma removeBranch_loop_all:
  assumes "list_all (\<lambda>I. jcc I \<or> jmp I) T" and "straight_line body"
  shows "removeBranch_loop [] (T @ body) k = (body, k + length T)"
  using assms(1)
proof (induction T arbitrary: k)
  case Nil
  then show ?case using removeBranch_loop_straight [OF assms(2), of "[]"] by simp
next
  case (Cons I T)
  then have "removable I" "\<not> isDebugValue I" by (auto dest: jcc_flags jmp_flags)
  with Cons show ?case by simp
qed

lemma removeBranch_tail:
  assumes "insts (heap MF b) = body @ T" "straight_line body" "list_all (\<lambda>I. jcc I \<or> jmp I) T"
  shows "removeBranch b MF = (length T, upd_block b (\<lambda>B. B\<lparr>insts := body\<rparr>) MF)"
proof -
  have "removeBranch_loop [] (rev T @ rev body) 0 = (rev body, length T)"
    using removeBranch_loop_all [of "rev T" "rev body" 0] assms(2,3) by (simp add: straight_line_def)
  with assms(1) show ?thesis by (simp add: removeBranch_def upd_block_def)
qed

lemma branch_tail_all: "branch_tail T \<Longrightarrow> list_all (\<lambda>I. jcc I \<or> jmp I) T"
  by (auto simp: branch_tail_def list_all_iff)

text \<open>The instructions \<open>insertBranch\<close> appends; \<open>f\<close> is the false destination of a pair.\<close>

definition inserted_cond :: "nat \<Rightarrow> nat \<Rightarrow> cond_code \<Rightarrow> minstr list" where
  "inserted_cond t f c =
     (case c of COND_NE_OR_P \<Rightarrow> [mk_branch (Jcc_1 mNE) t, mk_branch (Jcc_1 mP) t]
      | COND_E_AND_NP \<Rightarrow> [mk_branch (Jcc_1 mNE) f, mk_branch (Jcc_1 mNP) t]
      | _ \<Rightarrow> (case GetCondBranchFromCond c of Inr Opc \<Rightarrow> [mk_branch Opc t] | Inl _ \<Rightarrow> []))"

definition inserted :: "nat \<Rightarrow> nat option \<Rightarrow> nat \<Rightarrow> cond_code \<Rightarrow> minstr list" where
  "inserted t F f c = inserted_cond t f c @ (case F of None \<Rightarrow> [] | Some j \<Rightarrow> [mk_branch JMP_1 j])"

definition false_dest :: "mfunc \<Rightarrow> nat \<Rightarrow> nat \<Rightarrow> nat option \<Rightarrow> nat option" where
  "false_dest MF b t F = (case F of None \<Rightarrow> getFallThroughMBB MF b (Some t) | Some f \<Rightarrow> Some f)"

definition append_code :: "nat \<Rightarrow> minstr list \<Rightarrow> mfunc \<Rightarrow> mfunc" where
  "append_code b is = upd_block b (\<lambda>B. B\<lparr>insts := insts B @ is\<rparr>)"

lemma append_code_simps [simp]:
  "insts (heap (append_code b is MF) c) = (if c = b then insts (heap MF b) @ is else insts (heap MF c))"
  "Successors (heap (append_code b is MF) c) = Successors (heap MF c)"
  "IsEHPad (heap (append_code b is MF) c) = IsEHPad (heap MF c)"
  "layout (append_code b is MF) = layout MF"
  by (simp_all add: append_code_def)

lemma append_code_append [simp]: "append_code b js (append_code b is MF) = append_code b (is @ js) MF"
  by (simp add: append_code_def upd_block_def)

lemma BuildMI_end_code: "BuildMI_end b I MF = append_code b [I] MF"
  by (simp add: BuildMI_end_def append_code_def upd_block_def)

lemma insertBranch_jump:
  "insertBranch b (Some t) None [] MF = Inr (1, append_code b [mk_branch JMP_1 t] MF)"
  by (simp add: insertBranch_def BuildMI_end_code assert_res_def)

lemma insertBranch_cond:
  assumes "c \<noteq> COND_INVALID" and "c = COND_E_AND_NP \<longrightarrow> false_dest MF b t F = Some f"
  shows "insertBranch b (Some t) F [c] MF =
    Inr (length (inserted t F f c), append_code b (inserted t F f c) MF)"
proof (cases F)
  case None
  with assms show ?thesis
    by (cases c) (simp_all add: insertBranch_def insert_cond_def inserted_def inserted_cond_def false_dest_def
       BuildMI_end_code assert_res_def)
next
  case (Some j)
  with assms show ?thesis
    by (cases c) (simp_all add: insertBranch_def insert_cond_def inserted_def inserted_cond_def false_dest_def
       BuildMI_end_code assert_res_def)
qed

lemma jump_target_mk [simp]: "jump_target (mk_branch opcd t) = Some t"
  by (simp add: jump_target_def mk_branch_def)

lemma opc_mk_branch [simp]: "opc (mk_branch opcd t) = opcd"
  by (simp add: mk_branch_def)

lemma inserted_dest:
  assumes "c \<noteq> COND_INVALID" and "c = COND_E_AND_NP \<longrightarrow> Some f = (case F of None \<Rightarrow> nxt | Some j \<Rightarrow> Some j)"
  shows "branch_dest fl nxt (inserted t F f c) =
    (if cond_holds c fl then Some t else case F of None \<Rightarrow> nxt | Some j \<Rightarrow> Some j)"
proof (cases F)
  case None
  with assms show ?thesis by (cases c) (simp_all add: inserted_def inserted_cond_def)
next
  case (Some j)
  with assms show ?thesis by (cases c) (simp_all add: inserted_def inserted_cond_def)
qed

lemma inserted_tail:
  assumes "c \<noteq> COND_INVALID"
  shows "branch_tail (inserted t F f c)"
proof -
  have "list_all jcc (inserted_cond t f c)"
    using assms by (cases c) (simp_all add: inserted_cond_def jcc_def)
  moreover have "J = [] \<or> (\<exists>j. J = [j] \<and> jmp j)"
    if "J = (case F of None \<Rightarrow> [] | Some j \<Rightarrow> [mk_branch JMP_1 j])" for J
    using that by (cases F) (simp_all add: jmp_def)
  ultimately show ?thesis unfolding branch_tail_def inserted_def by blast
qed

lemma jump_tail [simp]: "branch_tail [mk_branch JMP_1 t]" "branch_tail []"
  unfolding branch_tail_def
   apply (rule exI [of _ "[]"], rule exI [of _ "[mk_branch JMP_1 t]"], simp add: jmp_def)
  apply (rule exI [of _ "[]"], rule exI [of _ "[]"], simp)
  done

section \<open>Where the repaired block leads\<close>

lemma getFallThroughMBB_filter:
  "getFallThroughMBB_loop MF T r S = getFallThroughMBB_loop MF T r (filter (\<lambda>c. \<not> IsEHPad (heap MF c)) S)"
  by (induction S arbitrary: r) auto

lemma find_fallthrough_filter:
  "find_fallthrough msg MF T r S = find_fallthrough msg MF T r (filter (\<lambda>c. \<not> IsEHPad (heap MF c)) S)"
  by (induction S arbitrary: r) auto

definition plain_succs :: "mfunc \<Rightarrow> nat \<Rightarrow> nat list" where
  "plain_succs MF b = filter (\<lambda>c. \<not> IsEHPad (heap MF c)) (Successors (heap MF b))"

lemma plain_succs_plain: "c \<in> set (plain_succs MF b) \<Longrightarrow> \<not> IsEHPad (heap MF c)"
  by (simp add: plain_succs_def)

lemma getFallThroughMBB_two:
  assumes "plain_succs MF b \<in> {[t, u], [u, t]}" and "t \<noteq> u"
  shows "getFallThroughMBB MF b (Some t) = Some u"
proof -
  from assms(1) have "\<not> IsEHPad (heap MF t)" "\<not> IsEHPad (heap MF u)"
    using plain_succs_plain [of _ MF b] by auto
  with assms show ?thesis
    by (subst getFallThroughMBB_def, subst getFallThroughMBB_filter) (auto simp: plain_succs_def [symmetric])
qed

lemma find_fallthrough_two:
  assumes "plain_succs MF b \<in> {[t, u], [u, t]}" and "t \<noteq> u"
  shows "find_fallthrough msg MF (Some t) None (Successors (heap MF b)) = Inr (Some u)"
proof -
  from assms(1) have "\<not> IsEHPad (heap MF t)" "\<not> IsEHPad (heap MF u)"
    using plain_succs_plain [of _ MF b] by auto
  with assms show ?thesis by (subst find_fallthrough_filter) (auto simp: plain_succs_def [symmetric])
qed

lemma find_fallthrough_one:
  assumes "plain_succs MF b = [g]"
  shows "find_fallthrough msg MF None None (Successors (heap MF b)) = Inr (Some g)"
proof -
  from assms have "\<not> IsEHPad (heap MF g)" using plain_succs_plain [of _ MF b] by auto
  with assms show ?thesis by (subst find_fallthrough_filter) (simp add: plain_succs_def [symmetric])
qed

lemma analyzeBranch_nothing:
  assumes "insts (heap MF b) = body @ T" "branch_tail T" "analyzeBranch MF b = Inr (Some bi)" "TBB bi = None"
  shows "T = []"
proof (rule ccontr)
  have step: "TBB bi1 \<noteq> None" if "AnalyzeBranch_step MF b I bi0 = Inr (Continue bi1)" "TBB bi0 \<noteq> None" for I bi0 bi1
    using that next_cond_stable [of MF b I _ _ bi0 bi1]
    by (auto simp: AnalyzeBranch_step_def Let_def split: if_splits)
  have loop: "TBB bi1 \<noteq> None" if "AnalyzeBranch_loop MF b is bi0 = Inr (Some bi1)" "TBB bi0 \<noteq> None" for "is" bi0 bi1
    using that by (induction "is" arbitrary: bi0) (auto split: sum.splits ab_step.splits dest: step)
  assume "T \<noteq> []"
  then obtain T0 I where T: "T = T0 @ [I]" by (cases T rule: rev_cases) auto
  from branch_tail_all [OF assms(2)] T have I: "jcc I \<or> jmp I" by simp
  from assms(3) assms(1) T obtain bi0 where
    "AnalyzeBranch_step MF b I no_branch_info = Inr (Continue bi0) \<and>
     AnalyzeBranch_loop MF b (rev T0 @ rev body) bi0 = Inr (Some bi) \<or>
     AnalyzeBranch_step MF b I no_branch_info = Inr Break"
    by (auto simp: analyzeBranch_def split: sum.splits ab_step.splits)
  moreover have "\<exists>t. AnalyzeBranch_step MF b I no_branch_info = Inr (Continue bi0) \<longrightarrow> TBB bi0 = Some t"
     "AnalyzeBranch_step MF b I no_branch_info \<noteq> Inr Break" for bi0
    using I jcc_flags [of I] jmp_flags [of I] jcc_target [of I] jmp_target [of I]
    by (auto simp: AnalyzeBranch_step_def Let_def no_branch_info_def getMBB_def isUnpredicatedTerminator_def
         split: if_splits)
  ultimately show False using loop assms(4) by blast
qed

end
