(* ===== verification/TerminatorUpdate.thy ===== *)
theory TerminatorUpdate
  imports BranchInsertion
begin

text \<open>
  \<open>updateTerminator\<close> keeps the destinations of a block in every flag state, whatever the new
  layout is; what \<open>insertBranch\<close> writes is what \<open>analyzeBranch\<close> reads and \<open>removeBranch\<close> removes.
\<close>

section \<open>Rewriting the tail\<close>

lemma opposite_ex:
  assumes "c \<noteq> COND_INVALID"
  obtains c' where "GetOppositeBranchCondition c = Inr c'" "c' \<noteq> COND_INVALID"
    "\<And>fl. cond_holds c' fl = (\<not> cond_holds c fl)"
  using assms by (cases c) auto

text \<open>\<open>b\<close> now ends in \<open>T'\<close> and nothing else has changed.\<close>

definition retailed :: "nat \<Rightarrow> minstr list \<Rightarrow> minstr list \<Rightarrow> mfunc \<Rightarrow> mfunc \<Rightarrow> bool" where
  "retailed b body T' MF MF' \<longleftrightarrow> branch_tail T' \<and>
     MF' = upd_block b (\<lambda>B. B\<lparr>insts := body @ T'\<rparr>) MF"

lemma retailed_insts: "retailed b body T' MF MF' \<Longrightarrow>
    insts (heap MF' b) = body @ T' \<and> layout MF' = layout MF \<and> branch_tail T'"
  by (simp add: retailed_def)

lemma retailed_same:
  assumes "insts (heap MF b) = body @ T" "branch_tail T"
  shows "retailed b body T MF MF"
  using assms by (simp add: retailed_def upd_block_def fun_upd_idem)

text \<open>\<open>b\<close> is \<open>body\<close>, without terminators, and then the branches \<open>T\<close>.\<close>

definition block_split :: "mfunc \<Rightarrow> nat \<Rightarrow> minstr list \<Rightarrow> minstr list \<Rightarrow> bool" where
  "block_split MF b body T \<longleftrightarrow> insts (heap MF b) = body @ T \<and> straight_line body \<and> branch_tail T"

lemma removed:
  "block_split MF b body T \<Longrightarrow> snd (removeBranch b MF) = upd_block b (\<lambda>B. B\<lparr>insts := body\<rparr>) MF"
  using removeBranch_tail [of MF b body T] branch_tail_all by (simp add: block_split_def)

lemma removed_retailed: "block_split MF b body T \<Longrightarrow> retailed b body [] MF (snd (removeBranch b MF))"
  by (simp add: removed retailed_def)

lemma removed_fallthrough:
  assumes "block_split MF b body T"
  shows "getFallThroughMBB (snd (removeBranch b MF)) b r = getFallThroughMBB MF b r"
proof -
  have "getFallThroughMBB_loop (snd (removeBranch b MF)) x y S = getFallThroughMBB_loop MF x y S" for x y S
    by (induction S arbitrary: y) (auto simp: removed [OF assms] upd_block_def)
  then show ?thesis by (simp add: getFallThroughMBB_def removed [OF assms] upd_block_def)
qed

lemma reinsert_jump:
  assumes "block_split MF b body T"
  shows "\<exists>MF'. reinsert b (Some t) None [] MF = Inr MF' \<and> retailed b body [mk_branch JMP_1 t] MF MF'"
  by (simp add: reinsert_def insertBranch_jump removed [OF assms] retailed_def append_code_def upd_block_def)

lemma reinsert_cond:
  assumes "block_split MF b body T" "c \<noteq> COND_INVALID" "c = COND_E_AND_NP \<longrightarrow> false_dest MF b t F = Some f"
  shows "\<exists>MF'. reinsert b (Some t) F [c] MF = Inr MF' \<and> retailed b body (inserted t F f c) MF MF'"
proof -
  have "false_dest (snd (removeBranch b MF)) b t F = false_dest MF b t F"
    by (simp add: false_dest_def removed_fallthrough [OF assms(1)] split: option.splits)
  with insertBranch_cond [of c "snd (removeBranch b MF)" b t F f] assms
  have "insertBranch b (Some t) F [c] (snd (removeBranch b MF)) =
    Inr (length (inserted t F f c), append_code b (inserted t F f c) (snd (removeBranch b MF)))" by simp
  with inserted_tail [OF assms(2)] show ?thesis
    by (simp add: reinsert_def removed [OF assms(1)] retailed_def append_code_def upd_block_def)
qed

section \<open>Repair\<close>

text \<open>The successors are those the branches and the old layout successor \<open>g\<close> call for.\<close>

definition succs_fit :: "mfunc \<Rightarrow> nat \<Rightarrow> nat \<Rightarrow> branch_info \<Rightarrow> bool" where
  "succs_fit MF b g bi =
     (case (TBB bi, Cond bi) of
        (None, _) \<Rightarrow> plain_succs MF b = [g]
      | (Some t, []) \<Rightarrow> True
      | (Some t, _) \<Rightarrow> (let u = (case FBB bi of None \<Rightarrow> g | Some f \<Rightarrow> f) in
          t \<noteq> u \<and> (plain_succs MF b = [t, u] \<or> plain_succs MF b = [u, t])))"

definition keeps_dests :: "nat \<Rightarrow> minstr list \<Rightarrow> nat \<Rightarrow> minstr list \<Rightarrow> mfunc \<Rightarrow> mfunc res \<Rightarrow> bool" where
  "keeps_dests b body g T MF r \<longleftrightarrow>
     (\<exists>MF' T'. r = Inr MF' \<and> retailed b body T' MF MF' \<and>
        (\<forall>fl. branch_dest fl (next_in (layout MF) b) T' = branch_dest fl (Some g) T))"

lemma keeps_destsI:
  assumes "\<exists>MF'. r = Inr MF' \<and> retailed b body T' MF MF'"
    and "\<And>fl. branch_dest fl (next_in (layout MF) b) T' = branch_dest fl (Some g) T"
  shows "keeps_dests b body g T MF r"
  using assms unfolding keeps_dests_def by blast

lemma layout_succ_Some [simp]: "layout_succ MF b (Some c) \<longleftrightarrow> next_in (layout MF) b = Some c"
  by (simp add: layout_succ_def isLayoutSuccessor_def)

lemma update_uncond:
  assumes "block_split MF b body T" "analyzeBranch MF b = Inr (Some bi)" "succs_fit MF b g bi"
    "Successors (heap MF b) \<noteq> []" "Cond bi = []"
  shows "keeps_dests b body g T MF (updateTerminator b MF)"
proof -
  note sp = assms(1) [unfolded block_split_def]
  have means: "branch_dest fl h T = (if TBB bi = None then h else TBB bi)" for fl h
    using analyzeBranch_means [of MF b body T bi h] sp assms(2,5) by (simp add: bi_means_def bi_dest_def)
  have same: "\<exists>MF'. Inr MF = Inr MF' \<and> retailed b body T MF MF'" using retailed_same [of MF b body T] sp by simp
  show ?thesis
  proof (cases "TBB bi")
    case None
    with analyzeBranch_nothing [of MF b body T bi] sp assms(2) have T: "T = []" by simp
    from None assms(3) have "find_fallthrough msg MF None None (Successors (heap MF b)) = Inr (Some g)" for msg
      by (intro find_fallthrough_one) (simp add: succs_fit_def)
    with None assms(2,4,5) have up: "updateTerminator b MF = (if next_in (layout MF) b \<noteq> Some g
        then bind_res (insertBranch b (Some g) None [] MF) (\<lambda>r. Inr (snd r)) else Inr MF)"
      by (simp add: updateTerminator_def)
    have "retailed b body [mk_branch JMP_1 g] MF (append_code b [mk_branch JMP_1 g] MF)"
      using sp T by (simp add: retailed_def append_code_def upd_block_def)
    with same T show ?thesis
      by (cases "next_in (layout MF) b = Some g")
        (auto simp: up insertBranch_jump intro: keeps_destsI [of _ _ _ "[]"] keeps_destsI [of _ _ _ "[mk_branch JMP_1 g]"])
  next
    case (Some t)
    with assms(2,4,5) have up: "updateTerminator b MF =
        Inr (if next_in (layout MF) b = Some t then snd (removeBranch b MF) else MF)"
      by (simp add: updateTerminator_def)
    show ?thesis
    proof (cases "next_in (layout MF) b = Some t")
      case True
      with Some means removed_retailed [OF assms(1)] show ?thesis
        by (intro keeps_destsI [of _ _ _ "[]"]) (simp_all add: up)
    next
      case False
      with Some means same show ?thesis by (intro keeps_destsI [of _ _ _ T]) (simp_all add: up)
    qed
  qed
qed

text \<open>One of the two destinations, \<open>v\<close>, is next in the layout: a branch to the other is enough.\<close>

lemma branch_to_other:
  assumes "block_split MF b body T" "c \<noteq> COND_INVALID" "next_in (layout MF) b = Some v"
    and "u \<noteq> v" "plain_succs MF b = [u, v] \<or> plain_succs MF b = [v, u]"
    and "\<And>fl. branch_dest fl (Some g) T = (if cond_holds c fl then Some u else Some v)"
  shows "keeps_dests b body g T MF (reinsert b (Some u) None [c] MF)"
proof (rule keeps_destsI)
  have "false_dest MF b u None = Some v"
    using getFallThroughMBB_two [of MF b u v] assms(4,5) by (auto simp: false_dest_def)
  with reinsert_cond [OF assms(1,2)]
  show "\<exists>MF'. reinsert b (Some u) None [c] MF = Inr MF' \<and> retailed b body (inserted u None v c) MF MF'" by blast
  show "branch_dest fl (next_in (layout MF) b) (inserted u None v c) = branch_dest fl (Some g) T" for fl
    using inserted_dest [where c = c and f = v and F = None and nxt = "Some v" and fl = fl and t = u] assms(2,3,6) by simp
qed

lemma update_cond:
  assumes "block_split MF b body T" "analyzeBranch MF b = Inr (Some bi)" "succs_fit MF b g bi"
    "Successors (heap MF b) \<noteq> []" "Cond bi \<noteq> []"
  shows "keeps_dests b body g T MF (updateTerminator b MF)"
proof -
  note sp = assms(1) [unfolded block_split_def]
  define u where "u = (case FBB bi of None \<Rightarrow> g | Some f \<Rightarrow> f)"
  obtain t where t: "TBB bi = Some t" "t \<noteq> u" and ps: "plain_succs MF b = [t, u] \<or> plain_succs MF b = [u, t]"
  proof (cases "TBB bi")
    case None
    with analyzeBranch_nothing [of MF b body T bi] sp assms(2) have "T = []" by simp
    with sp assms(2,5) loop_straight [of "rev body" MF b no_branch_info] have False
      by (simp add: analyzeBranch_def straight_line_def no_branch_info_def)
    then show thesis ..
  next
    case (Some t)
    with assms(3,5) that show thesis
      by (cases "Cond bi") (auto simp: succs_fit_def u_def Let_def)
  qed
  have ft: "getFallThroughMBB MF b (Some t) = Some u" using getFallThroughMBB_two [of MF b t u] t(2) ps by auto
  have ff: "find_fallthrough msg MF (Some t) None (Successors (heap MF b)) = Inr (Some u)" for msg
    using find_fallthrough_two [of MF b t u] t(2) ps by auto
  have bm: "bi_means T (Some g) bi"
    using analyzeBranch_means [of MF b body T bi "Some g"] sp assms(2) t(1) ft
    by (auto simp: u_def split: option.splits)
  then obtain c where c: "Cond bi = [c]" "c \<noteq> COND_INVALID" using assms(5)
    by (cases "Cond bi") (auto simp: bi_means_def)
  have dest: "branch_dest fl (Some g) T = (if cond_holds c fl then Some t else Some u)" for fl
    using bm c t(1) by (auto simp: bi_means_def bi_dest_def u_def split: option.splits)
  from opposite_ex [OF c(2)] obtain c' where c': "GetOppositeBranchCondition c = Inr c'" "c' \<noteq> COND_INVALID"
    "\<And>fl. cond_holds c' fl = (\<not> cond_holds c fl)" by metis
  let ?nxt = "next_in (layout MF) b"
  have same: "keeps_dests b body g T MF (Inr MF)" if "\<And>fl. branch_dest fl ?nxt T = branch_dest fl (Some g) T"
    using that retailed_same [of MF b body T] sp by (intro keeps_destsI [of _ _ _ T]) simp_all
  have near_t: "keeps_dests b body g T MF (reinsert b (Some u) None [c'] MF)" if "?nxt = Some t"
    using branch_to_other [OF assms(1) c'(2) that] t(2) ps dest c'(3) by auto
  show ?thesis
  proof (cases "FBB bi")
    case None
    then have u: "u = g" by (simp add: u_def)
    have up: "updateTerminator b MF =
       (if ?nxt = Some t then reinsert b (Some u) None [c'] MF
        else if ?nxt \<noteq> Some u then reinsert b (Some t) (Some u) [c] MF else Inr MF)"
      using None assms(2,4) c c' t ff by (simp add: updateTerminator_def reverseBranchCondition_def)
    have far: "keeps_dests b body g T MF (reinsert b (Some t) (Some u) [c] MF)"
    proof (rule keeps_destsI)
      show "\<exists>MF'. reinsert b (Some t) (Some u) [c] MF = Inr MF' \<and> retailed b body (inserted t (Some u) u c) MF MF'"
        using reinsert_cond [OF assms(1) c(2), of t "Some u" u] by (simp add: false_dest_def)
      show "branch_dest fl ?nxt (inserted t (Some u) u c) = branch_dest fl (Some g) T" for fl
        using inserted_dest [where c = c and f = u and F = "Some u" and nxt = ?nxt and fl = fl and t = t] c(2) dest by simp
    qed
    show ?thesis
      using near_t far same u unfolding up by (simp split: if_split)
  next
    case (Some f)
    then have u: "u = f" by (simp add: u_def)
    have up: "updateTerminator b MF =
       (if ?nxt = Some t then reinsert b (Some u) None [c'] MF
        else if ?nxt = Some u then reinsert b (Some t) None [c] MF else Inr MF)"
      using Some assms(2,4) c c' t u by (simp add: updateTerminator_def reverseBranchCondition_def)
    have near_u: "keeps_dests b body g T MF (reinsert b (Some t) None [c] MF)" if "?nxt = Some u"
      using branch_to_other [OF assms(1) c(2) that t(2)] ps dest by blast
    have "bi_means T ?nxt bi"
      using analyzeBranch_means [of MF b body T bi ?nxt] sp assms(2) Some by simp
    with bm c Some have "branch_dest fl ?nxt T = branch_dest fl (Some g) T" for fl
      by (simp add: bi_means_def bi_dest_def)
    with near_t near_u same show ?thesis unfolding up by (simp split: if_split)
  qed
qed

lemma updateTerminator_keeps:
  assumes "block_split MF b body T" "analyzeBranch MF b = Inr (Some bi)" "succs_fit MF b g bi"
    "Successors (heap MF b) \<noteq> []"
  shows "keeps_dests b body g T MF (updateTerminator b MF)"
  using update_uncond [OF assms] update_cond [OF assms] by blast

section \<open>The analysis of inserted branches\<close>

lemma step_jcc_mk:
  assumes "getCondFromBranchOpc opcd = c" "c \<noteq> COND_INVALID"
  shows "AnalyzeBranch_step MF b (mk_branch opcd t) bi =
    Inr (if Cond bi = [] then
           Continue (bi\<lparr>FBB := TBB bi, TBB := Some t, Cond := [c], CondBranches := CondBranches bi @ [mk_branch opcd t]\<rparr>)
         else AnalyzeBranch_next_cond MF b (mk_branch opcd t) c t bi)"
proof -
  have "jcc (mk_branch opcd t)" using assms by (simp add: jcc_def)
  from jcc_flags [OF this] assms show ?thesis
    by (simp add: AnalyzeBranch_step_def isUnpredicatedTerminator_def getOperand_def getMBB_def mk_branch_def)
qed

lemma step_jmp_mk:
  "AnalyzeBranch_step MF b (mk_branch JMP_1 t) bi = Inr (Continue (bi\<lparr>TBB := Some t\<rparr>))"
proof -
  have "jmp (mk_branch JMP_1 t)" by (simp add: jmp_def)
  from jmp_flags [OF this] show ?thesis
    by (simp add: AnalyzeBranch_step_def isUnpredicatedTerminator_def getOperand_def getMBB_def mk_branch_def)
qed

lemma inserted_analyzed:
  assumes "insts (heap MF' b) = body @ T" "straight_line body" "c \<noteq> COND_INVALID"
    and "c = COND_E_AND_NP \<longrightarrow> false_dest MF b t F = Some f"
    and "\<And>r. getFallThroughMBB MF' b r = getFallThroughMBB MF b r" "T = inserted t F f c"
  shows "\<exists>bi. analyzeBranch MF' b = Inr (Some bi) \<and> TBB bi = Some t \<and> FBB bi = F \<and> Cond bi = [c]"
proof -
  define bi0 where "bi0 = no_branch_info\<lparr>TBB := F\<rparr>"
  define J where "J = (case F of None \<Rightarrow> [] | Some j \<Rightarrow> [mk_branch JMP_1 j])"
  have body: "straight_line (rev body)" using assms(2) by (simp add: straight_line_def)
  have "AnalyzeBranch_loop MF' b (J @ is) no_branch_info = AnalyzeBranch_loop MF' b is bi0" for "is"
    by (cases F) (simp_all add: J_def bi0_def step_jmp_mk no_branch_info_def)
  moreover have "rev T = rev J @ rev (inserted_cond t f c)" "rev J = J"
    using assms(6) by (cases F; simp add: inserted_def J_def)+
  ultimately have start: "analyzeBranch MF' b = AnalyzeBranch_loop MF' b (rev (inserted_cond t f c) @ rev body) bi0"
    using assms(1) by (simp add: analyzeBranch_def)
  have bi0: "Cond bi0 = []" "TBB bi0 = F" by (simp_all add: bi0_def no_branch_info_def)
  have std: "\<exists>bi. AnalyzeBranch_loop MF' b (mk_branch opcd t # rev body) bi0 = Inr (Some bi) \<and>
      TBB bi = Some t \<and> FBB bi = F \<and> Cond bi = [c]" if "getCondFromBranchOpc opcd = c" for opcd
    using step_jcc_mk [OF that assms(3)] bi0 loop_straight [OF body] by simp
  consider "c = COND_NE_OR_P" | "c = COND_E_AND_NP" | opcd where "GetCondBranchFromCond c = Inr opcd"
      "getCondFromBranchOpc opcd = c" "inserted_cond t f c = [mk_branch opcd t]"
    using assms(3) by (cases c) (auto simp: inserted_cond_def)
  then show ?thesis
  proof cases
    case 1
    then show ?thesis unfolding start
      by (simp add: inserted_cond_def step_jcc_mk bi0 AnalyzeBranch_next_cond_def Let_def loop_straight [OF body])
  next
    case 2
    with assms(4,5) have "Some f = (case F of None \<Rightarrow> getFallThroughMBB MF' b (Some t) | Some j \<Rightarrow> Some j)"
      by (cases F) (simp_all add: false_dest_def)
    with 2 show ?thesis unfolding start
      by (cases F) (simp_all add: inserted_cond_def step_jcc_mk bi0 AnalyzeBranch_next_cond_def Let_def loop_straight [OF body])
  next
    case 3
    with std show ?thesis unfolding start by simp
  qed
qed

section \<open>An example\<close>

text \<open>Block 0 jumps to 2 on equality and falls through to 1; then 2 moves in front of 1.\<close>

definition reorder_ex :: "nat list \<Rightarrow> mfunc" where
  "reorder_ex ls = \<lparr>layout = ls,
     heap = (\<lambda>b. empty_block)(0 := empty_block\<lparr>insts := [mk_branch (Jcc_1 mE) 2], Successors := [1, 2]\<rparr>),
     fresh = 3\<rparr>"

definition reorder_ex_info :: branch_info where
  "reorder_ex_info = \<lparr>TBB = Some 2, FBB = None, Cond = [COND_E], CondBranches = [mk_branch (Jcc_1 mE) 2]\<rparr>"

lemma reorder_ex_analysis: "analyzeBranch (reorder_ex ls) 0 = Inr (Some reorder_ex_info)"
  by (simp add: analyzeBranch_def reorder_ex_def step_jcc_mk no_branch_info_def reorder_ex_info_def)

lemma reorder_ex_split: "block_split (reorder_ex ls) 0 [] [mk_branch (Jcc_1 mE) 2]"
proof -
  have "branch_tail [mk_branch (Jcc_1 mE) 2]" unfolding branch_tail_def
    by (rule exI [of _ "[mk_branch (Jcc_1 mE) 2]"], rule exI [of _ "[]"]) (simp add: jcc_def)
  then show ?thesis by (simp add: block_split_def reorder_ex_def straight_line_def)
qed

lemma reorder_ex_fit: "succs_fit (reorder_ex ls) 0 1 reorder_ex_info"
  by (simp add: succs_fit_def reorder_ex_info_def plain_succs_def reorder_ex_def empty_block_def)

section \<open>Properties\<close>

lemma branch_runs_split:
  assumes "block_split F b body T"
  shows "\<exists>n. mrun M F n (Run b (length body) s) = goto (branch_dest (flags s) (next_in (layout F) b) T) s"
  using assms branch_runs branch_tail_all unfolding block_split_def by blast

text \<open>
  C8. The analysis predicts the machine: from the first branch of an analysable block it arrives
  at \<open>TBB\<close> if the condition holds, and otherwise at \<open>FBB\<close> or, without one, at the
  next block of the layout.
\<close>
theorem analyzeBranch_predicts:
  assumes "block_split MF b body T" "analyzeBranch MF b = Inr (Some bi)"
    and "FBB bi = None \<longrightarrow> Cond bi \<noteq> [] \<longrightarrow>
      getFallThroughMBB MF b (TBB bi) \<in> {None, next_in (layout MF) b}"
  shows "\<exists>n. mrun M MF n (Run b (length body) s) =
    goto (case Cond bi of
            [] \<Rightarrow> if TBB bi = None then next_in (layout MF) b else TBB bi
          | c # _ \<Rightarrow> if cond_holds c (flags s) then TBB bi
                    else if FBB bi = None then next_in (layout MF) b else FBB bi) s"
  using branch_runs_split [OF assms(1), of M s]
    analyzeBranch_means [of MF b body T bi "next_in (layout MF) b"] assms
  unfolding block_split_def bi_means_def bi_dest_def by simp

lemma analyzeBranch_predicts_witness:
  "\<forall>(M :: nat machine) s. \<exists>n. mrun M (reorder_ex [0, 1, 2]) n (Run 0 0 s) =
     goto (if cond_holds COND_E (flags s) then Some 2 else Some 1) s"
proof (intro allI)
  fix M :: "nat machine" and s
  have "getFallThroughMBB (reorder_ex [0, 1, 2]) 0 (TBB reorder_ex_info) \<in> {None, next_in (layout (reorder_ex [0, 1, 2])) 0}"
    by (simp add: getFallThroughMBB_def reorder_ex_def reorder_ex_info_def empty_block_def)
  with analyzeBranch_predicts [OF reorder_ex_split reorder_ex_analysis, of "[0, 1, 2]" M s]
  show "\<exists>n. mrun M (reorder_ex [0, 1, 2]) n (Run 0 0 s) =
     goto (if cond_holds COND_E (flags s) then Some 2 else Some 1) s"
    by (auto simp: reorder_ex_info_def reorder_ex_def)
qed

text \<open>
  C6. After any reordering of the blocks, \<open>updateTerminator\<close> succeeds and the repaired block
  goes where the block went before the reordering, when it fell through to \<open>g\<close>; only its
  branches change.
\<close>
theorem updateTerminator_keeps_targets:
  assumes "block_split MF b body T" "analyzeBranch MF b = Inr (Some bi)" "succs_fit MF b g bi"
    and "Successors (heap MF b) \<noteq> []" "heap MF0 = heap MF" "next_in (layout MF0) b = Some g"
  shows "\<exists>MF' T' d m n. updateTerminator b MF = Inr MF' \<and>
    MF' = upd_block b (\<lambda>B. B\<lparr>insts := body @ T'\<rparr>) MF \<and>
    mrun M MF0 m (Run b (length body) s) = goto d s \<and> mrun M MF' n (Run b (length body) s) = goto d s \<and>
    d = branch_dest (flags s) (Some g) T"
proof -
  from updateTerminator_keeps [OF assms(1-4)] obtain MF' T' where
    up: "updateTerminator b MF = Inr MF'" and T': "retailed b body T' MF MF'" and
    dest: "\<And>fl. branch_dest fl (next_in (layout MF) b) T' = branch_dest fl (Some g) T"
    unfolding keeps_dests_def by blast
  from assms(1,5) have "block_split MF0 b body T" by (simp add: block_split_def)
  from branch_runs_split [OF this, of M s] assms(6) obtain m where
    m: "mrun M MF0 m (Run b (length body) s) = goto (branch_dest (flags s) (Some g) T) s" by auto
  from assms(1) retailed_insts [OF T'] have "block_split MF' b body T'" by (simp add: block_split_def)
  from branch_runs_split [OF this, of M s] retailed_insts [OF T'] dest obtain n where
    n: "mrun M MF' n (Run b (length body) s) = goto (branch_dest (flags s) (Some g) T) s" by auto
  from T' have "MF' = upd_block b (\<lambda>B. B\<lparr>insts := body @ T'\<rparr>) MF" by (simp add: retailed_def)
  with up m n show ?thesis by blast
qed

lemma updateTerminator_keeps_targets_witness:
  "\<forall>(M :: nat machine) s. \<exists>MF' T' d m n. updateTerminator 0 (reorder_ex [0, 2, 1]) = Inr MF' \<and>
    MF' = upd_block 0 (\<lambda>B. B\<lparr>insts := [] @ T'\<rparr>) (reorder_ex [0, 2, 1]) \<and>
    mrun M (reorder_ex [0, 1, 2]) m (Run 0 (length ([] :: minstr list)) s) = goto d s \<and>
    mrun M MF' n (Run 0 (length ([] :: minstr list)) s) = goto d s \<and>
    d = branch_dest (flags s) (Some 1) [mk_branch (Jcc_1 mE) 2]"
  by (intro allI updateTerminator_keeps_targets [OF reorder_ex_split reorder_ex_analysis reorder_ex_fit])
     (simp_all add: reorder_ex_def)

lemma insertBranch_cond_roundtrip:
  assumes "straight_line (insts (heap MF b))" "c \<noteq> COND_INVALID"
    and "c = COND_E_AND_NP \<longrightarrow> F = None \<longrightarrow> getFallThroughMBB MF b (Some t) \<noteq> None"
  shows "\<exists>n MF' bi. insertBranch b (Some t) F [c] MF = Inr (n, MF') \<and>
    analyzeBranch MF' b = Inr (Some bi) \<and> TBB bi = Some t \<and> FBB bi = F \<and> Cond bi = [c] \<and>
    removeBranch b MF' = (n, MF)"
proof -
  let ?body = "insts (heap MF b)"
  obtain f where f: "c = COND_E_AND_NP \<longrightarrow> false_dest MF b t F = Some f"
    using assms(3) by (cases F; cases "c = COND_E_AND_NP") (auto simp: false_dest_def)
  define T where "T = inserted t F f c"
  define MF' where "MF' = append_code b T MF"
  have ins: "insertBranch b (Some t) F [c] MF = Inr (length T, MF')"
    using insertBranch_cond [OF assms(2) f] by (simp add: T_def MF'_def)
  have sp: "block_split MF' b ?body T"
    using inserted_tail [OF assms(2)] assms(1) by (simp add: block_split_def MF'_def T_def)
  have "removeBranch b MF' = (length T, upd_block b (\<lambda>B. B\<lparr>insts := ?body\<rparr>) MF')"
    using removeBranch_tail [of MF' b ?body T] sp branch_tail_all by (simp add: block_split_def)
  also have "upd_block b (\<lambda>B. B\<lparr>insts := ?body\<rparr>) MF' = MF"
    by (simp add: MF'_def append_code_def upd_block_def)
  finally have rem: "removeBranch b MF' = (length T, MF)" .
  have ft: "getFallThroughMBB MF' b r = getFallThroughMBB MF b r" for r
    using removed_fallthrough [OF sp, of r] rem by simp
  obtain bi where "analyzeBranch MF' b = Inr (Some bi)" "TBB bi = Some t" "FBB bi = F" "Cond bi = [c]"
    using inserted_analyzed [OF sp [unfolded block_split_def, THEN conjunct1] assms(1) assms(2) f _ T_def] ft by blast
  with ins rem show ?thesis by blast
qed

lemma insertBranch_jump_roundtrip:
  assumes "straight_line (insts (heap MF b))"
  shows "\<exists>MF' bi. insertBranch b (Some t) None [] MF = Inr (1, MF') \<and>
    analyzeBranch MF' b = Inr (Some bi) \<and> TBB bi = Some t \<and> FBB bi = None \<and> Cond bi = [] \<and>
    removeBranch b MF' = (1, MF)"
proof -
  let ?body = "insts (heap MF b)" and ?T = "[mk_branch JMP_1 t]"
  define MF' where "MF' = append_code b ?T MF"
  have ins: "insts (heap MF' b) = ?body @ ?T" by (simp add: MF'_def)
  have "removeBranch b MF' = (1, upd_block b (\<lambda>B. B\<lparr>insts := ?body\<rparr>) MF')"
    using removeBranch_tail [OF ins assms] by (simp add: jmp_def)
  also have "upd_block b (\<lambda>B. B\<lparr>insts := ?body\<rparr>) MF' = MF"
    by (simp add: MF'_def append_code_def upd_block_def)
  finally have rem: "removeBranch b MF' = (1, MF)" .
  have "straight_line (rev ?body)" using assms by (simp add: straight_line_def)
  from loop_straight [OF this, of MF' b "no_branch_info\<lparr>TBB := Some t\<rparr>"]
  have "analyzeBranch MF' b = Inr (Some (no_branch_info\<lparr>TBB := Some t\<rparr>))"
    by (simp add: analyzeBranch_def ins step_jmp_mk no_branch_info_def)
  then show ?thesis using insertBranch_jump [of b t MF] rem by (simp add: MF'_def no_branch_info_def)
qed

text \<open>
  C14. The analysis reads back what \<open>insertBranch\<close> writes, a jump without a condition or a conditional
  branch with one or two destinations, and \<open>removeBranch\<close> removes as many branches as were written and
  restores the function.
\<close>
theorem insertBranch_roundtrip:
  assumes "straight_line (insts (heap MF b))"
    and "C = [] \<and> F = None \<or> (\<exists>c. C = [c] \<and> c \<noteq> COND_INVALID)"
    and "C = [COND_E_AND_NP] \<longrightarrow> F = None \<longrightarrow> getFallThroughMBB MF b (Some t) \<noteq> None"
  shows "\<exists>n MF' bi. insertBranch b (Some t) F C MF = Inr (n, MF') \<and>
    analyzeBranch MF' b = Inr (Some bi) \<and> TBB bi = Some t \<and> FBB bi = F \<and> Cond bi = C \<and>
    removeBranch b MF' = (n, MF)"
  using assms(2)
proof (elim disjE exE conjE)
  assume "C = []" "F = None"
  with insertBranch_jump_roundtrip [OF assms(1), of t] show ?thesis by blast
next
  fix c assume "C = [c]" "c \<noteq> COND_INVALID"
  with insertBranch_cond_roundtrip [OF assms(1), of c F t] assms(3) show ?thesis by blast
qed

lemma insertBranch_roundtrip_witness:
  "\<exists>n MF' bi. insertBranch 1 (Some 0) (Some 2) [COND_E_AND_NP] (reorder_ex [0, 1, 2]) = Inr (n, MF') \<and>
    analyzeBranch MF' 1 = Inr (Some bi) \<and> TBB bi = Some 0 \<and> FBB bi = Some 2 \<and> Cond bi = [COND_E_AND_NP] \<and>
    removeBranch 1 MF' = (n, reorder_ex [0, 1, 2])"
  by (rule insertBranch_roundtrip) (simp_all add: reorder_ex_def empty_block_def straight_line_def)

end
