(* ===== verification/BlockEdges.thy ===== *)
theory BlockEdges
  imports MachineIR
begin

text \<open>
  The edges of the control-flow graph (\<open>llvm/lib/CodeGen/MachineBasicBlock.cpp\<close>): each block
  keeps its successors, optionally with their probabilities, and its predecessors. Iterators into
  the successor list are positions.
\<close>

section \<open>Probabilities of edges\<close>

definition getProbabilityIterator :: "mblock \<Rightarrow> nat \<Rightarrow> nat res" where
  "getProbabilityIterator B i =
     bind_res (assert_res ''Async probability list!'' (length (Probs B) = length (Successors B))) (\<lambda>_.
     bind_res (assert_res ''Not a current successor!'' (i < length (Probs B))) (\<lambda>_. Inr i))"

definition normalizeSuccProbs :: "nat \<Rightarrow> mfunc \<Rightarrow> mfunc res" where
  "normalizeSuccProbs this MF =
     bind_res (normalizeProbabilities (Probs (heap MF this))) (\<lambda>ps.
       Inr (upd_block this (\<lambda>B. B\<lparr>Probs := ps\<rparr>) MF))"

text \<open>The sum of the probabilities in \<open>getSuccProbability\<close>.\<close>

fun sum_probs :: "prob list \<Rightarrow> prob \<Rightarrow> nat \<Rightarrow> (prob \<times> nat) res" where
  "sum_probs [] S KnownProbNum = Inr (S, KnownProbNum)"
| "sum_probs (P # Ps) S KnownProbNum =
     (if \<not> isUnknown P then bind_res (prob_add S P) (\<lambda>S'. sum_probs Ps S' (Suc KnownProbNum))
      else sum_probs Ps S KnownProbNum)"

definition getSuccProbability :: "mfunc \<Rightarrow> nat \<Rightarrow> nat \<Rightarrow> prob res" where
  "getSuccProbability MF this i =
     (let B = heap MF this in
      if Probs B = [] then mk_prob 1 (of_nat (length (Successors B)))
      else
        bind_res (getProbabilityIterator B i) (\<lambda>k.
          let Prob = Probs B ! k in
          if isUnknown Prob then
            bind_res (sum_probs (Probs B) getZero 0) (\<lambda>(S, KnownProbNum).
              prob_div_int (getCompl S) (of_nat (length (Probs B) - KnownProbNum)))
          else Inr Prob))"

definition setSuccProbability :: "nat \<Rightarrow> nat \<Rightarrow> prob \<Rightarrow> mfunc \<Rightarrow> mfunc res" where
  "setSuccProbability this i Prob MF =
     bind_res (assert_res ''!Prob.isUnknown()'' (\<not> isUnknown Prob)) (\<lambda>_.
       if Probs (heap MF this) = [] then Inr MF
       else bind_res (getProbabilityIterator (heap MF this) i) (\<lambda>k.
         Inr (upd_block this (\<lambda>B. B\<lparr>Probs := (Probs B)[k := Prob]\<rparr>) MF)))"

definition validateSuccProbs :: "mfunc \<Rightarrow> nat \<Rightarrow> unit res" where
  "validateSuccProbs MF this =
     (let SumN = sum_list (map uint (Probs (heap MF this)))
      in assert_res ''The sum of successors's probabilities exceeds one.''
           (\<bar>SumN - uint ProbD\<bar> \<le> int (length (Probs (heap MF this)))))"

section \<open>Adding and removing edges\<close>

definition addSuccessorWithoutProb :: "nat \<Rightarrow> nat \<Rightarrow> mfunc \<Rightarrow> mfunc" where
  "addSuccessorWithoutProb this Succ MF =
     addPredecessor Succ this
       (upd_block this (\<lambda>B. B\<lparr>Probs := [], Successors := Successors B @ [Succ]\<rparr>) MF)"

definition removePredecessor :: "nat \<Rightarrow> nat \<Rightarrow> mfunc \<Rightarrow> mfunc res" where
  "removePredecessor this Pred MF =
     (let i = find_index Pred (Predecessors (heap MF this)) in
      bind_res (assert_res ''Pred is not a predecessor of this block!''
                  (i \<noteq> length (Predecessors (heap MF this)))) (\<lambda>_.
        Inr (upd_block this (\<lambda>B. B\<lparr>Predecessors := erase_nth i (Predecessors B)\<rparr>) MF)))"

definition removeSuccessor_at :: "nat \<Rightarrow> nat \<Rightarrow> bool \<Rightarrow> mfunc \<Rightarrow> mfunc res" where
  "removeSuccessor_at this i NormalizeSuccProbs MF =
     bind_res (assert_res ''Not a current successor!'' (i < length (Successors (heap MF this)))) (\<lambda>_.
     bind_res
       (if Probs (heap MF this) \<noteq> [] then
          bind_res (getProbabilityIterator (heap MF this) i) (\<lambda>k.
            let MF1 = upd_block this (\<lambda>B. B\<lparr>Probs := erase_nth k (Probs B)\<rparr>) MF
            in if NormalizeSuccProbs then normalizeSuccProbs this MF1 else Inr MF1)
        else Inr MF) (\<lambda>MF2.
     bind_res (removePredecessor (Successors (heap MF2 this) ! i) this MF2) (\<lambda>MF3.
       Inr (upd_block this (\<lambda>B. B\<lparr>Successors := erase_nth i (Successors B)\<rparr>) MF3))))"

definition removeSuccessor :: "nat \<Rightarrow> nat \<Rightarrow> bool \<Rightarrow> mfunc \<Rightarrow> mfunc res" where
  "removeSuccessor this Succ NormalizeSuccProbs MF =
     removeSuccessor_at this (find_index Succ (Successors (heap MF this))) NormalizeSuccProbs MF"

text \<open>
  The loop of \<open>replaceSuccessor\<close> that looks for both blocks; it stops at the first
  occurrence of the second one it meets.
\<close>

fun replace_scan :: "nat \<Rightarrow> nat \<Rightarrow> nat list \<Rightarrow> nat \<Rightarrow> nat option \<Rightarrow> nat option \<Rightarrow> nat option \<times> nat option" where
  "replace_scan Old New [] i OldI NewI = (OldI, NewI)"
| "replace_scan Old New (b # bs) i OldI NewI =
     (if b = Old \<and> NewI \<noteq> None then (Some i, NewI)
      else
        let OldI' = (if b = Old then Some i else OldI) in
        if b = New \<and> OldI' \<noteq> None then (OldI', Some i)
        else replace_scan Old New bs (Suc i) OldI' (if b = New then Some i else NewI))"

definition replaceSuccessor :: "nat \<Rightarrow> nat \<Rightarrow> nat \<Rightarrow> mfunc \<Rightarrow> mfunc res" where
  "replaceSuccessor this Old New MF =
     (if Old = New then Inr MF
      else case replace_scan Old New (Successors (heap MF this)) 0 None None of
        (None, _) \<Rightarrow> Inl (AssertFail ''Old is not a successor of this block'')
      | (Some OldI, None) \<Rightarrow>
          bind_res (removePredecessor Old this MF) (\<lambda>MF1.
            Inr (upd_block this (\<lambda>B. B\<lparr>Successors := (Successors B)[OldI := New]\<rparr>)
                   (addPredecessor New this MF1)))
      | (Some OldI, Some NewI) \<Rightarrow>
          bind_res
            (if Probs (heap MF this) \<noteq> [] then
               bind_res (getProbabilityIterator (heap MF this) NewI) (\<lambda>n.
                 if \<not> isUnknown (Probs (heap MF this) ! n) then
                   bind_res (getProbabilityIterator (heap MF this) OldI) (\<lambda>k.
                   bind_res (prob_add (Probs (heap MF this) ! n) (Probs (heap MF this) ! k)) (\<lambda>p.
                     Inr (upd_block this (\<lambda>B. B\<lparr>Probs := (Probs B)[n := p]\<rparr>) MF)))
                 else Inr MF)
             else Inr MF) (removeSuccessor_at this OldI False))"

section \<open>The invariant of the graph\<close>

text \<open>
  Every edge is recorded at both ends, as often, and the probabilities are absent or as many as the
  successors.
\<close>

definition edges_ok :: "mfunc \<Rightarrow> bool" where
  "edges_ok MF \<longleftrightarrow>
     (\<forall>b c. count_list (Successors (heap MF b)) c = count_list (Predecessors (heap MF c)) b) \<and>
     (\<forall>b. Probs (heap MF b) = [] \<or> length (Probs (heap MF b)) = length (Successors (heap MF b)))"

lemma edges_okD:
  assumes "edges_ok MF"
  shows "count_list (Successors (heap MF b)) c = count_list (Predecessors (heap MF c)) b"
    and "Probs (heap MF b) = [] \<or> length (Probs (heap MF b)) = length (Successors (heap MF b))"
  using assms by (auto simp: edges_ok_def)

lemma edge_both_ends: "edges_ok MF \<Longrightarrow> c \<in> set (Successors (heap MF b)) \<longleftrightarrow> b \<in> set (Predecessors (heap MF c))"
  by (simp add: count_list_pos edges_ok_def)

lemma addSuccessor_edges: "edges_ok MF \<Longrightarrow> edges_ok (addSuccessor this Succ Prob MF)"
  by (auto simp: edges_ok_def addSuccessor_def addPredecessor_def)

lemma addSuccessorWithoutProb_edges: "edges_ok MF \<Longrightarrow> edges_ok (addSuccessorWithoutProb this Succ MF)"
  by (auto simp: edges_ok_def addSuccessorWithoutProb_def addPredecessor_def)

lemma setSuccProbability_edges:
  "setSuccProbability this i p MF = Inr MF' \<Longrightarrow> edges_ok MF \<Longrightarrow> edges_ok MF'"
  by (auto simp: setSuccProbability_def getProbabilityIterator_def edges_ok_def split: if_splits)

text \<open>Erasing one edge, at both ends.\<close>

lemma removePredecessor_Inr:
  "removePredecessor c b MF = Inr MF' \<longleftrightarrow>
     b \<in> set (Predecessors (heap MF c)) \<and>
     MF' = upd_block c (\<lambda>B. B\<lparr>Predecessors := erase_nth (find_index b (Predecessors B)) (Predecessors B)\<rparr>) MF"
  using find_index_bound [of b "Predecessors (heap MF c)"] find_index_mem [of b "Predecessors (heap MF c)"]
  by (auto simp: removePredecessor_def Let_def upd_block_def)

lemma erase_found_count:
  assumes "b \<in> set xs"
  shows "count_list (erase_nth (find_index b xs) xs) y + (if b = y then 1 else 0) = count_list xs y"
  using count_list_erase_nth [of "find_index b xs" xs y] assms
  by (simp add: find_index_mem nth_find_index)

lemma normalize_total: "length Ps < 2 ^ 32 \<Longrightarrow> \<exists>Qs. normalizeProbabilities Ps = Inr Qs"
  using normalize_spec [of Ps] by (cases "Ps = []") (auto simp: normalizeProbabilities_def)

lemma normalize_length: "normalizeProbabilities Ps = Inr Qs \<Longrightarrow> length Qs = length Ps"
  by (auto simp: normalizeProbabilities_def Let_def split: if_splits prod.splits)

text \<open>What an operation on the edges of block \<open>this\<close> leaves alone.\<close>

definition same_code :: "mfunc \<Rightarrow> mfunc \<Rightarrow> bool" where
  "same_code MF MF' \<longleftrightarrow> layout MF' = layout MF \<and> fresh MF' = fresh MF \<and>
     (\<forall>b. insts (heap MF' b) = insts (heap MF b) \<and> IsEHPad (heap MF' b) = IsEHPad (heap MF b))"

lemma same_code_refl [simp]: "same_code MF MF"
  by (simp add: same_code_def)

lemma same_code_trans: "same_code MF MF' \<Longrightarrow> same_code MF' MF'' \<Longrightarrow> same_code MF MF''"
  by (simp add: same_code_def)

definition removed :: "nat \<Rightarrow> nat \<Rightarrow> mfunc \<Rightarrow> mfunc \<Rightarrow> bool" where
  "removed this i MF MF' \<longleftrightarrow> edges_ok MF' \<and> same_code MF MF' \<and>
     (\<forall>b. Successors (heap MF' b) =
            (if b = this then erase_nth i (Successors (heap MF b)) else Successors (heap MF b))) \<and>
     (\<forall>b. b \<noteq> this \<longrightarrow> Probs (heap MF' b) = Probs (heap MF b)) \<and>
     (Probs (heap MF this) = [] \<longrightarrow> Probs (heap MF' this) = [])"

lemma removeSuccessor_at_removed:
  assumes ok: "edges_ok MF" and i: "i < length (Successors (heap MF this))"
    and small: "NormalizeSuccProbs \<longrightarrow> Probs (heap MF this) \<noteq> [] \<longrightarrow>
      (\<exists>Qs. normalizeProbabilities (erase_nth i (Probs (heap MF this))) = Inr Qs)"
  shows "\<exists>MF'. removeSuccessor_at this i NormalizeSuccProbs MF = Inr MF' \<and> removed this i MF MF' \<and>
    (\<not> NormalizeSuccProbs \<longrightarrow> Probs (heap MF' this) = erase_nth i (Probs (heap MF this)))"
proof -
  let ?B = "heap MF this"
  let ?step = "if Probs ?B \<noteq> [] then
      bind_res (getProbabilityIterator ?B i) (\<lambda>k.
        let MF1 = upd_block this (\<lambda>B. B\<lparr>Probs := erase_nth k (Probs B)\<rparr>) MF
        in if NormalizeSuccProbs then normalizeSuccProbs this MF1 else Inr MF1)
    else Inr MF"
  have len: "Probs ?B = [] \<or> length (Probs ?B) = length (Successors ?B)" by (rule edges_okD(2) [OF ok])
  obtain ps where step: "?step = Inr (upd_block this (\<lambda>B. B\<lparr>Probs := ps\<rparr>) MF)"
    and ps: "Probs ?B = [] \<longrightarrow> ps = []" "ps = [] \<or> length ps = length (Successors ?B) - 1"
      "\<not> NormalizeSuccProbs \<longrightarrow> ps = erase_nth i (Probs ?B)"
  proof (cases "Probs ?B = []")
    case True
    then have "upd_block this (\<lambda>B. B\<lparr>Probs := []\<rparr>) MF = MF" by (simp add: upd_block_def fun_upd_idem)
    with True show ?thesis by (intro that [of "[]"]) (simp_all add: erase_nth_def)
  next
    case False
    with len i have k: "getProbabilityIterator ?B i = Inr i" "length (Probs ?B) = length (Successors ?B)"
      by (auto simp: getProbabilityIterator_def)
    show ?thesis
    proof (cases NormalizeSuccProbs)
      case True
      with small False obtain qs where
        "normalizeProbabilities (erase_nth i (Probs ?B)) = Inr qs" by auto
      moreover from normalize_length [OF this] k(2) i have "length qs = length (Successors ?B) - 1" by simp
      ultimately have "normalizeProbabilities (erase_nth i (Probs ?B)) = Inr qs" "length qs = length (Successors ?B) - 1" .
      with True False k show ?thesis
        by (intro that [of qs]) (simp_all add: normalizeSuccProbs_def upd_block_def)
    next
      case N: False
      with False k i show ?thesis by (intro that [of "erase_nth i (Probs ?B)"]) simp_all
    qed
  qed
  let ?c = "Successors ?B ! i"
  have "?c \<in> set (Successors ?B)" using i by simp
  with ok have bk: "this \<in> set (Predecessors (heap MF ?c))" by (simp add: edge_both_ends)
  define MF3 where "MF3 = upd_block ?c
    (\<lambda>B. B\<lparr>Predecessors := erase_nth (find_index this (Predecessors B)) (Predecessors B)\<rparr>)
    (upd_block this (\<lambda>B. B\<lparr>Probs := ps\<rparr>) MF)"
  define MF' where "MF' = upd_block this (\<lambda>B. B\<lparr>Successors := erase_nth i (Successors B)\<rparr>) MF3"
  have rp: "removePredecessor ?c this (upd_block this (\<lambda>B. B\<lparr>Probs := ps\<rparr>) MF) = Inr MF3"
    using bk by (cases "?c = this") (simp_all add: removePredecessor_Inr MF3_def)
  have run: "removeSuccessor_at this i NormalizeSuccProbs MF = Inr MF'"
    using i rp unfolding removeSuccessor_at_def step by (simp add: MF'_def)
  have S: "Successors (heap MF' b) =
      (if b = this then erase_nth i (Successors (heap MF b)) else Successors (heap MF b))"
    and P: "Probs (heap MF' b) = (if b = this then ps else Probs (heap MF b))"
    and R: "Predecessors (heap MF' b) = (if b = ?c then erase_nth (find_index this (Predecessors (heap MF b)))
        (Predecessors (heap MF b)) else Predecessors (heap MF b))" for b
    by (auto simp: MF'_def MF3_def)
  have "edges_ok MF'"
    unfolding edges_ok_def
  proof (intro conjI allI)
    fix b d
    show "count_list (Successors (heap MF' b)) d = count_list (Predecessors (heap MF' d)) b"
      using edges_okD(1) [OF ok, of b d] count_list_erase_nth [OF i, of d]
        erase_found_count [OF bk, of b]
      unfolding S R by (auto split: if_splits)
    show "Probs (heap MF' b) = [] \<or> length (Probs (heap MF' b)) = length (Successors (heap MF' b))"
      using edges_okD(2) [OF ok, of b] ps(2) i unfolding S P by auto
  qed
  moreover have "same_code MF MF'" by (auto simp: same_code_def MF'_def MF3_def)
  ultimately have "removed this i MF MF'" using S P ps(1) by (auto simp: removed_def)
  with run P ps(3) show ?thesis by auto
qed

lemma removeSuccessor_removed:
  assumes "edges_ok MF" and "Succ \<in> set (Successors (heap MF this))"
    and "\<not> NormalizeSuccProbs"
  shows "\<exists>MF'. removeSuccessor this Succ NormalizeSuccProbs MF = Inr MF' \<and>
    removed this (find_index Succ (Successors (heap MF this))) MF MF'"
proof -
  have "find_index Succ (Successors (heap MF this)) < length (Successors (heap MF this))"
    using assms(2) by (simp add: find_index_mem)
  from removeSuccessor_at_removed [OF assms(1) this, of NormalizeSuccProbs] assms(3) show ?thesis
    by (auto simp: removeSuccessor_def)
qed

section \<open>Replacing a successor\<close>

definition found :: "nat \<Rightarrow> nat list \<Rightarrow> nat option \<Rightarrow> bool" where
  "found b xs r = (case r of None \<Rightarrow> b \<notin> set xs | Some k \<Rightarrow> k < length xs \<and> xs ! k = b)"

lemma replace_scan_found:
  assumes "found Old as OldI" "found New as NewI" "OldI = None \<or> NewI = None" "Old \<noteq> New"
  shows "case replace_scan Old New bs (length as) OldI NewI of
    (r, n) \<Rightarrow> found Old (as @ bs) r \<and> found New (as @ bs) n"
  using assms
proof (induction bs arbitrary: as OldI NewI)
  case Nil
  then show ?case by simp
next
  case (Cons b bs)
  have app: "found c (as @ b # bs) (Some k)" if "found c as (Some k)" for c k
    using that by (simp add: found_def nth_append)
  have here: "found b (as @ b # bs) (Some (length as))" by (simp add: found_def)
  have ext: "found c (as @ [b]) r" if "found c as r" "c \<noteq> b" for c r
    using that by (cases r) (simp_all add: found_def nth_append)
  have hit: "found c (as @ [b]) (Some (length as))" if "b = c" for c using that by (simp add: found_def)
  show ?case
  proof (cases "b = Old \<or> b = New")
    case False
    with Cons.IH [OF ext [OF Cons.prems(1)] ext [OF Cons.prems(2)]] Cons.prems(3,4) show ?thesis
      by simp
  next
    case True
    then show ?thesis
    proof
      assume b: "b = Old"
      show ?thesis
      proof (cases NewI)
        case None
        from Cons.IH [OF hit [OF b] ext [OF Cons.prems(2)]] None b Cons.prems(4) show ?thesis by simp
      next
        case (Some n)
        with app [of New n] here Cons.prems(2) b show ?thesis by simp
      qed
    next
      assume b: "b = New"
      show ?thesis
      proof (cases OldI)
        case None
        from Cons.IH [OF ext [OF Cons.prems(1)] hit [OF b]] None b Cons.prems(4) show ?thesis by simp
      next
        case (Some k)
        with app [of Old k] here Cons.prems(1,4) b show ?thesis by auto
      qed
    qed
  qed
qed

definition probs_uniform :: "mfunc \<Rightarrow> nat \<Rightarrow> bool" where
  "probs_uniform MF b \<longleftrightarrow>
     (\<forall>p\<in>set (Probs (heap MF b)). isUnknown p) \<or> (\<forall>p\<in>set (Probs (heap MF b)). \<not> isUnknown p)"

text \<open>
  The lists after the replacement: \<open>New\<close> stands where an edge to \<open>Old\<close> stood, or that edge is gone
  and its probability has been added to the edge that \<open>New\<close> had.
\<close>

definition succ_replaced :: "nat \<Rightarrow> nat \<Rightarrow> nat \<Rightarrow> mfunc \<Rightarrow> mfunc \<Rightarrow> bool" where
  "succ_replaced this Old New MF MF' \<longleftrightarrow>
     (\<forall>b. b \<noteq> this \<longrightarrow> Successors (heap MF' b) = Successors (heap MF b) \<and> Probs (heap MF' b) = Probs (heap MF b)) \<and>
     (let S = Successors (heap MF this); P = Probs (heap MF this);
          S' = Successors (heap MF' this); P' = Probs (heap MF' this) in
      if Old = New then MF' = MF
      else \<exists>k < length S. S ! k = Old \<and>
        (if New \<notin> set S then S' = S[k := New] \<and> P' = P
         else \<exists>n < length S. S ! n = New \<and> S' = erase_nth k S \<and>
           (if P = [] \<or> isUnknown (P ! n) then P' = erase_nth k P
            else \<exists>p. prob_add (P ! n) (P ! k) = Inr p \<and> P' = erase_nth k (P[n := p]))))"

lemma replaceSuccessor_edges:
  assumes ok: "edges_ok MF" and old: "Old \<in> set (Successors (heap MF this))" 
    and un: "probs_uniform MF this \<or> (\<exists>MF'. replaceSuccessor this Old New MF = Inr MF')"
  shows "\<exists>MF'. replaceSuccessor this Old New MF = Inr MF' \<and> edges_ok MF' \<and> same_code MF MF' \<and>
    (\<forall>b. b \<noteq> this \<longrightarrow> Successors (heap MF' b) = Successors (heap MF b)) \<and>
    (\<forall>c. count_list (Successors (heap MF' this)) c + (if c = Old \<and> Old \<noteq> New then 1 else 0) =
         count_list (Successors (heap MF this)) c +
           (if c = New \<and> New \<notin> set (Successors (heap MF this)) then 1 else 0)) \<and>
    succ_replaced this Old New MF MF'"
proof (cases "Old = New")
  case True
  with ok old show ?thesis by (auto simp: replaceSuccessor_def succ_replaced_def)
next
  case neq: False
  let ?S = "Successors (heap MF this)" and ?P = "Probs (heap MF this)"
  obtain r n where rn: "replace_scan Old New ?S 0 None None = (r, n)" by fastforce
  from replace_scan_found [of Old "[]" None New None ?S] neq have
    f: "found Old ?S r" "found New ?S n" by (simp_all add: found_def rn)
  then obtain k where k: "r = Some k" "k < length ?S" "?S ! k = Old"
    using old by (cases r) (auto simp: found_def)
  have bk: "this \<in> set (Predecessors (heap MF Old))" using old ok by (simp add: edge_both_ends)
  show ?thesis
  proof (cases n)
    case None
    then have new: "New \<notin> set ?S" using f(2) by (simp add: found_def)
    define MF1 where "MF1 = upd_block Old
      (\<lambda>B. B\<lparr>Predecessors := erase_nth (find_index this (Predecessors B)) (Predecessors B)\<rparr>) MF"
    define MF' where "MF' = upd_block this (\<lambda>B. B\<lparr>Successors := (Successors B)[k := New]\<rparr>) (addPredecessor New this MF1)"
    have run: "replaceSuccessor this Old New MF = Inr MF'"
      using neq rn None k(1) bk
      by (simp add: replaceSuccessor_def removePredecessor_Inr MF'_def MF1_def)
    have S: "Successors (heap MF' b) = (if b = this then ?S[k := New] else Successors (heap MF b))"
      and P: "Probs (heap MF' b) = Probs (heap MF b)"
      and R: "Predecessors (heap MF' b) =
        (if b = Old then erase_nth (find_index this (Predecessors (heap MF b))) (Predecessors (heap MF b))
         else if b = New then Predecessors (heap MF b) @ [this] else Predecessors (heap MF b))" for b
      using neq by (auto simp: MF'_def MF1_def addPredecessor_def)
    have cnt: "count_list (?S[k := New]) c + (if c = Old then 1 else 0) =
        count_list ?S c + (if c = New then 1 else 0)" for c
      using count_list_update [OF k(2), of New c] k(3) by (auto split: if_splits)
    have "edges_ok MF'"
      unfolding edges_ok_def
    proof (intro conjI allI)
      fix b d
      show "count_list (Successors (heap MF' b)) d = count_list (Predecessors (heap MF' d)) b"
        using edges_okD(1) [OF ok, of b d] cnt [of d] erase_found_count [OF bk, of b] neq
        unfolding S R by (auto split: if_splits)
      show "Probs (heap MF' b) = [] \<or> length (Probs (heap MF' b)) = length (Successors (heap MF' b))"
        using edges_okD(2) [OF ok, of b] unfolding S P by auto
    qed
    moreover have "same_code MF MF'" by (auto simp: same_code_def MF'_def MF1_def addPredecessor_def)
    moreover have "succ_replaced this Old New MF MF'"
      using neq new k(2,3) by (auto simp: succ_replaced_def Let_def S P)
    ultimately show ?thesis using run cnt new neq by (auto simp: S)
  next
    case (Some m)
    then have m: "m < length ?S" "?S ! m = New" using f(2) by (simp_all add: found_def)
    then have new: "New \<in> set ?S" by force
    let ?upd = "if ?P \<noteq> [] then
        bind_res (getProbabilityIterator (heap MF this) m) (\<lambda>n.
          if \<not> isUnknown (?P ! n) then
            bind_res (getProbabilityIterator (heap MF this) k) (\<lambda>k.
            bind_res (prob_add (?P ! n) (?P ! k)) (\<lambda>p.
              Inr (upd_block this (\<lambda>B. B\<lparr>Probs := (Probs B)[n := p]\<rparr>) MF)))
          else Inr MF)
      else Inr MF"
    have "\<exists>ps. ?upd = Inr (upd_block this (\<lambda>B. B\<lparr>Probs := ps\<rparr>) MF) \<and> length ps = length ?P \<and>
      (if ?P = [] \<or> isUnknown (?P ! m) then ps = ?P else \<exists>p. prob_add (?P ! m) (?P ! k) = Inr p \<and> ps = ?P[m := p])"
    proof -
      have self: "upd_block this (\<lambda>B. B\<lparr>Probs := ?P\<rparr>) MF = MF" by (simp add: upd_block_def fun_upd_idem)
      show ?thesis
      proof (cases "?P = [] \<or> isUnknown (?P ! m)")
        case True
        have "?P \<noteq> [] \<Longrightarrow> getProbabilityIterator (heap MF this) m = Inr m"
          using edges_okD(2) [OF ok, of this] m by (auto simp: getProbabilityIterator_def)
        with True self show ?thesis by (cases "?P = []") (auto intro!: exI [of _ ?P])
      next
        case False
        then have l: "length ?P = length ?S" using edges_okD(2) [OF ok, of this] by auto
        with m k have it: "getProbabilityIterator (heap MF this) m = Inr m"
          "getProbabilityIterator (heap MF this) k = Inr k" by (auto simp: getProbabilityIterator_def)
        from un have "\<exists>p. prob_add (?P ! m) (?P ! k) = Inr p"
        proof
          assume "probs_uniform MF this"
          with False l m k have "\<not> isUnknown (?P ! k)" by (auto simp: probs_uniform_def)
          with False show ?thesis by (auto simp: prob_add_def known_def isUnknown_def)
        next
          assume "\<exists>MF'. replaceSuccessor this Old New MF = Inr MF'"
          with False neq it show ?thesis by (auto simp: replaceSuccessor_def rn k(1) Some)
        qed
        then obtain p where "prob_add (?P ! m) (?P ! k) = Inr p" by blast
        with False it show ?thesis
          by (intro exI [of _ "?P[m := p]"]) (simp add: upd_block_def)
      qed
    qed
    then obtain ps where ps: "?upd = Inr (upd_block this (\<lambda>B. B\<lparr>Probs := ps\<rparr>) MF)" "length ps = length ?P"
      "if ?P = [] \<or> isUnknown (?P ! m) then ps = ?P else \<exists>p. prob_add (?P ! m) (?P ! k) = Inr p \<and> ps = ?P[m := p]"
      by blast
    let ?M = "upd_block this (\<lambda>B. B\<lparr>Probs := ps\<rparr>) MF"
    have okM: "edges_ok ?M"
      using ok ps(2) by (auto simp: edges_ok_def) (metis length_0_conv)+
    from removeSuccessor_at_removed [OF okM, of k this False] k obtain MF' where
      MF': "removeSuccessor_at this k False ?M = Inr MF'" "removed this k ?M MF'"
      "Probs (heap MF' this) = erase_nth k ps" by auto
    have run: "replaceSuccessor this Old New MF = Inr MF'"
      using neq MF'(1) unfolding replaceSuccessor_def rn k(1) Some by (simp only: prod.case option.case ps(1) bind_res_Inr if_False)
    have "same_code MF ?M" by (simp add: same_code_def)
    with MF'(2) have "edges_ok MF'" "same_code MF MF'"
      and S: "\<forall>b. Successors (heap MF' b) = (if b = this then erase_nth k ?S else Successors (heap MF b))"
      using same_code_trans by (auto simp: removed_def)
    moreover have "count_list (erase_nth k ?S) c + (if c = Old then 1 else 0) = count_list ?S c" for c
      using count_list_erase_nth [OF k(2), of c] k(3) by (cases "c = Old") auto
    moreover have "succ_replaced this Old New MF MF'"
    proof -
      have "\<forall>b. b \<noteq> this \<longrightarrow> Probs (heap MF' b) = Probs (heap MF b)" using MF'(2) by (simp add: removed_def)
      moreover have "if ?P = [] \<or> isUnknown (?P ! m) then Probs (heap MF' this) = erase_nth k ?P
          else \<exists>p. prob_add (?P ! m) (?P ! k) = Inr p \<and> Probs (heap MF' this) = erase_nth k (?P[m := p])"
        using ps(3) unfolding MF'(3) by (auto split: if_splits)
      moreover have "\<not> New \<notin> set ?S" using new by simp
      ultimately show ?thesis
        unfolding succ_replaced_def Let_def if_not_P [OF neq] if_not_P [OF \<open>\<not> New \<notin> set ?S\<close>] using m k(2,3) S
        by (intro conjI exI [of _ k] exI [of _ m]) simp_all
    qed
    ultimately show ?thesis using run new neq by auto
  qed
qed

section \<open>Successful operations keep the invariant\<close>

lemma removeSuccessor_at_edges:
  assumes "removeSuccessor_at this i norm MF = Inr MF'" and "edges_ok MF"
  shows "edges_ok MF'"
proof -
  have i: "i < length (Successors (heap MF this))"
    using assms(1) by (auto simp: removeSuccessor_at_def)
  have "norm \<longrightarrow> Probs (heap MF this) \<noteq> [] \<longrightarrow>
      (\<exists>Qs. normalizeProbabilities (erase_nth i (Probs (heap MF this))) = Inr Qs)"
    using assms(1) by (auto simp: removeSuccessor_at_def getProbabilityIterator_def normalizeSuccProbs_def)
  from removeSuccessor_at_removed [OF assms(2) i this] assms(1) show ?thesis by (auto simp: removed_def)
qed

lemma replaceSuccessor_keeps:
  assumes "replaceSuccessor this Old New MF = Inr MF'" and "edges_ok MF"
  shows "edges_ok MF'"
proof (cases "Old = New")
  case True
  with assms show ?thesis by (simp add: replaceSuccessor_def)
next
  case False
  obtain r n where rn: "replace_scan Old New (Successors (heap MF this)) 0 None None = (r, n)" by fastforce
  with replace_scan_found [of Old "[]" None New None "Successors (heap MF this)"] False
  have "found Old (Successors (heap MF this)) r" by (simp add: found_def)
  moreover have "r \<noteq> None" using assms(1) False rn by (cases r) (auto simp: replaceSuccessor_def)
  ultimately have "Old \<in> set (Successors (heap MF this))" by (auto simp: found_def)
  from replaceSuccessor_edges [OF assms(2) this, of New] assms(1) show ?thesis by auto
qed

end
