(* ===== verification/EdgeTransfer.thy ===== *)
theory EdgeTransfer
  imports BlockEdges
begin

text \<open>
  The operations of \<open>llvm/lib/CodeGen/MachineBasicBlock.cpp\<close> that move or drop many edges
  at once: \<open>transferSuccessors\<close>, \<open>CorrectExtraCFGEdges\<close> and
  \<open>ReplaceUsesOfBlockWith\<close>.
\<close>

section \<open>Moving all successors of a block\<close>

text \<open>The loop takes the first successor until there is none; \<open>this\<close> is another block.\<close>

lemma removeSuccessor_shorter:
  assumes "removeSuccessor b c norm MF = Inr MF'"
  shows "length (Successors (heap MF' b)) < length (Successors (heap MF b))"
proof -
  let ?i = "find_index c (Successors (heap MF b))"
  have P: "Successors (heap M b) = Successors (heap N b)" if "normalizeSuccProbs a N = Inr M" for a M N
    using that by (auto simp: normalizeSuccProbs_def)
  have R: "Successors (heap M b) = Successors (heap N b)" if "removePredecessor a d N = Inr M" for a d M N
    using that by (auto simp: removePredecessor_Inr)
  have "?i < length (Successors (heap MF b))"
    and "Successors (heap MF' b) = erase_nth ?i (Successors (heap MF b))"
    using assms by (auto simp: removeSuccessor_def removeSuccessor_at_def Let_def dest!: P R split: if_splits)
  then show ?thesis by (simp add: erase_nth_def)
qed

lemma addSuccessors_other:
  "a \<noteq> b \<Longrightarrow> Successors (heap (addSuccessor a c p MF) b) = Successors (heap MF b)"
  "a \<noteq> b \<Longrightarrow> Successors (heap (addSuccessorWithoutProb a c MF) b) = Successors (heap MF b)"
  by (simp_all add: addSuccessorWithoutProb_def)

function transfer_loop :: "nat \<Rightarrow> nat \<Rightarrow> mfunc \<Rightarrow> mfunc res" where
  "transfer_loop this FromMBB MF =
     (if this = FromMBB then Inr MF
      else case Successors (heap MF FromMBB) of
        [] \<Rightarrow> Inr MF
      | Succ # _ \<Rightarrow>
          let MF1 = (case Probs (heap MF FromMBB) of
                       Prob # _ \<Rightarrow> addSuccessor this Succ Prob MF
                     | [] \<Rightarrow> addSuccessorWithoutProb this Succ MF)
          in bind_res (removeSuccessor FromMBB Succ False MF1) (transfer_loop this FromMBB))"
  by auto

termination
proof (relation "measure (\<lambda>(this, FromMBB, MF). length (Successors (heap MF FromMBB)))")
  fix this FromMBB MF Succ rest MF1 MF2
  assume "this \<noteq> FromMBB" and S: "Successors (heap MF FromMBB) = Succ # rest"
    and MF1: "MF1 = (case Probs (heap MF FromMBB) of Prob # _ \<Rightarrow> addSuccessor this Succ Prob MF
                  | [] \<Rightarrow> addSuccessorWithoutProb this Succ MF)"
    and r: "removeSuccessor FromMBB Succ False MF1 = Inr MF2"
  then have "Successors (heap MF1 FromMBB) = Successors (heap MF FromMBB)"
    by (auto simp: addSuccessors_other split: list.splits)
  with removeSuccessor_shorter [OF r]
  show "((this, FromMBB, MF2), this, FromMBB, MF) \<in> measure (\<lambda>(this, FromMBB, MF). length (Successors (heap MF FromMBB)))"
    by simp
qed simp

declare transfer_loop.simps [simp del]

definition transferSuccessors :: "nat \<Rightarrow> nat \<Rightarrow> mfunc \<Rightarrow> mfunc res" where
  "transferSuccessors this FromMBB MF = transfer_loop this FromMBB MF"

text \<open>No block of the model has PHI instructions, so there are none to update.\<close>

definition transferSuccessorsAndUpdatePHIs :: "nat \<Rightarrow> nat \<Rightarrow> mfunc \<Rightarrow> mfunc res" where
  "transferSuccessorsAndUpdatePHIs this FromMBB MF =
     (if this = FromMBB then Inr MF
      else bind_res (transfer_loop this FromMBB MF) (normalizeSuccProbs this))"

lemma same_code_add: "same_code MF (addSuccessor a c p MF)"
  by (simp add: same_code_def addSuccessor_def addPredecessor_def)

lemma same_code_add': "same_code MF (addSuccessorWithoutProb a c MF)"
  by (simp add: same_code_def addSuccessorWithoutProb_def addPredecessor_def)

lemma transfer_loop_ok:
  assumes "edges_ok MF" and "this \<noteq> FromMBB"
  shows "\<exists>MF'. transfer_loop this FromMBB MF = Inr MF' \<and> edges_ok MF' \<and> same_code MF MF' \<and>
    Successors (heap MF' FromMBB) = [] \<and>
    Successors (heap MF' this) = Successors (heap MF this) @ Successors (heap MF FromMBB) \<and>
    (\<forall>b. b \<noteq> this \<longrightarrow> b \<noteq> FromMBB \<longrightarrow> Successors (heap MF' b) = Successors (heap MF b))"
  using assms
proof (induction "length (Successors (heap MF FromMBB))" arbitrary: MF)
  case 0
  then show ?case by (auto simp: transfer_loop.simps)
next
  case (Suc n)
  then obtain c cs where S: "Successors (heap MF FromMBB) = c # cs" by (cases "Successors (heap MF FromMBB)") auto
  define MF1 where "MF1 = (case Probs (heap MF FromMBB) of Prob # _ \<Rightarrow> addSuccessor this c Prob MF
                  | [] \<Rightarrow> addSuccessorWithoutProb this c MF)"
  have ok1: "edges_ok MF1" using Suc.prems
    by (simp add: MF1_def addSuccessor_edges addSuccessorWithoutProb_edges split: list.splits)
  have sc: "same_code MF MF1"
    by (simp add: MF1_def same_code_add same_code_add' split: list.splits)
  have S1: "Successors (heap MF1 b) = (if b = this then Successors (heap MF b) @ [c] else Successors (heap MF b))" for b
    using Suc.prems(2) by (auto simp: MF1_def addSuccessorWithoutProb_def split: list.splits)
  then have F1: "Successors (heap MF1 FromMBB) = c # cs" using Suc.prems(2) S by simp
  then have "c \<in> set (Successors (heap MF1 FromMBB))" by simp
  from removeSuccessor_removed [OF ok1 this, of False] obtain MF2 where
    r: "removeSuccessor FromMBB c False MF1 = Inr MF2" "removed FromMBB 0 MF1 MF2" by (auto simp: F1)
  then have ok2: "edges_ok MF2" "same_code MF1 MF2"
    and S2: "Successors (heap MF2 b) = (if b = FromMBB then cs else Successors (heap MF1 b))" for b
    by (auto simp: removed_def F1 erase_nth_def)
  have "n = length (Successors (heap MF2 FromMBB))" using Suc.hyps(2) S by (simp add: S2)
  from Suc.hyps(1) [OF this ok2(1) Suc.prems(2)] obtain MF' where
    M: "transfer_loop this FromMBB MF2 = Inr MF'" "edges_ok MF'" "same_code MF2 MF'"
      "Successors (heap MF' FromMBB) = []"
      "Successors (heap MF' this) = Successors (heap MF2 this) @ Successors (heap MF2 FromMBB)"
      "\<forall>b. b \<noteq> this \<longrightarrow> b \<noteq> FromMBB \<longrightarrow> Successors (heap MF' b) = Successors (heap MF2 b)" by blast
  have "transfer_loop this FromMBB MF = Inr MF'"
    using Suc.prems(2) S r(1) M(1) by (subst transfer_loop.simps) (simp add: MF1_def [symmetric])
  with M S Suc.prems(2) same_code_trans [OF same_code_trans [OF sc ok2(2)] M(3)] show ?case
    by (auto simp: S2 S1)
qed

section \<open>Dropping superfluous edges\<close>

lemma removeSuccessor_at_length:
  assumes "removeSuccessor_at b i False MF = Inr MF'"
  shows "Successors (heap MF' b) = erase_nth i (Successors (heap MF b))"
    and "i < length (Successors (heap MF b))"
  using assms by (auto simp: removeSuccessor_at_def Let_def removePredecessor_Inr split: if_splits)

function correct_loop ::
  "nat \<Rightarrow> nat option \<Rightarrow> nat option \<Rightarrow> nat \<Rightarrow> nat list \<Rightarrow> bool \<Rightarrow> mfunc \<Rightarrow> (bool \<times> mfunc) res" where
  "correct_loop this DestA DestB SI SeenMBBs Changed MF =
     (if SI < length (Successors (heap MF this)) then
        let MBB = Successors (heap MF this) ! SI in
        if MBB \<in> set SeenMBBs \<or>
           (Some MBB \<noteq> DestA \<and> Some MBB \<noteq> DestB \<and> \<not> IsEHPad (heap MF MBB))
        then bind_res (removeSuccessor_at this SI False MF)
               (correct_loop this DestA DestB SI (MBB # SeenMBBs) True)
        else correct_loop this DestA DestB (Suc SI) (MBB # SeenMBBs) Changed MF
      else Inr (Changed, MF))"
  by auto

termination
proof (relation "measure (\<lambda>(this, A, B, SI, S, C, MF). length (Successors (heap MF this)) - SI)")
  fix this DestA DestB SI SeenMBBs MF MBB MF'
  assume "SI < length (Successors (heap MF this))" and r: "removeSuccessor_at this SI False MF = Inr MF'"
  then show "((this, DestA, DestB, SI, MBB # SeenMBBs, True, MF'), this, DestA, DestB, SI, SeenMBBs, Changed, MF)
      \<in> measure (\<lambda>(this, A, B, SI, S, C, MF). length (Successors (heap MF this)) - SI)" for Changed
    by (simp add: removeSuccessor_at_length(1) [OF r])
qed auto

declare correct_loop.simps [simp del]

definition CorrectExtraCFGEdges ::
  "nat \<Rightarrow> nat option \<Rightarrow> nat option \<Rightarrow> bool \<Rightarrow> mfunc \<Rightarrow> (bool \<times> mfunc) res" where
  "CorrectExtraCFGEdges this DestA DestB IsCond MF =
     (let FallThru = next_in (layout MF) this in
      bind_res
        (if DestA = None \<and> DestB = None then Inr (FallThru, FallThru)
         else if DestA \<noteq> None \<and> DestB = None then Inr (DestA, if IsCond then FallThru else DestB)
         else bind_res (assert_res ''CFG in a bad state. Cannot correct CFG edges''
                          (DestA \<noteq> None \<and> DestB \<noteq> None \<and> IsCond)) (\<lambda>_. Inr (DestA, DestB)))
        (\<lambda>(A, B).
           bind_res (correct_loop this A B 0 [] False MF) (\<lambda>(Changed, MF').
             if Changed then bind_res (normalizeSuccProbs this MF') (\<lambda>MF''. Inr (Changed, MF''))
             else Inr (Changed, MF'))))"

text \<open>The edges that stay: the first edge to each destination that is wanted.\<close>

fun keep_edges :: "(nat \<Rightarrow> bool) \<Rightarrow> nat list \<Rightarrow> nat list \<Rightarrow> nat list" where
  "keep_edges keep seen [] = []"
| "keep_edges keep seen (c # cs) =
     (if c \<in> set seen \<or> \<not> keep c then keep_edges keep (c # seen) cs
      else c # keep_edges keep (c # seen) cs)"

lemma keep_edges_set: "set (keep_edges keep seen cs) = {c \<in> set cs. keep c} - set seen"
  by (induction cs arbitrary: seen) auto

lemma keep_edges_distinct: "distinct (keep_edges keep seen cs)"
  by (induction cs arbitrary: seen) (auto simp: keep_edges_set)

lemma keep_edges_length: "length (keep_edges keep seen cs) \<le> length cs"
  by (induction cs arbitrary: seen) (auto intro: le_SucI)

lemma correct_loop_ok:
  assumes "edges_ok MF" and "Successors (heap MF this) = kept @ rest" and "length kept = SI"
  shows "\<exists>MF'. correct_loop this DestA DestB SI seen Changed MF =
      Inr (Changed \<or> keep_edges (\<lambda>c. Some c = DestA \<or> Some c = DestB \<or> IsEHPad (heap MF c)) seen rest \<noteq> rest, MF') \<and>
    edges_ok MF' \<and> same_code MF MF' \<and>
    Successors (heap MF' this) =
      kept @ keep_edges (\<lambda>c. Some c = DestA \<or> Some c = DestB \<or> IsEHPad (heap MF c)) seen rest \<and>
    (\<forall>b. b \<noteq> this \<longrightarrow> Successors (heap MF' b) = Successors (heap MF b) \<and> Probs (heap MF' b) = Probs (heap MF b))"
  using assms
proof (induction rest arbitrary: kept SI seen Changed MF)
  case Nil
  then show ?case by (auto simp: correct_loop.simps)
next
  case (Cons c rest)
  let ?keep = "\<lambda>c. Some c = DestA \<or> Some c = DestB \<or> IsEHPad (heap MF c)"
  have c: "SI < length (Successors (heap MF this))" "Successors (heap MF this) ! SI = c"
    using Cons.prems by auto
  show ?case
  proof (cases "c \<in> set seen \<or> \<not> ?keep c")
    case False
    have "Successors (heap MF this) = (kept @ [c]) @ rest" using Cons.prems(2) by simp
    from Cons.IH [OF Cons.prems(1) this, of "Suc SI" "c # seen" Changed] Cons.prems(3) c False
    show ?thesis by (subst correct_loop.simps) auto
  next
    case True
    from removeSuccessor_at_removed [OF Cons.prems(1) c(1), of False] obtain MF1 where
      M: "removeSuccessor_at this SI False MF = Inr MF1" "removed this SI MF MF1" by auto
    then have m: "edges_ok MF1" "same_code MF MF1" and S: "Successors (heap MF1 this) = kept @ rest"
      and o: "b \<noteq> this \<Longrightarrow> Successors (heap MF1 b) = Successors (heap MF b) \<and> Probs (heap MF1 b) = Probs (heap MF b)" for b
      using Cons.prems(2,3) by (auto simp: removed_def erase_nth_def)
    have k: "(\<lambda>c. Some c = DestA \<or> Some c = DestB \<or> IsEHPad (heap MF1 c)) = ?keep"
      using m(2) by (simp add: same_code_def)
    have ne: "keep_edges ?keep seen (c # rest) \<noteq> c # rest"
      using True keep_edges_length [of ?keep "c # seen" rest] by auto
    from Cons.IH [OF m(1) S Cons.prems(3), of "c # seen" True, unfolded k] obtain MF' where
      M': "correct_loop this DestA DestB SI (c # seen) True MF1 = Inr (True, MF')" "edges_ok MF'"
      "same_code MF1 MF'" "Successors (heap MF' this) = kept @ keep_edges ?keep (c # seen) rest"
      "\<forall>b. b \<noteq> this \<longrightarrow> Successors (heap MF' b) = Successors (heap MF1 b) \<and> Probs (heap MF' b) = Probs (heap MF1 b)"
      by auto
    have "correct_loop this DestA DestB SI seen Changed MF = Inr (True, MF')"
      using True c M(1) M'(1) by (subst correct_loop.simps) (auto simp: Let_def)
    with ne M' True o same_code_trans [OF m(2) M'(3)] show ?thesis by auto
  qed
qed

section \<open>Retargeting a block\<close>

text \<open>The terminators are rewritten from the last instruction of the block up.\<close>

definition retarget :: "nat \<Rightarrow> nat \<Rightarrow> minstr \<Rightarrow> minstr" where
  "retarget Old New MI =
     MI\<lparr>ops := map (\<lambda>op. if isMBB op \<and> getMBB op = Inr Old then MO_MachineBasicBlock New else op) (ops MI)\<rparr>"

fun replace_uses :: "nat \<Rightarrow> nat \<Rightarrow> minstr list \<Rightarrow> minstr list" where
  "replace_uses Old New [] = []"
| "replace_uses Old New (I # rest) =
     (if \<not> isTerminator I then I # rest else retarget Old New I # replace_uses Old New rest)"

definition ReplaceUsesOfBlockWith :: "nat \<Rightarrow> nat \<Rightarrow> nat \<Rightarrow> mfunc \<Rightarrow> mfunc res" where
  "ReplaceUsesOfBlockWith this Old New MF =
     bind_res (assert_res ''Cannot replace self with self!'' (Old \<noteq> New)) (\<lambda>_.
       replaceSuccessor this Old New
         (upd_block this (\<lambda>B. B\<lparr>insts := rev (replace_uses Old New (rev (insts B)))\<rparr>) MF))"

lemma replace_uses_eq:
  "replace_uses Old New is =
     map (retarget Old New) (takeWhile isTerminator is) @ dropWhile isTerminator is"
  by (induction "is") auto

section \<open>Runs of edge operations\<close>

inductive edge_step :: "mfunc \<Rightarrow> mfunc \<Rightarrow> bool" where
  add: "edge_step MF (addSuccessor b c p MF)"
| add_without: "edge_step MF (addSuccessorWithoutProb b c MF)"
| remove: "removeSuccessor b c norm MF = Inr MF' \<Longrightarrow> edge_step MF MF'"
| remove_at: "removeSuccessor_at b i norm MF = Inr MF' \<Longrightarrow> edge_step MF MF'"
| replace: "replaceSuccessor b Old New MF = Inr MF' \<Longrightarrow> edge_step MF MF'"
| transfer: "transferSuccessors b c MF = Inr MF' \<Longrightarrow> edge_step MF MF'"
| transfer_phis: "transferSuccessorsAndUpdatePHIs b c MF = Inr MF' \<Longrightarrow> edge_step MF MF'"
| correct: "CorrectExtraCFGEdges b A B cond MF = Inr (ch, MF') \<Longrightarrow> edge_step MF MF'"
| retarget: "ReplaceUsesOfBlockWith b Old New MF = Inr MF' \<Longrightarrow> edge_step MF MF'"
| set_prob: "setSuccProbability b i p MF = Inr MF' \<Longrightarrow> edge_step MF MF'"
| normalize: "normalizeSuccProbs b MF = Inr MF' \<Longrightarrow> edge_step MF MF'"

lemma normalizeSuccProbs_edges:
  assumes "normalizeSuccProbs b MF = Inr MF'" and "edges_ok MF"
  shows "edges_ok MF'"
proof -
  from assms(1) obtain ps where ps: "normalizeProbabilities (Probs (heap MF b)) = Inr ps"
    "MF' = upd_block b (\<lambda>B. B\<lparr>Probs := ps\<rparr>) MF" by (auto simp: normalizeSuccProbs_def)
  from normalize_length [OF ps(1)] assms(2) show ?thesis
    unfolding ps(2) by (auto simp: edges_ok_def) (metis length_0_conv)+
qed

lemma CorrectExtraCFGEdges_edges:
  assumes "CorrectExtraCFGEdges b A B cond MF = Inr (ch, MF')" and "edges_ok MF"
  shows "edges_ok MF'"
proof -
  from assms(1) obtain A' B' MF1 where l: "correct_loop b A' B' 0 [] False MF = Inr (ch, MF1)"
    and n: "if ch then normalizeSuccProbs b MF1 = Inr MF' else MF' = MF1"
    by (auto simp: CorrectExtraCFGEdges_def Let_def split: if_splits prod.splits)
  from correct_loop_ok [OF assms(2), of b "[]" "Successors (heap MF b)" 0 A' B' "[]" False] l
  have "edges_ok MF1" by auto
  with n normalizeSuccProbs_edges show ?thesis by (auto split: if_splits)
qed

lemma retarget_edges:
  assumes "ReplaceUsesOfBlockWith b Old New MF = Inr MF'" and "edges_ok MF"
  shows "edges_ok MF'"
proof -
  have "edges_ok (upd_block b (\<lambda>B. B\<lparr>insts := is B\<rparr>) MF)" for "is"
    using assms(2) by (auto simp: edges_ok_def)
  with assms(1) replaceSuccessor_keeps show ?thesis by (auto simp: ReplaceUsesOfBlockWith_def)
qed

lemma transfer_edges:
  "transferSuccessors a b MF = Inr MF' \<Longrightarrow> edges_ok MF \<Longrightarrow> edges_ok MF'"
  using transfer_loop_ok [of MF a b]
  by (cases "a = b") (auto simp: transferSuccessors_def transfer_loop.simps)

lemma transfer_phis_edges:
  "transferSuccessorsAndUpdatePHIs a b MF = Inr MF' \<Longrightarrow> edges_ok MF \<Longrightarrow> edges_ok MF'"
  using transfer_loop_ok [of MF a b] normalizeSuccProbs_edges
  by (cases "a = b") (auto simp: transferSuccessorsAndUpdatePHIs_def)

lemma edge_step_edges: "edge_step MF MF' \<Longrightarrow> edges_ok MF \<Longrightarrow> edges_ok MF'"
  by (induction rule: edge_step.induct)
     (auto simp: addSuccessor_edges addSuccessorWithoutProb_edges removeSuccessor_def
       dest: removeSuccessor_at_edges replaceSuccessor_keeps transfer_edges transfer_phis_edges CorrectExtraCFGEdges_edges
         retarget_edges setSuccProbability_edges normalizeSuccProbs_edges)

section \<open>The probability of an edge\<close>

lemma sum_probs_value:
  assumes "\<forall>p\<in>set Ps. isUnknown p \<or> unat p \<le> 2 ^ 31" and "unat S \<le> 2 ^ 31"
  shows "sum_probs Ps S k =
    Inr (word_of_nat (min (2 ^ 31) (unat S + known_sum Ps)), k + (length Ps - unknowns Ps))"
  using assms
proof (induction Ps arbitrary: S k)
  case Nil
  then show ?case by (simp add: known_sum_def unknowns_def)
next
  case (Cons p Ps)
  have le: "unknowns Ps \<le> length Ps" by (simp add: unknowns_def)
  show ?case
  proof (cases "isUnknown p")
    case True
    with Cons show ?thesis by (simp add: known_sum_def unknowns_def)
  next
    case False
    with Cons.prems have p: "unat p \<le> 2 ^ 31" by simp
    let ?S = "word_of_nat (min (2 ^ 31) (unat S + unat p)) :: 32 word"
    have u: "unat ?S = min (2 ^ 31) (unat S + unat p)" by (simp add: unat_of_nat take_bit_nat_eq_self)
    have add: "prob_add S p = Inr ?S" using prob_arith_add [OF Cons.prems(2) p] .
    have eq: "min (2 ^ 31) (min (2 ^ 31) (unat S + unat p) + known_sum Ps) =
        min (2 ^ 31) (unat S + known_sum (p # Ps))"
      using False by (auto simp: known_sum_def min_def)
    have "sum_probs Ps ?S (Suc k) =
        Inr (word_of_nat (min (2 ^ 31) (unat S + known_sum (p # Ps))), Suc k + (length Ps - unknowns Ps))"
      using Cons.IH [of ?S "Suc k"] Cons.prems(1) unfolding u eq by simp
    moreover have "sum_probs (p # Ps) S k = sum_probs Ps ?S (Suc k)" using False add by simp
    moreover have "Suc k + (length Ps - unknowns Ps) = k + (length (p # Ps) - unknowns (p # Ps))"
      using False le by (simp add: unknowns_def Suc_diff_le)
    ultimately show ?thesis by (simp only:)
  qed
qed

lemma getSuccProbability_ok:
  assumes ok: "edges_ok MF" and i: "i < length (Successors (heap MF b))"
    and len: "length (Successors (heap MF b)) < 2 ^ 32"
    and val: "\<forall>p\<in>set (Probs (heap MF b)). isUnknown p \<or> unat p \<le> 2 ^ 31"
  shows "\<exists>p. getSuccProbability MF b i = Inr p \<and> unat p \<le> 2 ^ 31 \<and>
    unat p =
      (let Ps = Probs (heap MF b); n = length (Successors (heap MF b)) in
       if Ps = [] then (2 ^ 31 + n div 2) div n
       else if isUnknown (Ps ! i) then (2 ^ 31 - min (2 ^ 31) (known_sum Ps)) div unknowns Ps
       else unat (Ps ! i))"
proof (cases "Probs (heap MF b) = []")
  case True
  let ?n = "length (Successors (heap MF b))"
  have pos: "0 < ?n" using i by linarith
  have n: "unat (word_of_nat ?n :: 32 word) = ?n" using len by (simp add: unat_of_nat take_bit_nat_eq_self)
  have "0 < (word_of_nat ?n :: 32 word)" "1 \<le> (word_of_nat ?n :: 32 word)"
    using pos by (simp_all add: word_less_nat_alt word_le_nat_alt n Suc_le_eq)
  from mk_prob_value [OF this] True show ?thesis by (auto simp: getSuccProbability_def n Let_def)
next
  case False
  let ?P = "Probs (heap MF b)"
  have l: "length ?P = length (Successors (heap MF b))" using edges_okD(2) [OF ok, of b] False by simp
  have it: "getProbabilityIterator (heap MF b) i = Inr i" using l i by (simp add: getProbabilityIterator_def)
  show ?thesis
  proof (cases "isUnknown (?P ! i)")
    case U: True
    let ?k = "length ?P - (length ?P - unknowns ?P)"
    have le: "unknowns ?P \<le> length ?P" by (simp add: unknowns_def)
    have "?P ! i \<in> set ?P" using l i by simp
    with U have u0: "0 < unknowns ?P" by (auto simp: unknowns_def filter_empty_conv)
    let ?S = "word_of_nat (min (2 ^ 31) (known_sum ?P)) :: 32 word"
    have S: "unat ?S = min (2 ^ 31) (known_sum ?P)" by (simp add: unat_of_nat take_bit_nat_eq_self)
    have sum: "sum_probs ?P getZero 0 = Inr (?S, length ?P - unknowns ?P)"
      using sum_probs_value [OF val, of getZero 0] by (simp add: getZero_def)
    let ?C = "word_of_nat (2 ^ 31 - unat ?S) :: 32 word"
    have C: "getCompl ?S = ?C" "unat ?C = 2 ^ 31 - min (2 ^ 31) (known_sum ?P)"
      using getCompl_valid [of ?S] unat_of_nat_32 [of "2 ^ 31 - unat ?S"] unfolding S by simp_all
    have k: "unat (word_of_nat ?k :: 32 word) = unknowns ?P"
      using len l le by (simp add: unat_of_nat take_bit_nat_eq_self)
    have "word_of_nat ?k > (0 :: 32 word)" using u0 by (simp only: word_less_nat_alt k unat_0)
    then have "prob_div_int ?C (word_of_nat ?k) = Inr (?C div word_of_nat ?k)"
      using valid_known [of ?C] valid_known [of 0] C(2)
      by (simp only: prob_div_int_def known_def) simp
    then have "getSuccProbability MF b i = Inr (?C div word_of_nat ?k)"
      using False U it by (simp only: getSuccProbability_def sum C(1) Let_def bind_res_Inr prod.case if_True if_False)
    moreover have "unat (?C div word_of_nat ?k) = (2 ^ 31 - min (2 ^ 31) (known_sum ?P)) div unknowns ?P"
      by (simp only: unat_div C(2) k)
    moreover have "(2 ^ 31 - min (2 ^ 31) (known_sum ?P)) div unknowns ?P \<le> 2 ^ 31"
      by (meson diff_le_self div_le_dividend le_trans)
    ultimately show ?thesis using False U by (simp add: Let_def)
  next
    case U: False
    have "unat (?P ! i) \<le> 2 ^ 31" using val U l i by auto
    with False U it show ?thesis by (simp add: getSuccProbability_def Let_def)
  qed
qed

section \<open>Properties\<close>

text \<open>
  C16. The edges of the graph stay consistent under every sequence of edge operations that succeed:
  each edge is recorded by both of its blocks, as often, and the probabilities of a block are absent
  or as many as its successors.
\<close>

theorem edges_invariant:
  assumes "edge_step\<^sup>*\<^sup>* MF MF'" and "edges_ok MF"
  shows "edges_ok MF'"
  using assms by (induction rule: rtranclp_induct) (auto dest: edge_step_edges)

theorem edges_invariant_witness:
  "edges_ok (addSuccessor 0 1 UnknownN \<lparr>layout = [0, 1], heap = \<lambda>_. empty_block, fresh = 2\<rparr>)"
  by (rule edges_invariant [OF r_into_rtranclp [of edge_step, OF edge_step.add]])
     (simp add: edges_ok_def empty_block_def)

text \<open>
  C25. On a block whose probabilities are all known or all unknown, replacing a successor succeeds. If the
  new block was no successor it takes the place of an edge to the old one, with its probability;
  otherwise that edge goes and its probability, if known, is added to the edge the new block had.
\<close>

theorem replaceSuccessor_moves_edge:
  assumes "edges_ok MF" and "Old \<in> set (Successors (heap MF this))" and "probs_uniform MF this"
    and "Old \<noteq> New" and "S = Successors (heap MF this)" and "P = Probs (heap MF this)"
  shows "\<exists>MF' k. replaceSuccessor this Old New MF = Inr MF' \<and> edges_ok MF' \<and>
    (\<forall>b. b \<noteq> this \<longrightarrow> Successors (heap MF' b) = Successors (heap MF b) \<and> Probs (heap MF' b) = Probs (heap MF b)) \<and>
    k < length S \<and> S ! k = Old \<and>
    (if New \<notin> set S
     then Successors (heap MF' this) = S[k := New] \<and> Probs (heap MF' this) = P
     else \<exists>n < length S. S ! n = New \<and> Successors (heap MF' this) = erase_nth k S \<and>
       (if P = [] \<or> isUnknown (P ! n) then Probs (heap MF' this) = erase_nth k P
        else \<exists>p. prob_add (P ! n) (P ! k) = Inr p \<and> Probs (heap MF' this) = erase_nth k (P[n := p])))"
proof -
  from replaceSuccessor_edges [OF assms(1,2), of New] assms(3) obtain MF' where
    r: "replaceSuccessor this Old New MF = Inr MF'" "edges_ok MF'" "succ_replaced this Old New MF MF'" by blast
  from r(1,2) r(3) [unfolded succ_replaced_def Let_def if_not_P [OF assms(4)]] show ?thesis
    unfolding assms(5,6) by blast
qed

definition ex_edges :: mfunc where
  "ex_edges = addSuccessor 0 2 5 (addSuccessor 0 1 3 \<lparr>layout = [0, 1, 2], heap = \<lambda>_. empty_block, fresh = 3\<rparr>)"

lemma ex_edges_ok: "edges_ok ex_edges" "Successors (heap ex_edges 0) = [1, 2]" "Probs (heap ex_edges 0) = [3, 5]"
  by (auto simp: ex_edges_def edges_ok_def empty_block_def intro!: addSuccessor_edges)
     (simp_all add: addSuccessor_def addPredecessor_def)

theorem replaceSuccessor_moves_edge_witness:
  "\<exists>MF'. replaceSuccessor 0 1 2 ex_edges = Inr MF' \<and> edges_ok MF' \<and> Successors (heap MF' 0) = [2] \<and>
     Probs (heap MF' 0) = [8]"
proof -
  have "probs_uniform ex_edges 0" "1 \<in> set (Successors (heap ex_edges 0))" "(1 :: nat) \<noteq> 2"
    and known: "\<not> isUnknown 5" "known s 5 3 = Inr ()" for s
    using ex_edges_ok by (auto simp: probs_uniform_def isUnknown_def UnknownN_def known_def assert_res_def)
  from replaceSuccessor_moves_edge [OF ex_edges_ok(1) this(2,1,3) ex_edges_ok(2,3) [symmetric]] show ?thesis
    using known by (auto simp: less_Suc_eq prob_add_def ProbD_def erase_nth_def)
qed

text \<open>
  C26. Transferring the successors of a block terminates and appends them, in order, to those of the
  receiving block; the block they come from has none left and no other block changes.
\<close>

theorem transferSuccessors_moves_all:
  assumes "edges_ok MF" and "this \<noteq> FromMBB"
  shows "\<exists>MF'. transferSuccessors this FromMBB MF = Inr MF' \<and> edges_ok MF' \<and>
    Successors (heap MF' FromMBB) = [] \<and>
    Successors (heap MF' this) = Successors (heap MF this) @ Successors (heap MF FromMBB) \<and>
    (\<forall>b. b \<noteq> this \<longrightarrow> b \<noteq> FromMBB \<longrightarrow> Successors (heap MF' b) = Successors (heap MF b))"
  using transfer_loop_ok [OF assms] unfolding transferSuccessors_def by blast

theorem transferSuccessors_moves_all_witness:
  "\<exists>MF'. transferSuccessors 1 0 ex_edges = Inr MF' \<and> Successors (heap MF' 0) = []"
  using transferSuccessors_moves_all [of ex_edges 1 0] ex_edges_ok by auto

text \<open>
  C36. \<open>CorrectExtraCFGEdges\<close> keeps the first edge to each wanted destination and to each landing
  pad, drops all other edges, reports whether it dropped any, and fails on no consistent graph.
\<close>

theorem CorrectExtraCFGEdges_keeps_wanted:
  assumes "edges_ok MF" and "length (Successors (heap MF this)) < 2 ^ 32"
    and "DestB = None \<or> DestA \<noteq> None \<and> IsCond"
  defines "A \<equiv> if DestA = None then next_in (layout MF) this else DestA"
    and "B \<equiv> if DestB = None \<and> (DestA = None \<or> IsCond) then next_in (layout MF) this else DestB"
  shows "\<exists>ch MF'. CorrectExtraCFGEdges this DestA DestB IsCond MF = Inr (ch, MF') \<and> edges_ok MF' \<and>
    Successors (heap MF' this) =
      keep_edges (\<lambda>c. Some c = A \<or> Some c = B \<or> IsEHPad (heap MF c)) [] (Successors (heap MF this)) \<and>
    distinct (Successors (heap MF' this)) \<and>
    (ch \<longleftrightarrow> Successors (heap MF' this) \<noteq> Successors (heap MF this))"
proof -
  let ?keep = "\<lambda>c. Some c = A \<or> Some c = B \<or> IsEHPad (heap MF c)"
  let ?new = "keep_edges ?keep [] (Successors (heap MF this))"
  from correct_loop_ok [OF assms(1), of this "[]" "Successors (heap MF this)" 0 A B "[]" False] obtain MF1 where
    l: "correct_loop this A B 0 [] False MF = Inr (?new \<noteq> Successors (heap MF this), MF1)" "edges_ok MF1"
      "Successors (heap MF1 this) = ?new" by auto
  have "length (Probs (heap MF1 this)) < 2 ^ 32"
    using edges_okD(2) [OF l(2), of this] keep_edges_length [of ?keep "[]" "Successors (heap MF this)"] assms(2)
    by (auto simp: l(3))
  from normalize_total [OF this] obtain qs where "normalizeProbabilities (Probs (heap MF1 this)) = Inr qs" by blast
  then obtain MF2 where n: "normalizeSuccProbs this MF1 = Inr MF2" "Successors (heap MF2 this) = ?new"
    by (auto simp: normalizeSuccProbs_def l(3))
  have run: "CorrectExtraCFGEdges this DestA DestB IsCond MF =
      (if ?new \<noteq> Successors (heap MF this) then Inr (True, MF2) else Inr (False, MF1))"
  proof -
    have "(if DestA = None \<and> DestB = None
           then Inr (next_in (layout MF) this, next_in (layout MF) this)
           else if DestA \<noteq> None \<and> DestB = None
           then Inr (DestA, if IsCond then next_in (layout MF) this else DestB)
           else bind_res (assert_res ''CFG in a bad state. Cannot correct CFG edges''
                            (DestA \<noteq> None \<and> DestB \<noteq> None \<and> IsCond)) (\<lambda>_. Inr (DestA, DestB))) = Inr (A, B)"
      using assms(3) by (cases DestA; cases DestB) (simp_all add: A_def B_def)
    then show ?thesis
      by (cases "?new \<noteq> Successors (heap MF this)")
         (simp_all only: CorrectExtraCFGEdges_def Let_def bind_res_Inr prod.case l(1) n(1) if_True if_False not_False_eq_True)
  qed
  define N where "N = ?new"
  have d: "distinct N" unfolding N_def by (rule keep_edges_distinct)
  note facts = run [folded N_def] l [folded N_def] n [folded N_def] normalizeSuccProbs_edges [OF n(1) l(2)]
  show ?thesis
    unfolding N_def [symmetric]
  proof (cases "N \<noteq> Successors (heap MF this)")
    case True
    then show "\<exists>ch MF'. CorrectExtraCFGEdges this DestA DestB IsCond MF = Inr (ch, MF') \<and> edges_ok MF' \<and>
        Successors (heap MF' this) = N \<and> distinct (Successors (heap MF' this)) \<and>
        (ch \<longleftrightarrow> Successors (heap MF' this) \<noteq> Successors (heap MF this))"
      using facts d by (intro exI [of _ True] exI [of _ MF2]) simp
  next
    case False
    then show "\<exists>ch MF'. CorrectExtraCFGEdges this DestA DestB IsCond MF = Inr (ch, MF') \<and> edges_ok MF' \<and>
        Successors (heap MF' this) = N \<and> distinct (Successors (heap MF' this)) \<and>
        (ch \<longleftrightarrow> Successors (heap MF' this) \<noteq> Successors (heap MF this))"
      using facts d by (intro exI [of _ False] exI [of _ MF1]) simp
  qed
qed

theorem CorrectExtraCFGEdges_keeps_wanted_witness:
  "\<exists>MF'. CorrectExtraCFGEdges 0 (Some 2) None False ex_edges = Inr (True, MF') \<and>
     Successors (heap MF' 0) = [2]"
proof -
  have "\<not> IsEHPad (heap ex_edges b)" for b
    by (simp add: ex_edges_def empty_block_def addSuccessor_def addPredecessor_def)
  then have k: "keep_edges (\<lambda>c. Some c = (if Some (2 :: nat) = None then next_in (layout ex_edges) 0 else Some 2) \<or>
      Some c = (if (None :: nat option) = None \<and> (Some (2 :: nat) = None \<or> False)
                then next_in (layout ex_edges) 0 else None) \<or> IsEHPad (heap ex_edges c)) []
      (Successors (heap ex_edges 0)) = [2]" by (simp add: ex_edges_ok(2))
  have "length (Successors (heap ex_edges 0)) < 2 ^ 32" "None = None \<or> Some (2 :: nat) \<noteq> None \<and> False"
    by (simp_all add: ex_edges_ok(2))
  from CorrectExtraCFGEdges_keeps_wanted [OF ex_edges_ok(1) this, unfolded k]
  obtain ch MF' where "CorrectExtraCFGEdges 0 (Some 2) None False ex_edges = Inr (ch, MF')"
    "Successors (heap MF' 0) = [2]" "ch \<longleftrightarrow> Successors (heap MF' 0) \<noteq> Successors (heap ex_edges 0)"
    by blast
  then show ?thesis by (simp add: ex_edges_ok(2))
qed

text \<open>
  The probability of an edge exists, is at most one, and is the recorded one; an edge without a
  known probability gets an even share of what the known ones leave, an edge of a block without
  probabilities an even share of one.
\<close>

theorem getSuccProbability_value:
  assumes "edges_ok MF" and "i < length (Successors (heap MF b))"
    and "length (Successors (heap MF b)) < 2 ^ 32"
    and "\<forall>p\<in>set (Probs (heap MF b)). isUnknown p \<or> unat p \<le> 2 ^ 31"
  shows "\<exists>p. getSuccProbability MF b i = Inr p \<and> unat p \<le> 2 ^ 31 \<and>
    unat p =
      (let Ps = Probs (heap MF b); n = length (Successors (heap MF b)) in
       if Ps = [] then (2 ^ 31 + n div 2) div n
       else if isUnknown (Ps ! i) then (2 ^ 31 - min (2 ^ 31) (known_sum Ps)) div unknowns Ps
       else unat (Ps ! i))"
  by (rule getSuccProbability_ok [OF assms])

theorem getSuccProbability_value_witness:
  "\<exists>p. getSuccProbability ex_edges 0 1 = Inr p \<and> unat p = 5"
  using getSuccProbability_value [of ex_edges 1 0] ex_edges_ok
  by (auto simp: isUnknown_def UnknownN_def)

end
