(* ===== verification/LiveIns.thy ===== *)
theory LiveIns
  imports Prelude "HOL-Library.Multiset"
begin

text \<open>
  The physical registers that are live into a block (\<open>removeLiveIn\<close>, \<open>isLiveIn\<close>,
  \<open>sortUniqueLiveIns\<close> and \<open>clearLiveIns\<close> of
  \<open>llvm/lib/CodeGen/MachineBasicBlock.cpp\<close>): a vector of registers with the lanes
  of each that are live. Registers are added at the end, possibly several times; sorting merges the
  entries of one register in place. An iterator is a position.
\<close>

unbundle bit_operations_syntax

section \<open>The vector and its operations\<close>

record RegisterMaskPair =
  PhysReg :: "16 word"
  LaneMask :: "32 word"

text \<open>The vectors of all blocks, and the property of the function that they are accurate.\<close>

record live_ins =
  TracksLiveness :: bool
  LiveIns :: "nat \<Rightarrow> RegisterMaskPair list"

definition getAll :: "32 word" where
  "getAll = NOT 0"

definition push_livein :: "RegisterMaskPair \<Rightarrow> RegisterMaskPair list \<Rightarrow> RegisterMaskPair list" where
  "push_livein LI L = L @ [LI]"

definition find_livein :: "16 word \<Rightarrow> RegisterMaskPair list \<Rightarrow> nat" where
  "find_livein Reg L = find_index Reg (map PhysReg L)"

definition removeLiveIn :: "16 word \<Rightarrow> 32 word \<Rightarrow> RegisterMaskPair list \<Rightarrow> RegisterMaskPair list" where
  "removeLiveIn Reg M L =
     (let I = find_livein Reg L in
      if I = length L then L
      else
        let L' = L[I := (L ! I)\<lparr>LaneMask := LaneMask (L ! I) AND NOT M\<rparr>]
        in if LaneMask (L' ! I) = 0 then erase_nth I L' else L')"

definition isLiveIn :: "16 word \<Rightarrow> 32 word \<Rightarrow> RegisterMaskPair list \<Rightarrow> bool" where
  "isLiveIn Reg M L =
     (let I = find_livein Reg L in I \<noteq> length L \<and> LaneMask (L ! I) AND M \<noteq> 0)"

definition clearLiveIns :: "RegisterMaskPair list \<Rightarrow> RegisterMaskPair list" where
  "clearLiveIns L = []"

text \<open>\<open>livein_begin\<close> asserts that the vectors are accurate before it gives access to them.\<close>

definition liveins :: "nat \<Rightarrow> live_ins \<Rightarrow> RegisterMaskPair list res" where
  "liveins b S =
     bind_res (assert_res ''Liveness information is accurate'' (TracksLiveness S)) (\<lambda>_. Inr (LiveIns S b))"

section \<open>Sorting and merging in place\<close>

text \<open>The inner loop from position \<open>J\<close>: the lanes of the following entries of the register.\<close>

function merge_lanes :: "RegisterMaskPair list \<Rightarrow> 16 word \<Rightarrow> nat \<Rightarrow> 32 word \<Rightarrow> nat \<times> 32 word" where
  "merge_lanes L Reg J M =
     (if J < length L \<and> PhysReg (L ! J) = Reg
      then merge_lanes L Reg (Suc J) (M OR LaneMask (L ! J)) else (J, M))"
  by pat_completeness auto

termination
  by (relation "measure (\<lambda>(L, Reg, J, M). length L - J)") auto

declare merge_lanes.simps [simp del]

lemma merge_lanes_run:
  "merge_lanes L Reg J M =
     (J + length (takeWhile (\<lambda>p. PhysReg p = Reg) (drop J L)),
      fold (\<lambda>p m. m OR LaneMask p) (takeWhile (\<lambda>p. PhysReg p = Reg) (drop J L)) M)"
proof (induction L Reg J M rule: merge_lanes.induct)
  case (1 L Reg J M)
  show ?case
  proof (cases "J < length L")
    case True
    then have "drop J L = L ! J # drop (Suc J) L" by (simp add: Cons_nth_drop_Suc)
    with 1 True show ?thesis by (subst merge_lanes.simps) simp
  next
    case False
    then show ?thesis by (subst merge_lanes.simps) simp
  qed
qed

function merge_liveins :: "RegisterMaskPair list \<Rightarrow> nat \<Rightarrow> nat \<Rightarrow> RegisterMaskPair list" where
  "merge_liveins L I Out =
     (if I < length L then
        case merge_lanes L (PhysReg (L ! I)) (Suc I) (LaneMask (L ! I)) of
          (J, M) \<Rightarrow> merge_liveins (L[Out := \<lparr>PhysReg = PhysReg (L ! I), LaneMask = M\<rparr>]) J (Suc Out)
      else take Out L)"
  by pat_completeness auto

termination
  by (relation "measure (\<lambda>(L, I, Out). length L - I)") (auto simp: merge_lanes_run)

declare merge_liveins.simps [simp del]

text \<open>\<open>std::sort\<close> is a parameter: which order it gives entries of one register is not specified.\<close>

definition sortUniqueLiveIns ::
  "(RegisterMaskPair list \<Rightarrow> RegisterMaskPair list) \<Rightarrow> RegisterMaskPair list \<Rightarrow> RegisterMaskPair list" where
  "sortUniqueLiveIns std_sort L = merge_liveins (std_sort L) 0 0"

definition sorts_by_reg :: "(RegisterMaskPair list \<Rightarrow> RegisterMaskPair list) \<Rightarrow> bool" where
  "sorts_by_reg std_sort \<longleftrightarrow> (\<forall>L. mset (std_sort L) = mset L \<and> sorted (map PhysReg (std_sort L)))"

section \<open>The set of lanes a vector stands for\<close>

definition lanes_of :: "16 word \<Rightarrow> RegisterMaskPair list \<Rightarrow> 32 word" where
  "lanes_of r L = fold (\<lambda>p m. m OR LaneMask p) (filter (\<lambda>p. PhysReg p = r) L) 0"

definition unique_regs :: "RegisterMaskPair list \<Rightarrow> bool" where
  "unique_regs L \<longleftrightarrow> sorted_wrt (<) (map PhysReg L)"

lemma bit_fold_or:
  "bit (fold (\<lambda>p m. m OR LaneMask p) L M) n \<longleftrightarrow> bit M n \<or> (\<exists>p\<in>set L. bit (LaneMask p) n)"
  by (induction L arbitrary: M) (auto simp: bit_or_iff)

lemma bit_lanes_of: "bit (lanes_of r L) n \<longleftrightarrow> (\<exists>p\<in>set L. PhysReg p = r \<and> bit (LaneMask p) n)"
  by (auto simp: lanes_of_def bit_fold_or)

lemma lanes_of_Nil [simp]: "lanes_of r [] = 0"
  by (simp add: lanes_of_def)

lemma lanes_of_Cons [simp]:
  "lanes_of r (p # L) = (if PhysReg p = r then LaneMask p OR lanes_of r L else lanes_of r L)"
  by (rule bit_eqI) (auto simp: bit_lanes_of bit_or_iff)

lemma lanes_of_append [simp]: "lanes_of r (L @ L') = lanes_of r L OR lanes_of r L'"
  by (rule bit_eqI) (auto simp: bit_lanes_of bit_or_iff)

lemma lanes_of_none: "r \<notin> PhysReg ` set L \<Longrightarrow> lanes_of r L = 0"
  by (induction L) auto

lemma lanes_of_mset: "mset L = mset L' \<Longrightarrow> lanes_of r L = lanes_of r L'"
  by (rule bit_eqI) (auto simp: bit_lanes_of dest: mset_eq_setD)

section \<open>The merging loop\<close>

lemma dropWhile_shorter [termination_simp]: "length (dropWhile P L) < Suc (length L)"
  by (simp add: less_Suc_eq_le length_dropWhile_le)

text \<open>What the loop computes, without positions.\<close>

fun merged :: "RegisterMaskPair list \<Rightarrow> RegisterMaskPair list" where
  "merged [] = []"
| "merged (p # L) =
     \<lparr>PhysReg = PhysReg p,
      LaneMask = fold (\<lambda>p m. m OR LaneMask p) (takeWhile (\<lambda>q. PhysReg q = PhysReg p) L) (LaneMask p)\<rparr>
     # merged (dropWhile (\<lambda>q. PhysReg q = PhysReg p) L)"

lemma merge_liveins_merged:
  assumes "Out \<le> I"
  shows "merge_liveins L I Out = take Out L @ merged (drop I L)"
  using assms
proof (induction L I Out rule: merge_liveins.induct)
  case (1 L I Out)
  show ?case
  proof (cases "I < length L")
    case False
    then show ?thesis by (subst merge_liveins.simps) simp
  next
    case True
    let ?same = "\<lambda>p. PhysReg p = PhysReg (L ! I)"
    let ?run = "takeWhile ?same (drop (Suc I) L)"
    let ?p = "\<lparr>PhysReg = PhysReg (L ! I), LaneMask = fold (\<lambda>p m. m OR LaneMask p) ?run (LaneMask (L ! I))\<rparr>"
    let ?J = "Suc I + length ?run"
    have lt: "Out < length L" "Out < ?J" using True 1(2) by simp_all
    have rest: "drop (Suc (I + length ?run)) L = dropWhile ?same (drop (Suc I) L)"
      by (simp add: dropWhile_eq_drop add.commute)
    have "merge_liveins L I Out = merge_liveins (L[Out := ?p]) ?J (Suc Out)"
      using True by (subst merge_liveins.simps) (simp add: merge_lanes_run)
    also have "\<dots> = take (Suc Out) (L[Out := ?p]) @ merged (drop ?J (L[Out := ?p]))"
      using True lt by (intro 1(1)) (simp_all add: merge_lanes_run)
    also have "take (Suc Out) (L[Out := ?p]) = take Out L @ [?p]"
      using lt by (simp add: take_Suc_conv_app_nth)
    also have "drop ?J (L[Out := ?p]) = drop ?J L" using lt by simp
    finally show ?thesis using True by (simp add: rest Cons_nth_drop_Suc [symmetric])
  qed
qed

lemma lanes_of_merged: "lanes_of r (merged L) = lanes_of r L"
proof (induction L rule: merged.induct)
  case (2 p L)
  let ?same = "\<lambda>q. PhysReg q = PhysReg p"
  have "lanes_of r L = lanes_of r (takeWhile ?same L) OR lanes_of r (dropWhile ?same L)"
    by (metis lanes_of_append takeWhile_dropWhile_id)
  moreover have "lanes_of r (takeWhile ?same L) = 0" if "PhysReg p \<noteq> r"
    using that by (intro lanes_of_none) (auto dest: set_takeWhileD)
  moreover have "fold (\<lambda>p m. m OR LaneMask p) (takeWhile ?same L) (LaneMask p) =
      LaneMask p OR lanes_of (PhysReg p) (takeWhile ?same L)"
    by (rule bit_eqI) (auto simp: bit_fold_or bit_lanes_of bit_or_iff dest: set_takeWhileD)
  ultimately show ?case using 2 by (auto simp: or.assoc)
qed simp

lemma regs_merged: "PhysReg ` set (merged L) = PhysReg ` set L"
proof (induction L rule: merged.induct)
  case (2 p L)
  let ?same = "\<lambda>q. PhysReg q = PhysReg p"
  have "set L = set (takeWhile ?same L) \<union> set (dropWhile ?same L)"
    by (metis set_append takeWhile_dropWhile_id)
  moreover have "PhysReg ` set (takeWhile ?same L) \<subseteq> {PhysReg p}" by (auto dest: set_takeWhileD)
  ultimately show ?case using 2 by auto
qed simp

lemma merged_sorted:
  assumes "sorted (map PhysReg L)"
  shows "unique_regs (merged L)"
  using assms
proof (induction L rule: merged.induct)
  case (2 p L)
  let ?rest = "dropWhile (\<lambda>q. PhysReg q = PhysReg p) L"
  from 2(2) have s: "sorted (map PhysReg L)" "\<forall>q\<in>set L. PhysReg p \<le> PhysReg q" by auto
  have "sorted (map PhysReg ?rest)" using s(1) by (simp add: dropWhile_eq_drop drop_map [symmetric] sorted_wrt_drop)
  then have "unique_regs (merged ?rest)" by (rule 2(1))
  moreover have "PhysReg p < PhysReg q" if "q \<in> set (merged ?rest)" for q
  proof -
    from that regs_merged [of ?rest] obtain q' where q': "q' \<in> set ?rest" "PhysReg q' = PhysReg q" by force
    then obtain h t where r: "?rest = h # t" by (cases ?rest) auto
    have "h \<in> set L" using set_dropWhileD [of h _ L] r by (metis list.set_intros(1))
    moreover have "PhysReg h \<noteq> PhysReg p" using hd_dropWhile [of "\<lambda>q. PhysReg q = PhysReg p" L] r by simp
    moreover note s(2)
    ultimately have "PhysReg p < PhysReg h" by (metis order_less_le)
    moreover have "PhysReg h \<le> PhysReg q'" using q'(1) \<open>sorted (map PhysReg ?rest)\<close> r by auto
    ultimately show ?thesis using q'(2) by simp
  qed
  ultimately show ?case by (simp add: unique_regs_def)
qed (simp add: unique_regs_def)

lemma sorted_unique:
  assumes "sorts_by_reg std_sort"
  shows "unique_regs (sortUniqueLiveIns std_sort L)" "lanes_of r (sortUniqueLiveIns std_sort L) = lanes_of r L"
    "PhysReg ` set (sortUniqueLiveIns std_sort L) = PhysReg ` set L"
proof -
  from assms have m: "mset (std_sort L) = mset L" and s: "sorted (map PhysReg (std_sort L))"
    by (auto simp: sorts_by_reg_def)
  have u: "sortUniqueLiveIns std_sort L = merged (std_sort L)"
    by (simp add: sortUniqueLiveIns_def merge_liveins_merged)
  show "unique_regs (sortUniqueLiveIns std_sort L)" unfolding u using s by (rule merged_sorted)
  show "lanes_of r (sortUniqueLiveIns std_sort L) = lanes_of r L"
    unfolding u lanes_of_merged using m by (rule lanes_of_mset)
  show "PhysReg ` set (sortUniqueLiveIns std_sort L) = PhysReg ` set L"
    unfolding u regs_merged using mset_eq_setD [OF m] by simp
qed

lemma sort_key_sorts: "sorts_by_reg (sort_key PhysReg)"
  by (simp add: sorts_by_reg_def)

section \<open>Vectors without repetition\<close>

lemma unique_regs_Cons [simp]:
  "unique_regs (p # L) \<longleftrightarrow> (\<forall>q\<in>set L. PhysReg p < PhysReg q) \<and> unique_regs L"
  by (simp add: unique_regs_def)

lemma unique_lanes_tail: "unique_regs (p # L) \<Longrightarrow> lanes_of (PhysReg p) L = 0"
  by (intro lanes_of_none) auto

text \<open>Such a vector is determined by its registers and their lanes.\<close>

lemma unique_regs_lanes:
  "unique_regs L \<Longrightarrow> L = map (\<lambda>r. \<lparr>PhysReg = r, LaneMask = lanes_of r L\<rparr>) (map PhysReg L)"
proof (induction L)
  case (Cons p L)
  from Cons.prems have "\<forall>q\<in>set L. PhysReg p \<noteq> PhysReg q" by auto
  then have "map (\<lambda>q. \<lparr>PhysReg = PhysReg q, LaneMask = lanes_of (PhysReg q) (p # L)\<rparr>) L =
      map (\<lambda>q. \<lparr>PhysReg = PhysReg q, LaneMask = lanes_of (PhysReg q) L\<rparr>) L" by auto
  with Cons unique_lanes_tail [OF Cons.prems] show ?case by (simp add: o_def)
qed simp

lemma unique_regs_eq:
  assumes "unique_regs L" "unique_regs L'" "PhysReg ` set L = PhysReg ` set L'"
    and "\<And>r. lanes_of r L = lanes_of r L'"
  shows "L = L'"
proof -
  have "sorted (map PhysReg xs)" "distinct (map PhysReg xs)" if "unique_regs xs" for xs
    using that by (auto simp: unique_regs_def strict_sorted_iff)
  with assms(1-3) have "map PhysReg L = map PhysReg L'" by (intro sorted_distinct_set_unique) auto
  moreover have "map (\<lambda>r. \<lparr>PhysReg = r, LaneMask = lanes_of r L\<rparr>) rs = map (\<lambda>r. \<lparr>PhysReg = r, LaneMask = lanes_of r L'\<rparr>) rs" for rs
    by (simp add: assms(4))
  ultimately show ?thesis
    by (subst unique_regs_lanes [OF assms(1)], subst unique_regs_lanes [OF assms(2)]) (simp only:)
qed

lemma find_livein_Cons:
  "find_livein Reg (p # L) = (if PhysReg p = Reg then 0 else Suc (find_livein Reg L))"
  by (simp add: find_livein_def)

lemma removeLiveIn_Cons [simp]:
  "removeLiveIn Reg M (p # L) =
     (if PhysReg p \<noteq> Reg then p # removeLiveIn Reg M L
      else if LaneMask p AND NOT M = 0 then L
      else p\<lparr>LaneMask := LaneMask p AND NOT M\<rparr> # L)"
proof -
  have "find_livein Reg L \<le> length L" using find_index_bound [of Reg "map PhysReg L"] by (simp add: find_livein_def)
  then show ?thesis by (auto simp: removeLiveIn_def find_livein_Cons Let_def erase_nth_def)
qed

lemma isLiveIn_Cons [simp]:
  "isLiveIn Reg M (p # L) = (if PhysReg p = Reg then LaneMask p AND M \<noteq> 0 else isLiveIn Reg M L)"
  by (simp add: isLiveIn_def find_livein_Cons Let_def)

lemma livein_Nil [simp]: "removeLiveIn Reg M [] = []" "\<not> isLiveIn Reg M []"
  by (simp_all add: removeLiveIn_def isLiveIn_def find_livein_def)

lemma isLiveIn_lanes: "unique_regs L \<Longrightarrow> isLiveIn Reg M L \<longleftrightarrow> lanes_of Reg L AND M \<noteq> 0"
proof (induction L)
  case (Cons p L)
  with unique_lanes_tail [OF Cons.prems] show ?case by auto
qed simp

lemma removeLiveIn_regs: "set (map PhysReg (removeLiveIn Reg M L)) \<subseteq> set (map PhysReg L)"
  by (induction L) auto

lemma removeLiveIn_unique: "unique_regs L \<Longrightarrow> unique_regs (removeLiveIn Reg M L)"
proof (induction L)
  case (Cons p L)
  have "\<forall>q\<in>set (removeLiveIn Reg M L). PhysReg p < PhysReg q"
  proof
    fix q assume "q \<in> set (removeLiveIn Reg M L)"
    with removeLiveIn_regs [of Reg M L] have "PhysReg q \<in> PhysReg ` set L" by auto
    with Cons.prems show "PhysReg p < PhysReg q" by auto
  qed
  with Cons show ?case by auto
qed (simp add: unique_regs_def)

lemma removeLiveIn_lanes:
  "unique_regs L \<Longrightarrow>
     lanes_of r (removeLiveIn Reg M L) = (if r = Reg then lanes_of r L AND NOT M else lanes_of r L)"
proof (induction L)
  case (Cons p L)
  with unique_lanes_tail [OF Cons.prems] show ?case by auto
qed simp

section \<open>Properties\<close>

text \<open>
  C18. Sorting leaves one entry for each register of the vector, in increasing order, with all lanes
  the vector has of it; the result does not depend on how the sort orders entries of one register.
\<close>

theorem sortUniqueLiveIns_merges:
  assumes "sorts_by_reg std_sort"
  shows "sorted_wrt (<) (map PhysReg (sortUniqueLiveIns std_sort L)) \<and>
    PhysReg ` set (sortUniqueLiveIns std_sort L) = PhysReg ` set L \<and>
    (\<forall>r. lanes_of r (sortUniqueLiveIns std_sort L) = lanes_of r L) \<and>
    sortUniqueLiveIns std_sort L = sortUniqueLiveIns (sort_key PhysReg) L"
proof -
  note s = sorted_unique [OF assms, where L = L] and k = sorted_unique [OF sort_key_sorts, where L = L]
  have "sortUniqueLiveIns std_sort L = sortUniqueLiveIns (sort_key PhysReg) L"
    by (rule unique_regs_eq) (simp_all only: s k)
  with s show ?thesis by (simp add: unique_regs_def)
qed

theorem sortUniqueLiveIns_merges_witness:
  "sortUniqueLiveIns (sort_key PhysReg)
     [\<lparr>PhysReg = 7, LaneMask = 4\<rparr>, \<lparr>PhysReg = 3, LaneMask = 1\<rparr>, \<lparr>PhysReg = 7, LaneMask = 1\<rparr>] =
   [\<lparr>PhysReg = 3, LaneMask = 1\<rparr>, \<lparr>PhysReg = 7, LaneMask = 5\<rparr>]"
  (is "sortUniqueLiveIns _ ?L = ?U")
proof -
  have "lanes_of r ?U = lanes_of r ?L" for r by simp
  moreover have "unique_regs ?U" "PhysReg ` set ?U = PhysReg ` set ?L" by (auto simp: unique_regs_def)
  ultimately show ?thesis
    using sortUniqueLiveIns_merges [OF sort_key_sorts, of ?L]
    by (intro unique_regs_eq) (auto simp: unique_regs_def)
qed

text \<open>
  C27. After sorting, \<open>isLiveIn\<close> finds exactly the lanes that were added, and \<open>removeLiveIn\<close>
  removes exactly the given lanes of one register; no entry of a register is overlooked.
\<close>

theorem removeLiveIn_exact:
  assumes "sorts_by_reg std_sort"
  shows "isLiveIn r N (removeLiveIn q M (sortUniqueLiveIns std_sort L)) \<longleftrightarrow>
    (\<exists>p\<in>set L. PhysReg p = r \<and> LaneMask p AND (if r = q then N AND NOT M else N) \<noteq> 0)"
proof -
  let ?U = "sortUniqueLiveIns std_sort L" and ?N = "if r = q then N AND NOT M else N"
  have u: "unique_regs (removeLiveIn q M ?U)" using sorted_unique [OF assms] removeLiveIn_unique by blast
  have "lanes_of r (removeLiveIn q M ?U) AND N = lanes_of r L AND ?N"
    using removeLiveIn_lanes [OF sorted_unique(1) [OF assms]] sorted_unique(2) [OF assms]
    by (simp add: ac_simps)
  moreover have "lanes_of r L AND ?N \<noteq> 0 \<longleftrightarrow> (\<exists>p\<in>set L. PhysReg p = r \<and> LaneMask p AND ?N \<noteq> 0)"
    by (auto simp: bit_eq_iff bit_and_iff bit_lanes_of)
  ultimately show ?thesis using isLiveIn_lanes [OF u] by simp
qed

theorem removeLiveIn_exact_witness:
  "\<not> isLiveIn 7 1 (removeLiveIn 7 1 (sortUniqueLiveIns (sort_key PhysReg)
     [\<lparr>PhysReg = 7, LaneMask = 1\<rparr>, \<lparr>PhysReg = 7, LaneMask = 1\<rparr>]))"
  using removeLiveIn_exact [OF sort_key_sorts, of 7 1 7 1
      "[\<lparr>PhysReg = 7, LaneMask = 1\<rparr>, \<lparr>PhysReg = 7, LaneMask = 1\<rparr>]"] by simp

end
