(* ===== verification/EdgeSplit.thy ===== *)
theory EdgeSplit
  imports TerminatorUpdate EdgeTransfer LiveIns
begin

text \<open>
  Splitting an edge of the control-flow graph (\<open>SplitCriticalEdge\<close> and
  \<open>canSplitCriticalEdge\<close> of \<open>llvm/lib/CodeGen/MachineBasicBlock.cpp\<close>): a new block behind
  the source takes over the edge. The analyses a pass may keep (live intervals, live variables,
  dominators and loops) are taken to be unavailable, so the code that updates them does not run, and
  blocks contain no PHI instructions, as after register allocation.
\<close>

section \<open>The operation\<close>

text \<open>The constructor of \<open>TargetMachine\<close> clears the flag and no file of the X86 back end sets it.\<close>

definition requiresStructuredCFG :: bool where
  "requiresStructuredCFG = False"

definition canSplitCriticalEdge :: "nat \<Rightarrow> nat \<Rightarrow> mfunc \<Rightarrow> bool res" where
  "canSplitCriticalEdge this Succ MF =
     (if IsEHPad (heap MF Succ) then Inr False
      else if requiresStructuredCFG then Inr False
      else bind_res (analyzeBranch MF this) (\<lambda>r.
        case r of
          None \<Rightarrow> Inr False
        | Some bi \<Rightarrow> Inr (\<not> (TBB bi \<noteq> None \<and> TBB bi = FBB bi))))"

text \<open>A new block, which has no live-ins yet, is inserted behind \<open>this\<close>.\<close>

definition split_insert :: "nat \<Rightarrow> mfunc \<Rightarrow> live_ins \<Rightarrow> nat \<times> mfunc \<times> live_ins" where
  "split_insert this MF S =
     (case CreateMachineBasicBlock MF of (NMBB, MF1) \<Rightarrow>
        (NMBB, mf_insert (next_in (layout MF1) this) NMBB MF1,
         S\<lparr>LiveIns := (LiveIns S)(NMBB := clearLiveIns (LiveIns S NMBB))\<rparr>))"

definition split_jump :: "nat \<Rightarrow> nat \<Rightarrow> mfunc \<Rightarrow> mfunc res" where
  "split_jump NMBB Succ MF =
     (let MF1 = addSuccessor NMBB Succ UnknownN MF in
      if \<not> isLayoutSuccessor MF1 NMBB Succ
      then bind_res (insertBranch NMBB (Some Succ) None [] MF1) (\<lambda>r. Inr (snd r))
      else Inr MF1)"

definition split_liveins :: "nat \<Rightarrow> nat \<Rightarrow> live_ins \<Rightarrow> live_ins res" where
  "split_liveins NMBB Succ S =
     bind_res (liveins Succ S) (\<lambda>LIs.
       Inr (S\<lparr>LiveIns := (LiveIns S)(NMBB := foldl (\<lambda>L LI. push_livein LI L) (LiveIns S NMBB) LIs)\<rparr>))"

definition SplitCriticalEdge ::
  "nat \<Rightarrow> nat \<Rightarrow> mfunc \<Rightarrow> live_ins \<Rightarrow> (nat option \<times> mfunc \<times> live_ins) res" where
  "SplitCriticalEdge this Succ MF S =
     bind_res (canSplitCriticalEdge this Succ MF) (\<lambda>can.
       if \<not> can then Inr (None, MF, S)
       else case split_insert this MF S of (NMBB, MF1, S1) \<Rightarrow>
         bind_res (ReplaceUsesOfBlockWith this Succ NMBB MF1) (\<lambda>MF2.
         bind_res (updateTerminator this MF2) (\<lambda>MF3.
         bind_res (split_jump NMBB Succ MF3) (\<lambda>MF4.
         bind_res (split_liveins NMBB Succ S1) (\<lambda>S2.
           Inr (Some NMBB, MF4, S2))))))"

section \<open>Renaming a destination\<close>

definition ren :: "nat \<Rightarrow> nat \<Rightarrow> nat \<Rightarrow> nat" where
  "ren Old New b = (if b = Old then New else b)"

lemma ren_eq: "x \<noteq> New \<Longrightarrow> y \<noteq> New \<Longrightarrow> ren Old New x = ren Old New y \<longleftrightarrow> x = y"
  by (auto simp: ren_def)

lemma ren_opt_eq:
  "p \<noteq> Some New \<Longrightarrow> q \<noteq> Some New \<Longrightarrow> map_option (ren Old New) p = map_option (ren Old New) q \<longleftrightarrow> p = q"
  by (cases p; cases q) (auto simp: ren_eq)

lemma opc_retarget [simp]: "opc (retarget Old New I) = opc I"
  by (simp add: retarget_def)

lemma retarget_flags [simp]:
  "isTerminator (retarget Old New I) = isTerminator I"
  by (simp add: isTerminator_def)

lemma jump_target_retarget [simp]:
  "jump_target (retarget Old New I) = map_option (ren Old New) (jump_target I)"
proof (cases "ops I")
  case (Cons op rest)
  then show ?thesis
    by (cases op) (simp_all add: jump_target_def retarget_def isMBB_def getMBB_def ren_def)
qed (simp add: jump_target_def retarget_def)

lemma retarget_branches [simp]:
  "jcc (retarget Old New I) = jcc I" "jmp (retarget Old New I) = jmp I"
  by (simp_all add: jcc_def jmp_def)

lemma retarget_tail:
  assumes "branch_tail T"
  shows "branch_tail (map (retarget Old New) T)"
proof -
  from assms obtain C J where T: "T = C @ J" "list_all jcc C" and J: "J = [] \<or> (\<exists>j. J = [j] \<and> jmp j)"
    by (auto simp: branch_tail_def)
  from J have "map (retarget Old New) J = [] \<or> (\<exists>j. map (retarget Old New) J = [j] \<and> jmp j)"
    by (elim disjE exE conjE) simp_all
  moreover have "list_all jcc (map (retarget Old New) C)" using T(2) by (simp add: list_all_iff)
  ultimately show ?thesis unfolding branch_tail_def
    by (intro exI [of _ "map (retarget Old New) C"] exI [of _ "map (retarget Old New) J"] conjI) (simp_all add: T(1))
qed

lemma branch_dest_retarget:
  "branch_dest fl (map_option (ren Old New) nxt) (map (retarget Old New) T) =
     map_option (ren Old New) (branch_dest fl nxt T)"
  by (induction T) simp_all

text \<open>Past its last branch a block goes to the next block, or its destination does not depend on it.\<close>

lemma branch_dest_next: "branch_dest fl None T = Some d \<Longrightarrow> branch_dest fl nxt T = Some d"
  by (induction T) (auto split: if_splits)

lemma branch_dest_mem:
  "branch_dest fl nxt T = Some d \<Longrightarrow> nxt = Some d \<or> (\<exists>I\<in>set T. jump_target I = Some d)"
  by (induction T) (auto split: if_splits)

lemma replace_uses_split:
  assumes "straight_line body" "branch_tail T"
  shows "rev (replace_uses Old New (rev (body @ T))) = body @ map (retarget Old New) T"
proof -
  have T: "isTerminator I" if "I \<in> set (rev T)" for I
    using that branch_tail_all [OF assms(2)] jcc_flags(2) jmp_flags(2) by (auto simp: list_all_iff)
  have body: "takeWhile isTerminator (rev body) = []" "dropWhile isTerminator (rev body) = rev body"
    using assms(1) by (cases "rev body"; force simp: straight_line_def list_all_iff)+
  have "takeWhile isTerminator (rev T @ rev body) = rev T" "dropWhile isTerminator (rev T @ rev body) = rev body"
    using takeWhile_append2 [of "rev T" isTerminator "rev body"] dropWhile_append2 [of "rev T" isTerminator "rev body"]
      T body by simp_all
  then show ?thesis by (simp add: replace_uses_eq rev_map [symmetric])
qed

section \<open>The analysis of the renamed block\<close>

text \<open>\<open>New\<close> is a block nothing refers to, \<open>MF'\<close> differs from \<open>MF\<close> by the renaming.\<close>

lemma fallthrough_loop_ren:
  assumes "New \<notin> set S" "T \<noteq> Some New" "r \<noteq> Some New"
    and "\<And>x. x \<in> set S \<Longrightarrow> IsEHPad (heap MF' (ren Old New x)) = IsEHPad (heap MF x)"
  shows "getFallThroughMBB_loop MF' (map_option (ren Old New) T) (map_option (ren Old New) r) (map (ren Old New) S) =
    map_option (ren Old New) (getFallThroughMBB_loop MF T r S)"
  using assms
proof (induction S arbitrary: r)
  case (Cons x S)
  have "Some (ren Old New x) = map_option (ren Old New) T \<longleftrightarrow> Some x = T"
    using ren_opt_eq [of "Some x" New T Old] Cons.prems(1,2) by simp
  moreover have "map_option (ren Old New) r = map_option (ren Old New) T \<longleftrightarrow> r = T"
    using ren_opt_eq [of r New T Old] Cons.prems by simp
  moreover have "IsEHPad (heap MF' (ren Old New x)) = IsEHPad (heap MF x)" using Cons.prems(4) by simp
  moreover have "map_option (ren Old New) r = None \<longleftrightarrow> r = None" by simp
  ultimately show ?case using Cons.IH [of r] Cons.IH [of "Some x"] Cons.prems by (cases r) auto
qed simp

lemma fallthrough_loop_mem:
  "getFallThroughMBB_loop MF T r S = Some x \<Longrightarrow> r = Some x \<or> x \<in> set S"
  by (induction S arbitrary: r) (auto split: if_splits)

definition renamed :: "nat \<Rightarrow> nat \<Rightarrow> nat \<Rightarrow> mfunc \<Rightarrow> mfunc \<Rightarrow> bool" where
  "renamed Old New b MF MF' \<longleftrightarrow>
     New \<notin> set (Successors (heap MF b)) \<and>
     Successors (heap MF' b) = map (ren Old New) (Successors (heap MF b)) \<and>
     (\<forall>x\<in>set (Successors (heap MF b)). IsEHPad (heap MF' (ren Old New x)) = IsEHPad (heap MF x))"

lemma fallthrough_ren:
  assumes "renamed Old New b MF MF'" "T \<noteq> Some New"
  shows "getFallThroughMBB MF' b (map_option (ren Old New) T) = map_option (ren Old New) (getFallThroughMBB MF b T)"
    and "getFallThroughMBB MF b T \<noteq> Some New"
  using fallthrough_loop_ren [of New "Successors (heap MF b)" T None MF' Old MF] assms
    fallthrough_loop_mem [of MF T None "Successors (heap MF b)" New]
  by (auto simp: renamed_def getFallThroughMBB_def)

definition ren_info :: "nat \<Rightarrow> nat \<Rightarrow> branch_info \<Rightarrow> branch_info" where
  "ren_info Old New bi =
     bi\<lparr>TBB := map_option (ren Old New) (TBB bi), FBB := map_option (ren Old New) (FBB bi),
        CondBranches := map (retarget Old New) (CondBranches bi)\<rparr>"

fun ren_step :: "nat \<Rightarrow> nat \<Rightarrow> ab_step \<Rightarrow> ab_step" where
  "ren_step Old New (Continue bi) = Continue (ren_info Old New bi)"
| "ren_step Old New Break = Break"
| "ren_step Old New GiveUp = GiveUp"

definition info_avoids :: "nat \<Rightarrow> branch_info \<Rightarrow> bool" where
  "info_avoids New bi \<longleftrightarrow> TBB bi \<noteq> Some New \<and> FBB bi \<noteq> Some New"

lemma ren_info_sel [simp]:
  "TBB (ren_info Old New bi) = map_option (ren Old New) (TBB bi)"
  "FBB (ren_info Old New bi) = map_option (ren Old New) (FBB bi)"
  "Cond (ren_info Old New bi) = Cond bi"
  "CondBranches (ren_info Old New bi) = map (retarget Old New) (CondBranches bi)"
  by (simp_all add: ren_info_def)

definition false_target :: "mfunc \<Rightarrow> nat \<Rightarrow> branch_info \<Rightarrow> nat option" where
  "false_target MF b bi = (case FBB bi of Some f \<Rightarrow> Some f | None \<Rightarrow> getFallThroughMBB MF b (TBB bi))"

lemma false_target_ren:
  assumes "renamed Old New b MF MF'" "info_avoids New bi"
  shows "false_target MF' b (ren_info Old New bi) = map_option (ren Old New) (false_target MF b bi)"
    and "false_target MF b bi \<noteq> Some New"
  using fallthrough_ren [OF assms(1), of "TBB bi"] assms(2)
  by (auto simp: false_target_def info_avoids_def split: option.splits)

lemma next_cond_ren:
  assumes "renamed Old New b MF MF'" "info_avoids New bi" "t \<noteq> New"
  shows "AnalyzeBranch_next_cond MF' b (retarget Old New I) c (ren Old New t) (ren_info Old New bi) =
    ren_step Old New (AnalyzeBranch_next_cond MF b I c t bi)"
proof -
  let ?bi = "ren_info Old New bi"
  have T: "TBB ?bi = Some (ren Old New t) \<longleftrightarrow> TBB bi = Some t"
    using ren_opt_eq [of "TBB bi" New "Some t" Old] assms(2,3) by (simp add: info_avoids_def)
  have F: "Some (ren Old New t) = false_target MF' b ?bi \<longleftrightarrow> Some t = false_target MF b bi"
    using ren_opt_eq [of "Some t" New "false_target MF b bi" Old] assms(3) false_target_ren [OF assms(1,2)] by simp
  have upd: "ren_info Old New (bi\<lparr>Cond := C, CondBranches := CondBranches bi @ [I]\<rparr>) =
      ?bi\<lparr>Cond := C, CondBranches := CondBranches ?bi @ [retarget Old New I]\<rparr>" for C
    by (simp add: ren_info_def)
  show ?thesis
    unfolding AnalyzeBranch_next_cond_def Let_def false_target_def [symmetric] T F ren_info_sel(3) if_distrib [of "ren_step Old New"]
      ren_step.simps upd by (rule refl)
qed

text \<open>The steps of the analysis commute with the renaming.\<close>

lemma step_jcc:
  assumes "jcc I" "jump_target I = Some t"
  shows "AnalyzeBranch_step MF b I bi =
    Inr (if Cond bi = [] then
           Continue (bi\<lparr>FBB := TBB bi, TBB := Some t, Cond := [getCondFromBranchOpc (opc I)],
                       CondBranches := CondBranches bi @ [I]\<rparr>)
         else AnalyzeBranch_next_cond MF b I (getCondFromBranchOpc (opc I)) t bi)"
  using jcc_target [OF assms(1)] jcc_flags [OF assms(1)] assms
  by (auto simp: AnalyzeBranch_step_def isUnpredicatedTerminator_def Let_def jcc_def getMBB_def)

lemma step_jmp_any:
  assumes "jmp I" "jump_target I = Some t"
  shows "AnalyzeBranch_step MF b I bi = Inr (Continue (bi\<lparr>TBB := Some t\<rparr>))"
  using jmp_target [OF assms(1)] jmp_flags [OF assms(1)] assms
  by (auto simp: AnalyzeBranch_step_def isUnpredicatedTerminator_def Let_def getMBB_def)

lemma next_cond_avoids:
  "AnalyzeBranch_next_cond MF b I c t bi = Continue bi' \<Longrightarrow> info_avoids New bi \<Longrightarrow> info_avoids New bi'"
  using next_cond_stable [of MF b I c t bi bi'] by (simp add: info_avoids_def)

lemma step_ren:
  assumes "renamed Old New b MF MF'" "jcc I \<or> jmp I" "jump_target I \<noteq> Some New" "info_avoids New bi"
  shows "\<exists>r. AnalyzeBranch_step MF b I bi = Inr r \<and> r \<noteq> Break \<and>
    AnalyzeBranch_step MF' b (retarget Old New I) (ren_info Old New bi) = Inr (ren_step Old New r) \<and>
    (\<forall>bi'. r = Continue bi' \<longrightarrow> info_avoids New bi')"
proof -
  from assms(2) jcc_target jmp_target obtain t where t: "jump_target I = Some t" by blast
  with assms(3) have tn: "t \<noteq> New" by simp
  from t have t': "jump_target (retarget Old New I) = Some (ren Old New t)" by simp
  from assms(2) show ?thesis
  proof
    assume j: "jmp I"
    from step_jmp_any [OF j t] step_jmp_any [OF _ t', of MF' b "ren_info Old New bi"] j tn assms(4) show ?thesis
      by (simp add: ren_info_def info_avoids_def)
  next
    assume j: "jcc I"
    have s': "AnalyzeBranch_step MF' b (retarget Old New I) (ren_info Old New bi) =
      Inr (if Cond bi = [] then
             Continue (ren_info Old New bi\<lparr>FBB := TBB (ren_info Old New bi), TBB := Some (ren Old New t),
               Cond := [getCondFromBranchOpc (opc I)],
               CondBranches := CondBranches (ren_info Old New bi) @ [retarget Old New I]\<rparr>)
           else AnalyzeBranch_next_cond MF' b (retarget Old New I) (getCondFromBranchOpc (opc I)) (ren Old New t)
             (ren_info Old New bi))"
      using step_jcc [OF _ t', of MF' b "ren_info Old New bi"] j by simp
    show ?thesis
    proof (cases "Cond bi = []")
      case True
      with step_jcc [OF j t, of MF b bi] s' tn assms(4) show ?thesis
        by (simp add: ren_info_def info_avoids_def)
    next
      case False
      have "AnalyzeBranch_next_cond MF b I c t bi \<noteq> Break" for c
        by (simp add: AnalyzeBranch_next_cond_def Let_def)
      with False step_jcc [OF j t, of MF b bi] s' next_cond_ren [OF assms(1,4) tn] next_cond_avoids [OF _ assms(4)]
      show ?thesis by simp
    qed
  qed
qed

lemma loop_ren:
  assumes "renamed Old New b MF MF'" "list_all (\<lambda>I. jcc I \<or> jmp I) R" "\<forall>I\<in>set R. jump_target I \<noteq> Some New"
    and "straight_line is" "info_avoids New bi" "AnalyzeBranch_loop MF b (R @ is) bi = Inr (Some bi')"
  shows "AnalyzeBranch_loop MF' b (map (retarget Old New) R @ is) (ren_info Old New bi) =
    Inr (Some (ren_info Old New bi')) \<and> info_avoids New bi'"
  using assms
proof (induction R arbitrary: bi)
  case Nil
  then show ?case by (simp add: loop_straight)
next
  case (Cons I R)
  from step_ren [OF Cons.prems(1), of I bi] Cons.prems(2,3,5) obtain r where
    r: "AnalyzeBranch_step MF b I bi = Inr r" "r \<noteq> Break"
      "AnalyzeBranch_step MF' b (retarget Old New I) (ren_info Old New bi) = Inr (ren_step Old New r)"
      "\<forall>bi'. r = Continue bi' \<longrightarrow> info_avoids New bi'" by auto
  show ?case
  proof (cases r)
    case (Continue bi1)
    with Cons.IH [of bi1] Cons.prems r show ?thesis by simp
  qed (use r Cons.prems in simp_all)
qed

lemma analyzeBranch_ren:
  assumes "renamed Old New b MF MF'" "block_split MF b body T" "\<forall>I\<in>set T. jump_target I \<noteq> Some New"
    and "analyzeBranch MF b = Inr (Some bi)" "insts (heap MF' b) = body @ map (retarget Old New) T"
  shows "analyzeBranch MF' b = Inr (Some (ren_info Old New bi))" "info_avoids New bi"
proof -
  from assms(2) have sp: "insts (heap MF b) = body @ T" "straight_line (rev body)"
    "list_all (\<lambda>I. jcc I \<or> jmp I) (rev T)"
    using branch_tail_all by (auto simp: block_split_def straight_line_def)
  have 0: "ren_info Old New no_branch_info = no_branch_info" "info_avoids New no_branch_info"
    by (simp_all add: ren_info_def no_branch_info_def info_avoids_def)
  from loop_ren [OF assms(1) sp(3) _ sp(2) 0(2), of bi] assms(3,4) sp(1)
  show "analyzeBranch MF' b = Inr (Some (ren_info Old New bi))" "info_avoids New bi"
    by (simp_all add: analyzeBranch_def assms(5) 0(1) rev_map)
qed

lemma succs_fit_ren:
  assumes "renamed Old New b MF MF'" "succs_fit MF b g bi" "info_avoids New bi" "g \<noteq> New"
  shows "succs_fit MF' b (ren Old New g) (ren_info Old New bi)"
proof -
  have ps: "plain_succs MF' b = map (ren Old New) (plain_succs MF b)"
    using assms(1) unfolding renamed_def plain_succs_def
    by (simp add: filter_map o_def cong: filter_cong)
  show ?thesis
  proof (cases "TBB bi")
    case None
    with assms(2) show ?thesis by (simp add: succs_fit_def ps)
  next
    case (Some t)
    have "t \<noteq> New" using assms(3) Some by (auto simp: info_avoids_def)
    show ?thesis
    proof (cases "FBB bi")
      case None
      with Some assms(2,4) \<open>t \<noteq> New\<close> show ?thesis
        by (cases "Cond bi") (auto simp: succs_fit_def ps Let_def ren_eq)
    next
      case (Some f)
      with \<open>TBB bi = Some t\<close> assms(2,3) \<open>t \<noteq> New\<close> show ?thesis
        by (cases "Cond bi") (auto simp: succs_fit_def ps Let_def ren_eq info_avoids_def)
    qed
  qed
qed

end
