(* ===== verification/AnalyzeModify.thy ===== *)
theory AnalyzeModify
  imports EdgeSplit
begin

text \<open>
  \<open>AnalyzeBranchImpl\<close> of \<open>llvm/lib/Target/X86/X86InstrInfo.cpp\<close> with
  \<open>AllowModify = true\<close>: while it reads the branches of a block from the end it deletes dead
  code behind a jump and jumps to the next block, and inverts a conditional branch around a jump.
\<close>

section \<open>The analysis\<close>

text \<open>
  One turn of the loop at the instruction at position \<open>i\<close>. It continues above a position, with
  \<open>UnCondBrIter\<close>, or returns; an analysis that gives up (\<open>return true\<close>) is \<open>None\<close>. The
  vector of conditional branches is not cleared when the conditions are, as in the source.
\<close>

datatype modify_step =
    Above nat "nat option" branch_info mfunc
  | Return "branch_info option" mfunc

definition branch_target :: "minstr \<Rightarrow> nat res" where
  "branch_target I = bind_res (getOperand I 0) getMBB"

text \<open>A jump: what follows it is deleted, and the jump itself if it leads to the next block.\<close>

definition modify_jump :: "nat \<Rightarrow> nat \<Rightarrow> branch_info \<Rightarrow> mfunc \<Rightarrow> modify_step res" where
  "modify_jump MBB i bi MF =
     (let MF1 = upd_block MBB (\<lambda>B. B\<lparr>insts := take (Suc i) (insts B)\<rparr>) MF;
          bi1 = bi\<lparr>Cond := [], FBB := None\<rparr> in
      bind_res (branch_target (insts (heap MF MBB) ! i)) (\<lambda>t.
        if isLayoutSuccessor MF1 MBB t
        then (let MF2 = erase_at MBB i MF1 in
              Inr (Above (length (insts (heap MF2 MBB))) None (bi1\<lparr>TBB := None\<rparr>) MF2))
        else Inr (Above i (Some i) (bi1\<lparr>TBB := Some t\<rparr>) MF1)))"

text \<open>A conditional branch to the next block around the jump at position \<open>u\<close>.\<close>

definition modify_invert :: "nat \<Rightarrow> nat \<Rightarrow> nat \<Rightarrow> cond_code \<Rightarrow> nat \<Rightarrow> branch_info \<Rightarrow> mfunc \<Rightarrow> modify_step res" where
  "modify_invert MBB i u BranchCode TargetBB bi MF =
     bind_res (GetOppositeBranchCondition BranchCode) (\<lambda>c.
     bind_res (GetCondBranchFromCond c) (\<lambda>JNCC.
     bind_res (branch_target (insts (heap MF MBB) ! u)) (\<lambda>t.
       let MF1 = BuildMI_at MBB u (mk_branch JNCC t) MF;
           MF2 = BuildMI_at MBB (Suc u) (mk_branch JMP_1 TargetBB) MF1;
           MF3 = erase_at MBB i MF2;
           MF4 = erase_at MBB (Suc u) MF3
       in Inr (Above (length (insts (heap MF4 MBB))) None bi MF4))))"

definition AnalyzeBranch_modify_step ::
  "nat \<Rightarrow> nat \<Rightarrow> nat option \<Rightarrow> branch_info \<Rightarrow> mfunc \<Rightarrow> modify_step res" where
  "AnalyzeBranch_modify_step MBB i UnCondBr bi MF =
     (let I = insts (heap MF MBB) ! i in
      if isDebugValue I then Inr (Above i UnCondBr bi MF)
      else if \<not> isUnpredicatedTerminator I then Inr (Return (Some bi) MF)
      else if \<not> isBranch I then Inr (Return None MF)
      else if opc I = JMP_1 then modify_jump MBB i bi MF
      else
        let BranchCode = getCondFromBranchOpc (opc I) in
        if BranchCode = COND_INVALID then Inr (Return None MF)
        else bind_res (branch_target I) (\<lambda>NewTBB.
          if Cond bi = [] then
            (case UnCondBr of
               Some u \<Rightarrow>
                 if isLayoutSuccessor MF MBB NewTBB then modify_invert MBB i u BranchCode NewTBB bi MF
                 else Inr (Above i UnCondBr (bi\<lparr>FBB := TBB bi, TBB := Some NewTBB, Cond := [BranchCode],
                        CondBranches := CondBranches bi @ [I]\<rparr>) MF)
             | None \<Rightarrow> Inr (Above i UnCondBr (bi\<lparr>FBB := TBB bi, TBB := Some NewTBB, Cond := [BranchCode],
                        CondBranches := CondBranches bi @ [I]\<rparr>) MF))
          else
            (case AnalyzeBranch_next_cond MF MBB I BranchCode NewTBB bi of
               Continue bi' \<Rightarrow> Inr (Above i UnCondBr bi' MF)
             | Break \<Rightarrow> Inr (Return (Some bi) MF)
             | GiveUp \<Rightarrow> Inr (Return None MF))))"

text \<open>The loop starts again from the end after a change, so that it returns has to be shown.\<close>

partial_function (option) AnalyzeBranch_modify_loop ::
  "nat \<Rightarrow> nat \<Rightarrow> nat option \<Rightarrow> branch_info \<Rightarrow> mfunc \<Rightarrow> (branch_info option \<times> mfunc) res option" where
  "AnalyzeBranch_modify_loop MBB I UnCondBr bi MF =
     (if I = 0 then Some (Inr (Some bi, MF))
      else case AnalyzeBranch_modify_step MBB (I - 1) UnCondBr bi MF of
        Inl e \<Rightarrow> Some (Inl e)
      | Inr st \<Rightarrow>
          (case st of
             Return r MF' \<Rightarrow> Some (Inr (r, MF'))
           | Above I' UnCondBr' bi' MF' \<Rightarrow> AnalyzeBranch_modify_loop MBB I' UnCondBr' bi' MF'))"

definition analyzeBranch_modify :: "nat \<Rightarrow> mfunc \<Rightarrow> (branch_info option \<times> mfunc) res option" where
  "analyzeBranch_modify MBB MF =
     AnalyzeBranch_modify_loop MBB (length (insts (heap MF MBB))) None no_branch_info MF"

end
