(* ===== verification/AnalyzeModifyProps.thy ===== *)
theory AnalyzeModifyProps
  imports AnalyzeModify
begin

text \<open>
  The modifying analysis of AnalyzeModify.thy returns, deletes or inverts branches only so that the
  block still leads where it led, and reports what the plain analysis finds in the new block.
\<close>

section \<open>Comparison with the analysis that does not modify\<close>

definition dests :: "branch_info \<Rightarrow> nat option \<times> nat option \<times> cond_code list" where
  "dests bi = (TBB bi, FBB bi, Cond bi)"

text \<open>The analysis of \<open>is\<close> from \<open>bi\<close>, up to the list of conditional branches.\<close>

definition dests_after :: "mfunc \<Rightarrow> nat \<Rightarrow> minstr list \<Rightarrow> branch_info \<Rightarrow> (nat option \<times> nat option \<times> cond_code list) option res" where
  "dests_after MF b is bi = map_sum id (map_option dests) (AnalyzeBranch_loop MF b is bi)"

fun dests_step :: "ab_step \<Rightarrow> (nat option \<times> nat option \<times> cond_code list) option option" where
  "dests_step (Continue bi) = Some (Some (dests bi))"
| "dests_step Break = Some None"
| "dests_step GiveUp = None"

lemma dests_eq: "dests bi = dests bi' \<longleftrightarrow> TBB bi = TBB bi' \<and> FBB bi = FBB bi' \<and> Cond bi = Cond bi'"
  by (simp add: dests_def)

lemma next_cond_dests:
  assumes "dests bi = dests bi'"
  shows "dests_step (AnalyzeBranch_next_cond MF b I c t bi) = dests_step (AnalyzeBranch_next_cond MF b I c t bi')"
proof -
  have e: "TBB bi = TBB bi'" "FBB bi = FBB bi'" "Cond bi = Cond bi'" using assms by (simp_all add: dests_eq)
  have d: "dests_step (Continue bi) = Some (Some (TBB bi', FBB bi', Cond bi'))"
    "dests_step (Continue (bi\<lparr>Cond := C, CondBranches := X\<rparr>)) = Some (Some (TBB bi', FBB bi', C))"
    "dests_step (Continue bi') = Some (Some (TBB bi', FBB bi', Cond bi'))"
    "dests_step (Continue (bi'\<lparr>Cond := C, CondBranches := X\<rparr>)) = Some (Some (TBB bi', FBB bi', C))" for C X
    using e by (simp_all add: dests_def)
  show ?thesis
    unfolding AnalyzeBranch_next_cond_def Let_def if_distrib [of dests_step] d e by (rule refl)
qed

lemma step_dests:
  assumes "dests bi = dests bi'"
  shows "map_sum id dests_step (AnalyzeBranch_step MF b I bi) = map_sum id dests_step (AnalyzeBranch_step MF b I bi')"
proof -
  have e: "TBB bi = TBB bi'" "FBB bi = FBB bi'" "Cond bi = Cond bi'" using assms by (simp_all add: dests_eq)
  show ?thesis
  proof (cases "bind_res (getOperand I 0) getMBB")
    case (Inl err)
    then have "bind_res (getOperand I 0) (\<lambda>op0. bind_res (getMBB op0) f) = Inl err" for f :: "nat \<Rightarrow> ab_step res"
      by (auto simp: bind_res_def split: sum.splits)
    then show ?thesis using assms by (simp add: AnalyzeBranch_step_def Let_def)
  next
    case (Inr t)
    then have "bind_res (getOperand I 0) (\<lambda>op0. bind_res (getMBB op0) f) = f t" for f :: "nat \<Rightarrow> ab_step res"
      by auto
    then show ?thesis using assms next_cond_dests [OF assms, of MF b I "getCondFromBranchOpc (opc I)" t] e
      by (simp add: AnalyzeBranch_step_def Let_def) (simp add: dests_def)
  qed
qed

lemma dests_after_cong:
  "dests bi = dests bi' \<Longrightarrow> dests_after MF b is bi = dests_after MF b is bi'"
proof (induction "is" arbitrary: bi bi')
  case Nil
  then show ?case by (simp add: dests_after_def)
next
  case (Cons I "is")
  note s = step_dests [OF Cons.prems, of MF b I]
  show ?case
  proof (cases "AnalyzeBranch_step MF b I bi")
    case (Inl e)
    with s obtain e' where "AnalyzeBranch_step MF b I bi' = Inl e" by (cases "AnalyzeBranch_step MF b I bi'") auto
    with Inl show ?thesis by (simp add: dests_after_def)
  next
    case (Inr r)
    with s obtain r' where r': "AnalyzeBranch_step MF b I bi' = Inr r'" "dests_step r = dests_step r'"
      by (cases "AnalyzeBranch_step MF b I bi'") auto
    show ?thesis
    proof (cases r)
      case (Continue b1)
      with r'(2) obtain b2 where "r' = Continue b2" "dests b1 = dests b2" by (cases r') auto
      with Continue Inr r'(1) Cons.IH [of b1 b2] show ?thesis by (simp add: dests_after_def)
    next
      case Break
      with r'(2) have "r' = Break" by (cases r') auto
      with Break Inr r'(1) Cons.prems show ?thesis by (simp add: dests_after_def)
    next
      case GiveUp
      with r'(2) have "r' = GiveUp" by (cases r') auto
      with GiveUp Inr r'(1) show ?thesis by (simp add: dests_after_def)
    qed
  qed
qed

section \<open>Blocks with new code\<close>

definition with_code :: "nat \<Rightarrow> minstr list \<Rightarrow> mfunc \<Rightarrow> mfunc" where
  "with_code b is = upd_block b (\<lambda>B. B\<lparr>insts := is\<rparr>)"

lemma with_code_sel [simp]:
  "insts (heap (with_code b is MF) b) = is" "layout (with_code b is MF) = layout MF"
  "Successors (heap (with_code b is MF) c) = Successors (heap MF c)"
  "IsEHPad (heap (with_code b is MF) c) = IsEHPad (heap MF c)"
  by (simp_all add: with_code_def)

lemma with_code_ops:
  "upd_block b (\<lambda>B. B\<lparr>insts := f (insts B)\<rparr>) (with_code b is MF) = with_code b (f is) MF"
  "erase_at b i (with_code b is MF) = with_code b (take i is @ drop (Suc i) is) MF"
  "BuildMI_at b i I (with_code b is MF) = with_code b (take i is @ I # drop i is) MF"
  "isLayoutSuccessor (with_code b is MF) b t = (next_in (layout MF) b = Some t)"
  by (simp_all add: with_code_def upd_block_def erase_at_def BuildMI_at_def isLayoutSuccessor_def)

lemma with_code_next_cond [simp]:
  "AnalyzeBranch_next_cond (with_code b is MF) b I c t bi = AnalyzeBranch_next_cond MF b I c t bi"
proof -
  have "getFallThroughMBB_loop (with_code b is MF) x y S = getFallThroughMBB_loop MF x y S" for x y S
    by (induction S arbitrary: y) auto
  then have "getFallThroughMBB (with_code b is MF) b x = getFallThroughMBB MF b x" for x
    by (simp add: getFallThroughMBB_def)
  note ft = this
  show ?thesis unfolding AnalyzeBranch_next_cond_def ft by (rule refl)
qed

lemma with_code_analyze:
  "AnalyzeBranch_loop (with_code b is MF) b js bi = AnalyzeBranch_loop MF b js bi"
proof (induction js arbitrary: bi)
  case (Cons I js)
  have "AnalyzeBranch_step (with_code b is MF) b I bi = AnalyzeBranch_step MF b I bi"
    unfolding AnalyzeBranch_step_def with_code_next_cond by (rule refl)
  then show ?case by (simp add: Cons.IH split: sum.split ab_step.split)
qed simp

lemma branch_dest_append: "branch_dest fl nxt (P @ Q) = branch_dest fl (branch_dest fl nxt Q) P"
  by (induction P) simp_all

section \<open>One turn of the loop\<close>

lemma branch_target_Some: "jcc I \<or> jmp I \<Longrightarrow> jump_target I = Some t \<Longrightarrow> branch_target I = Inr t"
  using jcc_target [of I] jmp_target [of I] by (auto simp: branch_target_def getMBB_def)

lemma modify_step_jmp:
  assumes "jmp I" "insts (heap G b) ! i = I"
  shows "AnalyzeBranch_modify_step b i u bi G = modify_jump b i bi G"
  using jmp_flags [OF assms(1)] assms
  by (simp add: AnalyzeBranch_modify_step_def Let_def isUnpredicatedTerminator_def)

lemma modify_step_jcc:
  assumes "jcc I" "insts (heap G b) ! i = I" "jump_target I = Some t"
  shows "AnalyzeBranch_modify_step b i u bi G =
    (if Cond bi = [] then
       (if u \<noteq> None \<and> isLayoutSuccessor G b t then modify_invert b i (the u) (getCondFromBranchOpc (opc I)) t bi G
        else Inr (Above i u (bi\<lparr>FBB := TBB bi, TBB := Some t, Cond := [getCondFromBranchOpc (opc I)],
                        CondBranches := CondBranches bi @ [I]\<rparr>) G))
     else (case AnalyzeBranch_next_cond G b I (getCondFromBranchOpc (opc I)) t bi of
             Continue bi' \<Rightarrow> Inr (Above i u bi' G)
           | Break \<Rightarrow> Inr (Return (Some bi) G)
           | GiveUp \<Rightarrow> Inr (Return None G)))"
proof -
  have "getCondFromBranchOpc (opc I) \<noteq> COND_INVALID" using assms(1) by (simp add: jcc_def)
  with jcc_flags [OF assms(1)] branch_target_Some [of I t] assms show ?thesis
    by (cases u; cases "AnalyzeBranch_next_cond G b I (getCondFromBranchOpc (opc I)) t bi";
        simp add: AnalyzeBranch_modify_step_def Let_def isUnpredicatedTerminator_def)
qed

lemmas loop_unfold = AnalyzeBranch_modify_loop.simps

lemma modify_loop_body:
  "straight_line body \<Longrightarrow> insts (heap G b) = body @ rest \<Longrightarrow>
     AnalyzeBranch_modify_loop b (length body) u bi G = Some (Inr (Some bi, G))"
proof (induction body arbitrary: rest rule: rev_induct)
  case Nil
  then show ?case by (simp add: loop_unfold)
next
  case (snoc I body)
  have I: "insts (heap G b) ! length body = I" "\<not> isTerminator I"
    using snoc.prems by (simp_all add: straight_line_def)
  show ?case
  proof (cases "isDebugValue I")
    case True
    with I snoc.IH [of "I # rest"] snoc.prems show ?thesis
      by (subst loop_unfold) (simp add: AnalyzeBranch_modify_step_def straight_line_def)
  next
    case False
    with I show ?thesis
      by (subst loop_unfold) (simp add: AnalyzeBranch_modify_step_def isUnpredicatedTerminator_def)
  qed
qed

text \<open>The jump is the last instruction of the block after its turn, or deleted.\<close>

lemma modify_jump_result:
  assumes "jmp I" "jump_target I = Some t"
  shows "modify_jump b (length pre) bi (with_code b (pre @ I # Q) MF) = Inr
    (if next_in (layout MF) b = Some t
     then Above (length pre) None (bi\<lparr>Cond := [], FBB := None, TBB := None\<rparr>) (with_code b pre MF)
     else Above (length pre) (Some (length pre)) (bi\<lparr>Cond := [], FBB := None, TBB := Some t\<rparr>) (with_code b (pre @ [I]) MF))"
  using branch_target_Some [of I t] assms
  by (simp add: modify_jump_def with_code_ops(1) [of b "take (Suc (length pre))"] with_code_ops(2,4) Let_def)

lemma opposite_branch:
  assumes "jcc I"
  obtains c Opc where "GetOppositeBranchCondition (getCondFromBranchOpc (opc I)) = Inr c"
    "GetCondBranchFromCond c = Inr Opc" "getCondFromBranchOpc Opc = c" "c \<noteq> COND_INVALID"
    "\<And>fl. cond_holds c fl = (\<not> cond_holds (getCondFromBranchOpc (opc I)) fl)"
proof -
  from assms have ne: "getCondFromBranchOpc (opc I) \<noteq> COND_INVALID" by (simp add: jcc_def)
  then obtain m where m: "opc I = Jcc_1 m" by (rule jcc_opc)
  from opposite_ex [OF ne] obtain c where c: "GetOppositeBranchCondition (getCondFromBranchOpc (opc I)) = Inr c"
    "c \<noteq> COND_INVALID" "\<And>fl. cond_holds c fl = (\<not> cond_holds (getCondFromBranchOpc (opc I)) fl)" by blast
  then have "\<exists>Opc. GetCondBranchFromCond c = Inr Opc \<and> getCondFromBranchOpc Opc = c"
    unfolding m by (cases m) auto
  with c that show thesis by blast
qed

lemma modify_invert_result:
  assumes "jcc I" "jmp j" "jump_target j = Some t'"
  shows "\<exists>c Opc. getCondFromBranchOpc Opc = c \<and> c \<noteq> COND_INVALID \<and>
    (\<forall>fl. cond_holds c fl = (\<not> cond_holds (getCondFromBranchOpc (opc I)) fl)) \<and>
    modify_invert b (length pre) (Suc (length pre)) (getCondFromBranchOpc (opc I)) t bi
        (with_code b (pre @ [I, j]) MF) =
      Inr (Above (length (pre @ [mk_branch Opc t', mk_branch JMP_1 t])) None bi
             (with_code b (pre @ [mk_branch Opc t', mk_branch JMP_1 t]) MF))"
proof -
  obtain c Opc where "GetOppositeBranchCondition (getCondFromBranchOpc (opc I)) = Inr c"
    "GetCondBranchFromCond c = Inr Opc" "getCondFromBranchOpc Opc = c" "c \<noteq> COND_INVALID"
    "\<And>fl. cond_holds c fl = (\<not> cond_holds (getCondFromBranchOpc (opc I)) fl)"
    using opposite_branch [OF assms(1)] by blast
  moreover have "branch_target j = Inr t'" using branch_target_Some assms(2,3) by blast
  ultimately show ?thesis
    by (intro exI [of _ c] exI [of _ Opc]) (simp add: modify_invert_def with_code_ops Let_def nth_append)
qed

section \<open>The loop\<close>

text \<open>
  \<open>Q\<close>, the part of the block that has been read, is what the plain analysis would have reached
  \<open>bi\<close> on; a jump in it is its last instruction and does not lead to the next block.
\<close>

definition scanned :: "mfunc \<Rightarrow> nat \<Rightarrow> nat \<Rightarrow> minstr list \<Rightarrow> nat option \<Rightarrow> branch_info \<Rightarrow> bool" where
  "scanned MF b N Q u bi \<longleftrightarrow>
     (\<exists>C J. Q = C @ J \<and> list_all jcc C \<and> (C = [] \<longleftrightarrow> Cond bi = []) \<and>
        (J = [] \<and> u = None \<or>
         (\<exists>j t. J = [j] \<and> jmp j \<and> jump_target j = Some t \<and> next_in (layout MF) b \<noteq> Some t \<and> u = Some (N - 1)))) \<and>
     (\<forall>is. dests_after MF b (rev Q @ is) no_branch_info = dests_after MF b is bi)"

text \<open>What the modifying analysis leaves: branches that lead where the old ones did, none superfluous.\<close>

definition settled :: "mfunc \<Rightarrow> nat \<Rightarrow> minstr list \<Rightarrow> minstr list \<Rightarrow> branch_info option \<Rightarrow> minstr list \<Rightarrow> bool" where
  "settled MF b body T r T' \<longleftrightarrow>
     list_all (\<lambda>I. jcc I \<or> jmp I) T' \<and> length T' \<le> length T \<and>
     (\<forall>fl. branch_dest fl (next_in (layout MF) b) T' = branch_dest fl (next_in (layout MF) b) T) \<and>
     dests_after MF b (rev T' @ rev body) no_branch_info = Inr (map_option dests r) \<and>
     (T' \<noteq> [] \<longrightarrow> opc (last T') = JMP_1 \<longrightarrow> jump_target (last T') \<noteq> next_in (layout MF) b)"

lemma scannedE:
  assumes "scanned MF b N Q u bi"
  obtains C J where "Q = C @ J" "list_all jcc C" "C = [] \<longleftrightarrow> Cond bi = []"
    "J = [] \<and> u = None \<or>
     (\<exists>j t. J = [j] \<and> jmp j \<and> jump_target j = Some t \<and> next_in (layout MF) b \<noteq> Some t \<and> u = Some (N - 1))"
    "\<And>is. dests_after MF b (rev Q @ is) no_branch_info = dests_after MF b is bi"
  using assms unfolding scanned_def by blast

lemma scanned_start: "Cond bi = [] \<Longrightarrow> dests bi = dests no_branch_info \<Longrightarrow> scanned MF b N [] None bi"
  unfolding scanned_def by (auto intro: dests_after_cong)

lemma scanned_jump:
  assumes "jmp j" "jump_target j = Some t" "next_in (layout MF) b \<noteq> Some t" "N = Suc k"
  shows "scanned MF b N [j] (Some k) (bi\<lparr>Cond := [], FBB := None, TBB := Some t\<rparr>)"
proof -
  have "dests_after MF b ([j] @ is) no_branch_info = dests_after MF b is (no_branch_info\<lparr>TBB := Some t\<rparr>)" for "is"
    using step_jmp_any [OF assms(1,2), of MF b no_branch_info] by (simp add: dests_after_def)
  moreover have "dests (no_branch_info\<lparr>TBB := Some t\<rparr>) = dests (bi\<lparr>Cond := [], FBB := None, TBB := Some t\<rparr>)"
    by (simp add: dests_def no_branch_info_def)
  ultimately have "dests_after MF b (rev [j] @ is) no_branch_info =
      dests_after MF b is (bi\<lparr>Cond := [], FBB := None, TBB := Some t\<rparr>)" for "is"
    by (simp add: dests_after_cong [of "no_branch_info\<lparr>TBB := Some t\<rparr>"])
  with assms show ?thesis unfolding scanned_def by (intro conjI exI [of _ "[]"] exI [of _ "[j]"]) auto
qed

lemma scanned_cond:
  assumes "scanned MF b N Q u bi" "jcc I" "AnalyzeBranch_step MF b I bi = Inr (Continue bi')" "Cond bi' \<noteq> []"
  shows "scanned MF b N (I # Q) u bi'"
proof -
  obtain C J where Q: "Q = C @ J" "list_all jcc C" "C = [] \<longleftrightarrow> Cond bi = []" "J = [] \<and> u = None \<or>
     (\<exists>j t. J = [j] \<and> jmp j \<and> jump_target j = Some t \<and> next_in (layout MF) b \<noteq> Some t \<and> u = Some (N - 1))"
    and d: "\<And>is. dests_after MF b (rev Q @ is) no_branch_info = dests_after MF b is bi"
    using assms(1) by (rule scannedE) (rule that)
  have "dests_after MF b (rev (I # Q) @ is) no_branch_info = dests_after MF b is bi'" for "is"
    using d [of "I # is"] assms(3) by (simp add: dests_after_def)
  with Q assms(2,4) show ?thesis unfolding scanned_def
    by (intro conjI exI [of _ "I # C"] exI [of _ J]) auto
qed

lemma scanned_settled:
  assumes "scanned MF b N Q u bi" "straight_line body" "list_all (\<lambda>I. jcc I \<or> jmp I) Q"
  shows "settled MF b body Q (Some bi) Q"
proof -
  obtain C J where Q: "Q = C @ J" "list_all jcc C" "C = [] \<longleftrightarrow> Cond bi = []" "J = [] \<and> u = None \<or>
     (\<exists>j t. J = [j] \<and> jmp j \<and> jump_target j = Some t \<and> next_in (layout MF) b \<noteq> Some t \<and> u = Some (N - 1))"
    and d: "\<And>is. dests_after MF b (rev Q @ is) no_branch_info = dests_after MF b is bi"
    using assms(1) by (rule scannedE) (rule that)
  have "straight_line (rev body)" using assms(2) by (simp add: straight_line_def)
  then have "dests_after MF b (rev Q @ rev body) no_branch_info = Inr (Some (dests bi))"
    unfolding d by (simp add: dests_after_def loop_straight)
  moreover have "jump_target (last Q) \<noteq> next_in (layout MF) b" if "Q \<noteq> []" "opc (last Q) = JMP_1"
    using Q(4)
  proof
    assume J: "J = [] \<and> u = None"
    with Q that(1) have "jcc (last Q)" by (simp add: list_all_iff)
    with jcc_flags(4) that(2) show ?thesis by blast
  next
    assume "\<exists>j t. J = [j] \<and> jmp j \<and> jump_target j = Some t \<and> next_in (layout MF) b \<noteq> Some t \<and> u = Some (N - 1)"
    with Q(1) show ?thesis by auto
  qed
  ultimately show ?thesis using assms(3) by (simp add: settled_def)
qed

text \<open>The destinations of branches that are replaced by equivalent ones.\<close>

lemma settled_trans:
  assumes "settled MF b body U r T'" "length U \<le> length T"
    and "\<And>fl. branch_dest fl (next_in (layout MF) b) U = branch_dest fl (next_in (layout MF) b) T"
  shows "settled MF b body T r T'"
  using assms unfolding settled_def by auto

lemma jmp_dest: "jmp j \<Longrightarrow> branch_dest fl nxt (j # rest) = jump_target j"
  by (simp add: jmp_def)

lemma jmp_cuts: "jmp I \<Longrightarrow> branch_dest fl nxt (P @ I # Q) = branch_dest fl (jump_target I) P"
  by (simp only: branch_dest_append [of _ _ P] jmp_dest)

lemma jcc_dest: "jcc I \<Longrightarrow> branch_dest fl nxt (I # rest) =
    (if cond_holds (getCondFromBranchOpc (opc I)) fl then jump_target I else branch_dest fl nxt rest)"
  using jcc_flags(4) [of I] by simp

definition finds :: "mfunc \<Rightarrow> nat \<Rightarrow> minstr list \<Rightarrow> minstr list \<Rightarrow> minstr list \<Rightarrow> nat option \<Rightarrow> branch_info \<Rightarrow> bool" where
  "finds MF b body P Q u bi \<longleftrightarrow>
     (\<exists>r T'. AnalyzeBranch_modify_loop b (length (body @ P)) u bi (with_code b (body @ P @ Q) MF) =
         Some (Inr (r, with_code b (body @ T') MF)) \<and> settled MF b body (P @ Q) r T')"

lemma finds_step:
  assumes "AnalyzeBranch_modify_loop b (length (body @ P)) u bi (with_code b (body @ P @ Q) MF) =
      AnalyzeBranch_modify_loop b (length (body @ P')) u' bi' (with_code b (body @ P' @ Q') MF)"
    and "finds MF b body P' Q' u' bi'" "length (P' @ Q') \<le> length (P @ Q)"
    and "\<And>fl. branch_dest fl (next_in (layout MF) b) (P' @ Q') = branch_dest fl (next_in (layout MF) b) (P @ Q)"
  shows "finds MF b body P Q u bi"
  using assms(2) settled_trans [OF _ assms(3,4)] unfolding finds_def assms(1) by blast

lemma loop_jmp:
  assumes "jmp I" "jump_target I = Some t"
  shows "AnalyzeBranch_modify_loop b (length (body @ P @ [I])) u bi (with_code b (body @ (P @ [I]) @ Q) MF) =
    (if next_in (layout MF) b = Some t
     then AnalyzeBranch_modify_loop b (length (body @ P)) None (bi\<lparr>Cond := [], FBB := None, TBB := None\<rparr>)
            (with_code b (body @ P @ []) MF)
     else AnalyzeBranch_modify_loop b (length (body @ P)) (Some (length (body @ P)))
            (bi\<lparr>Cond := [], FBB := None, TBB := Some t\<rparr>) (with_code b (body @ P @ [I]) MF))"
  using modify_step_jmp [OF assms(1), of "with_code b (body @ P @ I # Q) MF" b "length (body @ P)" u bi]
    modify_jump_result [OF assms, of b "body @ P" bi Q MF]
  by (subst loop_unfold) (simp add: nth_append)

lemma invert_dest:
  assumes "jcc I" "jump_target I = Some t" "jmp j" "jump_target j = Some t'" "getCondFromBranchOpc Opc = c"
    and "c \<noteq> COND_INVALID" "\<forall>fl. cond_holds c fl = (\<not> cond_holds (getCondFromBranchOpc (opc I)) fl)"
  shows "jcc (mk_branch Opc t')"
    and "branch_dest fl (Some t) (P @ [mk_branch Opc t']) = branch_dest fl (Some t) (P @ [I, j])"
proof -
  show jn: "jcc (mk_branch Opc t')" using assms(5,6) by (simp add: jcc_def)
  show "branch_dest fl (Some t) (P @ [mk_branch Opc t']) = branch_dest fl (Some t) (P @ [I, j])"
    unfolding branch_dest_append [of _ _ P] jcc_dest [OF jn] jcc_dest [OF assms(1)] jmp_dest [OF assms(3)]
    using assms by simp
qed

lemma loop_jcc:
  assumes all: "list_all (\<lambda>I. jcc I \<or> jmp I) ((P0 @ [I]) @ Q)" and body: "straight_line body"
    and sc: "scanned MF b (length (body @ (P0 @ [I]) @ Q)) Q u bi"
    and j: "jcc I" and t: "jump_target I = Some t"
    and IH: "\<And>P' Q' u' bi'. 2 * length P' + length Q' < 2 * length (P0 @ [I]) + length Q \<Longrightarrow>
      list_all (\<lambda>I. jcc I \<or> jmp I) (P' @ Q') \<Longrightarrow> straight_line body \<Longrightarrow>
      scanned MF b (length (body @ P' @ Q')) Q' u' bi' \<Longrightarrow> finds MF b body P' Q' u' bi'"
  shows "finds MF b body (P0 @ [I]) Q u bi"
proof -
  let ?pre = "body @ P0" and ?c = "getCondFromBranchOpc (opc I)"
  let ?G = "with_code b (?pre @ I # Q) MF"
  obtain C J where Q: "Q = C @ J" "list_all jcc C" "C = [] \<longleftrightarrow> Cond bi = []"
    "J = [] \<and> u = None \<or>
     (\<exists>j t. J = [j] \<and> jmp j \<and> jump_target j = Some t \<and> next_in (layout MF) b \<noteq> Some t \<and>
        u = Some (length (body @ (P0 @ [I]) @ Q) - 1))"
    and d: "\<And>is. dests_after MF b (rev Q @ is) no_branch_info = dests_after MF b is bi"
    using sc by (rule scannedE) (rule that)
  have at: "insts (heap ?G b) ! length ?pre = I" by (simp add: nth_append)
  note step = modify_step_jcc [OF j at t, of u bi]
  have go: "finds MF b body (P0 @ [I]) Q u bi"
    if "AnalyzeBranch_modify_step b (length ?pre) u bi ?G = Inr (Above (length ?pre) u bi' ?G)"
      "AnalyzeBranch_step MF b I bi = Inr (Continue bi')" "Cond bi' \<noteq> []" for bi'
  proof (rule finds_step)
    show "AnalyzeBranch_modify_loop b (length (body @ P0 @ [I])) u bi (with_code b (body @ (P0 @ [I]) @ Q) MF) =
        AnalyzeBranch_modify_loop b (length (body @ P0)) u bi' (with_code b (body @ P0 @ I # Q) MF)"
      using that(1) by (subst loop_unfold) simp
    show "finds MF b body P0 (I # Q) u bi'"
      using scanned_cond [OF sc j that(2,3)] all body by (intro IH) simp_all
  qed simp_all
  consider (invert) "Cond bi = []" "u \<noteq> None" "next_in (layout MF) b = Some t"
    | (first) "Cond bi = []" "\<not> (u \<noteq> None \<and> next_in (layout MF) b = Some t)"
    | (more) "Cond bi \<noteq> []" by blast
  then show ?thesis
  proof cases
    case invert
    with Q obtain k t' where k: "Q = [k]" "jmp k" "jump_target k = Some t'" "u = Some (Suc (length ?pre))" by auto
    from modify_invert_result [OF j k(2,3), of b ?pre t bi MF] obtain c Opc where
      c: "getCondFromBranchOpc Opc = c" "c \<noteq> COND_INVALID"
        "\<forall>fl. cond_holds c fl = (\<not> cond_holds ?c fl)"
      and inv: "modify_invert b (length ?pre) (Suc (length ?pre)) ?c t bi (with_code b (?pre @ [I, k]) MF) =
        Inr (Above (length (?pre @ [mk_branch Opc t', mk_branch JMP_1 t])) None bi
             (with_code b (?pre @ [mk_branch Opc t', mk_branch JMP_1 t]) MF))" by blast
    note new = invert_dest [OF j t k(2,3) c]
    let ?bi = "bi\<lparr>Cond := [], FBB := None, TBB := None\<rparr>"
    have jm: "jmp (mk_branch JMP_1 t)" "jump_target (mk_branch JMP_1 t) = Some t" by (simp_all add: jmp_def)
    have "AnalyzeBranch_modify_loop b (length (body @ P0 @ [I])) u bi (with_code b (body @ (P0 @ [I]) @ Q) MF) =
        AnalyzeBranch_modify_loop b (length (body @ (P0 @ [mk_branch Opc t']) @ [mk_branch JMP_1 t])) None bi
          (with_code b (body @ ((P0 @ [mk_branch Opc t']) @ [mk_branch JMP_1 t]) @ []) MF)"
      using step inv k invert by (subst loop_unfold) (simp add: with_code_ops)
    also have "\<dots> = AnalyzeBranch_modify_loop b (length (body @ P0 @ [mk_branch Opc t'])) None ?bi
          (with_code b (body @ (P0 @ [mk_branch Opc t']) @ []) MF)"
      unfolding loop_jmp [OF jm] using invert by simp
    finally show ?thesis
    proof (rule finds_step)
      show "finds MF b body (P0 @ [mk_branch Opc t']) [] None ?bi"
        using all body k new(1) by (intro IH scanned_start) (simp_all add: dests_def no_branch_info_def)
      show "branch_dest fl (next_in (layout MF) b) ((P0 @ [mk_branch Opc t']) @ []) =
          branch_dest fl (next_in (layout MF) b) ((P0 @ [I]) @ Q)" for fl
        using new(2) [of fl P0] by (simp add: k(1) invert(3))
    qed (simp add: k(1))
  next
    case first
    let ?bi = "bi\<lparr>FBB := TBB bi, TBB := Some t, Cond := [?c], CondBranches := CondBranches bi @ [I]\<rparr>"
    show ?thesis
      using first step step_jcc [OF j t, of MF b bi] by (intro go [of ?bi]) (auto simp: with_code_ops)
  next
    case more
    show ?thesis
    proof (cases "AnalyzeBranch_next_cond MF b I ?c t bi")
      case (Continue bi')
      with more step step_jcc [OF j t, of MF b bi] next_cond_stable [OF Continue] show ?thesis
        by (intro go [of bi']) simp_all
    next
      case Break
      then show ?thesis by (simp add: AnalyzeBranch_next_cond_def Let_def split: if_splits)
    next
      case GiveUp
      with more step have "AnalyzeBranch_modify_loop b (length (body @ P0 @ [I])) u bi (with_code b (body @ (P0 @ [I]) @ Q) MF) =
          Some (Inr (None, with_code b (body @ (P0 @ [I]) @ Q) MF))" by (subst loop_unfold) simp
      moreover have "settled MF b body ((P0 @ [I]) @ Q) None ((P0 @ [I]) @ Q)"
      proof -
        have "Q \<noteq> []" using more Q by auto
        moreover have "dests_after MF b (rev ((P0 @ [I]) @ Q) @ rev body) no_branch_info = Inr None"
          using d [of "I # rev P0 @ rev body"] GiveUp more step_jcc [OF j t, of MF b bi] by (simp add: dests_after_def)
        moreover have "settled MF b body Q (Some bi) Q" using scanned_settled [OF sc body] all by simp
        ultimately show ?thesis using all by (simp add: settled_def)
      qed
      ultimately show ?thesis unfolding finds_def by blast
    qed
  qed
qed

lemma loop_ok:
  assumes "list_all (\<lambda>I. jcc I \<or> jmp I) (P @ Q)" "straight_line body" "scanned MF b (length (body @ P @ Q)) Q u bi"
  shows "finds MF b body P Q u bi"
  using assms
proof (induction "2 * length P + length Q" arbitrary: P Q u bi rule: less_induct)
  case less
  note IH = less.hyps and body = \<open>straight_line body\<close>
  show ?case
  proof (cases P rule: rev_cases)
    case Nil
    with less.prems show ?thesis
      using modify_loop_body [OF body, of "with_code b (body @ Q) MF" b Q u bi] scanned_settled [of MF b _ Q u bi body]
      unfolding finds_def by auto
  next
    case (snoc P0 I)
    from less.prems(1) snoc have I: "jcc I \<or> jmp I" by simp
    then obtain t where t: "jump_target I = Some t" using jcc_target jmp_target by blast
    show ?thesis
    proof (cases "jmp I")
      case True
      show ?thesis
      proof (cases "next_in (layout MF) b = Some t")
        case near: True
        have "finds MF b body P0 [] None (bi\<lparr>Cond := [], FBB := None, TBB := None\<rparr>)"
          using less.prems snoc by (intro IH scanned_start) (simp_all add: dests_def no_branch_info_def)
        with loop_jmp [OF True t, of b body P0 u bi Q MF] near show ?thesis unfolding snoc
          by (intro finds_step [of b body "P0 @ [I]" u bi Q MF P0 None _ "[]"]) (simp_all add: jmp_cuts [OF True] t del: branch_dest.simps)
      next
        case far: False
        have "finds MF b body P0 [I] (Some (length (body @ P0))) (bi\<lparr>Cond := [], FBB := None, TBB := Some t\<rparr>)"
          using less.prems snoc scanned_jump [OF True t far, of "length (body @ P0 @ [I])"] True
          by (intro IH) simp_all
        with loop_jmp [OF True t, of b body P0 u bi Q MF] far show ?thesis unfolding snoc
          by (intro finds_step [of b body "P0 @ [I]" u bi Q MF P0 _ _ "[I]"])
             (simp_all add: jmp_cuts [OF True] del: branch_dest.simps)
      qed
    next
      case False
      with I have "jcc I" by simp
      from loop_jcc [OF less.prems [unfolded snoc] this t IH [unfolded snoc]] show ?thesis unfolding snoc .
    qed
  qed
qed

section \<open>Properties\<close>

lemma analyzeBranch_modify_settled:
  assumes "insts (heap MF b) = body @ T" "straight_line body" "list_all (\<lambda>I. jcc I \<or> jmp I) T"
  shows "\<exists>r T'. analyzeBranch_modify b MF = Some (Inr (r, with_code b (body @ T') MF)) \<and> settled MF b body T r T'"
proof -
  have same: "with_code b (body @ T) MF = MF" using assms(1) by (simp add: with_code_def upd_block_def fun_upd_idem)
  have "finds MF b body T [] None no_branch_info"
    using assms(2,3) by (intro loop_ok scanned_start) (simp_all add: no_branch_info_def)
  with assms(1) same show ?thesis by (simp add: finds_def analyzeBranch_modify_def)
qed

text \<open>Block 0 branches around a jump to the next block, and dead code follows the jump.\<close>

definition modify_ex :: mfunc where
  "modify_ex = \<lparr>layout = [0, 1, 2],
     heap = (\<lambda>b. empty_block)(0 := empty_block\<lparr>insts := [mk_branch (Jcc_1 mE) 1, mk_branch JMP_1 2, mk_branch JMP_1 0]\<rparr>),
     fresh = 3\<rparr>"

text \<open>
  C9. When it may modify the block, the analysis returns, the new branches are no more than the old
  ones and lead to the same block in every flag state, none is a jump to the next block at the end, and
  the plain analysis of the new block gives the same result.
\<close>

theorem analyzeBranch_modify_keeps:
  assumes "insts (heap MF b) = body @ T" and "straight_line body" and "list_all (\<lambda>I. jcc I \<or> jmp I) T"
  shows "\<exists>r T' MF' r'. analyzeBranch_modify b MF = Some (Inr (r, MF')) \<and>
    MF' = upd_block b (\<lambda>B. B\<lparr>insts := body @ T'\<rparr>) MF \<and> length T' \<le> length T \<and>
    \<not> (T' \<noteq> [] \<and> opc (last T') = JMP_1 \<and> jump_target (last T') = next_in (layout MF) b) \<and>
    (\<forall>s. \<exists>m n. mrun M MF m (Run b (length body) s) = goto (branch_dest (flags s) (next_in (layout MF) b) T) s \<and>
           mrun M MF' n (Run b (length body) s) = goto (branch_dest (flags s) (next_in (layout MF) b) T) s) \<and>
    analyzeBranch MF' b = Inr r' \<and>
    map_option (\<lambda>bi. (TBB bi, FBB bi, Cond bi)) r' = map_option (\<lambda>bi. (TBB bi, FBB bi, Cond bi)) r"
proof -
  from analyzeBranch_modify_settled [OF assms] obtain r T' where
    run: "analyzeBranch_modify b MF = Some (Inr (r, with_code b (body @ T') MF))" and st: "settled MF b body T r T'" by blast
  let ?MF' = "with_code b (body @ T') MF"
  have T': "list_all (\<lambda>I. jcc I \<or> jmp I) T'" "length T' \<le> length T"
    "\<not> (T' \<noteq> [] \<and> opc (last T') = JMP_1 \<and> jump_target (last T') = next_in (layout MF) b)"
    and dest: "branch_dest fl (next_in (layout MF) b) T' = branch_dest fl (next_in (layout MF) b) T" for fl
    using st unfolding settled_def by auto
  have "map_sum id (map_option dests) (analyzeBranch ?MF' b) = Inr (map_option dests r)"
    using st by (simp add: settled_def dests_after_def analyzeBranch_def with_code_analyze)
  then obtain r' where r': "analyzeBranch ?MF' b = Inr r'" "map_option dests r' = map_option dests r"
    by (cases "analyzeBranch ?MF' b") auto
  have "\<exists>m n. mrun M MF m (Run b (length body) s) = goto (branch_dest (flags s) (next_in (layout MF) b) T) s \<and>
      mrun M ?MF' n (Run b (length body) s) = goto (branch_dest (flags s) (next_in (layout MF) b) T) s" for s
    using branch_runs [OF assms(1,3), of M s] branch_runs [of ?MF' b body T' M s] T'(1) dest [of "flags s"] by auto
  with run T' r' show ?thesis
    by (intro exI [of _ r] exI [of _ T'] exI [of _ ?MF'] exI [of _ r']) (simp add: with_code_def dests_def [abs_def])
qed

lemma analyzeBranch_modify_keeps_witness:
  "\<exists>r T' MF'. analyzeBranch_modify 0 modify_ex = Some (Inr (r, MF')) \<and> insts (heap MF' 0) = T' \<and> length T' \<le> 3"
proof -
  have "insts (heap modify_ex 0) = [] @ [mk_branch (Jcc_1 mE) 1, mk_branch JMP_1 2, mk_branch JMP_1 0]"
    by (simp add: modify_ex_def)
  from analyzeBranch_modify_keeps [OF this, of "undefined :: nat machine"] show ?thesis
    by (auto simp: straight_line_def jcc_def jmp_def)
qed

end
