(* ===== verification/EdgeSplitResult.thy ===== *)
theory EdgeSplitResult
  imports EdgeSplit
begin

text \<open>
  What \<open>SplitCriticalEdge\<close> returns: the layout, the code and the edges of the function afterwards,
  and the live-ins of the new block.
\<close>

section \<open>A successor nobody else has\<close>

lemma update_ren:
  assumes "k < length xs" "xs ! k = Old" "count_list xs Old = 1"
  shows "xs[k := New] = map (ren Old New) xs"
  using assms
proof (induction xs arbitrary: k)
  case (Cons x xs)
  have none: "map (ren Old New) ys = ys" if "Old \<notin> set ys" for ys
    using that by (induction ys) (auto simp: ren_def)
  show ?case
  proof (cases "x = Old")
    case True
    with Cons.prems(3) have o: "Old \<notin> set xs" by (simp add: count_list_0_iff)
    have "k = 0"
    proof (rule ccontr)
      assume "k \<noteq> 0"
      with Cons.prems(1,2) have "Old \<in> set xs" by (auto simp: nth_Cons')
      with o show False by simp
    qed
    with True none [OF o] show ?thesis by simp (simp add: ren_def)
  next
    case False
    with Cons.prems obtain k' where "k = Suc k'" "k' < length xs" "xs ! k' = Old" "count_list xs Old = 1"
      by (cases k) auto
    with Cons.IH [of k'] False show ?thesis by (simp add: ren_def)
  qed
qed simp

lemma replaceSuccessor_renames:
  assumes "edges_ok MF" "count_list (Successors (heap MF b)) Old = 1" "New \<notin> set (Successors (heap MF b))" "Old \<noteq> New"
  shows "\<exists>MF'. replaceSuccessor b Old New MF = Inr MF' \<and> edges_ok MF' \<and> same_code MF MF' \<and>
    Successors (heap MF' b) = map (ren Old New) (Successors (heap MF b)) \<and>
    (\<forall>c. c \<noteq> b \<longrightarrow> Successors (heap MF' c) = Successors (heap MF c))"
proof -
  let ?S = "Successors (heap MF b)"
  obtain r n where rn: "replace_scan Old New ?S 0 None None = (r, n)" by fastforce
  from replace_scan_found [of Old "[]" None New None ?S] assms(4) have
    f: "found Old ?S r" "found New ?S n" by (simp_all add: found_def rn)
  have old: "Old \<in> set ?S" using assms(2) by (simp add: count_list_pos)
  with f(1) obtain k where k: "r = Some k" "k < length ?S" "?S ! k = Old" by (cases r) (auto simp: found_def)
  from f(2) assms(3) have n: "n = None" by (cases n) (auto simp: found_def)
  have "b \<in> set (Predecessors (heap MF Old))" using old assms(1) by (simp add: edge_both_ends)
  then obtain MF1 where m: "removePredecessor Old b MF = Inr MF1"
      "MF1 = upd_block Old (\<lambda>B. B\<lparr>Predecessors := erase_nth (find_index b (Predecessors B)) (Predecessors B)\<rparr>) MF"
    by (auto simp: removePredecessor_Inr)
  define MF' where "MF' = upd_block b (\<lambda>B. B\<lparr>Successors := (Successors B)[k := New]\<rparr>) (addPredecessor New b MF1)"
  have run: "replaceSuccessor b Old New MF = Inr MF'"
    using assms(4) rn n k(1) m(1) by (simp add: replaceSuccessor_def MF'_def)
  have "Successors (heap MF' b) = ?S[k := New]" by (simp add: MF'_def m(2))
  with update_ren [OF k(2,3) assms(2)] have S: "Successors (heap MF' b) = map (ren Old New) ?S" by simp
  from replaceSuccessor_edges [OF assms(1) old, of New] run S show ?thesis by auto
qed

section \<open>The new block\<close>

text \<open>Nothing refers to the block that is created next.\<close>

definition fresh_ok :: "mfunc \<Rightarrow> bool" where
  "fresh_ok MF \<longleftrightarrow> fresh MF \<notin> set (layout MF) \<and> heap MF (fresh MF) = empty_block \<and>
     (\<forall>c. \<forall>I\<in>set (insts (heap MF c)). MO_MachineBasicBlock (fresh MF) \<notin> set (ops I))"

lemma fresh_ok_target:
  assumes "fresh_ok MF" "I \<in> set (insts (heap MF c))"
  shows "jump_target I \<noteq> Some (fresh MF)"
  using assms by (fastforce simp: fresh_ok_def jump_target_def split: list.splits operand.splits)

lemma fresh_ok_succ:
  assumes "fresh_ok MF" "edges_ok MF"
  shows "fresh MF \<notin> set (Successors (heap MF c))"
  using assms edge_both_ends [of MF "fresh MF" c] by (simp add: fresh_ok_def empty_block_def)

text \<open>The block \<open>b\<close>, with branches \<open>T\<close> that are understood, has one edge to \<open>Succ\<close>.\<close>

definition splittable :: "mfunc \<Rightarrow> nat \<Rightarrow> nat \<Rightarrow> nat \<Rightarrow> minstr list \<Rightarrow> minstr list \<Rightarrow> branch_info \<Rightarrow> bool" where
  "splittable MF b Succ g body T bi \<longleftrightarrow>
     edges_ok MF \<and> fresh_ok MF \<and> distinct (layout MF) \<and> b \<in> set (layout MF) \<and>
     block_split MF b body T \<and> analyzeBranch MF b = Inr (Some bi) \<and> succs_fit MF b g bi \<and>
     g \<noteq> fresh MF \<and> next_in (layout MF) b \<in> {Some g, None} \<and>
     count_list (Successors (heap MF b)) Succ = 1 \<and> \<not> IsEHPad (heap MF Succ) \<and>
     (TBB bi \<noteq> None \<longrightarrow> TBB bi \<noteq> FBB bi)"

lemma splittableD:
  assumes "splittable MF b Succ g body T bi"
  shows "edges_ok MF" "fresh_ok MF" "distinct (layout MF)" "b \<in> set (layout MF)"
    "block_split MF b body T" "analyzeBranch MF b = Inr (Some bi)" "succs_fit MF b g bi"
    "g \<noteq> fresh MF" "next_in (layout MF) b \<in> {Some g, None}"
    "count_list (Successors (heap MF b)) Succ = 1" "\<not> IsEHPad (heap MF Succ)"
    "TBB bi \<noteq> None \<longrightarrow> TBB bi \<noteq> FBB bi"
  using assms unfolding splittable_def by - (elim conjE, assumption)+

lemma splittable_can:
  assumes "splittable MF b Succ g body T bi"
  shows "canSplitCriticalEdge b Succ MF = Inr True"
  using splittableD [OF assms] by (auto simp: canSplitCriticalEdge_def requiresStructuredCFG_def)

text \<open>The layout around the new block.\<close>

lemma next_in_inserted:
  assumes "distinct xs" "b \<in> set xs" "n \<notin> set xs"
  defines "ys \<equiv> insert_before (next_in xs b) n xs"
  shows "next_in ys b = Some n" "next_in ys n = next_in xs b" "distinct ys" "set ys = insert n (set xs)"
    and "c \<noteq> b \<Longrightarrow> c \<noteq> n \<Longrightarrow> next_in ys c = next_in xs c" "begin_iter ys = begin_iter xs"
proof -
  from assms(2) obtain as bs where xs: "xs = as @ b # bs" by (auto dest: split_list)
  with assms(1) have b: "b \<notin> set as" "b \<notin> set bs" by auto
  have nx: "next_in xs b = begin_iter bs" unfolding xs using b(1) by (rule next_in_split)
  have ys: "ys = (as @ [b]) @ n # bs"
    unfolding ys_def nx using insert_before_begin [of "as @ [b]" bs n] assms(1) by (simp add: xs)
  show "next_in ys b = Some n" using b by (simp add: ys)
  show "next_in ys n = next_in xs b" using assms(3) unfolding nx ys
    by (subst next_in_split) (auto simp: xs)
  show "distinct ys" "set ys = insert n (set xs)" using assms(1,3) by (auto simp: ys xs)
  show "begin_iter ys = begin_iter xs" by (cases as) (simp_all add: ys xs)
  assume c: "c \<noteq> b" "c \<noteq> n"
  have "next_in (us @ b # n # bs) c = next_in (us @ b # bs) c" for us
  proof (induction us)
    case Nil
    with c show ?case by (cases bs) auto
  next
    case (Cons u us)
    then show ?case by (cases us) auto
  qed
  then show "next_in ys c = next_in xs c" by (simp add: ys xs)
qed

section \<open>The result of a split\<close>

definition edge_split ::
  "nat \<Rightarrow> nat \<Rightarrow> nat \<Rightarrow> minstr list \<Rightarrow> minstr list \<Rightarrow> minstr list \<Rightarrow> mfunc \<Rightarrow> mfunc \<Rightarrow> bool" where
  "edge_split b Succ g body T T' MF MF' \<longleftrightarrow>
     edges_ok MF' \<and>
     layout MF' = insert_before (next_in (layout MF) b) (fresh MF) (layout MF) \<and>
     insts (heap MF' b) = body @ T' \<and> branch_tail T' \<and>
     insts (heap MF' (fresh MF)) = (if next_in (layout MF) b = Some Succ then [] else [mk_branch JMP_1 Succ]) \<and>
     (\<forall>c. c \<noteq> b \<longrightarrow> c \<noteq> fresh MF \<longrightarrow> insts (heap MF' c) = insts (heap MF c)) \<and>
     (\<forall>fl. branch_dest fl (Some (fresh MF)) T' = map_option (ren Succ (fresh MF)) (branch_dest fl (Some g) T)) \<and>
     Successors (heap MF' b) = map (ren Succ (fresh MF)) (Successors (heap MF b)) \<and>
     Successors (heap MF' (fresh MF)) = [Succ] \<and>
     (\<forall>c. c \<noteq> b \<longrightarrow> c \<noteq> fresh MF \<longrightarrow> Successors (heap MF' c) = Successors (heap MF c))"

lemma edge_splitD:
  assumes "edge_split b Succ g body T T' MF MF'"
  shows "edges_ok MF'" "layout MF' = insert_before (next_in (layout MF) b) (fresh MF) (layout MF)"
    "insts (heap MF' b) = body @ T'" "branch_tail T'"
    "insts (heap MF' (fresh MF)) = (if next_in (layout MF) b = Some Succ then [] else [mk_branch JMP_1 Succ])"
    "\<forall>c. c \<noteq> b \<longrightarrow> c \<noteq> fresh MF \<longrightarrow> insts (heap MF' c) = insts (heap MF c)"
    "\<forall>fl. branch_dest fl (Some (fresh MF)) T' = map_option (ren Succ (fresh MF)) (branch_dest fl (Some g) T)"
    "Successors (heap MF' b) = map (ren Succ (fresh MF)) (Successors (heap MF b))"
    "Successors (heap MF' (fresh MF)) = [Succ]"
    "\<forall>c. c \<noteq> b \<longrightarrow> c \<noteq> fresh MF \<longrightarrow> Successors (heap MF' c) = Successors (heap MF c)"
  using assms unfolding edge_split_def by - (elim conjE, assumption)+

lemma push_liveins: "foldl (\<lambda>L LI. push_livein LI L) L LIs = L @ LIs"
  by (induction LIs arbitrary: L) (simp_all add: push_livein_def)

lemma edges_ok_code: "edges_ok (upd_block b (\<lambda>B. B\<lparr>insts := f B\<rparr>) MF) = edges_ok MF"
proof -
  let ?A = "upd_block b (\<lambda>B. B\<lparr>insts := f B\<rparr>) MF"
  have "Successors (heap ?A c) = Successors (heap MF c)" "Predecessors (heap ?A c) = Predecessors (heap MF c)"
    "Probs (heap ?A c) = Probs (heap MF c)" for c by simp_all
  then show ?thesis by (simp only: edges_ok_def)
qed

lemma split_jump_result:
  assumes "edges_ok MF" "insts (heap MF n) = []" "Successors (heap MF n) = []" "Succ \<noteq> n"
  shows "\<exists>MF'. split_jump n Succ MF = Inr MF' \<and> edges_ok MF' \<and> layout MF' = layout MF \<and>
    insts (heap MF' n) = (if next_in (layout MF) n = Some Succ then [] else [mk_branch JMP_1 Succ]) \<and>
    Successors (heap MF' n) = [Succ] \<and>
    (\<forall>c. c \<noteq> n \<longrightarrow> insts (heap MF' c) = insts (heap MF c) \<and> Successors (heap MF' c) = Successors (heap MF c))"
proof -
  let ?A = "addSuccessor n Succ UnknownN MF"
  have A: "edges_ok ?A" "layout ?A = layout MF" "insts (heap ?A c) = insts (heap MF c)"
    for c
    using assms(1) by (auto simp: addSuccessor_edges)
  have ap: "edges_ok (append_code n is ?A)" for "is"
    using A(1) by (simp add: append_code_def edges_ok_code)
  show ?thesis
  proof (cases "next_in (layout MF) n = Some Succ")
    case True
    with A(1-3) assms(2,3) show ?thesis by (intro exI [of _ ?A]) (simp add: split_jump_def isLayoutSuccessor_def)
  next
    case False
    then have "split_jump n Succ MF = Inr (append_code n [mk_branch JMP_1 Succ] ?A)"
      by (simp add: split_jump_def isLayoutSuccessor_def insertBranch_jump)
    with A(1-3) ap False assms(2,3) show ?thesis by simp
  qed
qed

lemma split_result:
  assumes sp: "splittable MF b Succ g body T bi" and "TracksLiveness S"
  shows "\<exists>MF' T'. SplitCriticalEdge b Succ MF S =
      Inr (Some (fresh MF), MF', S\<lparr>LiveIns := (LiveIns S)(fresh MF := LiveIns S Succ)\<rparr>) \<and>
    edge_split b Succ g body T T' MF MF'"
proof -
  note D = splittableD [OF sp]
  let ?n = "fresh MF" and ?T = "map (retarget Succ (fresh MF)) T"
  define ys where "ys = insert_before (next_in (layout MF) b) ?n (layout MF)"
  define MF1 where "MF1 = MF\<lparr>layout := ys, fresh := Suc ?n\<rparr>"
  define MFr where "MFr = upd_block b (\<lambda>B. B\<lparr>insts := body @ ?T\<rparr>) MF1"
  have n: "?n \<notin> set (layout MF)" "heap MF ?n = empty_block" using D(2) by (auto simp: fresh_ok_def)
  have bn: "b \<noteq> ?n" using n(1) D(4) by auto
  have old: "Succ \<in> set (Successors (heap MF b))" using D(10) by (simp add: count_list_pos)
  then have Sn: "Succ \<noteq> ?n" using fresh_ok_succ [OF D(2,1)] by auto
  have ins: "split_insert b MF S = (?n, MF1, S\<lparr>LiveIns := (LiveIns S)(?n := [])\<rparr>)"
    using n(2) by (simp add: split_insert_def CreateMachineBasicBlock_def mf_insert_def MF1_def ys_def
        clearLiveIns_def fun_upd_idem)
  have "rev (replace_uses Succ ?n (rev (insts (heap MF b)))) = body @ ?T"
    using D(5) replace_uses_split by (simp add: block_split_def)
  then have uses: "ReplaceUsesOfBlockWith b Succ ?n MF1 = replaceSuccessor b Succ ?n MFr"
    using Sn by (simp add: ReplaceUsesOfBlockWith_def MFr_def MF1_def upd_block_def assert_res_def)
  have r: "edges_ok MFr" "Successors (heap MFr c) = Successors (heap MF c)" "layout MFr = ys"
      "insts (heap MFr c) = (if c = b then body @ ?T else insts (heap MF c))" "IsEHPad (heap MFr c) = IsEHPad (heap MF c)" for c
    using D(1) by (auto simp: MFr_def MF1_def edges_ok_code) (simp add: edges_ok_def)
  from replaceSuccessor_renames [OF r(1), of b Succ ?n] D(10) Sn fresh_ok_succ [OF D(2,1)] r(2)
  obtain MF2 where MF2: "replaceSuccessor b Succ ?n MFr = Inr MF2" "edges_ok MF2" "same_code MFr MF2"
    and S2: "Successors (heap MF2 b) = map (ren Succ ?n) (Successors (heap MF b))"
      "\<forall>c. c \<noteq> b \<longrightarrow> Successors (heap MF2 c) = Successors (heap MF c)" by auto
  from MF2(3) r have c2: "layout MF2 = ys" "insts (heap MF2 c) = (if c = b then body @ ?T else insts (heap MF c))"
      "IsEHPad (heap MF2 c) = IsEHPad (heap MF c)" for c
    by (auto simp: same_code_def)
  have ren: "renamed Succ ?n b MF MF2"
    using S2(1) fresh_ok_succ [OF D(2,1)] D(11) n(2) by (auto simp: renamed_def c2 ren_def empty_block_def)
  have targets: "\<forall>I\<in>set T. jump_target I \<noteq> Some ?n"
    using D(5) fresh_ok_target [OF D(2), of _ b] by (auto simp: block_split_def)
  have an: "analyzeBranch MF2 b = Inr (Some (ren_info Succ ?n bi))" "info_avoids ?n bi"
    using analyzeBranch_ren [OF ren D(5) targets D(6)] c2(2) [of b] by auto
  have sp2: "block_split MF2 b body ?T"
    using D(5) c2(2) [of b] retarget_tail by (simp add: block_split_def)
  have ne: "Successors (heap MF2 b) \<noteq> []" using old by (auto simp: S2(1))
  from updateTerminator_keeps [OF sp2 an(1) succs_fit_ren [OF ren D(7) an(2) D(8)] ne]
  obtain MF3 T' where up: "updateTerminator b MF2 = Inr MF3" "retailed b body T' MF2 MF3"
    and dest: "\<And>fl. branch_dest fl (next_in ys b) T' = branch_dest fl (Some (ren Succ ?n g)) ?T"
    unfolding keeps_dests_def c2(1) by blast
  have MF3: "MF3 = upd_block b (\<lambda>B. B\<lparr>insts := body @ T'\<rparr>) MF2" "branch_tail T'"
    using up(2) by (simp_all add: retailed_def)
  have e3: "edges_ok MF3" using MF2(2) by (simp add: MF3(1) edges_ok_code)
  from split_jump_result [OF e3, of ?n Succ] obtain MF4 where
    MF4: "split_jump ?n Succ MF3 = Inr MF4" "edges_ok MF4" "layout MF4 = ys"
      "insts (heap MF4 ?n) = (if next_in ys ?n = Some Succ then [] else [mk_branch JMP_1 Succ])"
      "Successors (heap MF4 ?n) = [Succ]"
      "\<forall>c. c \<noteq> ?n \<longrightarrow> insts (heap MF4 c) = insts (heap MF3 c) \<and> Successors (heap MF4 c) = Successors (heap MF3 c)"
    using bn Sn n(2) S2(2) by (auto simp: MF3(1) c2 empty_block_def)
  note lay = next_in_inserted [OF D(3,4) n(1), folded ys_def]
  have "edge_split b Succ g body T T' MF MF4"
    unfolding edge_split_def
    using MF4 MF3 bn S2 lay(1,2) dest branch_dest_retarget [of _ Succ ?n "Some g" T]
    by (auto simp: c2 ys_def [symmetric])
  moreover have "SplitCriticalEdge b Succ MF S =
      Inr (Some ?n, MF4, S\<lparr>LiveIns := (LiveIns S)(?n := LiveIns S Succ)\<rparr>)"
    using Sn assms(2) by (simp add: SplitCriticalEdge_def splittable_can [OF sp] ins uses MF2(1) up(1) MF4(1)
        split_liveins_def liveins_def push_liveins assert_res_def)
  ultimately show ?thesis by blast
qed

end
