(* ===== verification/EdgeSplitSem.thy ===== *)
theory EdgeSplitSem
  imports EdgeSplitResult ConversionSim
begin

text \<open>
  Running a function before and after \<open>SplitCriticalEdge\<close>. The branches at the end of the split
  block count as one step in both functions; a simulation matches the step to the old destination by the
  step to the new block and the one on from there.
\<close>

section \<open>Runs in larger steps\<close>

text \<open>
  A machine that takes several steps at once ends where the machine itself ends: the interface
  between the two ways of stepping.
\<close>

locale summarised_steps =
  fixes step fast :: "'c \<Rightarrow> 'c" and halted :: "'c \<Rightarrow> bool"
  assumes fast: "\<exists>n. fast c = (step ^^ Suc n) c"
    and halted_stays: "halted c \<Longrightarrow> step c = c"
begin

lemma fast_run: "\<exists>m\<ge>n. (fast ^^ n) c = (step ^^ m) c"
proof (induction n)
  case 0
  then show ?case by (intro exI [of _ 0]) simp
next
  case (Suc n)
  then obtain m where m: "n \<le> m" "(fast ^^ n) c = (step ^^ m) c" by blast
  obtain k where "fast ((step ^^ m) c) = (step ^^ Suc k) ((step ^^ m) c)" using fast by blast
  then have "(fast ^^ Suc n) c = (step ^^ (Suc k + m)) c"
    using m(2) by (simp only: funpow.simps(2) o_apply funpow_add)
  with m(1) show ?case by (intro exI [of _ "Suc k + m"]) auto
qed

lemma halted_run: "halted c \<Longrightarrow> (step ^^ n) c = c"
  by (induction n) (simp_all add: halted_stays)

lemma same_end:
  assumes "halted r"
  shows "(\<exists>n. (fast ^^ n) c = r) \<longleftrightarrow> (\<exists>n. (step ^^ n) c = r)"
proof
  assume "\<exists>n. (fast ^^ n) c = r"
  then show "\<exists>n. (step ^^ n) c = r" using fast_run by metis
next
  assume "\<exists>n. (step ^^ n) c = r"
  then obtain n where n: "(step ^^ n) c = r" by blast
  from fast_run [of n c] obtain m where m: "n \<le> m" "(fast ^^ n) c = (step ^^ m) c" by blast
  have "(step ^^ m) c = (step ^^ (m - n)) ((step ^^ n) c)"
    using fun_cong [OF funpow_add [of "m - n" n step], of c] m(1) by simp
  also have "\<dots> = r" unfolding n using assms by (rule halted_run)
  finally show "\<exists>n. (fast ^^ n) c = r" using m(2) by metis
qed

end

text \<open>The branches \<open>T\<close> at the end of block \<open>b\<close> are taken in one step.\<close>

fun tail_step :: "'m machine \<Rightarrow> mfunc \<Rightarrow> nat \<Rightarrow> minstr list \<Rightarrow> minstr list \<Rightarrow> 'm config \<Rightarrow> 'm config" where
  "tail_step M F b body T (Run x i s) =
     (if block_split F b body T \<and> x = b \<and> i = length body
      then goto (branch_dest (flags s) (next_in (layout F) b) T) s
      else mstep M F (Run x i s))"
| "tail_step M F b body T c = c"

fun halted :: "'m config \<Rightarrow> bool" where
  "halted (Run x i s) = False"
| "halted c = True"

lemma mrun_funpow: "mrun M F n c = (mstep M F ^^ n) c"
  by (induction n arbitrary: c) (simp_all add: funpow_swap1)

interpretation tails: summarised_steps "mstep M F" "tail_step M F b body T" halted
  for M :: "'m machine" and F b body T
proof
  show "\<exists>n. tail_step M F b body T c = (mstep M F ^^ Suc n) c" for c
  proof (cases c)
    case (Run x i s)
    show ?thesis
    proof (cases "block_split F b body T \<and> x = b \<and> i = length body")
      case True
      then have "insts (heap F b) = body @ T" "list_all (\<lambda>I. jcc I \<or> jmp I) T"
        using branch_tail_all by (auto simp: block_split_def)
      from branch_steps [OF this, of M s] obtain n where
        "mrun M F (Suc n) c = goto (branch_dest (flags s) (next_in (layout F) b) T) s" using True Run by auto
      with True Run show ?thesis by (intro exI [of _ n]) (simp only: mrun_funpow tail_step.simps if_True simp_thms)
    next
      case False
      then have "tail_step M F b body T c = mstep M F c" unfolding Run tail_step.simps by (rule if_not_P)
      then show ?thesis by (intro exI [of _ 0]) simp
    qed
  qed (intro exI [of _ 0], simp)+
  show "mstep M F c = c" if "halted c" for c using that by (cases c) simp_all
qed

section \<open>One step of the split function\<close>

text \<open>Everywhere but at the branches of \<open>b\<close>, both functions take the same step.\<close>

definition split_of ::
  "'m machine \<Rightarrow> nat \<Rightarrow> nat \<Rightarrow> nat \<Rightarrow> minstr list \<Rightarrow> minstr list \<Rightarrow> minstr list \<Rightarrow> branch_info \<Rightarrow> mfunc \<Rightarrow> mfunc \<Rightarrow> bool" where
  "split_of M b Succ g body T T' bi F F' \<longleftrightarrow>
     splittable F b Succ g body T bi \<and> edge_split b Succ g body T T' F F' \<and>
     inj_on (loc M) (insert (fresh F) (set (layout F)))"

lemma split_ofD:
  assumes "split_of M b Succ g body T T' bi F F'"
  shows "splittable F b Succ g body T bi" "edge_split b Succ g body T T' F F'"
    "inj_on (loc M) (insert (fresh F) (set (layout F)))"
  using assms by (auto simp: split_of_def)

lemma split_layout:
  assumes "split_of M b Succ g body T T' bi F F'"
  shows "next_in (layout F') b = Some (fresh F)" "next_in (layout F') (fresh F) = next_in (layout F) b"
    "set (layout F') = insert (fresh F) (set (layout F))" "begin_iter (layout F') = begin_iter (layout F)"
    and "x \<noteq> b \<Longrightarrow> x \<noteq> fresh F \<Longrightarrow> next_in (layout F') x = next_in (layout F) x"
proof -
  note D = splittableD [OF split_ofD(1) [OF assms]] and E = edge_splitD [OF split_ofD(2) [OF assms]]
  from D(2) have n: "fresh F \<notin> set (layout F)" by (simp add: fresh_ok_def)
  from next_in_inserted [OF D(3,4) n]
  show "next_in (layout F') b = Some (fresh F)" "next_in (layout F') (fresh F) = next_in (layout F) b"
    "set (layout F') = insert (fresh F) (set (layout F))" "begin_iter (layout F') = begin_iter (layout F)"
    "x \<noteq> b \<Longrightarrow> x \<noteq> fresh F \<Longrightarrow> next_in (layout F') x = next_in (layout F) x"
    unfolding E(2) by auto
qed

lemma block_at_frame:
  assumes "inj_on (loc M) (set (layout F'))" "set (layout F) \<subseteq> set (layout F')" "block_at M F a = Some t"
  shows "block_at M F' a = Some t"
  using block_at_loc [OF assms(1), of t] block_at_mem [OF assms(3)] assms(2) by auto

lemma exec_instr_frame:
  assumes "\<And>a t. block_at M F a = Some t \<Longrightarrow> block_at M F' a = Some t"
    and "exec_instr M F x i I s \<noteq> Stuck"
  shows "exec_instr M F' x i I s = exec_instr M F x i I s"
proof -
  have at: "goto (block_at M F' a) s = goto (block_at M F a) s" if "goto (block_at M F a) s \<noteq> Stuck" for a
    using that assms(1) by (cases "block_at M F a") auto
  show ?thesis
  proof (cases "opc I = JMP64r \<or> opc I = JMP64m")
    case True
    with assms(2) at show ?thesis
      by (auto simp: exec_instr_def Let_def split: list.splits operand.splits preg.splits)
  next
    case False
    then show ?thesis by (cases "opc I") (simp_all add: exec_instr_def Let_def)
  qed
qed

lemma exec_instr_targets:
  assumes "exec_instr M F x i I s = Run y j r"
  shows "y = x \<and> j = Suc i \<or> j = 0 \<and> (jump_target I = Some y \<or> y \<in> set (layout F))"
proof -
  have goto: "p = Some y \<and> j = 0" if "goto p s = Run y j r" for p using that by (cases p) simp_all
  have at: "y \<in> set (layout F) \<and> j = 0" if "goto (block_at M F a) s = Run y j r" for a
    using goto [OF that] block_at_mem [of M F a y] by simp
  show ?thesis
  proof (cases "opc I = JMP64r \<or> opc I = JMP64m")
    case True
    with assms at show ?thesis
      by (fastforce simp: exec_instr_def Let_def split: list.splits operand.splits preg.splits)
  next
    case False
    with assms show ?thesis
      by (cases "opc I") (auto simp: exec_instr_def Let_def dest!: goto split: if_splits)
  qed
qed

text \<open>The configurations the original reaches when the branches of \<open>b\<close> count as one step.\<close>

fun up_to_tail :: "mfunc \<Rightarrow> nat \<Rightarrow> nat \<Rightarrow> 'm config \<Rightarrow> bool" where
  "up_to_tail F b len (Run x i s) = (x \<noteq> fresh F \<and> (x = b \<longrightarrow> i \<le> len))"
| "up_to_tail F b len c = True"

lemma step_elsewhere:
  assumes sp: "split_of M b Succ g body T T' bi F F'" and x: "x \<noteq> b" "x \<noteq> fresh F"
    and ok: "mstep M F (Run x i s) \<noteq> Stuck"
  shows "mstep M F' (Run x i s) = mstep M F (Run x i s)" "up_to_tail F b len (mstep M F (Run x i s))"
proof -
  note D = splittableD [OF split_ofD(1) [OF sp]] and E = edge_splitD [OF split_ofD(2) [OF sp]]
  note L = split_layout [OF sp]
  have n: "fresh F \<notin> set (layout F)" using D(2) by (simp add: fresh_ok_def)
  have ins: "insts (heap F' x) = insts (heap F x)" using E(6) x by simp
  have at: "block_at M F' a = Some t" if "block_at M F a = Some t" for a t
    using block_at_frame [of M F' F a t] split_ofD(3) [OF sp] that by (auto simp: L(3))
  show "mstep M F' (Run x i s) = mstep M F (Run x i s)"
  proof (cases "i < length (insts (heap F x))")
    case True
    with ok exec_instr_frame [of M F F' x i "insts (heap F x) ! i" s] at show ?thesis by (simp add: ins)
  next
    case False
    with L(5) [OF x] show ?thesis by (simp add: ins)
  qed
  show "up_to_tail F b len (mstep M F (Run x i s))"
  proof (cases "mstep M F (Run x i s)")
    case (Run y j r)
    have "y = x \<or> j = 0 \<and> y \<noteq> fresh F"
    proof (cases "i < length (insts (heap F x))")
      case True
      then have "insts (heap F x) ! i \<in> set (insts (heap F x))" by simp
      from fresh_ok_target [OF D(2) this] exec_instr_targets [of M F x i "insts (heap F x) ! i" s y j r] True Run n
      show ?thesis by auto
    next
      case False
      with Run have "next_in (layout F) x = Some y \<and> j = 0" by (cases "next_in (layout F) x") auto
      with next_in_mem [of "layout F" x y] n show ?thesis by auto
    qed
    with x Run show ?thesis by auto
  qed simp_all
qed

lemma step_in_body:
  assumes "split_of M b Succ g body T T' bi F F'" "i < length body"
  shows "mstep M F' (Run b i s) = mstep M F (Run b i s)" "up_to_tail F b (length body) (mstep M F (Run b i s))"
proof -
  note D = splittableD [OF split_ofD(1) [OF assms(1)]] and E = edge_splitD [OF split_ofD(2) [OF assms(1)]]
  have ins: "insts (heap F b) = body @ T" "\<not> isTerminator (body ! i)"
    using D(5) assms(2) by (auto simp: block_split_def straight_line_def list_all_iff)
  have b: "b \<noteq> fresh F" using D(2,4) by (auto simp: fresh_ok_def)
  have st: "mstep M G (Run b i s) = (if isCall (body ! i) \<and> noreturn M (body ! i) then Returned s
      else Run b (Suc i) (exec_straight M (body ! i) s))" if "insts (heap G b) = body @ U" for G U
    using assms(2) ins(2) by (simp add: that nth_append exec_instr_straight)
  show "mstep M F' (Run b i s) = mstep M F (Run b i s)" using st [OF ins(1)] st [OF E(3)] by simp
  show "up_to_tail F b (length body) (mstep M F (Run b i s))" using st [OF ins(1)] b assms(2) by simp
qed

lemma step_of_tail:
  assumes sp: "split_of M b Succ g body T T' bi F F'"
    and ok: "tail_step M F b body T (Run b (length body) s) \<noteq> Stuck"
  shows "\<exists>n. tail_step M F b body T (Run b (length body) s) =
      (tail_step M F' b body T' ^^ Suc n) (Run b (length body) s)"
    and "up_to_tail F b (length body) (tail_step M F b body T (Run b (length body) s))"
proof -
  note D = splittableD [OF split_ofD(1) [OF sp]] and E = edge_splitD [OF split_ofD(2) [OF sp]]
  note L = split_layout [OF sp]
  let ?n = "fresh F"
  have n: "?n \<notin> set (layout F)" "b \<noteq> ?n" using D(2,4) by (auto simp: fresh_ok_def)
  have sp': "block_split F' b body T'" using D(5) E(3,4) by (simp add: block_split_def)
  have T: "set T \<subseteq> set (insts (heap F b))" using D(5) by (auto simp: block_split_def)
  from ok D(5) obtain d where d: "branch_dest (flags s) (next_in (layout F) b) T = Some d"
    by (cases "branch_dest (flags s) (next_in (layout F) b) T") auto
  have src: "tail_step M F b body T (Run b (length body) s) = Run d 0 s" using D(5) d by simp
  have dn: "d \<noteq> ?n"
    using branch_dest_mem [OF d] next_in_mem [of "layout F" b] n(1) fresh_ok_target [OF D(2), of _ b] T by blast
  have "branch_dest (flags s) (Some g) T = Some d"
    using d D(9) branch_dest_next [of "flags s" T d "Some g"] by auto
  with E(7) have "branch_dest (flags s) (Some ?n) T' = Some (ren Succ ?n d)" by simp
  then have tgt: "tail_step M F' b body T' (Run b (length body) s) = Run (ren Succ ?n d) 0 s"
    using sp' L(1) by simp
  have new: "tail_step M F' b body T' (Run ?n 0 s) = Run Succ 0 s"
    using n(2) E(5) L(2)
    by (cases "next_in (layout F) b = Some Succ") (simp_all add: exec_instr_def mk_branch_def jump_target_def)
  show "\<exists>n. tail_step M F b body T (Run b (length body) s) =
      (tail_step M F' b body T' ^^ Suc n) (Run b (length body) s)"
  proof (cases "d = Succ")
    case True
    with new tgt show ?thesis unfolding src by (intro exI [of _ 1]) (simp add: ren_def)
  next
    case False
    with tgt show ?thesis unfolding src by (intro exI [of _ 0]) (simp add: ren_def)
  qed
  show "up_to_tail F b (length body) (tail_step M F b body T (Run b (length body) s))" unfolding src using dn by simp
qed

section \<open>The simulation\<close>

definition split_rel ::
  "'m machine \<Rightarrow> nat \<Rightarrow> nat \<Rightarrow> nat \<Rightarrow> minstr list \<Rightarrow> minstr list \<Rightarrow> minstr list \<Rightarrow> branch_info \<Rightarrow> mfunc \<Rightarrow> mfunc \<Rightarrow>
   'm config \<Rightarrow> 'm config \<Rightarrow> bool" where
  "split_rel M b Succ g body T T' bi F F' c d \<longleftrightarrow>
     split_of M b Succ g body T T' bi F F' \<and> d = c \<and> up_to_tail F b (length body) c"

lemma split_rel_step:
  assumes "split_rel M b Succ g body T T' bi F F' c d" and ok: "tail_step M F b body T c \<noteq> Stuck"
  shows "\<exists>n. split_rel M b Succ g body T T' bi F F' (tail_step M F b body T c) ((tail_step M F' b body T' ^^ Suc n) d)"
proof (cases c)
  case (Run x i s)
  from assms(1) have sp: "split_of M b Succ g body T T' bi F F'" and d: "d = c" and pt: "up_to_tail F b (length body) c"
    by (auto simp: split_rel_def)
  note D = splittableD [OF split_ofD(1) [OF sp]] and E = edge_splitD [OF split_ofD(2) [OF sp]]
  have sp': "block_split F' b body T'" using D(5) E(3,4) by (simp add: block_split_def)
  consider "x = b" "i = length body" | "x = b" "i < length body" | "x \<noteq> b" using pt Run by fastforce
  then show ?thesis
  proof cases
    case 1
    then have c: "c = Run b (length body) s" using Run by simp
    from step_of_tail [OF sp ok [unfolded c]] obtain n where
      "tail_step M F b body T c = (tail_step M F' b body T' ^^ Suc n) d"
      "up_to_tail F b (length body) (tail_step M F b body T c)" unfolding c d by blast
    with sp show ?thesis unfolding split_rel_def by metis
  next
    case 2
    with step_in_body [OF sp, of i s] sp sp' D(5) Run d show ?thesis
      by (intro exI [of _ 0]) (simp add: split_rel_def)
  next
    case 3
    then have fr: "x \<noteq> fresh F" and st: "tail_step M F b body T c = mstep M F (Run x i s)"
        "tail_step M F' b body T' d = mstep M F' (Run x i s)" using pt d Run by auto
    from ok st(1) have "mstep M F (Run x i s) \<noteq> Stuck" by simp
    from step_elsewhere [OF sp 3 fr this] sp st show ?thesis
      by (intro exI [of _ 0]) (simp add: split_rel_def del: mstep.simps)
  qed
next
  case (Returned s)
  with assms(1) show ?thesis by (intro exI [of _ 0]) (simp add: split_rel_def)
next
  case Stuck
  with ok show ?thesis by simp
qed

interpretation split: forward_simulation "tail_step M F b body T" "tail_step M F' b body T'" "\<lambda>c. c = Stuck" halted
    "split_rel M b Succ g body T T' bi F F'"
  for M :: "'m machine" and F F' b Succ g body T T' bi
proof
  show "\<exists>n. split_rel M b Succ g body T T' bi F F' (tail_step M F b body T c) ((tail_step M F' b body T' ^^ Suc n) d)"
    if "split_rel M b Succ g body T T' bi F F' c d" "tail_step M F b body T c \<noteq> Stuck" for c d
    using that by (rule split_rel_step)
  show "halted c = halted d" if "split_rel M b Succ g body T T' bi F F' c d" for c d
    using that by (simp add: split_rel_def)
  show "tail_step M F' b body T' c = c" if "halted c" for c using that by (cases c) simp_all
qed

lemma split_runs:
  fixes M :: "'m machine"
  assumes sp: "split_of M b Succ g body T T' bi F F'" and ok: "\<And>k. mrun M F k (mstart F s) \<noteq> Stuck"
  shows "(\<exists>n. mrun M F n (mstart F s) = Returned r) \<longleftrightarrow> (\<exists>n. mrun M F' n (mstart F' s) = Returned r)"
    and "mrun M F' n (mstart F' s) \<noteq> Stuck"
proof -
  let ?c = "mstart F s" and ?f = "tail_step M F b body T" and ?f' = "tail_step M F' b body T'"
  note D = splittableD [OF split_ofD(1) [OF sp]] and L = split_layout [OF sp]
  have start: "mstart F' s = ?c" by (simp add: mstart_def L(4))
  obtain h where h: "begin_iter (layout F) = Some h" "h \<in> set (layout F)" using D(4) by (cases "layout F") auto
  with D(2) have "up_to_tail F b (length body) ?c" by (auto simp: mstart_def fresh_ok_def)
  with sp have R: "split_rel M b Succ g body T T' bi F F' ?c ?c" by (simp add: split_rel_def)
  have fast_ok: "(?f ^^ k) ?c \<noteq> Stuck" for k
    using tails.same_end [of Stuck M F b body T ?c] ok by (auto simp: mrun_funpow)
  have there: "\<exists>n. (?f ^^ n) ?c = q" if "(?f' ^^ m) ?c = q" "halted q" for q m
    using split.sim_back [OF R fast_ok, of m] that by (auto simp: split_rel_def)
  show "mrun M F' n (mstart F' s) \<noteq> Stuck"
    using there [of _ Stuck] tails.same_end [of Stuck M F' b body T' ?c] fast_ok
    by (auto simp: mrun_funpow start)
  have onto: "\<exists>m. (?f' ^^ m) ?c = q" if "(?f ^^ n) ?c = q" for q n
    using split.sim_run [OF R fast_ok, of n] that by (auto simp: split_rel_def)
  have "(\<exists>n. (?f ^^ n) ?c = Returned r) \<longleftrightarrow> (\<exists>n. (?f' ^^ n) ?c = Returned r)"
    using onto [of _ "Returned r"] there [of _ "Returned r"] by auto
  then show "(\<exists>n. mrun M F n (mstart F s) = Returned r) \<longleftrightarrow> (\<exists>n. mrun M F' n (mstart F' s) = Returned r)"
    using tails.same_end [of "Returned r" M F b body T ?c] tails.same_end [of "Returned r" M F' b body T' ?c]
    by (simp add: mrun_funpow start)
qed

end
