(* ===== verification/EdgeSplitProps.thy ===== *)
theory EdgeSplitProps
  imports EdgeSplitSem
begin

text \<open>The properties of \<open>SplitCriticalEdge\<close>, with an example on which they are applied.\<close>

section \<open>An example\<close>

text \<open>Block 0 goes to 2 on equality and to 1 otherwise, and 1 falls through to 2: the edge to 2 is critical.\<close>

definition split_ex :: mfunc where
  "split_ex = addSuccessor 1 2 UnknownN (addSuccessor 0 2 UnknownN (addSuccessor 0 1 UnknownN
     \<lparr>layout = [0, 1, 2],
      heap = (\<lambda>b. empty_block)(0 := empty_block\<lparr>insts := [mk_branch (Jcc_1 mE) 2]\<rparr>,
                                2 := empty_block\<lparr>insts := [\<lparr>opc = RETQ, ops = []\<rparr>]\<rparr>),
      fresh = 3\<rparr>))"

definition split_ex_info :: branch_info where
  "split_ex_info = \<lparr>TBB = Some 2, FBB = None, Cond = [COND_E], CondBranches = [mk_branch (Jcc_1 mE) 2]\<rparr>"

definition split_ex_live :: live_ins where
  "split_ex_live = \<lparr>TracksLiveness = True, LiveIns = (\<lambda>b. if b = 2 then [\<lparr>PhysReg = 5, LaneMask = getAll\<rparr>] else [])\<rparr>"

definition split_machine :: "nat machine" where
  "split_machine = \<lparr>loc = of_nat, compute = (\<lambda>MI s. s), load = (\<lambda>MI s. 0), noreturn = (\<lambda>MI. False)\<rparr>"

lemma split_ex_sel:
  "layout split_ex = [0, 1, 2]" "fresh split_ex = 3"
  "insts (heap split_ex c) = (if c = 0 then [mk_branch (Jcc_1 mE) 2] else if c = 2 then [\<lparr>opc = RETQ, ops = []\<rparr>] else [])"
  "Successors (heap split_ex c) = (if c = 0 then [1, 2] else if c = 1 then [2] else [])"
  "IsEHPad (heap split_ex c) = False" "heap split_ex 3 = empty_block"
  by (simp_all add: split_ex_def empty_block_def) (simp_all add: addSuccessor_def addPredecessor_def)

lemma split_ex_splittable: "splittable split_ex 0 2 1 [] [mk_branch (Jcc_1 mE) 2] split_ex_info"
proof -
  have "edges_ok split_ex" unfolding split_ex_def
    by (intro addSuccessor_edges) (auto simp: edges_ok_def empty_block_def)
  moreover have "fresh_ok split_ex" by (simp add: fresh_ok_def split_ex_sel mk_branch_def)
  moreover have "block_split split_ex 0 [] [mk_branch (Jcc_1 mE) 2]"
  proof -
    have "branch_tail [mk_branch (Jcc_1 mE) 2]" unfolding branch_tail_def
      by (rule exI [of _ "[mk_branch (Jcc_1 mE) 2]"], rule exI [of _ "[]"]) (simp add: jcc_def)
    then show ?thesis by (simp add: block_split_def split_ex_sel straight_line_def)
  qed
  moreover have "analyzeBranch split_ex 0 = Inr (Some split_ex_info)"
    by (simp add: analyzeBranch_def split_ex_sel step_jcc_mk no_branch_info_def split_ex_info_def)
  moreover have "succs_fit split_ex 0 1 split_ex_info"
    by (simp add: succs_fit_def split_ex_info_def plain_succs_def split_ex_sel)
  ultimately show ?thesis by (simp add: splittable_def split_ex_sel split_ex_info_def)
qed

lemma split_ex_run: "mrun split_machine split_ex 5 (mstart split_ex s) = Returned s"
  by (simp add: eval_nat_numeral mstart_def split_ex_sel exec_instr_def mk_branch_def jump_target_def)

lemma split_ex_not_stuck: "mrun split_machine split_ex k (mstart split_ex s) \<noteq> Stuck"
  using mrun_add [of split_machine split_ex k 5 "mstart split_ex s"]
    mrun_add [of split_machine split_ex 5 k "mstart split_ex s"]
  by (auto simp: split_ex_run mrun_stuck mrun_returned add.commute)

lemma split_ex_loc: "inj_on (loc split_machine) (insert (fresh split_ex) (set (layout split_ex)))"
  by (simp add: split_machine_def split_ex_sel)

section \<open>Properties\<close>

lemma only_entry:
  assumes "\<And>x. count_list xs x = (if x = y then 1 else 0)"
  shows "xs = [y]"
proof (cases xs)
  case Nil
  with assms [of y] show ?thesis by simp
next
  case (Cons a as)
  with assms [of a] have a: "a = y" by (simp split: if_splits)
  have "as = []"
  proof (rule ccontr)
    assume "as \<noteq> []"
    then obtain c cs where "as = c # cs" by (cases as) auto
    with assms [of c] assms [of y] Cons a show False by (auto split: if_splits)
  qed
  with a Cons show ?thesis by simp
qed

text \<open>
  C7. Splitting an edge of a block whose branches are understood succeeds and preserves the program:
  from a state in which the function does not get stuck, it returns exactly when it returned before,
  in the same state, and does not get stuck.
\<close>

theorem SplitCriticalEdge_preserves:
  assumes "splittable F b Succ g body T bi" and "TracksLiveness S"
    and "inj_on (loc M) (insert (fresh F) (set (layout F)))"
    and "\<And>k. mrun M F k (mstart F s) \<noteq> Stuck"
  shows "\<exists>F' S'. SplitCriticalEdge b Succ F S = Inr (Some (fresh F), F', S') \<and>
    (\<forall>r. (\<exists>n. mrun M F n (mstart F s) = Returned r) \<longleftrightarrow> (\<exists>n. mrun M F' n (mstart F' s) = Returned r)) \<and>
    (\<forall>n. mrun M F' n (mstart F' s) \<noteq> Stuck)"
proof -
  from split_result [OF assms(1,2)] obtain F' T' where F': "SplitCriticalEdge b Succ F S =
      Inr (Some (fresh F), F', S\<lparr>LiveIns := (LiveIns S)(fresh F := LiveIns S Succ)\<rparr>)"
    "edge_split b Succ g body T T' F F'" by blast
  with assms(1,3) have "split_of M b Succ g body T T' bi F F'" by (simp add: split_of_def)
  from split_runs [OF this assms(4)] F'(1) show ?thesis by blast
qed

theorem SplitCriticalEdge_preserves_witness:
  "\<forall>s. \<exists>F' S' n. SplitCriticalEdge 0 2 split_ex split_ex_live = Inr (Some 3, F', S') \<and>
     mrun split_machine F' n (mstart F' s) = Returned s"
proof
  fix s
  have "TracksLiveness split_ex_live" by (simp add: split_ex_live_def)
  from SplitCriticalEdge_preserves [OF split_ex_splittable this split_ex_loc split_ex_not_stuck, of s]
  show "\<exists>F' S' n. SplitCriticalEdge 0 2 split_ex split_ex_live = Inr (Some 3, F', S') \<and>
     mrun split_machine F' n (mstart F' s) = Returned s"
    using split_ex_run [of s] unfolding split_ex_sel by blast
qed

text \<open>
  C15. The new block stands behind the source, takes over the edge and inherits the live-ins of its
  end; it has one predecessor and one successor, so neither of its edges is critical, and the other
  edges stay.
\<close>

theorem SplitCriticalEdge_edges:
  assumes "splittable F b Succ g body T bi" and "TracksLiveness S"
  shows "\<exists>F' S'. SplitCriticalEdge b Succ F S = Inr (Some (fresh F), F', S') \<and> edges_ok F' \<and>
    next_in (layout F') b = Some (fresh F) \<and> next_in (layout F') (fresh F) = next_in (layout F) b \<and>
    Predecessors (heap F' (fresh F)) = [b] \<and> Successors (heap F' (fresh F)) = [Succ] \<and>
    Successors (heap F' b) = map (\<lambda>c. if c = Succ then fresh F else c) (Successors (heap F b)) \<and>
    (\<forall>c. c \<in> {b, fresh F} \<or> Successors (heap F' c) = Successors (heap F c) \<and> insts (heap F' c) = insts (heap F c)) \<and>
    LiveIns S' = (LiveIns S)(fresh F := LiveIns S Succ)"
proof -
  note D = splittableD [OF assms(1)]
  let ?n = "fresh F"
  from split_result [OF assms] obtain F' T' where F': "SplitCriticalEdge b Succ F S =
      Inr (Some ?n, F', S\<lparr>LiveIns := (LiveIns S)(?n := LiveIns S Succ)\<rparr>)"
    "edge_split b Succ g body T T' F F'" by blast
  note E = edge_splitD [OF F'(2)]
  have n: "?n \<notin> set (layout F)" using D(2) by (simp add: fresh_ok_def)
  have Sn: "?n \<notin> set (Successors (heap F c))" for c using fresh_ok_succ [OF D(2,1)] .
  have S1: "Succ \<noteq> ?n" using Sn [of b] D(10) by (auto simp: count_list_pos)
  have "count_list (map (ren Succ ?n) xs) ?n = count_list xs Succ" if "?n \<notin> set xs" for xs
    using that by (induction xs) (auto simp: ren_def)
  then have "count_list (Successors (heap F' b)) ?n = 1" using E(8) D(10) Sn by simp
  moreover have "count_list (Successors (heap F' c)) ?n = 0" if "c \<noteq> b" for c
    using that E(9,10) S1 Sn [of c] by (cases "c = ?n") auto
  ultimately have "count_list (Predecessors (heap F' ?n)) c = (if c = b then 1 else 0)" for c
    using edges_okD(1) [OF E(1), of c ?n] by auto
  then have "Predecessors (heap F' ?n) = [b]" by (rule only_entry)
  moreover have "next_in (layout F') b = Some ?n" "next_in (layout F') ?n = next_in (layout F) b"
    unfolding E(2) using next_in_inserted [OF D(3,4) n] by auto
  ultimately show ?thesis using F'(1) E(1,6,8,9,10) by (auto simp: ren_def)
qed

theorem SplitCriticalEdge_edges_witness:
  "\<exists>F' S'. SplitCriticalEdge 0 2 split_ex split_ex_live = Inr (Some 3, F', S') \<and>
     Successors (heap F' 0) = [1, 3] \<and> LiveIns S' 3 = [\<lparr>PhysReg = 5, LaneMask = getAll\<rparr>]"
proof -
  have "TracksLiveness split_ex_live" by (simp add: split_ex_live_def)
  from SplitCriticalEdge_edges [OF split_ex_splittable this] show ?thesis
    by (auto simp: split_ex_sel split_ex_live_def)
qed

end
