(* ===== verification/RegLiveness.thy ===== *)
theory RegLiveness
  imports LiveIns
begin

text \<open>
  The local search for the liveness of a physical register (\<open>computeRegisterLiveness\<close> of
  \<open>llvm/lib/CodeGen/MachineBasicBlock.cpp\<close> and \<open>analyzePhysReg\<close> of
  \<open>llvm/lib/CodeGen/MachineInstrBundle.cpp\<close>) over the operand flags of the instructions.
  All registers are physical and there are no bundles, as after register allocation.
\<close>

section \<open>Operands\<close>

record reg_operand =
  RegNo :: "16 word"
  IsDef :: bool
  IsDeadOrKill :: bool
  IsUndef :: bool
  IsInternalRead :: bool
  SubReg :: nat

text \<open>A register mask is given by the registers it preserves.\<close>

datatype liveness_operand = RegOp reg_operand | RegMask "16 word \<Rightarrow> bool" | OtherOperand

definition isDead :: "reg_operand \<Rightarrow> bool" where
  "isDead MO = (IsDeadOrKill MO \<and> IsDef MO)"

definition isKill :: "reg_operand \<Rightarrow> bool" where
  "isKill MO = (IsDeadOrKill MO \<and> \<not> IsDef MO)"

definition readsReg :: "reg_operand \<Rightarrow> bool" where
  "readsReg MO = (\<not> IsUndef MO \<and> \<not> IsInternalRead MO \<and> (\<not> IsDef MO \<or> SubReg MO \<noteq> 0))"

text \<open>The register file of the target, generated at build time, is a parameter.\<close>

record register_info =
  regsOverlap :: "16 word \<Rightarrow> 16 word \<Rightarrow> bool"
  isSuperRegisterEq :: "16 word \<Rightarrow> 16 word \<Rightarrow> bool"
  aliases :: "16 word \<Rightarrow> 16 word list"

section \<open>One instruction\<close>

record phys_reg_info =
  Clobbered :: bool
  Defined :: bool
  FullyDefined :: bool
  Read :: bool
  FullyRead :: bool
  DeadDef :: bool
  PartialDeadDef :: bool
  Killed :: bool

definition no_info :: phys_reg_info where
  "no_info = \<lparr>Clobbered = False, Defined = False, FullyDefined = False, Read = False, FullyRead = False,
     DeadDef = False, PartialDeadDef = False, Killed = False\<rparr>"

text \<open>One turn of the loop over the operands, with \<open>AllDefsDead\<close>.\<close>

definition analyze_operand ::
  "register_info \<Rightarrow> 16 word \<Rightarrow> liveness_operand \<Rightarrow> bool \<times> phys_reg_info \<Rightarrow> bool \<times> phys_reg_info" where
  "analyze_operand TRI r MO S =
     (case S of (AllDefsDead, PRI) \<Rightarrow>
        case MO of
          OtherOperand \<Rightarrow> (AllDefsDead, PRI)
        | RegMask preserved \<Rightarrow>
            (AllDefsDead, if \<not> preserved r then PRI\<lparr>Clobbered := True\<rparr> else PRI)
        | RegOp op \<Rightarrow>
            if RegNo op = 0 \<or> \<not> regsOverlap TRI (RegNo op) r then (AllDefsDead, PRI)
            else
              let Covered = isSuperRegisterEq TRI r (RegNo op) in
              if readsReg op then
                (AllDefsDead,
                 let PRI1 = PRI\<lparr>Read := True\<rparr> in
                 if Covered
                 then (let PRI2 = PRI1\<lparr>FullyRead := True\<rparr> in if isKill op then PRI2\<lparr>Killed := True\<rparr> else PRI2)
                 else PRI1)
              else if IsDef op then
                (if \<not> isDead op then False else AllDefsDead,
                 let PRI1 = PRI\<lparr>Defined := True\<rparr> in if Covered then PRI1\<lparr>FullyDefined := True\<rparr> else PRI1)
              else (AllDefsDead, PRI))"

definition analyzePhysReg :: "register_info \<Rightarrow> 16 word \<Rightarrow> liveness_operand list \<Rightarrow> phys_reg_info" where
  "analyzePhysReg TRI r MI =
     (case fold (analyze_operand TRI r) MI (True, no_info) of (AllDefsDead, PRI) \<Rightarrow>
        if AllDefsDead then
          (if FullyDefined PRI \<or> Clobbered PRI then PRI\<lparr>DeadDef := True\<rparr>
           else if Defined PRI then PRI\<lparr>PartialDeadDef := True\<rparr>
           else PRI)
        else PRI)"

section \<open>The search\<close>

datatype LivenessQueryResult = LQR_Live | LQR_Dead | LQR_Unknown

text \<open>The search backwards from position \<open>I\<close> has an answer or stops at a position.\<close>

datatype back_result = Answer LivenessQueryResult | Stop nat

fun search_back :: "register_info \<Rightarrow> 16 word \<Rightarrow> liveness_operand list list \<Rightarrow> nat \<Rightarrow> 32 word \<Rightarrow> back_result" where
  "search_back TRI r insts 0 N = Stop 0"
| "search_back TRI r insts (Suc I) N =
     (let Info = analyzePhysReg TRI r (insts ! I) in
      if DeadDef Info then Answer LQR_Dead
      else if Defined Info then (if \<not> PartialDeadDef Info then Answer LQR_Live else Stop I)
      else if Killed Info \<or> Clobbered Info then Answer LQR_Dead
      else if Read Info then Answer LQR_Live
      else if I \<noteq> 0 \<and> N - 1 > 0 then search_back TRI r insts I (N - 1)
      else Stop I)"

fun search_forward :: "register_info \<Rightarrow> 16 word \<Rightarrow> liveness_operand list list \<Rightarrow> 32 word \<Rightarrow> LivenessQueryResult" where
  "search_forward TRI r [] N = LQR_Unknown"
| "search_forward TRI r (MI # rest) N =
     (if N > 0 then
        let Info = analyzePhysReg TRI r MI in
        if Read Info then LQR_Live
        else if FullyDefined Info \<or> Clobbered Info then LQR_Dead
        else search_forward TRI r rest (N - 1)
      else LQR_Unknown)"

definition computeRegisterLiveness ::
  "register_info \<Rightarrow> 16 word \<Rightarrow> liveness_operand list list \<Rightarrow> RegisterMaskPair list \<Rightarrow> nat \<Rightarrow> 32 word \<Rightarrow> LivenessQueryResult" where
  "computeRegisterLiveness TRI r insts LIs Before Neighborhood =
     (case search_back TRI r insts Before Neighborhood of
        Answer q \<Rightarrow> q
      | Stop I \<Rightarrow>
          if I = 0 then (if \<exists>a\<in>set (aliases TRI r). isLiveIn a getAll LIs then LQR_Live else LQR_Dead)
          else if Before \<noteq> length insts
          then search_forward TRI r (drop (Suc Before) insts) Neighborhood
          else LQR_Unknown)"

section \<open>Liveness\<close>

text \<open>
  A register is a set of units. A unit is live before an instruction that reads it, and before one
  that does not define it if it is live afterwards.
\<close>

definition reads_of :: "(16 word \<Rightarrow> nat set) \<Rightarrow> liveness_operand list \<Rightarrow> nat set" where
  "reads_of units MI = {u. \<exists>op. RegOp op \<in> set MI \<and> RegNo op \<noteq> 0 \<and> readsReg op \<and> u \<in> units (RegNo op)}"

definition defs_of :: "(16 word \<Rightarrow> nat set) \<Rightarrow> liveness_operand list \<Rightarrow> nat set" where
  "defs_of units MI = {u. \<exists>op. RegOp op \<in> set MI \<and> RegNo op \<noteq> 0 \<and> IsDef op \<and> u \<in> units (RegNo op)}"

definition live_step :: "(16 word \<Rightarrow> nat set) \<Rightarrow> liveness_operand list \<Rightarrow> nat set \<Rightarrow> nat set" where
  "live_step units MI after = (after - defs_of units MI) \<union> reads_of units MI"

fun live_before :: "(16 word \<Rightarrow> nat set) \<Rightarrow> liveness_operand list list \<Rightarrow> nat set \<Rightarrow> nat set" where
  "live_before units [] out = out"
| "live_before units (MI # rest) out = live_step units MI (live_before units rest out)"

text \<open>
  The flags are right: a killed unit is not live afterwards unless the instruction defines it anew, a
  dead definition is not live, and what a mask clobbers is live only if it is defined. Operands of
  physical registers have no subregister index.
\<close>

definition flags_right :: "(16 word \<Rightarrow> nat set) \<Rightarrow> liveness_operand list \<Rightarrow> nat set \<Rightarrow> bool" where
  "flags_right units MI after \<longleftrightarrow>
     (\<forall>op. RegOp op \<in> set MI \<longrightarrow> SubReg op = 0 \<and>
        (isKill op \<longrightarrow> units (RegNo op) \<inter> after \<subseteq> defs_of units MI) \<and>
        (isDead op \<longrightarrow> units (RegNo op) \<inter> after = {})) \<and>
     (\<forall>m q. RegMask m \<in> set MI \<longrightarrow> \<not> m q \<longrightarrow> units q \<inter> after \<subseteq> defs_of units MI)"

fun block_flags_right :: "(16 word \<Rightarrow> nat set) \<Rightarrow> liveness_operand list list \<Rightarrow> nat set \<Rightarrow> bool" where
  "block_flags_right units [] out = True"
| "block_flags_right units (MI # rest) out =
     (flags_right units MI (live_before units rest out) \<and> block_flags_right units rest out)"

text \<open>The target describes the units.\<close>

definition describes :: "register_info \<Rightarrow> (16 word \<Rightarrow> nat set) \<Rightarrow> bool" where
  "describes TRI units \<longleftrightarrow>
     (\<forall>q r. regsOverlap TRI q r \<longleftrightarrow> units q \<inter> units r \<noteq> {}) \<and>
     (\<forall>q r. isSuperRegisterEq TRI r q \<longleftrightarrow> units r \<subseteq> units q)"

section \<open>What the analysis of an instruction finds\<close>

definition touches :: "register_info \<Rightarrow> 16 word \<Rightarrow> reg_operand \<Rightarrow> bool" where
  "touches TRI r op \<longleftrightarrow> RegNo op \<noteq> 0 \<and> regsOverlap TRI (RegNo op) r"

definition sets_reg :: "register_info \<Rightarrow> 16 word \<Rightarrow> reg_operand \<Rightarrow> bool" where
  "sets_reg TRI r op \<longleftrightarrow> touches TRI r op \<and> \<not> readsReg op \<and> IsDef op"

fun on_reg :: "(reg_operand \<Rightarrow> bool) \<Rightarrow> liveness_operand \<Rightarrow> bool" where
  "on_reg P (RegOp op) = P op"
| "on_reg P MO = False"

fun on_mask :: "16 word \<Rightarrow> liveness_operand \<Rightarrow> bool" where
  "on_mask r (RegMask m) = (\<not> m r)"
| "on_mask r MO = False"

definition kills :: "register_info \<Rightarrow> 16 word \<Rightarrow> reg_operand \<Rightarrow> bool" where
  "kills TRI r op \<longleftrightarrow>
     touches TRI r op \<and> readsReg op \<and> isSuperRegisterEq TRI r (RegNo op) \<and> isKill op"

lemma analyze_operand_sel:
  "fst (analyze_operand TRI r MO S) = (fst S \<and> \<not> on_reg (\<lambda>op. sets_reg TRI r op \<and> \<not> isDead op) MO)"
  "Clobbered (snd (analyze_operand TRI r MO S)) = (Clobbered (snd S) \<or> on_mask r MO)"
  "Defined (snd (analyze_operand TRI r MO S)) = (Defined (snd S) \<or> on_reg (sets_reg TRI r) MO)"
  "FullyDefined (snd (analyze_operand TRI r MO S)) =
     (FullyDefined (snd S) \<or> on_reg (\<lambda>op. sets_reg TRI r op \<and> isSuperRegisterEq TRI r (RegNo op)) MO)"
  "Read (snd (analyze_operand TRI r MO S)) = (Read (snd S) \<or> on_reg (\<lambda>op. touches TRI r op \<and> readsReg op) MO)"
  "Killed (snd (analyze_operand TRI r MO S)) = (Killed (snd S) \<or> on_reg (kills TRI r) MO)"
  "DeadDef (snd (analyze_operand TRI r MO S)) = DeadDef (snd S)"
  "PartialDeadDef (snd (analyze_operand TRI r MO S)) = PartialDeadDef (snd S)"
  by (cases S; cases MO; simp add: analyze_operand_def Let_def touches_def sets_reg_def kills_def)+

lemma fold_analyze:
  "fst (fold (analyze_operand TRI r) MI S) =
     (fst S \<and> \<not> list_ex (on_reg (\<lambda>op. sets_reg TRI r op \<and> \<not> isDead op)) MI)"
  "Clobbered (snd (fold (analyze_operand TRI r) MI S)) = (Clobbered (snd S) \<or> list_ex (on_mask r) MI)"
  "Defined (snd (fold (analyze_operand TRI r) MI S)) = (Defined (snd S) \<or> list_ex (on_reg (sets_reg TRI r)) MI)"
  "FullyDefined (snd (fold (analyze_operand TRI r) MI S)) = (FullyDefined (snd S) \<or>
     list_ex (on_reg (\<lambda>op. sets_reg TRI r op \<and> isSuperRegisterEq TRI r (RegNo op))) MI)"
  "Read (snd (fold (analyze_operand TRI r) MI S)) =
     (Read (snd S) \<or> list_ex (on_reg (\<lambda>op. touches TRI r op \<and> readsReg op)) MI)"
  "Killed (snd (fold (analyze_operand TRI r) MI S)) = (Killed (snd S) \<or> list_ex (on_reg (kills TRI r)) MI)"
  "DeadDef (snd (fold (analyze_operand TRI r) MI S)) = DeadDef (snd S)"
  "PartialDeadDef (snd (fold (analyze_operand TRI r) MI S)) = PartialDeadDef (snd S)"
  by (induction MI arbitrary: S; simp add: analyze_operand_sel)+

lemma list_ex_on_reg: "list_ex (on_reg P) MI \<longleftrightarrow> (\<exists>op. RegOp op \<in> set MI \<and> P op)"
proof (induction MI)
  case (Cons MO MI)
  then show ?case by (cases MO) auto
qed simp

lemma list_ex_on_mask: "list_ex (on_mask r) MI \<longleftrightarrow> (\<exists>m. RegMask m \<in> set MI \<and> \<not> m r)"
proof (induction MI)
  case (Cons MO MI)
  then show ?case by (cases MO) auto
qed simp

definition all_dead :: "register_info \<Rightarrow> 16 word \<Rightarrow> liveness_operand list \<Rightarrow> bool" where
  "all_dead TRI r MI \<longleftrightarrow> (\<forall>op. RegOp op \<in> set MI \<longrightarrow> sets_reg TRI r op \<longrightarrow> isDead op)"

lemma analyzePhysReg_sel:
  "Clobbered (analyzePhysReg TRI r MI) \<longleftrightarrow> (\<exists>m. RegMask m \<in> set MI \<and> \<not> m r)"
  "Defined (analyzePhysReg TRI r MI) \<longleftrightarrow> (\<exists>op. RegOp op \<in> set MI \<and> sets_reg TRI r op)"
  "FullyDefined (analyzePhysReg TRI r MI) \<longleftrightarrow>
     (\<exists>op. RegOp op \<in> set MI \<and> sets_reg TRI r op \<and> isSuperRegisterEq TRI r (RegNo op))"
  "Read (analyzePhysReg TRI r MI) \<longleftrightarrow> (\<exists>op. RegOp op \<in> set MI \<and> touches TRI r op \<and> readsReg op)"
  "Killed (analyzePhysReg TRI r MI) \<longleftrightarrow> (\<exists>op. RegOp op \<in> set MI \<and> kills TRI r op)"
  "DeadDef (analyzePhysReg TRI r MI) \<longleftrightarrow> all_dead TRI r MI \<and>
     (FullyDefined (analyzePhysReg TRI r MI) \<or> Clobbered (analyzePhysReg TRI r MI))"
  "PartialDeadDef (analyzePhysReg TRI r MI) \<longrightarrow> all_dead TRI r MI"
proof -
  obtain A P where f: "fold (analyze_operand TRI r) MI (True, no_info) = (A, P)" by fastforce
  note F = fold_analyze [of TRI r MI "(True, no_info)", unfolded f fst_conv snd_conv]
  have A: "A \<longleftrightarrow> all_dead TRI r MI" unfolding F(1) list_ex_on_reg all_dead_def by auto
  have n: "\<not> Clobbered no_info" "\<not> Defined no_info" "\<not> FullyDefined no_info" "\<not> Read no_info"
    "\<not> Killed no_info" "\<not> DeadDef no_info" "\<not> PartialDeadDef no_info" by (simp_all add: no_info_def)
  have a: "analyzePhysReg TRI r MI =
      (if A then (if FullyDefined P \<or> Clobbered P then P\<lparr>DeadDef := True\<rparr>
                  else if Defined P then P\<lparr>PartialDeadDef := True\<rparr> else P) else P)"
    by (simp add: analyzePhysReg_def f)
  have keep: "Clobbered (analyzePhysReg TRI r MI) = Clobbered P" "Defined (analyzePhysReg TRI r MI) = Defined P"
    "FullyDefined (analyzePhysReg TRI r MI) = FullyDefined P" "Read (analyzePhysReg TRI r MI) = Read P"
    "Killed (analyzePhysReg TRI r MI) = Killed P" by (simp_all add: a)
  show "Clobbered (analyzePhysReg TRI r MI) \<longleftrightarrow> (\<exists>m. RegMask m \<in> set MI \<and> \<not> m r)"
    unfolding keep F(2) list_ex_on_mask using n by simp
  show "Defined (analyzePhysReg TRI r MI) \<longleftrightarrow> (\<exists>op. RegOp op \<in> set MI \<and> sets_reg TRI r op)"
    unfolding keep F(3) list_ex_on_reg using n by simp
  show "FullyDefined (analyzePhysReg TRI r MI) \<longleftrightarrow>
     (\<exists>op. RegOp op \<in> set MI \<and> sets_reg TRI r op \<and> isSuperRegisterEq TRI r (RegNo op))"
    unfolding keep F(4) list_ex_on_reg using n by simp
  show "Read (analyzePhysReg TRI r MI) \<longleftrightarrow> (\<exists>op. RegOp op \<in> set MI \<and> touches TRI r op \<and> readsReg op)"
    unfolding keep F(5) list_ex_on_reg using n by simp
  show "Killed (analyzePhysReg TRI r MI) \<longleftrightarrow> (\<exists>op. RegOp op \<in> set MI \<and> kills TRI r op)"
    unfolding keep F(6) list_ex_on_reg using n by simp
  show "DeadDef (analyzePhysReg TRI r MI) \<longleftrightarrow> all_dead TRI r MI \<and>
     (FullyDefined (analyzePhysReg TRI r MI) \<or> Clobbered (analyzePhysReg TRI r MI))"
    unfolding keep A [symmetric] using F(7) n by (simp add: a)
  show "PartialDeadDef (analyzePhysReg TRI r MI) \<longrightarrow> all_dead TRI r MI"
    unfolding A [symmetric] using F(8) n by (simp add: a)
qed

section \<open>The search is right about dead registers\<close>

lemma describesD:
  assumes "describes TRI units"
  shows "regsOverlap TRI q r \<longleftrightarrow> units q \<inter> units r \<noteq> {}" "isSuperRegisterEq TRI r q \<longleftrightarrow> units r \<subseteq> units q"
  using assms by (simp_all add: describes_def)

lemma defs_touched:
  assumes "describes TRI units" "flags_right units MI after" "u \<in> units r" "u \<in> defs_of units MI"
  obtains op where "RegOp op \<in> set MI" "sets_reg TRI r op" "u \<in> units (RegNo op)"
proof -
  from assms(4) obtain op where op: "RegOp op \<in> set MI" "RegNo op \<noteq> 0" "IsDef op" "u \<in> units (RegNo op)"
    by (auto simp: defs_of_def)
  with assms(2) have "SubReg op = 0" by (simp add: flags_right_def)
  with op assms(3) have "sets_reg TRI r op"
    by (auto simp: sets_reg_def touches_def describesD(1) [OF assms(1)] readsReg_def)
  with that op show thesis by blast
qed

lemma reads_touched:
  assumes "describes TRI units" "\<not> Read (analyzePhysReg TRI r MI)"
  shows "units r \<inter> reads_of units MI = {}"
  using assms(2) by (fastforce simp: analyzePhysReg_sel(4) reads_of_def touches_def describesD(1) [OF assms(1)])

text \<open>Afterwards, what the definitions set is dead if they all are.\<close>

lemma all_dead_defs:
  assumes "describes TRI units" "flags_right units MI after" "all_dead TRI r MI"
  shows "units r \<inter> after \<inter> defs_of units MI = {}"
proof -
  have False if u: "u \<in> units r" "u \<in> after" "u \<in> defs_of units MI" for u
  proof -
    from defs_touched [OF assms(1,2) u(1,3)] obtain op where
      op: "RegOp op \<in> set MI" "sets_reg TRI r op" "u \<in> units (RegNo op)" by blast
    with assms(3) have "isDead op" by (simp add: all_dead_def)
    with assms(2) op u(2) show False by (auto simp: flags_right_def)
  qed
  then show ?thesis by blast
qed

lemma clobbered_defs:
  assumes "flags_right units MI after" "Clobbered (analyzePhysReg TRI r MI)"
  shows "units r \<inter> after \<subseteq> defs_of units MI"
proof -
  from assms(2) obtain m where "RegMask m \<in> set MI" "\<not> m r" by (auto simp: analyzePhysReg_sel(1))
  with assms(1) show ?thesis by (simp add: flags_right_def)
qed

lemma not_defined:
  assumes "describes TRI units" "flags_right units MI after" "\<not> Defined (analyzePhysReg TRI r MI)"
  shows "units r \<inter> defs_of units MI = {}"
  using assms(3) defs_touched [OF assms(1,2)] unfolding analyzePhysReg_sel(2) by blast

lemma fully_defined:
  assumes "describes TRI units" "FullyDefined (analyzePhysReg TRI r MI)"
  shows "units r \<subseteq> defs_of units MI"
proof -
  from assms(2) obtain op where "RegOp op \<in> set MI" "sets_reg TRI r op" "units r \<subseteq> units (RegNo op)"
    by (auto simp: analyzePhysReg_sel(3) describesD(2) [OF assms(1)])
  then show ?thesis by (auto simp: defs_of_def sets_reg_def touches_def)
qed

lemma dead_after:
  assumes "describes TRI units" "flags_right units MI after"
    and "DeadDef (analyzePhysReg TRI r MI) \<or>
      \<not> Defined (analyzePhysReg TRI r MI) \<and> (Killed (analyzePhysReg TRI r MI) \<or> Clobbered (analyzePhysReg TRI r MI))"
  shows "units r \<inter> after = {}"
  using assms(3)
proof (elim disjE conjE)
  assume "DeadDef (analyzePhysReg TRI r MI)"
  then have "all_dead TRI r MI"
    and "FullyDefined (analyzePhysReg TRI r MI) \<or> Clobbered (analyzePhysReg TRI r MI)"
    by (simp_all add: analyzePhysReg_sel(6))
  moreover from this(2) have "units r \<inter> after \<subseteq> defs_of units MI"
    using clobbered_defs [OF assms(2), of TRI r] fully_defined [OF assms(1), of r MI] by blast
  ultimately show ?thesis using all_dead_defs [OF assms(1,2)] by blast
next
  assume n: "\<not> Defined (analyzePhysReg TRI r MI)" and "Killed (analyzePhysReg TRI r MI)"
  then obtain op where op: "RegOp op \<in> set MI" "isKill op" "units r \<subseteq> units (RegNo op)"
    by (auto simp: analyzePhysReg_sel(5) kills_def describesD(2) [OF assms(1)])
  with assms(2) have "units (RegNo op) \<inter> after \<subseteq> defs_of units MI" by (simp add: flags_right_def)
  with op(3) not_defined [OF assms(1,2) n] show ?thesis by blast
next
  assume n: "\<not> Defined (analyzePhysReg TRI r MI)" and "Clobbered (analyzePhysReg TRI r MI)"
  from clobbered_defs [OF assms(2) this(2)] not_defined [OF assms(1,2) n] show ?thesis by blast
qed

text \<open>What is live after an instruction that does not define it alive is live before it.\<close>

lemma live_through:
  assumes "describes TRI units" "flags_right units MI after"
    and "Defined (analyzePhysReg TRI r MI) \<longrightarrow> PartialDeadDef (analyzePhysReg TRI r MI)"
  shows "units r \<inter> after \<subseteq> live_step units MI after"
proof (cases "Defined (analyzePhysReg TRI r MI)")
  case True
  with assms(3) analyzePhysReg_sel(7) have "all_dead TRI r MI" by blast
  from all_dead_defs [OF assms(1,2) this] show ?thesis by (auto simp: live_step_def)
next
  case False
  from not_defined [OF assms(1,2) this] show ?thesis by (auto simp: live_step_def)
qed

lemma live_not_read:
  assumes "describes TRI units" "\<not> Read (analyzePhysReg TRI r MI)"
  shows "units r \<inter> live_step units MI after \<subseteq> after"
  using reads_touched [OF assms] by (auto simp: live_step_def)

lemma block_flags_drop:
  "block_flags_right units insts out \<Longrightarrow> k < length insts \<Longrightarrow>
     flags_right units (insts ! k) (live_before units (drop (Suc k) insts) out)"
proof (induction insts arbitrary: k)
  case (Cons MI rest)
  then show ?case by (cases k) simp_all
qed simp

lemma live_before_drop:
  "k < length insts \<Longrightarrow> live_before units (drop k insts) out =
     live_step units (insts ! k) (live_before units (drop (Suc k) insts) out)"
  by (simp add: Cons_nth_drop_Suc [symmetric])

lemma search_back_dead:
  assumes "describes TRI units" "block_flags_right units insts out"
  shows "I \<le> length insts \<Longrightarrow>
    (search_back TRI r insts I N = Answer LQR_Dead \<longrightarrow> units r \<inter> live_before units (drop I insts) out = {}) \<and>
    (\<forall>J. search_back TRI r insts I N = Stop J \<longrightarrow>
      units r \<inter> live_before units (drop I insts) out \<subseteq> live_before units (drop J insts) out)"
proof (induction I arbitrary: N)
  case 0
  then show ?case by simp
next
  case (Suc I)
  let ?Info = "analyzePhysReg TRI r (insts ! I)" and ?after = "live_before units (drop (Suc I) insts) out"
  from Suc.prems have fl: "flags_right units (insts ! I) ?after" using block_flags_drop [OF assms(2)] by simp
  have through: "units r \<inter> ?after \<subseteq> live_before units (drop I insts) out"
    if "Defined ?Info \<longrightarrow> PartialDeadDef ?Info"
    using live_through [OF assms(1) fl that] Suc.prems by (simp add: live_before_drop)
  consider "DeadDef ?Info \<or> \<not> Defined ?Info \<and> (Killed ?Info \<or> Clobbered ?Info)"
    | "\<not> DeadDef ?Info" "Defined ?Info"
    | "\<not> DeadDef ?Info" "\<not> Defined ?Info" "\<not> Killed ?Info" "\<not> Clobbered ?Info" by blast
  then show ?case
  proof cases
    case 1
    with dead_after [OF assms(1) fl] show ?thesis by (auto simp: Let_def)
  next
    case 2
    with through show ?thesis by (auto simp: Let_def)
  next
    case 3
    note IH = Suc.IH [of "N - 1"] and t = through
    show ?thesis
    proof (cases "\<not> Read ?Info \<and> I \<noteq> 0 \<and> N - 1 > 0")
      case True
      with 3 IH t Suc.prems show ?thesis by (auto simp: Let_def)
    next
      case False
      with 3 t show ?thesis by (auto simp: Let_def)
    qed
  qed
qed

lemma search_forward_dead:
  assumes "describes TRI units"
  shows "block_flags_right units insts out \<Longrightarrow> search_forward TRI r insts N = LQR_Dead \<Longrightarrow>
    units r \<inter> live_before units insts out = {}"
proof (induction insts arbitrary: N)
  case (Cons MI rest)
  let ?Info = "analyzePhysReg TRI r MI" and ?after = "live_before units rest out"
  from Cons.prems have fl: "flags_right units MI ?after" and nr: "\<not> Read ?Info"
    by (auto simp: Let_def split: if_splits)
  have "units r \<inter> live_step units MI ?after \<subseteq> ?after - defs_of units MI"
    using reads_touched [OF assms nr] by (auto simp: live_step_def)
  moreover have "units r \<inter> ?after \<subseteq> defs_of units MI" if "FullyDefined ?Info \<or> Clobbered ?Info"
    using that fully_defined [OF assms] clobbered_defs [OF fl] by blast
  moreover have "units r \<inter> ?after = {}" if "\<not> (FullyDefined ?Info \<or> Clobbered ?Info)"
    using that Cons.IH [of "N - 1"] Cons.prems by (auto simp: Let_def split: if_splits)
  ultimately show ?case unfolding live_before.simps by blast
qed simp

section \<open>An example\<close>

text \<open>Every register is its own unit.\<close>

definition own_units :: "16 word \<Rightarrow> nat set" where
  "own_units r = {unat r}"

definition ex_registers :: register_info where
  "ex_registers = \<lparr>regsOverlap = (\<lambda>q r. q = r), isSuperRegisterEq = (\<lambda>r q. r = q), aliases = (\<lambda>r. [r])\<rparr>"

definition ex_use :: "bool \<Rightarrow> liveness_operand" where
  "ex_use kill = RegOp \<lparr>RegNo = 1, IsDef = False, IsDeadOrKill = kill, IsUndef = False, IsInternalRead = False, SubReg = 0\<rparr>"

definition ex_def :: liveness_operand where
  "ex_def = RegOp \<lparr>RegNo = 1, IsDef = True, IsDeadOrKill = False, IsUndef = False, IsInternalRead = False, SubReg = 0\<rparr>"

lemma ex_describes: "describes ex_registers own_units"
  by (auto simp: describes_def ex_registers_def own_units_def word_unat_eq_iff)

lemmas ex_flags = flags_right_def live_step_def reads_of_def defs_of_def readsReg_def isKill_def isDead_def
  ex_use_def ex_def_def own_units_def

lemmas ex_search = analyzePhysReg_def analyze_operand_def no_info_def Let_def readsReg_def isKill_def isDead_def
  ex_use_def ex_def_def ex_registers_def

lemma empty_instr: "analyzePhysReg TRI r [] = no_info"
  by (simp add: analyzePhysReg_def no_info_def)

section \<open>Properties\<close>

text \<open>
  C17. If \<open>computeRegisterLiveness\<close> calls a register dead, none of its units is live before the given
  instruction, provided that the flags and the live-ins are right and the given instruction does not
  itself read the register.
\<close>

theorem computeRegisterLiveness_dead:
  assumes "describes TRI units" and "block_flags_right units insts out" and "Before \<le> length insts"
    and "units r \<inter> live_before units insts out \<noteq> {} \<longrightarrow> (\<exists>a\<in>set (aliases TRI r). isLiveIn a getAll LIs)"
    and "Before < length insts \<longrightarrow> \<not> Read (analyzePhysReg TRI r (insts ! Before))"
    and "computeRegisterLiveness TRI r insts LIs Before Neighborhood = LQR_Dead"
  shows "units r \<inter> live_before units (drop Before insts) out = {}"
proof (cases "search_back TRI r insts Before Neighborhood")
  case (Answer q)
  with assms(6) search_back_dead [OF assms(1,2,3)] show ?thesis by (simp add: computeRegisterLiveness_def)
next
  case (Stop J)
  with search_back_dead [OF assms(1,2,3)]
  have sub: "units r \<inter> live_before units (drop Before insts) out \<subseteq> live_before units (drop J insts) out" by simp
  show ?thesis
  proof (cases "J = 0")
    case True
    with assms(6) Stop have "\<not> (\<exists>a\<in>set (aliases TRI r). isLiveIn a getAll LIs)"
      by (auto simp: computeRegisterLiveness_def split: if_splits)
    with assms(4) sub True show ?thesis by auto
  next
    case False
    with assms(3,6) Stop have B: "Before < length insts"
      and f: "search_forward TRI r (drop (Suc Before) insts) Neighborhood = LQR_Dead"
      by (auto simp: computeRegisterLiveness_def split: if_splits)
    have "block_flags_right units (drop k insts) out" for k
      using assms(2)
    proof (induction insts arbitrary: k)
      case (Cons MI rest)
      then show ?case by (cases k) simp_all
    qed simp
    from search_forward_dead [OF assms(1) this f] live_not_read [OF assms(1), of r "insts ! Before"] assms(5) B
    show ?thesis by (auto simp: live_before_drop)
  qed
qed

theorem computeRegisterLiveness_dead_witness:
  "own_units 1 \<inter> live_before own_units (drop 1 [[ex_use True], [ex_def]]) {} = {}"
proof (rule computeRegisterLiveness_dead [OF ex_describes])
  show "computeRegisterLiveness ex_registers 1 [[ex_use True], [ex_def]] [\<lparr>PhysReg = 1, LaneMask = getAll\<rparr>] 1 10 = LQR_Dead"
    by (simp add: computeRegisterLiveness_def ex_search)
qed (simp_all add: ex_flags ex_search getAll_def)

text \<open>The search backwards gives up when the neighborhood does not mention the register.\<close>

definition silent :: "register_info \<Rightarrow> 16 word \<Rightarrow> liveness_operand list \<Rightarrow> bool" where
  "silent TRI r MI \<longleftrightarrow> \<not> Read (analyzePhysReg TRI r MI) \<and> \<not> Defined (analyzePhysReg TRI r MI) \<and>
     \<not> Clobbered (analyzePhysReg TRI r MI)"

lemma silent_quiet:
  assumes "silent TRI r MI"
  shows "\<not> DeadDef (analyzePhysReg TRI r MI)" "\<not> Killed (analyzePhysReg TRI r MI)"
  using assms by (auto simp: silent_def analyzePhysReg_sel kills_def)

lemma unat_pred: "unat N = Suc n \<Longrightarrow> unat (N - 1) = n" for N :: "32 word"
  by (subst unat_sub) (simp_all add: word_le_nat_alt)

lemma search_back_silent:
  assumes "\<forall>k. I < k + Suc n \<and> k \<le> I \<longrightarrow> silent TRI r (insts ! k)" "n \<le> I" "unat N = Suc n"
  shows "search_back TRI r insts (Suc I) N = Stop (I - n)"
  using assms
proof (induction n arbitrary: I N)
  case 0
  then have "silent TRI r (insts ! I)" "\<not> N - 1 > 0"
    by (auto simp: word_less_nat_alt unat_pred)
  then show ?case using silent_quiet [of TRI r "insts ! I"] by (simp add: silent_def Let_def)
next
  case (Suc n)
  from Suc.prems obtain J where J: "I = Suc J" by (cases I) auto
  have N: "unat (N - 1) = Suc n" using Suc.prems(3) by (simp add: unat_pred)
  then have pos: "N - 1 > 0" by (simp add: word_less_nat_alt)
  from Suc.IH [of J "N - 1"] Suc.prems N J have "search_back TRI r insts (Suc J) (N - 1) = Stop (J - n)" by simp
  moreover have "silent TRI r (insts ! I)" using Suc.prems by auto
  ultimately show ?case
    using silent_quiet [of TRI r "insts ! I"] pos J by (simp add: silent_def Let_def del: search_back.simps(2)) (simp add: Let_def)
qed

text \<open>
  C33. The proviso is needed: when no instruction of the neighborhood before the given one, which does
  not reach the start of the block, mentions a register, the given instruction reads it and the next one
  overwrites or clobbers it without reading it, the register is called dead although it is live.
\<close>

theorem computeRegisterLiveness_skips_read:
  assumes "describes TRI units" and "0 < N" and "unat N < Before" and "Suc Before < length insts"
    and "\<forall>k. Before \<le> k + unat N \<and> k < Before \<longrightarrow>
      \<not> Read (analyzePhysReg TRI r (insts ! k)) \<and> \<not> Defined (analyzePhysReg TRI r (insts ! k)) \<and>
      \<not> Clobbered (analyzePhysReg TRI r (insts ! k))"
    and "Read (analyzePhysReg TRI r (insts ! Before))"
    and "\<not> Read (analyzePhysReg TRI r (insts ! Suc Before))"
    and "FullyDefined (analyzePhysReg TRI r (insts ! Suc Before)) \<or> Clobbered (analyzePhysReg TRI r (insts ! Suc Before))"
  shows "computeRegisterLiveness TRI r insts LIs Before N = LQR_Dead \<and>
    units r \<inter> live_before units (drop Before insts) out \<noteq> {}"
proof -
  obtain n I where n: "unat N = Suc n" and I: "Before = Suc I"
    using assms(2,3) by (cases "unat N"; cases Before) (auto simp: word_less_nat_alt)
  have "search_back TRI r insts (Suc I) N = Stop (I - n)"
    using assms(3,5) n I by (intro search_back_silent) (auto simp: silent_def)
  moreover have "search_forward TRI r (drop (Suc Before) insts) N = LQR_Dead"
    using assms(2,4,7,8) by (simp add: Cons_nth_drop_Suc [symmetric] Let_def)
  moreover have "I - n \<noteq> 0" "Before \<noteq> length insts" using assms(3,4) n I by auto
  moreover have "units r \<inter> reads_of units (insts ! Before) \<noteq> {}"
    using assms(6) by (fastforce simp: analyzePhysReg_sel(4) reads_of_def touches_def describesD(1) [OF assms(1)])
  ultimately show ?thesis
    using assms(4) by (auto simp: computeRegisterLiveness_def I live_before_drop live_step_def simp del: search_back.simps)
qed

theorem computeRegisterLiveness_skips_read_witness:
  "computeRegisterLiveness ex_registers 1 (replicate 11 [] @ [[ex_use False], [ex_def]]) [] 11 10 = LQR_Dead \<and>
   own_units 1 \<inter> live_before own_units (drop 11 (replicate 11 [] @ [[ex_use False], [ex_def]])) {} \<noteq> {}"
proof -
  let ?insts = "replicate 11 [] @ [[ex_use False], [ex_def]]"
  have "?insts ! k = []" if "k < 11" for k using that by (simp add: nth_append del: replicate.simps)
  moreover have "?insts ! 11 = [ex_use False]" "?insts ! Suc 11 = [ex_def]"
    by (simp_all add: nth_append del: replicate.simps)
  ultimately show ?thesis
    by (intro computeRegisterLiveness_skips_read [OF ex_describes])
      (simp_all del: replicate.simps add: empty_instr no_info_def, simp_all add: ex_search)
qed

end
