(* ===== verification/ShadowMemory.thy ===== *)
theory ShadowMemory
  imports Words
begin

text \<open>
  Addresses, bytes and aligned memory of the branch shadowing tool
  (\<open>shadow_code/untrusted/mem/\<close>). A pointer is a 64-bit word, the null pointer is 0, and
  memory is a function from addresses to bytes. Pointer differences are computed in two's
  complement. What \<open>mmap\<close> returns is an argument.
\<close>

type_synonym addr = "64 word"
type_synonym byte = "8 word"
type_synonym memory = "addr \<Rightarrow> byte"

section \<open>Bytes\<close>

text \<open>The bytes of a word, lowest first, and the word they make.\<close>

definition le_bytes :: "nat \<Rightarrow> 'a::len word \<Rightarrow> byte list" where
  "le_bytes n w = map (\<lambda>i. ucast (drop_bit (8 * i) w)) [0..<n]"

fun of_le :: "byte list \<Rightarrow> 'a::len word" where
  "of_le [] = 0"
| "of_le (b # bs) = or (ucast b) (push_bit 8 (of_le bs))"

lemma length_le_bytes [simp]: "length (le_bytes n w) = n"
  by (simp add: le_bytes_def)

lemma le_bytes_Suc: "le_bytes (Suc n) w = ucast w # le_bytes n (drop_bit 8 w)"
  by (simp add: le_bytes_def upt_conv_Cons del: upt_Suc) (simp flip: map_Suc_upt add: add.commute del: upt_Suc)

lemma of_le_bytes: "(of_le (le_bytes n (w :: 'a::len word)) :: 'b::len word) = ucast (take_bit (8 * n) w)"
proof (induction n arbitrary: w)
  case 0
  then show ?case by (simp add: le_bytes_def)
next
  case (Suc n)
  show ?case
    unfolding le_bytes_Suc of_le.simps Suc
    by (rule bit_word_eqI) (auto simp: bit_simps dest: bit_imp_le_length)
qed

section \<open>Memory\<close>

fun write_bytes :: "addr \<Rightarrow> byte list \<Rightarrow> memory \<Rightarrow> memory" where
  "write_bytes a [] m = m"
| "write_bytes a (b # bs) m = write_bytes (a + 1) bs (m(a := b))"

definition fetch :: "memory \<Rightarrow> addr \<Rightarrow> nat \<Rightarrow> byte list" where
  "fetch m a n = map (\<lambda>i. m (a + word_of_nat i)) [0..<n]"

lemma unat_diff_Suc:
  assumes "x \<noteq> (a :: addr)"
  shows "Suc (unat (x - (a + 1))) = unat (x - a)"
proof -
  have "x - a \<noteq> 0" using assms by simp
  then have "0 < unat (x - a)" by (simp add: unat_gt_0)
  moreover have "x - (a + 1) = (x - a) - 1" by simp
  moreover have "unat ((x - a) - 1) = unat (x - a) - 1"
    using \<open>x - a \<noteq> 0\<close> by (rule unat_minus_one)
  ultimately show ?thesis by (simp only: Suc_pred' [symmetric] Suc_diff_1)
qed

lemma write_bytes_at:
  "length bs \<le> 18446744073709551615 \<Longrightarrow>
     write_bytes a bs m x = (if unat (x - a) < length bs then bs ! unat (x - a) else m x)"
proof (induction bs arbitrary: a m)
  case (Cons b bs)
  then have IH: "write_bytes (a + 1) bs (m(a := b)) x =
    (if unat (x - (a + 1)) < length bs then bs ! unat (x - (a + 1)) else (m(a := b)) x)" by simp
  show ?case
  proof (cases "x = a")
    case True
    then have "x - (a + 1) = - 1" by simp
    then have "unat (x - (a + 1)) = 18446744073709551615" by (simp only: unat_minus_1_64)
    with True IH Cons.prems show ?thesis by simp
  next
    case False
    from unat_diff_Suc [OF this] have "unat (x - a) = Suc (unat (x - (a + 1)))" by simp
    with False IH show ?thesis by simp
  qed
qed simp

section \<open>Pointers\<close>

definition get_mask :: "nat \<Rightarrow> addr" where
  "get_mask bits = push_bit bits 1 - 1"

definition get_diff :: "addr \<Rightarrow> addr \<Rightarrow> addr res" where
  "get_diff a b = bind_res (assert_res ''a != nullptr'' (a \<noteq> 0)) (\<lambda>_.
     bind_res (assert_res ''b != nullptr'' (b \<noteq> 0)) (\<lambda>_. Inr (a - b)))"

definition add_offset :: "addr \<Rightarrow> addr \<Rightarrow> addr res" where
  "add_offset ptr off = bind_res (assert_res ''ptr != nullptr'' (ptr \<noteq> 0)) (\<lambda>_. Inr (ptr + off))"

definition apply_mask :: "addr \<Rightarrow> addr \<Rightarrow> addr res" where
  "apply_mask ptr m = bind_res (assert_res ''ptr != nullptr'' (ptr \<noteq> 0)) (\<lambda>_. Inr (and ptr m))"

definition apply_rmask :: "addr \<Rightarrow> addr \<Rightarrow> addr res" where
  "apply_rmask ptr m = bind_res (assert_res ''ptr != nullptr'' (ptr \<noteq> 0)) (\<lambda>_. Inr (and ptr (not m)))"

definition set_masked_base :: "addr \<Rightarrow> addr \<Rightarrow> addr \<Rightarrow> addr res" where
  "set_masked_base ptr base m = bind_res (apply_mask ptr m) (\<lambda>ptr_masked.
     bind_res (apply_rmask base m) (\<lambda>base_masked. Inr (or ptr_masked base_masked)))"

text \<open>
  An indirect pointer is a cell that holds the address of a second cell; the two cells are what
  \<open>malloc\<close> returned.
\<close>

definition set_indirect_pointer_value :: "addr \<Rightarrow> addr \<Rightarrow> memory \<Rightarrow> memory" where
  "set_indirect_pointer_value ptr value m = write_bytes (of_le (fetch m ptr 8)) (le_bytes 8 value) m"

definition get_indirect_pointer_value :: "addr \<Rightarrow> memory \<Rightarrow> addr" where
  "get_indirect_pointer_value ptr m = of_le (fetch m (of_le (fetch m ptr 8)) 8)"

definition get_indirect_pointer :: "addr \<Rightarrow> addr \<Rightarrow> addr \<Rightarrow> memory \<Rightarrow> memory" where
  "get_indirect_pointer ptr_inner ptr_outer input m =
     set_indirect_pointer_value ptr_outer input (write_bytes ptr_outer (le_bytes 8 ptr_inner) m)"

section \<open>Aligned memory\<close>

text \<open>\<open>entry_of\<close> is the address computed after the mapping succeeded.\<close>

record aligned_mem =
  am_mem :: addr
  am_entry :: addr
  am_target_entry :: addr
  am_size :: "64 word"
  am_align_bits :: nat

definition AlignedMem :: "addr \<Rightarrow> 64 word \<Rightarrow> nat \<Rightarrow> aligned_mem" where
  "AlignedMem entry sz align_bits = \<lparr>am_mem = 0, am_entry = 0, am_target_entry = entry,
     am_size = push_bit align_bits 1 + sz, am_align_bits = align_bits\<rparr>"

definition entry_of :: "addr \<Rightarrow> addr \<Rightarrow> 64 word \<Rightarrow> addr" where
  "entry_of mem target_entry m =
     (let entry = and mem (not m) + and target_entry m in if entry < mem then entry + m else entry)"

definition allocate :: "addr \<Rightarrow> aligned_mem \<Rightarrow> (bool \<times> aligned_mem) res" where
  "allocate mmap_result am =
     bind_res (assert_res ''mem == nullptr'' (am_mem am = 0)) (\<lambda>_.
       let m = push_bit (am_align_bits am) 1 - 1 in
       let am1 = am\<lparr>am_mem := mmap_result\<rparr> in
       if mmap_result = 0 then Inr (False, am1)
       else Inr (True, am1\<lparr>am_entry := entry_of mmap_result (am_target_entry am) m\<rparr>))"

definition unallocate :: "aligned_mem \<Rightarrow> aligned_mem" where
  "unallocate am = (if am_mem am \<noteq> 0 then am\<lparr>am_mem := 0, am_size := 0\<rparr> else am)"

definition is_allocated :: "aligned_mem \<Rightarrow> bool" where
  "is_allocated am = (am_mem am \<noteq> 0)"

definition as_ptr :: "aligned_mem \<Rightarrow> addr res" where
  "as_ptr am = bind_res (assert_res ''trying to get pointer before allocation'' (am_mem am \<noteq> 0))
     (\<lambda>_. Inr (am_entry am))"

end
