(* ===== verification/ShadowSegments.thy ===== *)
theory ShadowSegments
  imports ShadowMemory
begin

text \<open>
  The pieces of code a shadow is made of (\<open>shadow_code/untrusted/shadow/\<close>):
  \<open>ShadowSegment\<close> and its subclasses. A shared pointer to a segment is an index into a
  table of segments; a jump target that may be the null pointer is an option.
\<close>

section \<open>Segments\<close>

datatype seg_kind =
    SegEaxAndOne
  | SegEaxAndOneIndir
  | SegEaxWrite "32 word"
  | SegJneEaxZero "nat option"
  | SegJump "nat option"
  | SegJumpR13
  | SegLongJump "nat option"
  | SegNop nat
  | SegRetq nat
  | SegSetPosInReg "nat option" addr byte

record segment =
  kind :: seg_kind
  m_pos :: addr
  m_hex :: "byte list"

type_synonym segs = "nat \<Rightarrow> segment"

text \<open>The size each constructor hands to \<open>ShadowSegment\<close>.\<close>

fun s_size :: "seg_kind \<Rightarrow> nat" where
  "s_size SegEaxAndOne = 3"
| "s_size SegEaxAndOneIndir = 6"
| "s_size (SegEaxWrite _) = 5"
| "s_size (SegJneEaxZero _) = 4"
| "s_size (SegJump _) = 2"
| "s_size SegJumpR13 = 4"
| "s_size (SegLongJump _) = 5"
| "s_size (SegNop n) = n"
| "s_size (SegRetq n) = Suc n"
| "s_size (SegSetPosInReg _ _ _) = 10"

definition get_size_seg :: "segment \<Rightarrow> 64 word" where
  "get_size_seg s = word_of_nat (s_size (kind s))"

definition has_pos :: "segment \<Rightarrow> bool" where
  "has_pos s = (m_pos s \<noteq> 0)"

definition get_end :: "segment \<Rightarrow> addr" where
  "get_end s = m_pos s + get_size_seg s"

definition set_pos :: "addr \<Rightarrow> 64 word \<Rightarrow> segment \<Rightarrow> segment res" where
  "set_pos ptr off s =
     bind_res (assert_res ''pointer is valid'' (and ptr 0xff000000000000 = 0)) (\<lambda>_.
       Inr (s\<lparr>m_pos := ptr + off\<rparr>))"

definition set_end :: "addr \<Rightarrow> 64 word \<Rightarrow> segment \<Rightarrow> segment" where
  "set_end ptr off s = s\<lparr>m_pos := ptr - get_size_seg s + off\<rparr>"

definition apply_mask_seg :: "addr \<Rightarrow> segment \<Rightarrow> segment" where
  "apply_mask_seg m s = s\<lparr>m_pos := and (m_pos s) m\<rparr>"

definition apply_base :: "addr \<Rightarrow> addr \<Rightarrow> segment \<Rightarrow> segment \<times> 64 word" where
  "apply_base ptr m s =
     (let pos = or (and (m_pos s) m) (and ptr (not m)) in (s\<lparr>m_pos := pos\<rparr>, pos - m_pos s))"

definition apply_offset :: "64 word \<Rightarrow> segment \<Rightarrow> segment" where
  "apply_offset off s = s\<lparr>m_pos := m_pos s + off\<rparr>"

section \<open>Construction\<close>

definition make_EaxAndOne :: segment where
  "make_EaxAndOne = \<lparr>kind = SegEaxAndOne, m_pos = 0, m_hex = [0x83, 0xe0, 0x01]\<rparr>"

definition make_EaxAndOneIndir :: segment where
  "make_EaxAndOneIndir =
     \<lparr>kind = SegEaxAndOneIndir, m_pos = 0, m_hex = [0x41, 0x8b, 0x06, 0x83, 0xe0, 0x01]\<rparr>"

text \<open>The loop of \<open>SegEaxWrite\<close> stores the low byte of \<open>val\<close> and shifts it.\<close>

fun store_val :: "nat \<Rightarrow> 32 word \<Rightarrow> byte list" where
  "store_val 0 val = []"
| "store_val (Suc n) val = ucast val # store_val n (signed_drop_bit 8 val)"

definition make_EaxWrite :: "addr \<Rightarrow> 32 word \<Rightarrow> segment" where
  "make_EaxWrite pos val = \<lparr>kind = SegEaxWrite val, m_pos = pos, m_hex = 0xb8 # store_val 4 val\<rparr>"

definition jne_offset :: addr where
  "jne_offset = 2"

definition make_JneEaxZero :: "addr \<Rightarrow> nat option \<Rightarrow> segment res" where
  "make_JneEaxZero pos target =
     bind_res (add_offset pos (- jne_offset)) (\<lambda>p. Inr \<lparr>kind = SegJneEaxZero target, m_pos = p, m_hex = []\<rparr>)"

definition make_Jump :: "addr \<Rightarrow> nat option \<Rightarrow> segment" where
  "make_Jump pos target = \<lparr>kind = SegJump target, m_pos = pos, m_hex = []\<rparr>"

definition make_JumpR13 :: "addr \<Rightarrow> segment" where
  "make_JumpR13 pos = \<lparr>kind = SegJumpR13, m_pos = pos, m_hex = [0x41, 0xff, 0x65, 0x00]\<rparr>"

definition make_LongJump :: "addr \<Rightarrow> nat option \<Rightarrow> segment" where
  "make_LongJump pos target = \<lparr>kind = SegLongJump target, m_pos = pos, m_hex = []\<rparr>"

definition make_Nop :: "nat \<Rightarrow> segment" where
  "make_Nop nop_count = \<lparr>kind = SegNop nop_count, m_pos = 0, m_hex = []\<rparr>"

definition make_Retq :: "addr \<Rightarrow> nat \<Rightarrow> segment" where
  "make_Retq pos nops = \<lparr>kind = SegRetq nops, m_pos = pos, m_hex = []\<rparr>"

definition make_SetPosInReg :: "addr \<Rightarrow> nat option \<Rightarrow> addr \<Rightarrow> byte \<Rightarrow> segment" where
  "make_SetPosInReg pos target target_ptr reg =
     \<lparr>kind = SegSetPosInReg target target_ptr reg, m_pos = pos, m_hex = []\<rparr>"

section \<open>Finalisation\<close>

text \<open>\<open>finalize\<close> of each class: the bytes of the segment, and memory for the indirect target.\<close>

definition target_pos :: "segs \<Rightarrow> nat option \<Rightarrow> addr res" where
  "target_pos h t = (case t of None \<Rightarrow> Inl NullDeref | Some i \<Rightarrow> Inr (m_pos (h i)))"

definition jump_diff :: "segs \<Rightarrow> nat option \<Rightarrow> segment \<Rightarrow> addr res" where
  "jump_diff h t s = bind_res (target_pos h t) (\<lambda>p. get_diff p (get_end s))"

definition finalize_JneEaxZero :: "segs \<Rightarrow> nat option \<Rightarrow> segment \<Rightarrow> segment res" where
  "finalize_JneEaxZero h t s = bind_res (jump_diff h t s) (\<lambda>diff.
     Inr (s\<lparr>m_hex := [0x85, 0xc0, 0x75, ucast diff]\<rparr>))"

definition finalize_Jump :: "segs \<Rightarrow> nat option \<Rightarrow> segment \<Rightarrow> segment res" where
  "finalize_Jump h t s = bind_res (jump_diff h t s) (\<lambda>diff.
     bind_res (assert_res ''jump distance is withing jmp limits'' (sint diff > -128 \<and> sint diff < 128)) (\<lambda>_.
       Inr (s\<lparr>m_hex := [0xeb, ucast diff]\<rparr>)))"

definition finalize_LongJump :: "segs \<Rightarrow> nat option \<Rightarrow> segment \<Rightarrow> segment res" where
  "finalize_LongJump h t s = bind_res (jump_diff h t s) (\<lambda>diff.
     Inr (s\<lparr>m_hex := 0xe9 # le_bytes 4 diff\<rparr>))"

definition finalize_Nop :: "nat \<Rightarrow> segment \<Rightarrow> segment" where
  "finalize_Nop nop_count s = s\<lparr>m_hex := replicate (1 + nop_count) 0x90\<rparr>"

definition finalize_Retq :: "nat \<Rightarrow> segment \<Rightarrow> segment" where
  "finalize_Retq nops s = s\<lparr>m_hex := (replicate (1 + nops) 0x90)[nops := 0xc3]\<rparr>"

definition finalize_SetPosInReg ::
  "segs \<Rightarrow> nat option \<Rightarrow> addr \<Rightarrow> byte \<Rightarrow> segment \<Rightarrow> memory \<Rightarrow> segment \<times> memory" where
  "finalize_SetPosInReg h t target_ptr reg s m =
     (let m' = (case t of None \<Rightarrow> m | Some i \<Rightarrow> set_indirect_pointer_value target_ptr (m_pos (h i)) m) in
      (s\<lparr>m_hex := [0x49, or 0xb0 reg] @ fetch m' target_ptr 8\<rparr>, m'))"

fun finalize_seg :: "segs \<Rightarrow> segment \<Rightarrow> memory \<Rightarrow> (segment \<times> memory) res" where
  "finalize_seg h s m =
     (case kind s of
        SegJneEaxZero t \<Rightarrow> bind_res (finalize_JneEaxZero h t s) (\<lambda>s'. Inr (s', m))
      | SegJump t \<Rightarrow> bind_res (finalize_Jump h t s) (\<lambda>s'. Inr (s', m))
      | SegLongJump t \<Rightarrow> bind_res (finalize_LongJump h t s) (\<lambda>s'. Inr (s', m))
      | SegNop n \<Rightarrow> Inr (finalize_Nop n s, m)
      | SegRetq n \<Rightarrow> Inr (finalize_Retq n s, m)
      | SegSetPosInReg t p r \<Rightarrow> Inr (finalize_SetPosInReg h t p r s m)
      | _ \<Rightarrow> Inr (s, m))"

lemma finalize_seg_kind:
  assumes "finalize_seg h s m = Inr (s', m')"
  shows "kind s' = kind s" and "m_pos s' = m_pos s"
  using assms
  by (cases "kind s"; auto simp: finalize_JneEaxZero_def finalize_Jump_def finalize_LongJump_def
      finalize_Nop_def finalize_Retq_def finalize_SetPosInReg_def Let_def)+

lemma le_bytes_4: "le_bytes 4 w = [ucast w, ucast (drop_bit 8 w), ucast (drop_bit 16 w), ucast (drop_bit 24 w)]"
proof -
  have "[0..<4] = [0, 1, 2, 3 :: nat]" by (simp add: upt_rec)
  then show ?thesis by (simp add: le_bytes_def)
qed

lemma store_val_le: "store_val 4 val = le_bytes 4 val"
proof -
  let ?s = "signed_drop_bit 8 :: 32 word \<Rightarrow> 32 word"
  have four: "(4 :: nat) = Suc (Suc (Suc (Suc 0)))" by simp
  have "store_val 4 val = [ucast val, ucast (?s val), ucast (?s (?s val)), ucast (?s (?s (?s val)))]"
    by (subst four) (simp only: store_val.simps)
  moreover have "(ucast (?s val) :: byte) = ucast (drop_bit 8 val)"
    by (rule bit_word_eqI) (auto simp: bit_simps)
  moreover have "(ucast (?s (?s val)) :: byte) = ucast (drop_bit 16 val)"
    by (rule bit_word_eqI) (auto simp: bit_simps)
  moreover have "(ucast (?s (?s (?s val))) :: byte) = ucast (drop_bit 24 val)"
    by (rule bit_word_eqI) (auto simp: bit_simps)
  ultimately show ?thesis by (simp only: le_bytes_4)
qed

end
