(* ===== verification/ShadowArea.thy ===== *)
theory ShadowArea
  imports ShadowSegments
begin

text \<open>
  The shadow area (\<open>shadow_code/untrusted/shadow/Shadow.cpp\<close>): segments are added in the
  order of their addresses, the ones without an address are spread between their positioned
  neighbours, and \<open>finalize\<close> moves all of them to freshly mapped memory that agrees with the
  victim in the low address bits, fixes the jumps and writes the code. The state holds the table of
  all segments next to the two lists of indices.
\<close>

record shadow =
  m_align_bits :: nat
  m_mask :: addr
  seg :: segs
  m_segments :: "nat list"
  m_loose_segments :: "nat list"
  m_finalized :: bool
  m_vic_src :: addr
  m_vic_dst :: addr
  m_entry_segment :: "nat option"
  m_mem :: "aligned_mem option"

definition s_segment_spacing :: addr where
  "s_segment_spacing = 2"

definition new_Shadow :: "nat \<Rightarrow> addr \<Rightarrow> addr \<Rightarrow> segs \<Rightarrow> shadow" where
  "new_Shadow align_bits s d h = \<lparr>m_align_bits = align_bits, m_mask = get_mask align_bits, seg = h,
     m_segments = [], m_loose_segments = [], m_finalized = False, m_vic_src = s, m_vic_dst = d,
     m_entry_segment = None, m_mem = None\<rparr>"

section \<open>Placing segments\<close>

text \<open>The loop over the loose segments from the last one; \<open>prev\<close> is the one after them.\<close>

fun place_back :: "addr \<Rightarrow> nat \<Rightarrow> nat list \<Rightarrow> segs \<Rightarrow> segs" where
  "place_back spacing prev [] h = h"
| "place_back spacing prev (it # its) h =
     place_back spacing it its (h(it := set_end (m_pos (h prev)) (- spacing) (h it)))"

definition loose_spacing :: "shadow \<Rightarrow> nat \<Rightarrow> addr res" where
  "loose_spacing sh segment =
     (if m_segments sh = [] then Inr s_segment_spacing
      else
        let space = m_pos (seg sh segment) - get_end (seg sh (last (m_segments sh)));
            total_size = sum_list (map (\<lambda>s. get_size_seg (seg sh s)) (m_loose_segments sh))
        in bind_res (assert_res ''elements fit into available space'' (sint total_size \<le> sint space)) (\<lambda>_.
             Inr ((space - total_size) div word_of_nat (length (m_loose_segments sh)))))"

definition place_segment :: "nat \<Rightarrow> shadow \<Rightarrow> shadow res" where
  "place_segment segment sh =
     bind_res (assert_res ''!m_finalized'' (\<not> m_finalized sh)) (\<lambda>_.
     if m_loose_segments sh = [] then Inr (sh\<lparr>m_segments := m_segments sh @ [segment]\<rparr>)
     else bind_res (loose_spacing sh segment) (\<lambda>spacing.
       bind_res (assert_res ''spacing is within sane range'' (sint spacing < 10000)) (\<lambda>_.
         Inr (sh\<lparr>seg := place_back spacing segment (rev (m_loose_segments sh)) (seg sh),
                 m_segments := m_segments sh @ m_loose_segments sh @ [segment],
                 m_loose_segments := []\<rparr>))))"

definition add_segment :: "nat \<Rightarrow> shadow \<Rightarrow> shadow res" where
  "add_segment segment sh =
     bind_res (assert_res ''!m_finalized'' (\<not> m_finalized sh)) (\<lambda>_.
     bind_res (assert_res ''segment order is correct''
         (m_segments sh = [] \<or> m_pos (seg sh segment) = 0 \<or>
          m_pos (seg sh (last (m_segments sh))) < m_pos (seg sh segment))) (\<lambda>_.
       if has_pos (seg sh segment) then place_segment segment sh
       else Inr (sh\<lparr>m_loose_segments := m_loose_segments sh @ [segment]\<rparr>)))"

definition add_entry :: "nat \<Rightarrow> shadow \<Rightarrow> shadow res" where
  "add_entry segment sh =
     bind_res (assert_res ''m_entry_segment == nullptr'' (m_entry_segment sh = None)) (\<lambda>_.
       add_segment segment (sh\<lparr>m_entry_segment := Some segment\<rparr>))"

section \<open>Finalisation\<close>

definition get_size :: "shadow \<Rightarrow> addr" where
  "get_size sh = m_pos (seg sh (last (m_segments sh))) - get_end (seg sh (hd (m_segments sh)))"

definition fill_with_nops :: "addr \<Rightarrow> addr \<Rightarrow> memory \<Rightarrow> memory" where
  "fill_with_nops start stop m = write_bytes start (replicate (unat (stop - start)) 0x90) m"

fun place_front :: "nat \<Rightarrow> nat list \<Rightarrow> segs \<Rightarrow> segs res" where
  "place_front prev [] h = Inr h"
| "place_front prev (s # ss) h =
     bind_res (set_pos (get_end (h prev)) s_segment_spacing (h s)) (\<lambda>s'. place_front s ss (h(s := s')))"

text \<open>The three loops over the placed segments: move, fix the bytes, write.\<close>

fun offset_all :: "addr \<Rightarrow> nat list \<Rightarrow> segs \<Rightarrow> segs" where
  "offset_all off [] h = h"
| "offset_all off (s # ss) h = offset_all off ss (h(s := apply_offset off (h s)))"

fun finalize_all :: "nat list \<Rightarrow> segs \<Rightarrow> memory \<Rightarrow> (segs \<times> memory) res" where
  "finalize_all [] h m = Inr (h, m)"
| "finalize_all (s # ss) h m =
     bind_res (finalize_seg h (h s) m) (\<lambda>(s', m'). finalize_all ss (h(s := s')) m')"

fun write_all :: "addr \<Rightarrow> nat list \<Rightarrow> segs \<Rightarrow> memory \<Rightarrow> memory res" where
  "write_all last_end [] h m = Inr m"
| "write_all last_end (s # ss) h m =
     bind_res (assert_res ''last_end <= s->get_pos()'' (last_end \<le> m_pos (h s))) (\<lambda>_.
       write_all (m_pos (h s)) ss h
         (write_bytes (m_pos (h s)) (take (s_size (kind (h s))) (m_hex (h s))) m))"

definition place_rest :: "shadow \<Rightarrow> shadow res" where
  "place_rest sh =
     (if m_loose_segments sh = [] then Inr sh
      else if m_segments sh = [] then Inl Abort
      else bind_res (place_front (last (m_segments sh)) (m_loose_segments sh) (seg sh)) (\<lambda>h.
             Inr (sh\<lparr>seg := h, m_segments := m_segments sh @ m_loose_segments sh\<rparr>)))"

definition relocate :: "addr \<Rightarrow> shadow \<Rightarrow> shadow res" where
  "relocate mmap_result sh =
     (case m_segments sh of
        [] \<Rightarrow> Inl NullDeref
      | first # rest \<Rightarrow>
          bind_res (allocate mmap_result (AlignedMem (m_pos (seg sh first)) (get_size sh) (m_align_bits sh)))
            (\<lambda>(ok, am). if \<not> ok then Inl Abort else
               bind_res (as_ptr am) (\<lambda>p.
                 case apply_base p (m_mask sh) (seg sh first) of (s', off) \<Rightarrow>
                   Inr (sh\<lparr>seg := offset_all off rest ((seg sh)(first := s')), m_mem := Some am\<rparr>))))"

definition write_code :: "shadow \<Rightarrow> memory \<Rightarrow> (shadow \<times> memory) res" where
  "write_code sh m =
     (let ss = m_segments sh;
          m1 = fill_with_nops (m_pos (seg sh (hd ss))) (get_end (seg sh (last ss))) m
      in bind_res (finalize_all ss (seg sh) m1) (\<lambda>(h, m2).
           bind_res (write_all 0 ss h m2) (\<lambda>m3. Inr (sh\<lparr>seg := h, m_finalized := True\<rparr>, m3))))"

definition finalize :: "addr \<Rightarrow> shadow \<Rightarrow> memory \<Rightarrow> (shadow \<times> memory) res" where
  "finalize mmap_result sh m =
     bind_res (assert_res ''!m_finalized'' (\<not> m_finalized sh)) (\<lambda>_.
     bind_res (assert_res ''add_entry must be called exactly once before finalize''
                 (m_entry_segment sh \<noteq> None)) (\<lambda>_.
     bind_res (place_rest sh) (\<lambda>sh1.
     bind_res (relocate mmap_result sh1) (\<lambda>sh2.
       write_code sh2 m))))"

section \<open>Queries\<close>

definition get_entry_ptr :: "shadow \<Rightarrow> addr res" where
  "get_entry_ptr sh = (case m_entry_segment sh of None \<Rightarrow> Inl NullDeref | Some e \<Rightarrow> Inr (m_pos (seg sh e)))"

definition is_jne :: "addr \<Rightarrow> memory \<Rightarrow> bool" where
  "is_jne ptr m = (m ptr = 0x75)"

definition get_aligned_ptr :: "addr \<Rightarrow> shadow \<Rightarrow> addr res" where
  "get_aligned_ptr unaligned_ptr sh =
     bind_res (assert_res ''m_finalized'' (m_finalized sh)) (\<lambda>_.
     bind_res (get_entry_ptr sh) (\<lambda>entry.
     bind_res (set_masked_base unaligned_ptr entry (m_mask sh)) (\<lambda>a0.
       let start = m_pos (seg sh (hd (m_segments sh)));
           stop = get_end (seg sh (last (m_segments sh)))
       in bind_res (if a0 < start then add_offset a0 (m_mask sh + 1) else Inr a0) (\<lambda>a.
            Inr (if a < start \<or> a > stop then 0 else a)))))"

definition get_aligned_char :: "addr \<Rightarrow> shadow \<Rightarrow> memory \<Rightarrow> byte res" where
  "get_aligned_char unaligned_ptr sh m =
     bind_res (get_aligned_ptr unaligned_ptr sh) (\<lambda>p. if p = 0 then Inl NullDeref else Inr (m p))"

end
