(* ===== verification/ShadowCode.thy ===== *)
theory ShadowCode
  imports ShadowArea
begin

text \<open>
  What \<open>finalize\<close> leaves in memory: when the placed segments do not overlap, each one is found
  at its address and the gaps between them hold NOPs; relocation moves all segments by one
  distance and keeps the low address bits.
\<close>

section \<open>Code at an address\<close>

definition code_at :: "memory \<Rightarrow> addr \<Rightarrow> byte list \<Rightarrow> bool" where
  "code_at m a bs \<longleftrightarrow> (\<forall>i < length bs. m (a + word_of_nat i) = bs ! i)"

definition inside :: "addr \<Rightarrow> nat \<Rightarrow> addr \<Rightarrow> bool" where
  "inside a n x \<longleftrightarrow> unat a \<le> unat x \<and> unat x < unat a + n"

lemma unat_of_small: "n < 18446744073709551616 \<Longrightarrow> unat (word_of_nat n :: addr) = n"
  by (simp add: unat_of_nat take_bit_nat_eq_self)

lemma unat_add_of_nat:
  assumes "unat (a :: addr) + n < 18446744073709551616"
  shows "unat (a + word_of_nat n) = unat a + n"
  using assms by (subst unat_plus_small) (simp_all add: unat_of_small)

lemma unat_diff_le: "unat a \<le> unat x \<Longrightarrow> unat (x - a) = unat x - unat (a :: addr)"
  by (simp add: unat_sub word_le_nat_alt)

lemma inside_iff:
  assumes "unat a + n \<le> 18446744073709551616"
  shows "unat (x - a) < n \<longleftrightarrow> inside a n x"
proof (cases "unat a \<le> unat x")
  case True
  then show ?thesis using unat_diff_le [OF True] by (auto simp: inside_def)
next
  case False
  then have "\<not> a \<le> x" by (simp add: word_le_nat_alt)
  then have "unat (x - a) = unat x + 18446744073709551616 - unat a"
    using unat_sub_if' [of x a] False by simp
  with False assms show ?thesis by (simp add: inside_def)
qed

lemma write_inside:
  assumes "unat a + length bs \<le> 18446744073709551616" "0 < unat a"
  shows "write_bytes a bs m x = (if inside a (length bs) x then bs ! (unat x - unat a) else m x)"
proof -
  have "write_bytes a bs m x = (if unat (x - a) < length bs then bs ! unat (x - a) else m x)"
    using assms by (intro write_bytes_at) simp
  also have "\<dots> = (if inside a (length bs) x then bs ! (unat x - unat a) else m x)"
    using inside_iff [OF assms(1)] unat_diff_le [of a x] by (auto simp: inside_def)
  finally show ?thesis .
qed

lemma code_at_iff:
  assumes "unat a + length bs \<le> 18446744073709551616" "\<And>x. inside a (length bs) x \<Longrightarrow> m x = bs ! (unat x - unat a)"
  shows "code_at m a bs"
  unfolding code_at_def
proof (intro allI impI)
  fix i assume i: "i < length bs"
  with assms(1) have "unat (a + word_of_nat i) = unat a + i" by (intro unat_add_of_nat) simp
  with assms(2) [of "a + word_of_nat i"] i show "m (a + word_of_nat i) = bs ! i" by (simp add: inside_def)
qed

section \<open>Writing the segments\<close>

definition u :: "segs \<Rightarrow> nat \<Rightarrow> nat" where
  "u h s = unat (m_pos (h s))"

definition size_of :: "segs \<Rightarrow> nat \<Rightarrow> nat" where
  "size_of h s = s_size (kind (h s))"

definition content :: "segs \<Rightarrow> nat \<Rightarrow> byte list" where
  "content h s = take (size_of h s) (m_hex (h s))"

definition in_seg :: "segs \<Rightarrow> nat \<Rightarrow> addr \<Rightarrow> bool" where
  "in_seg h s x = inside (m_pos (h s)) (size_of h s) x"

text \<open>In the order of their addresses, without overlap.\<close>

definition placed :: "segs \<Rightarrow> nat list \<Rightarrow> bool" where
  "placed h ss \<longleftrightarrow> sorted_wrt (\<lambda>s t. u h s + size_of h s \<le> u h t) ss \<and>
     (\<forall>s \<in> set ss. 0 < u h s \<and> u h s + size_of h s < 18446744073709551616)"

lemma write_all_ok:
  assumes "placed h ss" "\<forall>s \<in> set ss. length (content h s) = size_of h s" "\<forall>s \<in> set ss. last_end \<le> m_pos (h s)"
  shows "\<exists>m'. write_all last_end ss h m = Inr m' \<and> (\<forall>s \<in> set ss. code_at m' (m_pos (h s)) (content h s)) \<and>
    (\<forall>x. (\<forall>s \<in> set ss. \<not> in_seg h s x) \<longrightarrow> m' x = m x)"
  using assms
proof (induction ss arbitrary: last_end m)
  case Nil
  then show ?case by simp
next
  case (Cons s ss)
  let ?m1 = "write_bytes (m_pos (h s)) (content h s) m"
  from Cons.prems(1) have s: "0 < u h s" "u h s + size_of h s < 18446744073709551616"
    and rest: "\<forall>t \<in> set ss. u h s + size_of h s \<le> u h t" and "placed h ss" by (auto simp: placed_def)
  moreover have "\<forall>t \<in> set ss. m_pos (h s) \<le> m_pos (h t)"
    using rest by (auto simp: word_le_nat_alt u_def)
  ultimately obtain m' where m': "write_all (m_pos (h s)) ss h ?m1 = Inr m'"
    "\<forall>t \<in> set ss. code_at m' (m_pos (h t)) (content h t)"
    "\<forall>x. (\<forall>t \<in> set ss. \<not> in_seg h t x) \<longrightarrow> m' x = ?m1 x"
    using Cons.IH [of "m_pos (h s)" ?m1] Cons.prems(2) by auto
  have len: "length (content h s) = size_of h s" using Cons.prems(2) by simp
  have w: "?m1 x = (if in_seg h s x then content h s ! (unat x - u h s) else m x)" for x
    using s len by (subst write_inside) (auto simp: u_def in_seg_def)
  have "code_at m' (m_pos (h s)) (content h s)"
  proof (rule code_at_iff)
    show "unat (m_pos (h s)) + length (content h s) \<le> 18446744073709551616"
      using s(2) len by (simp add: u_def)
    fix x assume x: "inside (m_pos (h s)) (length (content h s)) x"
    have "\<not> in_seg h t x" if "t \<in> set ss" for t
      using rest that x len by (auto simp: in_seg_def inside_def u_def)
    then have "m' x = ?m1 x" using m'(3) by blast
    with w x len show "m' x = content h s ! (unat x - unat (m_pos (h s)))" by (simp add: in_seg_def u_def)
  qed
  moreover have "m' x = m x" if "\<forall>t \<in> set (s # ss). \<not> in_seg h t x" for x
    using m'(3) w [of x] that by auto
  moreover have "write_all last_end (s # ss) h m = Inr m'"
    using m'(1) Cons.prems(3) by (simp add: content_def size_of_def)
  ultimately show ?case using m'(2) by auto
qed

text \<open>A gap between two neighbours.\<close>

lemma gap_outside:
  assumes "placed h (ss @ s # t # ts)" "u h s + size_of h s \<le> unat x" "unat x < u h t"
  shows "\<forall>r \<in> set (ss @ s # t # ts). \<not> in_seg h r x"
proof
  fix r assume r: "r \<in> set (ss @ s # t # ts)"
  from assms(1) have ord: "sorted_wrt (\<lambda>s t. u h s + size_of h s \<le> u h t) (ss @ s # t # ts)"
    by (simp add: placed_def)
  from r consider "r \<in> set ss" | "r = s" | "r = t" | "r \<in> set ts" by auto
  then show "\<not> in_seg h r x"
  proof cases
    case 1
    with ord have "u h r + size_of h r \<le> u h s" by (simp add: sorted_wrt_append)
    with assms(2) show ?thesis by (auto simp: in_seg_def inside_def u_def)
  next
    case 4
    with ord have "u h t + size_of h t \<le> u h r" by (simp add: sorted_wrt_append)
    with assms(3) show ?thesis by (auto simp: in_seg_def inside_def u_def)
  qed (use assms in \<open>auto simp: in_seg_def inside_def u_def\<close>)
qed

section \<open>Relocation\<close>

lemma offset_all_eq:
  assumes "distinct ss"
  shows "offset_all off ss h s = (if s \<in> set ss then apply_offset off (h s) else h s)"
  using assms by (induction ss arbitrary: h) auto

definition low_bits :: "nat \<Rightarrow> addr \<Rightarrow> addr" where
  "low_bits n a = and a (get_mask n)"

lemma get_mask_mask: "get_mask n = mask n"
  by (simp add: get_mask_def mask_eq_decr_exp)

lemma low_bits_take: "low_bits n a = take_bit n a"
  by (simp add: low_bits_def get_mask_mask take_bit_eq_mask)

lemma based_low: "low_bits n (or (and p (get_mask n)) (and q (not (get_mask n)))) = low_bits n p"
  by (rule bit_word_eqI) (auto simp: low_bits_take get_mask_mask bit_simps)

lemma take_bit_add_word: "take_bit n (x + y) = take_bit n (take_bit n x + take_bit n y)" for x y :: addr
  by transfer (simp only: take_bit_add)

lemma take_bit_diff_word: "take_bit n (x - y) = take_bit n (take_bit n x - take_bit n y)" for x y :: addr
  by transfer (simp only: take_bit_diff)

lemma low_bits_shift:
  assumes "low_bits n b = low_bits n a"
  shows "low_bits n (x + (b - a)) = low_bits n x"
proof -
  have "take_bit n (b - a) = 0" using assms by (subst take_bit_diff_word) (simp add: low_bits_take)
  then show ?thesis unfolding low_bits_take by (subst take_bit_add_word) simp
qed

lemma relocate_ok:
  assumes "m_segments sh = first # rest" "distinct (first # rest)" "mmap_result \<noteq> 0"
    and "m_mask sh = get_mask n" "m_align_bits sh = n"
  obtains sh' off am where "relocate mmap_result sh = Inr sh'"
    and "sh' = sh\<lparr>seg := (\<lambda>s. if s \<in> set (first # rest) then apply_offset off (seg sh s) else seg sh s), m_mem := Some am\<rparr>"
    and "\<And>x. low_bits n (x + off) = low_bits n x"
    and "m_pos (seg sh first) + off =
      or (and (m_pos (seg sh first)) (get_mask n)) (and (entry_of mmap_result (m_pos (seg sh first)) (get_mask n)) (not (get_mask n)))"
proof -
  let ?f = "seg sh first" and ?e = "entry_of mmap_result (m_pos (seg sh first)) (get_mask n)"
  define pos where "pos = or (and (m_pos ?f) (get_mask n)) (and ?e (not (get_mask n)))"
  define off where "off = pos - m_pos ?f"
  define am where "am = (AlignedMem (m_pos ?f) (get_size sh) n)\<lparr>am_mem := mmap_result, am_entry := ?e\<rparr>"
  have al: "allocate mmap_result (AlignedMem (m_pos ?f) (get_size sh) n) = Inr (True, am)"
    using assms(3) by (simp add: allocate_def AlignedMem_def am_def get_mask_def Let_def)
  have "as_ptr am = Inr ?e" using assms(3) by (simp add: as_ptr_def am_def)
  with al assms have r: "relocate mmap_result sh =
      Inr (sh\<lparr>seg := offset_all off rest ((seg sh)(first := ?f\<lparr>m_pos := pos\<rparr>)), m_mem := Some am\<rparr>)"
    by (simp add: relocate_def apply_base_def Let_def pos_def off_def)
  have "?f\<lparr>m_pos := pos\<rparr> = apply_offset off ?f" by (simp add: apply_offset_def off_def)
  moreover have "offset_all off rest ((seg sh)(first := apply_offset off ?f)) =
      (\<lambda>s. if s \<in> set (first # rest) then apply_offset off (seg sh s) else seg sh s)"
    using assms(2) by (auto simp: offset_all_eq fun_eq_iff)
  moreover have "low_bits n (x + off) = low_bits n x" for x
    using low_bits_shift [of n pos "m_pos ?f" x] by (simp add: off_def pos_def based_low)
  moreover have "m_pos ?f + off = pos" by (simp add: off_def)
  ultimately show thesis using that [of _ am off] r unfolding pos_def by metis
qed

end
