(* ===== verification/ShadowExec.thy ===== *)
theory ShadowExec
  imports ShadowCode
begin

text \<open>
  Execution of the code of a shadow area: the x86-64 instructions the segments consist of, read
  from memory byte by byte. Taken jumps are recorded as the pairs of addresses the last branch
  record reports; everything else is a fault.
\<close>

section \<open>Machine\<close>

record xstate =
  rip :: addr
  eax :: "32 word"
  r13 :: addr
  r14 :: addr
  zf :: bool
  taken :: "(addr \<times> addr) list"

datatype xconf = Running xstate | Finished xstate | Fault

definition skip_to :: "nat \<Rightarrow> xstate \<Rightarrow> xstate" where
  "skip_to n s = s\<lparr>rip := rip s + word_of_nat n\<rparr>"

definition jump_to :: "addr \<Rightarrow> xstate \<Rightarrow> xstate" where
  "jump_to t s = s\<lparr>taken := taken s @ [(rip s, t)], rip := t\<rparr>"

definition xstep :: "memory \<Rightarrow> xstate \<Rightarrow> xconf" where
  "xstep m s =
     (let b = (\<lambda>i. m (rip s + word_of_nat i)); at = (\<lambda>i. rip s + word_of_nat i) in
      if b 0 = 0x90 then Running (skip_to 1 s)
      else if b 0 = 0x83 \<and> b 1 = 0xe0 then
        (let v = and (eax s) (scast (b 2)) in Running (skip_to 3 (s\<lparr>eax := v, zf := (v = 0)\<rparr>)))
      else if b 0 = 0x85 \<and> b 1 = 0xc0 then Running (skip_to 2 (s\<lparr>zf := (eax s = 0)\<rparr>))
      else if b 0 = 0x75 then
        Running (if zf s then skip_to 2 s else jump_to (at 2 + scast (b 1)) s)
      else if b 0 = 0xeb then Running (jump_to (at 2 + scast (b 1)) s)
      else if b 0 = 0xe9 then
        Running (jump_to (at 5 + scast (of_le (fetch m (at 1) 4) :: 32 word)) s)
      else if b 0 = 0xb8 then Running (skip_to 5 (s\<lparr>eax := of_le (fetch m (at 1) 4)\<rparr>))
      else if b 0 = 0x41 \<and> b 1 = 0x8b \<and> b 2 = 0x06 then
        Running (skip_to 3 (s\<lparr>eax := of_le (fetch m (r14 s) 4)\<rparr>))
      else if b 0 = 0x41 \<and> b 1 = 0xff \<and> b 2 = 0x65 \<and> b 3 = 0x00 then
        Running (jump_to (of_le (fetch m (r13 s) 8)) s)
      else if b 0 = 0x49 \<and> b 1 = 0xbd then Running (skip_to 10 (s\<lparr>r13 := of_le (fetch m (at 2) 8)\<rparr>))
      else if b 0 = 0x49 \<and> b 1 = 0xbe then Running (skip_to 10 (s\<lparr>r14 := of_le (fetch m (at 2) 8)\<rparr>))
      else if b 0 = 0x48 \<and> b 1 = 0xc7 \<and> b 2 = 0xc1 then Running (skip_to 7 s)
      else if b 0 = 0xc3 then Finished s
      else Fault)"

fun xrun :: "nat \<Rightarrow> memory \<Rightarrow> xconf \<Rightarrow> xconf" where
  "xrun 0 m c = c"
| "xrun (Suc n) m (Running s) = xrun n m (xstep m s)"
| "xrun (Suc n) m c = c"

text \<open>\<open>Shadow::execute_ptr\<close> with the input in \<open>%eax\<close>; \<open>None\<close> if it does not return in time.\<close>

definition execute_ptr :: "nat \<Rightarrow> memory \<Rightarrow> addr \<Rightarrow> 32 word \<Rightarrow> (32 word \<times> (addr \<times> addr) list) option" where
  "execute_ptr fuel m ptr input =
     (case xrun fuel m (Running \<lparr>rip = ptr, eax = input, r13 = 0, r14 = 0, zf = False, taken = []\<rparr>) of
        Finished s \<Rightarrow> Some (eax s, taken s)
      | _ \<Rightarrow> None)"

section \<open>Runs\<close>

definition reaches :: "memory \<Rightarrow> xconf \<Rightarrow> xconf \<Rightarrow> bool" where
  "reaches m c d \<longleftrightarrow> (\<exists>n. xrun n m c = d)"

lemma xrun_add: "xrun (k + n) m c = xrun n m (xrun k m c)"
proof (induction k arbitrary: c)
  case (Suc k)
  have stop: "xrun n m (Finished s) = Finished s" "xrun n m Fault = Fault" for s by (cases n; simp)+
  show ?case by (cases c) (simp_all add: Suc stop)
qed simp

lemma reaches_trans [trans]: "reaches m a b \<Longrightarrow> reaches m b c \<Longrightarrow> reaches m a c"
  unfolding reaches_def by (metis xrun_add)

lemma reaches_refl [simp]: "reaches m c c"
  unfolding reaches_def by (rule exI [of _ 0]) simp

lemma reaches_step: "xstep m s = c \<Longrightarrow> reaches m (Running s) c"
  unfolding reaches_def by (rule exI [of _ 1]) simp

lemma reaches_execute:
  assumes "reaches m (Running \<lparr>rip = ptr, eax = input, r13 = 0, r14 = 0, zf = False, taken = []\<rparr>) (Finished s)"
  shows "\<exists>fuel. \<forall>k \<ge> fuel. execute_ptr k m ptr input = Some (eax s, taken s)"
proof -
  from assms obtain n where
    n: "xrun n m (Running \<lparr>rip = ptr, eax = input, r13 = 0, r14 = 0, zf = False, taken = []\<rparr>) = Finished s"
    unfolding reaches_def by blast
  have stop: "xrun k m (Finished s) = Finished s" for k by (cases k) simp_all
  have "execute_ptr k m ptr input = Some (eax s, taken s)" if "k \<ge> n" for k
    using xrun_add [of n "k - n" m] n stop that by (simp add: execute_ptr_def)
  then show ?thesis by blast
qed

section \<open>Code that is there\<close>

lemma code_at_Nil [simp]: "code_at m a []"
  by (simp add: code_at_def)

lemma code_at_Cons [simp]: "code_at m a (b # bs) \<longleftrightarrow> m a = b \<and> code_at m (a + 1) bs"
  by (auto simp: code_at_def less_Suc_eq_0_disj ac_simps)

lemma code_at_append: "code_at m a (xs @ ys) \<longleftrightarrow> code_at m a xs \<and> code_at m (a + word_of_nat (length xs)) ys"
  by (induction xs arbitrary: a) (auto simp: ac_simps)

lemma fetch_code: "code_at m a bs \<Longrightarrow> fetch m a (length bs) = bs"
  by (rule nth_equalityI) (simp_all add: code_at_def fetch_def)

lemma fetch_code_n: "code_at m a bs \<Longrightarrow> n = length bs \<Longrightarrow> fetch m a n = bs"
  by (simp add: fetch_code)

lemma slide:
  "code_at m (rip s) (replicate n 0x90) \<Longrightarrow> reaches m (Running s) (Running (skip_to n s))"
proof (induction n arbitrary: s)
  case (Suc n)
  have "reaches m (Running s) (Running (skip_to 1 s))"
    using Suc.prems by (intro reaches_step) (simp add: xstep_def)
  also have "reaches m (Running (skip_to 1 s)) (Running (skip_to n (skip_to 1 s)))"
    using Suc.prems by (intro Suc.IH) (simp add: skip_to_def)
  also have "skip_to n (skip_to 1 s) = skip_to (Suc n) s" by (simp add: skip_to_def ac_simps)
  finally show ?case .
qed (simp add: skip_to_def)

lemma step_and_one:
  "code_at m (rip s) [0x83, 0xe0, 0x01] \<Longrightarrow>
     xstep m s = Running (skip_to 3 (s\<lparr>eax := and (eax s) 1, zf := (and (eax s) 1 = 0)\<rparr>))"
  by (simp add: xstep_def add.assoc Let_def)

lemma step_test:
  "code_at m (rip s) [0x85, 0xc0] \<Longrightarrow> xstep m s = Running (skip_to 2 (s\<lparr>zf := (eax s = 0)\<rparr>))"
  by (simp add: xstep_def add.assoc)

lemma step_jne:
  "code_at m (rip s) [0x75, r] \<Longrightarrow>
     xstep m s = Running (if zf s then skip_to 2 s else jump_to (rip s + 2 + scast r) s)"
  by (simp add: xstep_def add.assoc)

lemma step_jmp:
  "code_at m (rip s) [0xeb, r] \<Longrightarrow> xstep m s = Running (jump_to (rip s + 2 + scast r) s)"
  by (simp add: xstep_def add.assoc)

lemma step_long_jmp:
  assumes "code_at m (rip s) (0xe9 # le_bytes 4 (d :: addr))"
  shows "xstep m s = Running (jump_to (rip s + 5 + scast (ucast d :: 32 word)) s)"
proof -
  from assms have "fetch m (rip s + 1) 4 = le_bytes 4 d" by (intro fetch_code_n) simp_all
  moreover have "(of_le (le_bytes 4 d) :: 32 word) = ucast d"
    unfolding of_le_bytes by (rule bit_word_eqI) (auto simp: bit_simps)
  ultimately show ?thesis using assms by (simp add: xstep_def add.assoc)
qed

lemma step_mov:
  assumes "code_at m (rip s) (0xb8 # le_bytes 4 (v :: 32 word))"
  shows "xstep m s = Running (skip_to 5 (s\<lparr>eax := v\<rparr>))"
proof -
  from assms have "fetch m (rip s + 1) 4 = le_bytes 4 v" by (intro fetch_code_n) simp_all
  moreover have "(of_le (le_bytes 4 v) :: 32 word) = v"
    unfolding of_le_bytes by (rule bit_word_eqI) (auto simp: bit_simps)
  ultimately show ?thesis using assms by (simp add: xstep_def add.assoc)
qed

lemma step_ret: "code_at m (rip s) [0xc3] \<Longrightarrow> xstep m s = Finished s"
  by (simp add: xstep_def)

text \<open>The instructions of the indirect mode: load a register, load the input, jump through a cell.\<close>

lemma step_load:
  assumes "code_at m (rip s) ([0x49, or 0xb0 r] @ le_bytes 8 (ip :: addr))" "r = 13 \<or> r = 14"
  shows "xstep m s = Running (skip_to 10 (if r = 13 then s\<lparr>r13 := ip\<rparr> else s\<lparr>r14 := ip\<rparr>))"
proof -
  from assms have "fetch m (rip s + 2) 8 = le_bytes 8 ip"
    by (intro fetch_code_n) (simp_all add: add.assoc)
  moreover have "(of_le (le_bytes 8 ip) :: addr) = ip"
    unfolding of_le_bytes by (rule bit_word_eqI) (auto simp: bit_simps dest: bit_imp_le_length)
  ultimately show ?thesis using assms by (auto simp: xstep_def)
qed

lemma step_load_input:
  assumes "code_at m (rip s) [0x41, 0x8b, 0x06]" "code_at m (r14 s) (le_bytes 4 (v :: 32 word))"
  shows "xstep m s = Running (skip_to 3 (s\<lparr>eax := v\<rparr>))"
proof -
  from assms(2) have "fetch m (r14 s) 4 = le_bytes 4 v" by (intro fetch_code_n) simp_all
  moreover have "(of_le (le_bytes 4 v) :: 32 word) = v"
    unfolding of_le_bytes by (rule bit_word_eqI) (auto simp: bit_simps)
  ultimately show ?thesis using assms(1) by (simp add: xstep_def add.assoc)
qed

lemma step_jump_r13:
  assumes "code_at m (rip s) [0x41, 0xff, 0x65, 0x00]" "code_at m (r13 s) (le_bytes 8 (q :: addr))"
  shows "xstep m s = Running (jump_to q s)"
proof -
  from assms(2) have "fetch m (r13 s) 8 = le_bytes 8 q" by (intro fetch_code_n) simp_all
  moreover have "(of_le (le_bytes 8 q) :: addr) = q"
    unfolding of_le_bytes by (rule bit_word_eqI) (auto simp: bit_simps dest: bit_imp_le_length)
  ultimately show ?thesis using assms(1) by (simp add: xstep_def add.assoc)
qed

text \<open>A displacement that fits reaches its target.\<close>

lemma sint_ucast_small:
  assumes "- (2 ^ n) \<le> sint (d :: addr)" "sint d < 2 ^ n" "n < 64" "LENGTH('a::len) = Suc n"
  shows "(scast (ucast d :: 'a word) :: addr) = d"
proof -
  have "sint (ucast d :: 'a word) = signed_take_bit n (uint d)"
    using assms(4) by (simp add: signed_ucast_eq)
  also have "\<dots> = signed_take_bit n (signed_take_bit 63 (uint d))" using assms(3) by (simp add: min_def)
  also have "signed_take_bit 63 (uint d) = sint d" by (simp add: sint_uint)
  also have "signed_take_bit n (sint d) = sint d" using assms(1,2) by (rule signed_take_bit_int_eq_self)
  finally have "sint (ucast d :: 'a word) = sint d" .
  moreover have "scast (ucast d :: 'a word) = (word_of_int (sint (ucast d :: 'a word)) :: addr)" by simp
  ultimately show ?thesis by simp
qed

lemma scast_ucast_8: "- 128 \<le> sint d \<Longrightarrow> sint d < 128 \<Longrightarrow> scast (ucast (d :: addr) :: byte) = d"
  by (rule sint_ucast_small [where n = 7]) simp_all

lemma scast_ucast_32:
  "- 2147483648 \<le> sint d \<Longrightarrow> sint d < 2147483648 \<Longrightarrow> scast (ucast (d :: addr) :: 32 word) = d"
  by (rule sint_ucast_small [where n = 31]) simp_all

end
