(* ===== verification/BranchShadowing.thy ===== *)
theory BranchShadowing
  imports ShadowExec
begin

text \<open>
  The attack driver (\<open>shadow_code/untrusted/BranchShadow.cpp\<close>): the three shadows it
  builds for a victim branch from \<open>m_src\<close> to \<open>m_dst\<close>. The segments a function makes are
  listed in the order in which their variables, and then the unnamed jumps, appear in it. Cache
  flushes and logging have no effect on the state.
\<close>

record branch_shadow =
  m_src :: addr
  m_dst :: addr
  m_use_indirect_targets :: bool
  m_indirect_target_ptr :: addr
  m_indirect_shadow_input :: addr
  m_shadow :: "shadow option"
  m_shadow_src :: addr

definition lbr_entry_bits :: nat where
  "lbr_entry_bits = 32"

text \<open>
  \<open>prepare_attack\<close>; the four addresses are the results of the calls of \<open>malloc\<close> for the
  two indirect pointers.
\<close>

definition prepare_attack ::
  "addr \<Rightarrow> addr \<Rightarrow> 32 word \<Rightarrow> addr \<times> addr \<Rightarrow> addr \<times> addr \<Rightarrow> branch_shadow \<Rightarrow> memory \<Rightarrow> (branch_shadow \<times> memory) res" where
  "prepare_attack src dst shadow_input cells1 cells2 bs m =
     bind_res (assert_res ''src != nullptr'' (src \<noteq> 0)) (\<lambda>_.
     bind_res (assert_res ''dst != nullptr'' (dst \<noteq> 0)) (\<lambda>_.
       let bs1 = bs\<lparr>m_src := src, m_dst := dst,
                    m_shadow := Some (new_Shadow lbr_entry_bits src dst (\<lambda>_. make_Nop 1))\<rparr>
       in Inr (if m_use_indirect_targets bs1 then
                 (bs1\<lparr>m_indirect_shadow_input := snd cells1, m_indirect_target_ptr := snd cells2\<rparr>,
                  get_indirect_pointer (fst cells2) (snd cells2) 0
                    (get_indirect_pointer (fst cells1) (snd cells1) (scast shadow_input) m))
               else (bs1, m))))"

text \<open>Segments made by a function, and a sequence of calls of \<open>add_segment\<close>.\<close>

definition seg_table :: "segment list \<Rightarrow> segs" where
  "seg_table ss = (\<lambda>i. if i < length ss then ss ! i else make_Nop 1)"

fun add_all :: "nat list \<Rightarrow> shadow \<Rightarrow> shadow res" where
  "add_all [] sh = Inr sh"
| "add_all (s # ss) sh = bind_res (add_segment s sh) (add_all ss)"

text \<open>The end of every setup: the address of the shadow branch and the entry.\<close>

definition finish_setup :: "nat \<Rightarrow> addr \<Rightarrow> branch_shadow \<Rightarrow> shadow \<Rightarrow> memory \<Rightarrow> (addr \<times> branch_shadow \<times> memory) res" where
  "finish_setup src_seg off bs sh m =
     bind_res (if off = 0 then Inr (m_pos (seg sh src_seg)) else add_offset (m_pos (seg sh src_seg)) off) (\<lambda>p.
     bind_res (get_entry_ptr sh) (\<lambda>entry.
       Inr (entry, bs\<lparr>m_shadow := Some sh, m_shadow_src := p\<rparr>, m)))"

section \<open>Shadowing with jmp\<close>

text \<open>Segments 0 to 7: if, else, end of if, end of else, src, entry and the two long jumps.\<close>

definition jmp_table :: "branch_shadow \<Rightarrow> segs" where
  "jmp_table bs = seg_table
     [make_EaxWrite 0 1, make_EaxWrite (m_dst bs) 2, make_Retq 0 120, make_Retq 0 120,
      if m_use_indirect_targets bs then make_JumpR13 (m_src bs) else make_Jump (m_src bs) (Some 1),
      if m_use_indirect_targets bs then make_SetPosInReg 0 (Some 1) (m_indirect_target_ptr bs) 13 else make_Nop 1,
      make_LongJump 0 (Some 2), make_LongJump 0 (Some 3)]"

definition setup_jmp_shadow :: "addr \<Rightarrow> branch_shadow \<Rightarrow> memory \<Rightarrow> (addr \<times> branch_shadow \<times> memory) res" where
  "setup_jmp_shadow mmap_result bs m =
     (case m_shadow bs of
        None \<Rightarrow> Inl (AssertFail ''m_shadow != nullptr'')
      | Some sh0 \<Rightarrow>
          let sh = sh0\<lparr>seg := jmp_table bs\<rparr> in
          bind_res
            (if m_src bs < m_dst bs
             then bind_res (add_entry 5 sh) (add_all [4, 0, 6, 1, 7, 2, 3])
             else bind_res (add_all [0, 6, 1, 7] sh) (\<lambda>sh1. bind_res (add_entry 5 sh1) (add_all [4, 2, 3]))) (\<lambda>sh2.
          bind_res (finalize mmap_result sh2 m) (\<lambda>(sh3, m'). finish_setup 4 0 bs sh3 m')))"

text \<open>The same shadow with the two sides exchanged.\<close>

definition jmp_rev_table :: "branch_shadow \<Rightarrow> segs" where
  "jmp_rev_table bs = seg_table
     [make_EaxWrite (m_dst bs) 1, make_EaxWrite 0 2, make_Retq 0 120, make_Retq 0 120,
      if m_use_indirect_targets bs then make_JumpR13 (m_src bs) else make_Jump (m_src bs) (Some 0),
      if m_use_indirect_targets bs then make_SetPosInReg 0 (Some 0) (m_indirect_target_ptr bs) 13 else make_Nop 1,
      make_LongJump 0 (Some 2), make_LongJump 0 (Some 3)]"

definition setup_jmp_shadow_rev :: "addr \<Rightarrow> branch_shadow \<Rightarrow> memory \<Rightarrow> (addr \<times> branch_shadow \<times> memory) res" where
  "setup_jmp_shadow_rev mmap_result bs m =
     (case m_shadow bs of
        None \<Rightarrow> Inl (AssertFail ''m_shadow != nullptr'')
      | Some sh0 \<Rightarrow>
          let sh = sh0\<lparr>seg := jmp_rev_table bs\<rparr> in
          bind_res
            (if m_src bs < m_dst bs
             then bind_res (add_entry 5 sh) (add_all [4, 0, 6, 1, 7, 2, 3])
             else bind_res (add_all [0, 6, 1, 7] sh) (\<lambda>sh1. bind_res (add_entry 5 sh1) (add_all [4, 2, 3]))) (\<lambda>sh2.
          bind_res (finalize mmap_result sh2 m) (\<lambda>(sh3, m'). finish_setup 4 0 bs sh3 m')))"

section \<open>Shadowing with jne\<close>

text \<open>
  Segments 0 to 6: if, else, end of if, end of else, entry, pretest and src. Segment 7 is the long
  jump to src, 8 and 9 are the jumps to the two ends; 10, the jump to if, is made only for a
  backward branch.
\<close>

definition jne_table :: "branch_shadow \<Rightarrow> segs res" where
  "jne_table bs =
     bind_res (make_JneEaxZero (m_src bs) (Some 1)) (\<lambda>src_seg.
       let jump = (if m_src bs < m_dst bs then make_Jump else make_LongJump) in
       Inr (seg_table
         [make_EaxWrite 0 1, make_EaxWrite (m_dst bs) 2, make_Retq 0 120, make_Retq 0 120,
          if m_use_indirect_targets bs then make_SetPosInReg 0 None (m_indirect_shadow_input bs) 14 else make_Nop 1,
          if m_use_indirect_targets bs then make_EaxAndOneIndir else make_EaxAndOne,
          src_seg, make_LongJump 0 (Some 6), jump 0 (Some 2), jump 0 (Some 3), make_Jump 0 (Some 0)]))"

definition setup_jne_shadow :: "addr \<Rightarrow> branch_shadow \<Rightarrow> memory \<Rightarrow> (addr \<times> branch_shadow \<times> memory) res" where
  "setup_jne_shadow mmap_result bs m =
     (case m_shadow bs of
        None \<Rightarrow> Inl (AssertFail ''m_shadow != nullptr'')
      | Some sh0 \<Rightarrow>
          bind_res (jne_table bs) (\<lambda>h.
          bind_res (add_entry 4 (sh0\<lparr>seg := h\<rparr>)) (\<lambda>sh1.
          bind_res
            (if m_src bs < m_dst bs
             then add_all [5, 7, 6, 0, 8, 1, 9, 2, 3] sh1
             else add_all [5, 7, 0, 8, 1, 9, 6, 10, 2, 3] sh1) (\<lambda>sh2.
          bind_res (finalize mmap_result sh2 m) (\<lambda>(sh3, m'). finish_setup 6 jne_offset bs sh3 m')))))"

end
