(* ===== verification/ShadowPlacement.thy ===== *)
theory ShadowPlacement
  imports BranchShadowing
begin

text \<open>
  How \<open>add_segment\<close> and \<open>finalize\<close> place the segments: one rule for each case, and
  the effect of the loops on the addresses.
\<close>

section \<open>Adding\<close>

lemma add_loose:
  assumes "\<not> m_finalized sh" "m_pos (seg sh s) = 0"
  shows "add_segment s sh = Inr (sh\<lparr>m_loose_segments := m_loose_segments sh @ [s]\<rparr>)"
  using assms by (simp add: add_segment_def has_pos_def)

lemma add_first:
  assumes "\<not> m_finalized sh" "m_pos (seg sh s) \<noteq> 0" "m_segments sh = []"
  shows "add_segment s sh =
    Inr (sh\<lparr>seg := place_back 2 s (rev (m_loose_segments sh)) (seg sh),
            m_segments := m_loose_segments sh @ [s], m_loose_segments := []\<rparr>)"
  using assms
  by (cases "m_loose_segments sh")
     (simp_all add: add_segment_def has_pos_def place_segment_def loose_spacing_def s_segment_spacing_def)

lemma add_next:
  assumes "\<not> m_finalized sh" "m_pos (seg sh s) \<noteq> 0" "m_loose_segments sh = []"
    and "m_pos (seg sh (last (m_segments sh))) < m_pos (seg sh s)"
  shows "add_segment s sh = Inr (sh\<lparr>m_segments := m_segments sh @ [s]\<rparr>)"
  using assms by (simp add: add_segment_def has_pos_def place_segment_def)

lemma add_between:
  assumes "\<not> m_finalized sh" "m_pos (seg sh s) \<noteq> 0" "m_loose_segments sh \<noteq> []" "m_segments sh \<noteq> []"
    and "m_pos (seg sh (last (m_segments sh))) < m_pos (seg sh s)"
    and "loose_spacing sh s = Inr sp" "sint sp < 10000"
  shows "add_segment s sh =
    Inr (sh\<lparr>seg := place_back sp s (rev (m_loose_segments sh)) (seg sh),
            m_segments := m_segments sh @ m_loose_segments sh @ [s], m_loose_segments := []\<rparr>)"
  using assms by (simp add: add_segment_def has_pos_def place_segment_def)

text \<open>The spacing of \<open>n\<close> segments of \<open>t\<close> bytes in \<open>e\<close> bytes.\<close>

lemma spacing_value:
  assumes "m_segments sh \<noteq> []" "t \<le> e" "e < 2 ^ 62"
    and "m_pos (seg sh s) - get_end (seg sh (last (m_segments sh))) = word_of_nat e"
    and "sum_list (map (\<lambda>s. get_size_seg (seg sh s)) (m_loose_segments sh)) = word_of_nat t"
    and "length (m_loose_segments sh) = n" "n < 2 ^ 62"
  shows "loose_spacing sh s = Inr (word_of_nat ((e - t) div n))"
proof -
  have u: "unat (word_of_nat k :: addr) = k" if "k < 2 ^ 62" for k
    using that by (intro unat_of_small) simp
  have s: "sint (word_of_nat k :: addr) = int k" if "k < 2 ^ 62" for k
    using that by (simp add: signed_of_nat signed_take_bit_int_eq_self)
  define k where "k = e - t"
  have k: "k < 2 ^ 62" using assms(3) by (simp add: k_def)
  have "(word_of_nat e - word_of_nat t :: addr) = word_of_nat k"
    using assms(2) by (simp add: of_nat_diff k_def)
  moreover have "(word_of_nat k div word_of_nat n :: addr) = word_of_nat (k div n)"
    using u [OF k] u [OF assms(7)] by (intro word_of_natI) (simp add: unat_div)
  ultimately show ?thesis
    using assms s [of t] s [of e] by (simp add: loose_spacing_def Let_def k_def [symmetric])
qed

section \<open>The indirect pointer of an area\<close>

text \<open>
  An area uses at most one indirect pointer: the address of the outer cell, the address of the inner
  cell, which the outer cell holds, and the segment whose address \<open>finalize\<close> stores in the inner
  cell, if any.
\<close>

type_synonym indirect = "(addr \<times> addr \<times> nat option) option"

definition in_cell :: "addr \<Rightarrow> addr \<Rightarrow> bool" where
  "in_cell a x \<longleftrightarrow> unat (x - a) < 8"

fun cells_ok :: "indirect \<Rightarrow> memory \<Rightarrow> bool" where
  "cells_ok None m = True"
| "cells_ok (Some (tp, ip, t)) m \<longleftrightarrow> code_at m tp (le_bytes 8 ip) \<and> (\<forall>x. \<not> (in_cell tp x \<and> in_cell ip x))"

fun cells_outside :: "indirect \<Rightarrow> addr \<Rightarrow> nat \<Rightarrow> bool" where
  "cells_outside None a n = True"
| "cells_outside (Some (tp, ip, t)) a n \<longleftrightarrow> (\<forall>x. inside a n x \<longrightarrow> \<not> in_cell tp x \<and> \<not> in_cell ip x)"

fun cell_set :: "indirect \<Rightarrow> (nat \<Rightarrow> addr) \<Rightarrow> memory \<Rightarrow> bool" where
  "cell_set (Some (tp, ip, Some i)) p m = code_at m ip (le_bytes 8 (p i))"
| "cell_set _ p m = True"

fun set_cell :: "indirect \<Rightarrow> (nat \<Rightarrow> addr) \<Rightarrow> memory \<Rightarrow> memory" where
  "set_cell (Some (tp, ip, Some i)) p m = write_bytes ip (le_bytes 8 (p i)) m"
| "set_cell _ p m = m"

lemma code_at_cong:
  assumes "\<And>x. unat (x - a) < length bs \<Longrightarrow> m' x = m x" "length bs < 18446744073709551616"
  shows "code_at m' a bs = code_at m a bs"
proof -
  have "m' (a + word_of_nat i) = m (a + word_of_nat i)" if "i < length bs" for i
    using that assms by (intro assms(1)) (simp add: unat_of_small)
  then show ?thesis by (auto simp: code_at_def)
qed

lemma code_at_cell:
  assumes "\<And>x. in_cell a x \<Longrightarrow> m' x = m x" "length bs = 8"
  shows "code_at m' a bs = code_at m a bs"
  using assms by (intro code_at_cong) (simp_all add: in_cell_def)

lemma code_at_written: "length bs < 18446744073709551616 \<Longrightarrow> code_at (write_bytes a bs m) a bs"
  by (auto simp: code_at_def write_bytes_at unat_of_small)

lemma of_le_addr: "(of_le (le_bytes 8 (w :: addr)) :: addr) = w"
  unfolding of_le_bytes by (rule bit_word_eqI) (auto simp: bit_simps dest: bit_imp_le_length)

lemma write_cell: "write_bytes a (le_bytes 8 (w :: addr)) m x = (if in_cell a x then le_bytes 8 w ! unat (x - a) else m x)"
  by (simp add: write_bytes_at in_cell_def)

lemma cells_ok_cong:
  assumes "cells_ok c m" "\<And>tp ip t x. c = Some (tp, ip, t) \<Longrightarrow> in_cell tp x \<Longrightarrow> m' x = m x"
  shows "cells_ok c m'"
proof (cases c)
  case (Some y)
  obtain tp ip t where c: "c = Some (tp, ip, t)" using Some by (cases y) auto
  from assms(2) [OF c] have "code_at m' tp (le_bytes 8 ip) = code_at m tp (le_bytes 8 ip)"
    by (intro code_at_cell) simp_all
  with assms(1) c show ?thesis by simp
qed simp

lemma set_cell_at: "set_cell c p m x =
    (case c of Some (tp, ip, Some i) \<Rightarrow> if in_cell ip x then le_bytes 8 (p i) ! unat (x - ip) else m x | _ \<Rightarrow> m x)"
  by (cases c; cases "snd (snd (the c))") (auto simp: write_cell)

lemma set_cell_ok: "cells_ok c m \<Longrightarrow> cells_ok c (set_cell c p m)"
  by (rule cells_ok_cong) (auto simp: set_cell_at simp del: set_cell.simps split: option.splits)

lemma set_cell_twice: "set_cell c p (set_cell c p m) = set_cell c p m"
  by (auto simp: fun_eq_iff set_cell_at simp del: set_cell.simps split: option.splits)

lemma set_cell_cong: "m' x = m x \<Longrightarrow> set_cell c p m' x = set_cell c p m x"
  by (simp add: set_cell_at split: option.splits)

lemma set_cell_inside: "cells_outside c a n \<Longrightarrow> inside a n x \<Longrightarrow> set_cell c p m x = m x"
  by (auto simp: set_cell_at simp del: set_cell.simps split: option.splits)

lemma cell_set_cong:
  assumes "\<And>x tp ip i. c = Some (tp, ip, Some i) \<Longrightarrow> in_cell ip x \<Longrightarrow> m x = set_cell c p m0 x"
  shows "cell_set c p m"
proof (cases "\<exists>tp ip i. c = Some (tp, ip, Some i)")
  case True
  then obtain tp ip i where c: "c = Some (tp, ip, Some i)" by blast
  have "code_at m ip (le_bytes 8 (p i)) = code_at (write_bytes ip (le_bytes 8 (p i)) m0) ip (le_bytes 8 (p i))"
    using assms [OF c] by (intro code_at_cell) (simp_all add: c)
  then show ?thesis using c by (simp add: code_at_written)
next
  case False
  then show ?thesis by (cases "(c, p, m)" rule: cell_set.cases) auto
qed

text \<open>What a finished area says of the cells, from the bytes outside it.\<close>

lemma cells_after:
  assumes "cells_ok c m" "cells_outside c a n" "\<And>x. \<not> inside a n x \<Longrightarrow> m' x = (if w then set_cell c p m else m) x"
  shows "cells_ok c m' \<and> (w \<longrightarrow> cell_set c p m')"
proof -
  let ?m = "if w then set_cell c p m else m"
  have out: "\<not> inside a n x" if "c = Some (tp, ip, t)" "in_cell tp x \<or> in_cell ip x" for tp ip t x
    using assms(2) that by auto
  have "cells_ok c ?m" using assms(1) set_cell_ok by simp
  then have "cells_ok c m'"
    by (rule cells_ok_cong) (use assms(3) out in blast)
  moreover have "cell_set c p m'" if w
    by (rule cell_set_cong [where ?m0.0 = m]) (use assms(3) out that in simp)
  ultimately show ?thesis by blast
qed

section \<open>The bytes of a finished segment\<close>

text \<open>
  When \<open>finalize\<close> of a segment succeeds, and the bytes it then has; \<open>p\<close> gives the
  addresses of the segments.
\<close>

definition near_target :: "(nat \<Rightarrow> addr) \<Rightarrow> nat \<Rightarrow> segment \<Rightarrow> bool" where
  "near_target p t s \<longleftrightarrow> p t \<noteq> 0 \<and> get_end s \<noteq> 0"

definition cell_for :: "indirect \<Rightarrow> nat option \<Rightarrow> addr \<Rightarrow> bool" where
  "cell_for c t tp \<longleftrightarrow> (\<exists>ip. c = Some (tp, ip, t))"

definition cell_bytes :: "indirect \<Rightarrow> byte list" where
  "cell_bytes c = (case c of None \<Rightarrow> [] | Some (tp, ip, t) \<Rightarrow> le_bytes 8 ip)"

fun seg_ready :: "indirect \<Rightarrow> (nat \<Rightarrow> addr) \<Rightarrow> segment \<Rightarrow> bool" where
  "seg_ready c p s =
     (case kind s of
        SegJneEaxZero t \<Rightarrow> (case t of None \<Rightarrow> False | Some t \<Rightarrow> near_target p t s)
      | SegJump t \<Rightarrow> (case t of None \<Rightarrow> False | Some t \<Rightarrow> near_target p t s \<and>
          sint (p t - get_end s) > -128 \<and> sint (p t - get_end s) < 128)
      | SegLongJump t \<Rightarrow> (case t of None \<Rightarrow> False | Some t \<Rightarrow> near_target p t s)
      | SegSetPosInReg t tp _ \<Rightarrow> cell_for c t tp
      | _ \<Rightarrow> True)"

fun final_hex :: "indirect \<Rightarrow> (nat \<Rightarrow> addr) \<Rightarrow> segment \<Rightarrow> byte list" where
  "final_hex c p s =
     (case kind s of
        SegJneEaxZero (Some t) \<Rightarrow> [0x85, 0xc0, 0x75, ucast (p t - get_end s)]
      | SegJump (Some t) \<Rightarrow> [0xeb, ucast (p t - get_end s)]
      | SegLongJump (Some t) \<Rightarrow> 0xe9 # le_bytes 4 (p t - get_end s)
      | SegNop n \<Rightarrow> replicate (1 + n) 0x90
      | SegRetq n \<Rightarrow> replicate n 0x90 @ [0xc3]
      | SegSetPosInReg _ _ r \<Rightarrow> [0x49, or 0xb0 r] @ cell_bytes c
      | _ \<Rightarrow> m_hex s)"

definition sets_pos :: "seg_kind \<Rightarrow> bool" where
  "sets_pos k = (case k of SegSetPosInReg _ _ _ \<Rightarrow> True | _ \<Rightarrow> False)"

lemma retq_hex: "(replicate (Suc n) x)[n := y] = replicate n x @ [y]"
  by (induction n) simp_all

lemma finalize_set_pos:
  assumes "cell_for c t tp" "cells_ok c m" "\<And>i. m_pos (h i) = p i"
  shows "finalize_SetPosInReg h t tp r s m = (s\<lparr>m_hex := [0x49, or 0xb0 r] @ cell_bytes c\<rparr>, set_cell c p m)"
proof -
  from assms(1) obtain ip where c: "c = Some (tp, ip, t)" by (auto simp: cell_for_def)
  have "of_le (fetch m tp 8) = ip"
    using assms(2) fetch_code_n [of m tp "le_bytes 8 ip" 8] of_le_addr by (simp add: c)
  then have "(case t of None \<Rightarrow> m | Some i \<Rightarrow> set_indirect_pointer_value tp (m_pos (h i)) m) = set_cell c p m"
    using assms(3) by (cases t) (simp_all add: c set_indirect_pointer_value_def)
  moreover have "fetch (set_cell c p m) tp 8 = le_bytes 8 ip"
    using set_cell_ok [OF assms(2), of p] by (intro fetch_code_n) (simp_all add: c)
  ultimately show ?thesis by (simp add: finalize_SetPosInReg_def cell_bytes_def c Let_def)
qed

lemma finalize_seg_ready:
  assumes "seg_ready c p s" "\<And>i. m_pos (h i) = p i" "cells_ok c m"
  shows "finalize_seg h s m = Inr (s\<lparr>m_hex := final_hex c p s\<rparr>, if sets_pos (kind s) then set_cell c p m else m)"
  using assms
  by (cases "kind s")
     (auto simp: finalize_JneEaxZero_def finalize_Jump_def finalize_LongJump_def jump_diff_def target_pos_def
       get_diff_def near_target_def finalize_Nop_def finalize_Retq_def retq_hex sets_pos_def finalize_set_pos
       simp del: replicate_Suc split: option.splits)

lemma finalize_all_ready:
  assumes "distinct ss" "\<forall>s \<in> set ss. seg_ready c p (h s)" "\<And>i. m_pos (h i) = p i" "cells_ok c m"
  shows "finalize_all ss h m =
    Inr (\<lambda>s. if s \<in> set ss then (h s)\<lparr>m_hex := final_hex c p (h s)\<rparr> else h s,
      if \<exists>s \<in> set ss. sets_pos (kind (h s)) then set_cell c p m else m)"
  using assms
proof (induction ss arbitrary: h m)
  case (Cons s ss)
  let ?h = "h(s := (h s)\<lparr>m_hex := final_hex c p (h s)\<rparr>)"
  let ?m = "if sets_pos (kind (h s)) then set_cell c p m else m"
  have kd: "kind (?h t) = kind (h t)" for t by simp
  have "finalize_all (s # ss) h m = finalize_all ss ?h ?m"
    using finalize_seg_ready [of c p "h s" h m] Cons.prems by simp
  also have "\<dots> = Inr (\<lambda>t. if t \<in> set ss then (?h t)\<lparr>m_hex := final_hex c p (?h t)\<rparr> else ?h t,
      if \<exists>t \<in> set ss. sets_pos (kind (?h t)) then set_cell c p ?m else ?m)"
    using Cons.prems set_cell_ok by (intro Cons.IH) auto
  also have "(\<lambda>t. if t \<in> set ss then (?h t)\<lparr>m_hex := final_hex c p (?h t)\<rparr> else ?h t) =
      (\<lambda>t. if t \<in> set (s # ss) then (h t)\<lparr>m_hex := final_hex c p (h t)\<rparr> else h t)"
    using Cons.prems(1) by (auto simp: fun_eq_iff)
  also have "(if \<exists>t \<in> set ss. sets_pos (kind (?h t)) then set_cell c p ?m else ?m) =
      (if \<exists>t \<in> set (s # ss). sets_pos (kind (h t)) then set_cell c p m else m)"
    unfolding kd by (simp add: set_cell_twice)
  finally show ?case .
qed simp

section \<open>The finished area\<close>

text \<open>Every segment holds its bytes and the gap after it, up to the next one, holds NOPs.\<close>

definition built :: "(nat \<Rightarrow> addr) \<Rightarrow> (nat \<Rightarrow> byte list) \<Rightarrow> nat list \<Rightarrow> memory \<Rightarrow> bool" where
  "built p code ss m \<longleftrightarrow> (\<forall>s \<in> set ss. code_at m (p s) (code s)) \<and>
     (\<forall>ss1 s t ss2. ss = ss1 @ s # t # ss2 \<longrightarrow>
        code_at m (p s + word_of_nat (length (code s)))
          (replicate (unat (p t) - (unat (p s) + length (code s))) 0x90))"

definition seg_code :: "indirect \<Rightarrow> (nat \<Rightarrow> addr) \<Rightarrow> segs \<Rightarrow> nat \<Rightarrow> byte list" where
  "seg_code c p h s = take (size_of h s) (final_hex c p (h s))"

lemma filled:
  assumes "placed h ss" "ss = ss1 @ s # t # ss2" "unat (m_pos (h s)) \<le> unat x" "unat x < unat (m_pos (h t))"
  shows "fill_with_nops (m_pos (h (hd ss))) (get_end (h (last ss))) m x = 0x90"
proof -
  let ?a = "m_pos (h (hd ss))" and ?z = "get_end (h (last ss))"
  have ord: "sorted_wrt (\<lambda>s t. u h s + size_of h s \<le> u h t) ss"
    and bound: "\<And>r. r \<in> set ss \<Longrightarrow> 0 < u h r \<and> u h r + size_of h r < 18446744073709551616"
    using assms(1) by (simp_all add: placed_def)
  have first: "u h (hd ss) \<le> u h s" using ord assms(2) by (cases ss1) auto
  have last: "u h t \<le> u h (last ss)"
    using ord assms(2) by (cases ss2 rule: rev_cases) (auto simp: sorted_wrt_append)
  have "ss \<noteq> []" using assms(2) by simp
  then have mem: "hd ss \<in> set ss" "last ss \<in> set ss" by simp_all
  have z: "unat ?z = u h (last ss) + size_of h (last ss)"
    using bound [OF mem(2)] unat_add_of_nat [of "m_pos (h (last ss))" "size_of h (last ss)"]
    by (simp add: get_end_def get_size_seg_def u_def size_of_def)
  let ?n = "unat ?z - unat ?a"
  have x: "inside ?a ?n x" using first last z assms(3,4) by (simp add: inside_def u_def)
  have "unat (?z - ?a) = ?n" using first last z x by (intro unat_diff_le) (auto simp: inside_def u_def)
  moreover have "write_bytes ?a (replicate ?n 0x90) m x = 0x90"
    using x bound [OF mem(1)] bound [OF mem(2)] z
    by (subst write_inside) (auto simp: u_def inside_def)
  ultimately show ?thesis by (simp add: fill_with_nops_def)
qed

text \<open>The bytes outside the area: only the inner cell changes.\<close>

definition uses_cell :: "segs \<Rightarrow> nat list \<Rightarrow> bool" where
  "uses_cell h ss = (\<exists>s \<in> set ss. sets_pos (kind (h s)))"

lemma fill_outside:
  assumes "unat start + n \<le> 18446744073709551616" "0 < unat start" "unat start \<le> unat stop" "unat stop \<le> unat start + n"
    and "\<not> inside start n x"
  shows "fill_with_nops start stop m x = m x"
proof -
  have "unat (stop - start) = unat stop - unat start" using assms(3) by (rule unat_diff_le)
  moreover have "\<not> inside start (unat stop - unat start) x" using assms(3-5) by (auto simp: inside_def)
  ultimately show ?thesis
    using assms(1-4) by (simp add: fill_with_nops_def write_inside)
qed

lemma write_code_ok:
  assumes "m_segments sh = ss" "ss \<noteq> []" "distinct ss" "placed (seg sh) ss"
    and "\<forall>s \<in> set ss. seg_ready c (\<lambda>i. m_pos (seg sh i)) (seg sh s)"
    and "\<forall>s \<in> set ss. length (seg_code c (\<lambda>i. m_pos (seg sh i)) (seg sh) s) = size_of (seg sh) s"
    and "F = m_pos (seg sh (hd ss))" "\<forall>s \<in> set ss. unat F \<le> u (seg sh) s \<and> u (seg sh) s + size_of (seg sh) s \<le> unat F + n"
    and "unat F + n < 18446744073709551616" "cells_ok c m" "cells_outside c F n"
  shows "\<exists>sh' m'. write_code sh m = Inr (sh', m') \<and> m_finalized sh' \<and> m_segments sh' = ss \<and>
    m_entry_segment sh' = m_entry_segment sh \<and> m_mask sh' = m_mask sh \<and>
    (\<forall>i. m_pos (seg sh' i) = m_pos (seg sh i) \<and> kind (seg sh' i) = kind (seg sh i)) \<and>
    built (\<lambda>i. m_pos (seg sh i)) (seg_code c (\<lambda>i. m_pos (seg sh i)) (seg sh)) ss m' \<and>
    (\<forall>x. \<not> inside F n x \<longrightarrow> m' x = (if uses_cell (seg sh) ss then set_cell c (\<lambda>i. m_pos (seg sh i)) m else m) x)"
proof -
  let ?h = "seg sh" and ?p = "\<lambda>i. m_pos (seg sh i)" and ?set = "\<lambda>m. if uses_cell (seg sh) ss then set_cell c (\<lambda>i. m_pos (seg sh i)) m else m"
  define m1 where "m1 = fill_with_nops (?p (hd ss)) (get_end (?h (last ss))) m"
  define h' where "h' = (\<lambda>s. if s \<in> set ss then (?h s)\<lparr>m_hex := final_hex c ?p (?h s)\<rparr> else ?h s)"
  have mem: "hd ss \<in> set ss" "last ss \<in> set ss" using assms(2) by simp_all
  have F0: "0 < unat F" using assms(4,7) mem(1) by (auto simp: placed_def u_def)
  have z: "unat (get_end (?h (last ss))) = u ?h (last ss) + size_of ?h (last ss)"
    using assms(8,9) mem(2) unat_add_of_nat [of "m_pos (?h (last ss))" "size_of ?h (last ss)"]
    by (fastforce simp: get_end_def get_size_seg_def u_def size_of_def)
  have out1: "m1 x = m x" if "\<not> inside F n x" for x
    unfolding m1_def assms(7) [symmetric]
    using assms(8,9) mem(2) F0 z that by (intro fill_outside [where n = n]) fastforce+
  have ok1: "cells_ok c m1"
    using assms(10) by (rule cells_ok_cong) (use out1 assms(11) in auto)
  have fin: "finalize_all ss ?h m1 = Inr (h', ?set m1)"
    unfolding h'_def uses_cell_def by (rule finalize_all_ready [OF assms(3,5) _ ok1]) simp
  have same: "m_pos (h' i) = ?p i" "kind (h' i) = kind (?h i)" for i by (simp_all add: h'_def)
  then have u: "u h' i = u ?h i" "size_of h' i = size_of ?h i" for i by (simp_all add: u_def size_of_def)
  have cont: "content h' s = seg_code c ?p ?h s" if "s \<in> set ss" for s
  proof -
    have "m_hex (h' s) = final_hex c ?p (?h s)" using that by (simp add: h'_def del: final_hex.simps)
    then show ?thesis unfolding content_def seg_code_def u(2) by (simp only:)
  qed
  have pl: "placed h' ss" using assms(4) by (simp add: placed_def u)
  from write_all_ok [OF pl, of 0 "?set m1"] assms(6) cont u obtain m' where
    w: "write_all 0 ss h' (?set m1) = Inr m'" "\<forall>s \<in> set ss. code_at m' (m_pos (h' s)) (content h' s)"
    "\<forall>x. (\<forall>s \<in> set ss. \<not> in_seg h' s x) \<longrightarrow> m' x = ?set m1 x" by auto
  have frame: "m' x = ?set m x" if x: "\<not> inside F n x" for x
  proof -
    have "\<not> in_seg h' s x" if "s \<in> set ss" for s
      using assms(8) that x by (fastforce simp: in_seg_def inside_def same u size_of_def u_def)
    then have "m' x = ?set m1 x" using w(3) by blast
    also have "\<dots> = ?set m x" using set_cell_cong [of m1 x m] out1 [OF x] by simp
    finally show ?thesis .
  qed
  have "code_at m' (?p s + word_of_nat (length (seg_code c ?p ?h s)))
      (replicate (unat (?p t) - (unat (?p s) + length (seg_code c ?p ?h s))) 0x90)"
    if ss: "ss = ss1 @ s # t # ss2" for ss1 s t ss2
  proof -
    have len: "length (seg_code c ?p ?h s) = size_of ?h s" using assms(6) ss by simp
    let ?n = "unat (?p t) - (unat (?p s) + size_of ?h s)"
    have le: "unat (?p s) + size_of ?h s \<le> unat (?p t)"
      using assms(4) ss by (simp add: placed_def sorted_wrt_append u_def)
    have a: "unat (?p s + word_of_nat (size_of ?h s)) = unat (?p s) + size_of ?h s"
      using le unat_lt_64 [of "?p t"] by (intro unat_add_of_nat) simp
    have "code_at m' (?p s + word_of_nat (size_of ?h s)) (replicate ?n 0x90)"
    proof (rule code_at_iff)
      show "unat (?p s + word_of_nat (size_of ?h s)) + length (replicate ?n (0x90 :: byte)) \<le> 18446744073709551616"
        using a le unat_lt_64 [of "?p t"] by simp
      fix x assume "inside (?p s + word_of_nat (size_of ?h s)) (length (replicate ?n (0x90 :: byte))) x"
      then have x: "unat (?p s) + size_of ?h s \<le> unat x" "unat x < unat (?p t)"
        using a le by (auto simp: inside_def)
      have "placed h' (ss1 @ s # t # ss2)" using pl ss by simp
      from gap_outside [OF this] x w(3) ss have "m' x = ?set m1 x" by (simp add: u_def u same)
      also have "\<dots> = m1 x"
      proof -
        have "s \<in> set ss" "t \<in> set ss" using ss by simp_all
        with assms(8) x have "inside F n x" by (fastforce simp: inside_def u_def)
        then show ?thesis using set_cell_inside [OF assms(11)] by simp
      qed
      also have "m1 x = 0x90"
        unfolding m1_def using a le x by (intro filled [OF assms(4) ss]) simp_all
      finally show "m' x = replicate ?n 0x90 ! (unat x - unat (?p s + word_of_nat (size_of ?h s)))"
        using x a by simp
    qed
    then show ?thesis by (simp add: len)
  qed
  then have "built ?p (seg_code c ?p ?h) ss m'"
    unfolding built_def using w(2) cont same by simp
  moreover have "write_code sh m = Inr (sh\<lparr>seg := h', m_finalized := True\<rparr>, m')"
    using fin w(1) by (simp add: write_code_def assms(1) Let_def m1_def)
  ultimately show ?thesis using same assms(1) frame
    by (intro exI [of _ "sh\<lparr>seg := h', m_finalized := True\<rparr>"] exI [of _ m'] conjI) simp_all
qed

end
