(* ===== verification/ShadowFinal.thy ===== *)
theory ShadowFinal
  imports ShadowPlacement
begin

text \<open>
  \<open>finalize\<close> as a whole, for segments at known offsets from the first one: it succeeds, the
  segments keep their offsets and their low address bits, and the code is in memory.
\<close>

section \<open>Offsets\<close>

definition dist :: "(nat \<Rightarrow> nat) \<Rightarrow> segs \<Rightarrow> nat \<Rightarrow> nat \<Rightarrow> int" where
  "dist off h s t = int (off t) - int (off s + size_of h s)"

text \<open>The jumps of a segment stay in range and lead to segments of the area.\<close>

fun jumps_ok :: "indirect \<Rightarrow> (nat \<Rightarrow> nat) \<Rightarrow> segs \<Rightarrow> nat list \<Rightarrow> nat \<Rightarrow> bool" where
  "jumps_ok c off h ss s =
     (case kind (h s) of
        SegJneEaxZero t \<Rightarrow> (case t of None \<Rightarrow> False | Some t \<Rightarrow> t \<in> set ss)
      | SegJump t \<Rightarrow> (case t of None \<Rightarrow> False | Some t \<Rightarrow> t \<in> set ss \<and> -128 < dist off h s t \<and> dist off h s t < 128)
      | SegLongJump t \<Rightarrow> (case t of None \<Rightarrow> False | Some t \<Rightarrow> t \<in> set ss)
      | SegSetPosInReg t tp _ \<Rightarrow> cell_for c t tp
      | _ \<Rightarrow> True)"

definition hex_ok :: "segment \<Rightarrow> bool" where
  "hex_ok s \<longleftrightarrow> (case kind s of
      SegEaxAndOne \<Rightarrow> m_hex s = [0x83, 0xe0, 0x01]
    | SegEaxAndOneIndir \<Rightarrow> m_hex s = [0x41, 0x8b, 0x06, 0x83, 0xe0, 0x01]
    | SegEaxWrite v \<Rightarrow> m_hex s = 0xb8 # le_bytes 4 v
    | SegJumpR13 \<Rightarrow> m_hex s = [0x41, 0xff, 0x65, 0x00]
    | _ \<Rightarrow> True)"

definition laid_out :: "indirect \<Rightarrow> (nat \<Rightarrow> nat) \<Rightarrow> segs \<Rightarrow> nat list \<Rightarrow> nat \<Rightarrow> bool" where
  "laid_out c off h ss extent \<longleftrightarrow> distinct ss \<and> off (hd ss) = 0 \<and>
     (\<forall>s \<in> set ss. m_pos (h s) = m_pos (h (hd ss)) + word_of_nat (off s)) \<and>
     sorted_wrt (\<lambda>s t. off s + size_of h s \<le> off t) ss \<and> (\<forall>s \<in> set ss. off s + size_of h s \<le> extent) \<and>
     (\<forall>s \<in> set ss. jumps_ok c off h ss s \<and> hex_ok (h s))"

lemma seg_code_length:
  assumes "jumps_ok c off h ss s" "hex_ok (h s)"
  shows "length (seg_code c p h s) = size_of h s"
  using assms
  by (cases "kind (h s)") (auto simp: seg_code_def size_of_def hex_ok_def cell_for_def cell_bytes_def split: option.splits)

lemma sint_dist:
  assumes "x = F + word_of_nat a" "y = (F :: addr) + word_of_nat b" "a < 2 ^ 62" "b < 2 ^ 62"
  shows "sint (x - y) = int a - int b"
proof -
  define k where "k = int a - int b"
  have "x - y = word_of_int k" using assms(1,2) by (simp add: k_def)
  then have "sint (x - y) = signed_take_bit 63 k" by (simp add: signed_of_int)
  also have "\<dots> = k" using assms(3,4) by (intro signed_take_bit_int_eq_self) (simp_all add: k_def)
  finally show ?thesis by (simp add: k_def)
qed

section \<open>Finalisation\<close>

text \<open>Where the first segment ends up.\<close>

definition new_base :: "addr \<Rightarrow> addr \<Rightarrow> nat \<Rightarrow> addr" where
  "new_base mmap_result old n =
     or (and old (get_mask n)) (and (entry_of mmap_result old (get_mask n)) (not (get_mask n)))"

lemma finalize_ok:
  assumes "\<not> m_finalized sh" "m_entry_segment sh = Some e" "place_rest sh = Inr sh1"
    and "m_segments sh1 = ss" "ss \<noteq> []" "m_entry_segment sh1 = Some e" "laid_out c off (seg sh1) ss extent"
    and "mmap_result \<noteq> 0" "m_mask sh1 = get_mask n" "m_align_bits sh1 = n"
    and "F = new_base mmap_result (m_pos (seg sh1 (hd ss))) n" "0 < unat F"
    and "unat F + extent < 18446744073709551616" "extent < 2 ^ 62"
    and "cells_ok c m" "cells_outside c F extent"
  shows "\<exists>sh' m' p. finalize mmap_result sh m = Inr (sh', m') \<and> m_finalized sh' \<and> m_segments sh' = ss \<and>
    m_entry_segment sh' = Some e \<and> m_mask sh' = get_mask n \<and> (\<forall>i. p i = m_pos (seg sh' i) \<and> kind (seg sh' i) = kind (seg sh1 i)) \<and>
    (\<forall>s \<in> set ss. p s = F + word_of_nat (off s) \<and> low_bits n (p s) = low_bits n (m_pos (seg sh1 s))) \<and>
    (\<exists>h. (\<forall>s. h s = (if s \<in> set ss then (seg sh1 s)\<lparr>m_pos := p s\<rparr> else seg sh1 s)) \<and> built p (seg_code c p h) ss m') \<and>
    (\<forall>x. \<not> inside F extent x \<longrightarrow> m' x = (if uses_cell (seg sh1) ss then set_cell c p m else m) x)"
proof -
  obtain first rest where ss: "ss = first # rest" using assms(5) by (cases ss) auto
  note lo = assms(7) [unfolded laid_out_def]
  obtain d sh2 am where reloc: "relocate mmap_result sh1 = Inr sh2" and
    sh2: "sh2 = sh1\<lparr>seg := (\<lambda>s. if s \<in> set ss then apply_offset d (seg sh1 s) else seg sh1 s), m_mem := Some am\<rparr>" and
    low: "\<And>x. low_bits n (x + d) = low_bits n x" and F: "m_pos (seg sh1 first) + d = F"
  proof -
    have seg: "m_segments sh1 = first # rest" and dis: "distinct (first # rest)"
      using assms(4) ss lo by (simp_all del: distinct.simps)
    obtain sh2 d am where R: "relocate mmap_result sh1 = Inr sh2"
      "sh2 = sh1\<lparr>seg := (\<lambda>s. if s \<in> set (first # rest) then apply_offset d (seg sh1 s) else seg sh1 s), m_mem := Some am\<rparr>"
      "\<And>x. low_bits n (x + d) = low_bits n x"
      "m_pos (seg sh1 first) + d = or (and (m_pos (seg sh1 first)) (get_mask n))
         (and (entry_of mmap_result (m_pos (seg sh1 first)) (get_mask n)) (not (get_mask n)))"
      by (rule relocate_ok [OF seg dis assms(8-10)]) (rule that)
    have "m_pos (seg sh1 first) + d = F" unfolding R(4) assms(11) new_base_def ss list.sel ..
    from that [OF R(1) R(2) [folded ss] R(3) this] show thesis .
  qed
  let ?h = "seg sh2"
  define p where "p = (\<lambda>i. m_pos (?h i))"
  have pos: "p s = F + word_of_nat (off s)" "low_bits n (p s) = low_bits n (m_pos (seg sh1 s))" if "s \<in> set ss" for s
  proof -
    have d: "p s = m_pos (seg sh1 s) + d" using that by (simp add: p_def sh2 apply_offset_def)
    show "low_bits n (p s) = low_bits n (m_pos (seg sh1 s))" unfolding d by (rule low)
    have "m_pos (seg sh1 s) = m_pos (seg sh1 first) + word_of_nat (off s)" using lo that ss by auto
    with d F show "p s = F + word_of_nat (off s)" by (simp add: ac_simps)
  qed
  have kd: "kind (?h s) = kind (seg sh1 s)" "m_hex (?h s) = m_hex (seg sh1 s)" for s
    by (simp_all add: sh2 apply_offset_def)
  have sz: "size_of ?h s = size_of (seg sh1) s" for s by (simp add: size_of_def kd)
  have tot: "off s + size_of ?h s \<le> extent" if "s \<in> set ss" for s using lo that sz by auto
  have us: "u ?h s = unat F + off s" if "s \<in> set ss" for s
  proof -
    have "off s \<le> extent" using tot [OF that] by simp
    then have "unat (F + word_of_nat (off s)) = unat F + off s" using assms(13) by (intro unat_add_of_nat) simp
    then show ?thesis using pos(1) [OF that] by (simp add: u_def p_def)
  qed
  have placed: "placed ?h ss"
    unfolding placed_def
  proof (intro conjI ballI)
    have "sorted_wrt (\<lambda>s t. off s + size_of (seg sh1) s \<le> off t) ss" using lo by simp
    then show "sorted_wrt (\<lambda>s t. u ?h s + size_of ?h s \<le> u ?h t) ss"
      by (rule sorted_wrt_mono_rel [rotated]) (simp add: us sz)
  next
    fix s assume s: "s \<in> set ss"
    from us [OF s] assms(12) show "0 < u ?h s" by simp
    from us [OF s] tot [OF s] assms(13) show "u ?h s + size_of ?h s < 18446744073709551616" by simp
  qed
  have nonzero: "p t \<noteq> 0" "get_end (?h t) \<noteq> 0" if "t \<in> set ss" for t
  proof -
    have "0 < u ?h t" "u ?h t + size_of ?h t < 18446744073709551616" using placed that by (auto simp: placed_def)
    moreover from this have "unat (get_end (?h t)) = u ?h t + size_of ?h t"
      using unat_add_of_nat [of "m_pos (?h t)" "size_of ?h t"]
      by (simp add: get_end_def get_size_seg_def u_def size_of_def)
    ultimately show "p t \<noteq> 0" "get_end (?h t) \<noteq> 0" by (auto simp: u_def p_def)
  qed
  have ends: "get_end (?h s) = F + word_of_nat (off s + size_of ?h s)" if "s \<in> set ss" for s
    using pos(1) [OF that] by (simp add: get_end_def get_size_seg_def p_def size_of_def ac_simps)
  have gap: "sint (p t - get_end (?h s)) = dist off (seg sh1) s t" if "s \<in> set ss" "t \<in> set ss" for s t
  proof -
    have "sint (p t - get_end (?h s)) = int (off t) - int (off s + size_of ?h s)"
      using tot [OF that(1)] tot [OF that(2)] assms(14)
      by (intro sint_dist [OF pos(1) [OF that(2)] ends [OF that(1)]]) simp_all
    then show ?thesis by (simp add: dist_def sz)
  qed
  have ready: "seg_ready c p (?h s)" if s: "s \<in> set ss" for s
  proof -
    have "jumps_ok c off (seg sh1) ss s" using lo s by blast
    then show ?thesis
      using nonzero nonzero(2) [OF s] gap [OF s]
      by (cases "kind (seg sh1 s)") (auto simp: kd near_target_def split: option.splits)
  qed
  have len: "length (seg_code c p ?h s) = size_of ?h s" if s: "s \<in> set ss" for s
  proof (rule seg_code_length)
    show "jumps_ok c off ?h ss s" "hex_ok (?h s)"
      using lo s by (auto simp: kd hex_ok_def dist_def sz cong: seg_kind.case_cong option.case_cong)
  qed
  have "m_segments sh2 = ss" "m_entry_segment sh2 = Some e" using assms(4,6) by (simp_all add: sh2)
  moreover have "\<forall>s \<in> set ss. seg_ready c (\<lambda>i. m_pos (?h i)) (?h s)" using ready by (simp only: p_def) blast
  moreover have "\<forall>s \<in> set ss. length (seg_code c (\<lambda>i. m_pos (?h i)) ?h s) = size_of ?h s"
    using len unfolding p_def by blast
  moreover have "F = m_pos (?h (hd ss))" "\<forall>s \<in> set ss. unat F \<le> u ?h s \<and> u ?h s + size_of ?h s \<le> unat F + extent"
    using pos(1) [of first] lo us tot ss by (simp_all add: p_def)
  ultimately have "\<exists>sh' m'. write_code sh2 m = Inr (sh', m') \<and> m_finalized sh' \<and> m_segments sh' = ss \<and>
    m_entry_segment sh' = m_entry_segment sh2 \<and> m_mask sh' = m_mask sh2 \<and>
    (\<forall>i. m_pos (seg sh' i) = m_pos (?h i) \<and> kind (seg sh' i) = kind (?h i)) \<and>
    built (\<lambda>i. m_pos (?h i)) (seg_code c (\<lambda>i. m_pos (?h i)) ?h) ss m' \<and>
    (\<forall>x. \<not> inside F extent x \<longrightarrow> m' x = (if uses_cell ?h ss then set_cell c (\<lambda>i. m_pos (?h i)) m else m) x)"
    using assms(5,13,15,16) placed lo by (intro write_code_ok) simp_all
  then obtain sh' m' where w: "write_code sh2 m = Inr (sh', m')" "m_finalized sh'" "m_segments sh' = ss"
    "m_entry_segment sh' = m_entry_segment sh2" "m_mask sh' = m_mask sh2"
    "\<forall>i. m_pos (seg sh' i) = m_pos (?h i) \<and> kind (seg sh' i) = kind (?h i)"
    "built p (seg_code c p ?h) ss m'" and
    frame: "\<forall>x. \<not> inside F extent x \<longrightarrow> m' x = (if uses_cell ?h ss then set_cell c p m else m) x"
    unfolding p_def [symmetric] by (elim exE conjE) (rule that)
  have w4: "m_entry_segment sh' = Some e" using w(4) assms(6) by (simp add: sh2)
  have fin: "finalize mmap_result sh m = Inr (sh', m')"
    using assms(1-3) reloc w(1) by (simp add: finalize_def)
  have h: "\<forall>s. ?h s = (if s \<in> set ss then (seg sh1 s)\<lparr>m_pos := p s\<rparr> else seg sh1 s)"
    by (simp add: p_def sh2 apply_offset_def)
  have kp: "\<forall>i. p i = m_pos (seg sh' i) \<and> kind (seg sh' i) = kind (seg sh1 i)"
    using w(6) kd by (simp add: p_def)
  have ps: "\<forall>s \<in> set ss. p s = F + word_of_nat (off s) \<and> low_bits n (p s) = low_bits n (m_pos (seg sh1 s))"
    using pos by blast
  have blt: "built p (seg_code c p ?h) ss m'" by (rule w(7))
  have mk: "m_mask sh' = get_mask n" using w(5) assms(9) by (simp add: sh2)
  show ?thesis
    by (rule exI [of _ sh'], rule exI [of _ m'], rule exI [of _ p], intro conjI, rule fin, rule w(2), rule w(3),
        rule w4, rule mk, rule kp, rule ps, rule exI [of _ ?h], rule conjI, rule h, rule blt,
        use frame kd in \<open>simp add: uses_cell_def\<close>)
qed

end
