(* ===== verification/ShadowRuns.thy ===== *)
theory ShadowRuns
  imports ShadowFinal
begin

text \<open>
  Execution of a finished area segment by segment: what each kind of segment does, and the slide
  over the NOPs to the next one.
\<close>

definition area :: "indirect \<Rightarrow> (nat \<Rightarrow> addr) \<Rightarrow> segs \<Rightarrow> nat list \<Rightarrow> memory \<Rightarrow> bool" where
  "area c p h ss m \<longleftrightarrow> built p (seg_code c p h) ss m \<and> (\<forall>s \<in> set ss. m_pos (h s) = p s \<and> hex_ok (h s)) \<and>
     (\<forall>s \<in> set ss. length (seg_code c p h s) = size_of h s)"

definition next_seg :: "nat list \<Rightarrow> nat \<Rightarrow> nat \<Rightarrow> bool" where
  "next_seg ss s t \<longleftrightarrow> (\<exists>ss1 ss2. ss = ss1 @ s # t # ss2)"

lemma next_seg_Cons: "next_seg (a # b # ss) s t \<longleftrightarrow> a = s \<and> b = t \<or> next_seg (b # ss) s t"
proof
  assume "next_seg (a # b # ss) s t"
  then obtain ss1 ss2 where "a # b # ss = ss1 @ s # t # ss2" by (auto simp: next_seg_def)
  then show "a = s \<and> b = t \<or> next_seg (b # ss) s t"
    by (cases ss1) (auto simp: next_seg_def)
next
  assume "a = s \<and> b = t \<or> next_seg (b # ss) s t"
  then show "next_seg (a # b # ss) s t"
  proof
    assume "a = s \<and> b = t"
    then have "a # b # ss = [] @ s # t # ss" by simp
    then show ?thesis unfolding next_seg_def by blast
  next
    assume "next_seg (b # ss) s t"
    then obtain ss1 ss2 where "b # ss = ss1 @ s # t # ss2" by (auto simp: next_seg_def)
    then have "a # b # ss = (a # ss1) @ s # t # ss2" by simp
    then show ?thesis unfolding next_seg_def by blast
  qed
qed

lemma next_seg_single [simp]: "\<not> next_seg [a] s t"
  by (auto simp: next_seg_def Cons_eq_append_conv)

lemmas next_seg_simps = next_seg_Cons next_seg_single

lemma area_code: "area c p h ss m \<Longrightarrow> s \<in> set ss \<Longrightarrow> code_at m (p s) (seg_code c p h s)"
  by (simp add: area_def built_def)

lemma area_end: "area c p h ss m \<Longrightarrow> s \<in> set ss \<Longrightarrow> get_end (h s) = p s + word_of_nat (size_of h s)"
  by (simp add: area_def get_end_def get_size_seg_def size_of_def)

lemma run_gap:
  assumes "area c p h ss m" "next_seg ss s t" "rip st = p s + word_of_nat (size_of h s)"
    and "unat (p s) + size_of h s \<le> unat (p t)"
  shows "reaches m (Running st) (Running (st\<lparr>rip := p t\<rparr>))"
proof -
  from assms(2) obtain ss1 ss2 where ss: "ss = ss1 @ s # t # ss2" by (auto simp: next_seg_def)
  let ?n = "unat (p t) - (unat (p s) + size_of h s)"
  have "length (seg_code c p h s) = size_of h s" using assms(1) ss by (simp add: area_def)
  moreover have "code_at m (p s + word_of_nat (length (seg_code c p h s)))
      (replicate (unat (p t) - (unat (p s) + length (seg_code c p h s))) 0x90)"
    using assms(1) ss unfolding area_def built_def by blast
  ultimately have "code_at m (rip st) (replicate ?n 0x90)" using assms(3) by simp
  from slide [OF this] have "reaches m (Running st) (Running (skip_to ?n st))" .
  moreover have "p s + word_of_nat (size_of h s) + word_of_nat ?n = p t"
  proof -
    have u: "word_of_nat (unat a) = a" for a :: addr by simp
    have "p s + word_of_nat (size_of h s) + word_of_nat ?n = word_of_nat (unat (p s) + size_of h s + ?n)"
      by (simp only: of_nat_add u)
    also have "unat (p s) + size_of h s + ?n = unat (p t)" using assms(4) by simp
    finally show ?thesis by (simp only: u)
  qed
  ultimately show ?thesis using assms(3) by (simp add: skip_to_def)
qed

section \<open>One segment\<close>

lemma run_nop:
  assumes "area c p h ss m" "s \<in> set ss" "kind (h s) = SegNop n" "rip st = p s"
  shows "reaches m (Running st) (Running (st\<lparr>rip := p s + word_of_nat (size_of h s)\<rparr>))"
proof -
  have "seg_code c p h s = replicate n 0x90" using assms(3) by (simp add: seg_code_def size_of_def del: replicate_Suc)
  with area_code [OF assms(1,2)] assms(4) have "code_at m (rip st) (replicate n 0x90)" by simp
  from slide [OF this] assms(3,4) show ?thesis by (simp add: skip_to_def size_of_def)
qed

lemma run_and:
  assumes "area c p h ss m" "s \<in> set ss" "kind (h s) = SegEaxAndOne" "rip st = p s"
  shows "reaches m (Running st) (Running (st\<lparr>eax := and (eax st) 1, zf := (and (eax st) 1 = 0),
    rip := p s + word_of_nat (size_of h s)\<rparr>))"
proof -
  have "seg_code c p h s = [0x83, 0xe0, 0x01]"
    using assms(1-3) by (auto simp: seg_code_def size_of_def area_def hex_ok_def)
  with area_code [OF assms(1,2)] assms(4) have "code_at m (rip st) [0x83, 0xe0, 0x01]" by simp
  from reaches_step [OF step_and_one [OF this]] assms(3,4) show ?thesis by (simp add: skip_to_def size_of_def)
qed

lemma run_write:
  assumes "area c p h ss m" "s \<in> set ss" "kind (h s) = SegEaxWrite v" "rip st = p s"
  shows "reaches m (Running st) (Running (st\<lparr>eax := v, rip := p s + word_of_nat (size_of h s)\<rparr>))"
proof -
  have "seg_code c p h s = 0xb8 # le_bytes 4 v"
    using assms(1-3) by (auto simp: seg_code_def size_of_def area_def hex_ok_def)
  with area_code [OF assms(1,2)] assms(4) have "code_at m (rip st) (0xb8 # le_bytes 4 v)" by simp
  from reaches_step [OF step_mov [OF this]] assms(3,4) show ?thesis by (simp add: skip_to_def size_of_def)
qed

lemma run_retq:
  assumes "area c p h ss m" "s \<in> set ss" "kind (h s) = SegRetq n" "rip st = p s"
  shows "reaches m (Running st) (Finished (st\<lparr>rip := p s + word_of_nat n\<rparr>))"
proof -
  have "seg_code c p h s = replicate n 0x90 @ [0xc3]" using assms(3) by (simp add: seg_code_def size_of_def)
  with area_code [OF assms(1,2)] assms(4) have "code_at m (rip st) (replicate n 0x90)"
    and ret: "code_at m (rip st + word_of_nat n) [0xc3]" by (simp_all add: code_at_append)
  from slide [OF this(1)] have "reaches m (Running st) (Running (skip_to n st))" .
  also have "reaches m (Running (skip_to n st)) (Finished (skip_to n st))"
    using ret by (intro reaches_step step_ret) (simp add: skip_to_def)
  finally show ?thesis using assms(4) by (simp add: skip_to_def)
qed

lemma run_jump:
  assumes "area c p h ss m" "s \<in> set ss" "kind (h s) = SegJump (Some t)" "rip st = p s"
    and "-128 \<le> sint (p t - get_end (h s))" "sint (p t - get_end (h s)) < 128"
  shows "reaches m (Running st) (Running (st\<lparr>taken := taken st @ [(p s, p t)], rip := p t\<rparr>))"
proof -
  let ?d = "p t - get_end (h s)"
  have "seg_code c p h s = [0xeb, ucast ?d]" using assms(3) by (simp add: seg_code_def size_of_def)
  with area_code [OF assms(1,2)] assms(4) have "code_at m (rip st) [0xeb, ucast ?d]" by simp
  from reaches_step [OF step_jmp [OF this]] assms(4)
  have "reaches m (Running st) (Running (jump_to (p s + 2 + scast (ucast ?d :: byte)) st))" by simp
  moreover have "p s + 2 + scast (ucast ?d :: byte) = p t"
    using assms(3) scast_ucast_8 [OF assms(5,6)] area_end [OF assms(1,2)] by (simp add: size_of_def)
  ultimately show ?thesis using assms(4) by (simp add: jump_to_def)
qed

lemma run_long_jump:
  assumes "area c p h ss m" "s \<in> set ss" "kind (h s) = SegLongJump (Some t)" "rip st = p s"
    and "-2147483648 \<le> sint (p t - get_end (h s))" "sint (p t - get_end (h s)) < 2147483648"
  shows "reaches m (Running st) (Running (st\<lparr>taken := taken st @ [(p s, p t)], rip := p t\<rparr>))"
proof -
  let ?d = "p t - get_end (h s)"
  have "seg_code c p h s = 0xe9 # le_bytes 4 ?d" using assms(3) by (simp add: seg_code_def size_of_def)
  with area_code [OF assms(1,2)] assms(4) have "code_at m (rip st) (0xe9 # le_bytes 4 ?d)" by simp
  from reaches_step [OF step_long_jmp [OF this]] assms(4)
  have "reaches m (Running st) (Running (jump_to (p s + 5 + scast (ucast ?d :: 32 word)) st))" by simp
  moreover have "p s + 5 + scast (ucast ?d :: 32 word) = p t"
    using assms(3) scast_ucast_32 [OF assms(5,6)] area_end [OF assms(1,2)] by (simp add: size_of_def)
  ultimately show ?thesis using assms(4) by (simp add: jump_to_def)
qed

lemma run_jne:
  assumes "area c p h ss m" "s \<in> set ss" "kind (h s) = SegJneEaxZero (Some t)" "rip st = p s"
    and "-128 \<le> sint (p t - get_end (h s))" "sint (p t - get_end (h s)) < 128"
  shows "reaches m (Running st) (Running
    (if eax st = 0 then st\<lparr>zf := True, rip := p s + word_of_nat (size_of h s)\<rparr>
     else st\<lparr>zf := False, taken := taken st @ [(p s + jne_offset, p t)], rip := p t\<rparr>))"
proof -
  let ?d = "p t - get_end (h s)" and ?st = "skip_to 2 (st\<lparr>zf := (eax st = 0)\<rparr>)"
  have "seg_code c p h s = [0x85, 0xc0] @ [0x75, ucast ?d]" using assms(3) by (simp add: seg_code_def size_of_def)
  with area_code [OF assms(1,2)] assms(4) have t: "code_at m (rip st) [0x85, 0xc0]"
    and j: "code_at m (rip ?st) [0x75, ucast ?d]" by (simp_all add: skip_to_def add.assoc)
  have "p s + 4 + scast (ucast ?d :: byte) = p t"
    using assms(3) scast_ucast_8 [OF assms(5,6)] area_end [OF assms(1,2)] by (simp add: size_of_def)
  then have "p s + 2 + 2 + scast (ucast ?d :: byte) = p t" by (simp add: add.assoc)
  from reaches_trans [OF reaches_step [OF step_test [OF t]] reaches_step [OF step_jne [OF j]]] this assms(3,4)
  show ?thesis by (cases "eax st = 0") (simp_all add: skip_to_def jump_to_def size_of_def jne_offset_def add.assoc)
qed

text \<open>The segments that use the indirect pointer.\<close>

lemma run_set_pos:
  assumes "area c p h ss m" "s \<in> set ss" "kind (h s) = SegSetPosInReg t tp r" "c = Some (tp, ip, t)" "rip st = p s"
    and "r = 13 \<or> r = 14"
  shows "reaches m (Running st) (Running ((if r = 13 then st\<lparr>r13 := ip\<rparr> else st\<lparr>r14 := ip\<rparr>)
    \<lparr>rip := p s + word_of_nat (size_of h s)\<rparr>))"
proof -
  have "seg_code c p h s = [0x49, or 0xb0 r] @ le_bytes 8 ip"
    using assms(3,4) by (simp add: seg_code_def size_of_def cell_bytes_def)
  with area_code [OF assms(1,2)] assms(5) have "code_at m (rip st) ([0x49, or 0xb0 r] @ le_bytes 8 ip)" by simp
  from reaches_step [OF step_load [OF this assms(6)]] assms(3,5,6) show ?thesis
    by (auto simp: skip_to_def size_of_def split: if_splits)
qed

lemma run_and_indir:
  assumes "area c p h ss m" "s \<in> set ss" "kind (h s) = SegEaxAndOneIndir" "rip st = p s"
    and "code_at m (r14 st) (le_bytes 4 (v :: 32 word))"
  shows "reaches m (Running st) (Running (st\<lparr>eax := and v 1, zf := (and v 1 = 0),
    rip := p s + word_of_nat (size_of h s)\<rparr>))"
proof -
  have "seg_code c p h s = [0x41, 0x8b, 0x06] @ [0x83, 0xe0, 0x01]"
    using assms(1-3) by (auto simp: seg_code_def size_of_def area_def hex_ok_def)
  with area_code [OF assms(1,2)] assms(4) have l: "code_at m (rip st) [0x41, 0x8b, 0x06]"
    and a: "code_at m (rip (skip_to 3 (st\<lparr>eax := v\<rparr>))) [0x83, 0xe0, 0x01]"
    by (simp_all add: skip_to_def add.assoc)
  from reaches_trans [OF reaches_step [OF step_load_input [OF l assms(5)]] reaches_step [OF step_and_one [OF a]]] assms(3,4)
  show ?thesis by (simp add: skip_to_def size_of_def add.assoc)
qed

lemma run_jump_r13:
  assumes "area c p h ss m" "s \<in> set ss" "kind (h s) = SegJumpR13" "rip st = p s"
    and "code_at m (r13 st) (le_bytes 8 (q :: addr))"
  shows "reaches m (Running st) (Running (st\<lparr>taken := taken st @ [(p s, q)], rip := q\<rparr>))"
proof -
  have "seg_code c p h s = [0x41, 0xff, 0x65, 0x00]"
    using assms(1-3) by (auto simp: seg_code_def size_of_def area_def hex_ok_def)
  with area_code [OF assms(1,2)] assms(4) have "code_at m (rip st) [0x41, 0xff, 0x65, 0x00]" by simp
  from reaches_step [OF step_jump_r13 [OF this assms(5)]] assms(4) show ?thesis by (simp add: jump_to_def)
qed

section \<open>A finished area at known offsets\<close>

definition finished ::
  "indirect \<Rightarrow> addr \<Rightarrow> (nat \<Rightarrow> nat) \<Rightarrow> segs \<Rightarrow> nat list \<Rightarrow> (nat \<Rightarrow> addr) \<Rightarrow> segs \<Rightarrow> memory \<Rightarrow> bool" where
  "finished c F off h0 ss p h m \<longleftrightarrow> area c p h ss m \<and>
     (\<forall>s \<in> set ss. kind (h s) = kind (h0 s) \<and> p s = F + word_of_nat (off s)) \<and>
     (\<forall>s t. next_seg ss s t \<longrightarrow> unat (p s) + size_of h0 s \<le> unat (p t)) \<and>
     (\<forall>s \<in> set ss. \<forall>t \<in> set ss. sint (p t - get_end (h s)) = dist off h0 s t) \<and>
     cells_ok c m \<and> (uses_cell h0 ss \<longrightarrow> cell_set c p m)"

lemma finalize_finished:
  assumes "\<not> m_finalized sh" "m_entry_segment sh = Some e" "place_rest sh = Inr sh1"
    and "m_segments sh1 = ss" "ss \<noteq> []" "m_entry_segment sh1 = Some e" "laid_out c off (seg sh1) ss extent"
    and "mmap_result \<noteq> 0" "m_mask sh1 = get_mask n" "m_align_bits sh1 = n"
    and "F = new_base mmap_result (m_pos (seg sh1 (hd ss))) n" "0 < unat F"
    and "unat F + extent < 18446744073709551616" "extent < 2 ^ 62"
    and "cells_ok c m" "cells_outside c F extent"
  shows "\<exists>sh' m' p h. finalize mmap_result sh m = Inr (sh', m') \<and> m_finalized sh' \<and> m_segments sh' = ss \<and>
    m_entry_segment sh' = Some e \<and> m_mask sh' = get_mask n \<and>
    (\<forall>i. m_pos (seg sh' i) = p i \<and> kind (seg sh' i) = kind (seg sh1 i)) \<and>
    (\<forall>s \<in> set ss. low_bits n (p s) = low_bits n (m_pos (seg sh1 s))) \<and> finished c F off (seg sh1) ss p h m' \<and>
    (\<forall>x. \<not> inside F extent x \<longrightarrow> m' x = (if uses_cell (seg sh1) ss then set_cell c p m else m) x)"
proof -
  from finalize_ok [OF assms] obtain sh' m' p h where
    R: "finalize mmap_result sh m = Inr (sh', m')" "m_finalized sh'" "m_segments sh' = ss" "m_entry_segment sh' = Some e"
    "m_mask sh' = get_mask n"
    and pk: "\<forall>i. p i = m_pos (seg sh' i) \<and> kind (seg sh' i) = kind (seg sh1 i)"
    and ps: "\<forall>s \<in> set ss. p s = F + word_of_nat (off s) \<and> low_bits n (p s) = low_bits n (m_pos (seg sh1 s))"
    and h: "\<forall>s. h s = (if s \<in> set ss then (seg sh1 s)\<lparr>m_pos := p s\<rparr> else seg sh1 s)"
    and b: "built p (seg_code c p h) ss m'"
    and frame: "\<forall>x. \<not> inside F extent x \<longrightarrow> m' x = (if uses_cell (seg sh1) ss then set_cell c p m else m) x"
    by (elim exE conjE) (rule that)
  have cells: "cells_ok c m' \<and> (uses_cell (seg sh1) ss \<longrightarrow> cell_set c p m')"
    using frame by (intro cells_after [OF assms(15,16)]) blast
  note lo = assms(7) [unfolded laid_out_def]
  have kd: "kind (h s) = kind (seg sh1 s)" for s using h by simp
  have sz: "size_of h s = size_of (seg sh1) s" for s by (simp add: size_of_def kd)
  have hx: "hex_ok (h s)" if "s \<in> set ss" for s
  proof -
    have "hex_ok (seg sh1 s)" using lo that by blast
    moreover have "m_hex (h s) = m_hex (seg sh1 s)" using h that by simp
    ultimately show ?thesis unfolding hex_ok_def kd by (cases "kind (seg sh1 s)") simp_all
  qed
  have j: "jumps_ok c off h ss s" if "s \<in> set ss" for s
  proof -
    have "jumps_ok c off (seg sh1) ss s" using lo that by blast
    then show ?thesis unfolding jumps_ok.simps dist_def sz kd .
  qed
  have tot: "off s + size_of (seg sh1) s \<le> extent" if "s \<in> set ss" for s using lo that by auto
  have up: "unat (p s) = unat F + off s" if "s \<in> set ss" for s
    using ps that tot [OF that] assms(13) by (simp add: unat_add_of_nat)
  have "area c p h ss m'"
  proof -
    have "\<forall>s \<in> set ss. m_pos (h s) = p s" using h by simp
    with b hx seg_code_length [OF j hx] show ?thesis unfolding area_def by blast
  qed
  moreover have "unat (p s) + size_of (seg sh1) s \<le> unat (p t)" if "next_seg ss s t" for s t
  proof -
    from that obtain ss1 ss2 where ss: "ss = ss1 @ s # t # ss2" by (auto simp: next_seg_def)
    have "sorted_wrt (\<lambda>s t. off s + size_of (seg sh1) s \<le> off t) (ss1 @ s # t # ss2)" using lo ss by simp
    then have "off s + size_of (seg sh1) s \<le> off t" by (simp add: sorted_wrt_append)
    with up [of s] up [of t] ss show ?thesis by simp
  qed
  moreover have "sint (p t - get_end (h s)) = dist off (seg sh1) s t" if st: "s \<in> set ss" "t \<in> set ss" for s t
  proof -
    have "p t = F + word_of_nat (off t)" "get_end (h s) = F + word_of_nat (off s + size_of (seg sh1) s)"
      using ps st h by (simp_all add: get_end_def get_size_seg_def size_of_def kd ac_simps)
    from sint_dist [OF this] tot [OF st(1)] tot [OF st(2)] assms(14)
    show ?thesis by (simp add: dist_def)
  qed
  ultimately have fin: "finished c F off (seg sh1) ss p h m'" using ps kd cells unfolding finished_def by blast
  have pos: "\<forall>i. m_pos (seg sh' i) = p i \<and> kind (seg sh' i) = kind (seg sh1 i)" using pk by simp
  have low: "\<forall>s \<in> set ss. low_bits n (p s) = low_bits n (m_pos (seg sh1 s))" using ps by blast
  show ?thesis
    by (rule exI [of _ sh'], rule exI [of _ m'], rule exI [of _ p], rule exI [of _ h], intro conjI)
       (rule R pos low fin frame)+
qed

text \<open>The steps of an execution, in the form the setups use.\<close>

lemma finished_slide:
  assumes "finished c F off h0 ss p h m" "next_seg ss s t"
  shows "reaches m (Running (st\<lparr>rip := p s + word_of_nat (size_of h s)\<rparr>)) (Running (st\<lparr>rip := p t\<rparr>))"
proof -
  have "s \<in> set ss" using assms(2) by (auto simp: next_seg_def)
  then have "size_of h s = size_of h0 s" using assms(1) by (simp add: finished_def size_of_def)
  moreover have "unat (p s) + size_of h0 s \<le> unat (p t)" using assms unfolding finished_def by blast
  ultimately have "unat (p s) + size_of h s \<le> unat (p t)" by simp
  with assms show ?thesis
    using run_gap [of c p h ss m s t "st\<lparr>rip := p s + word_of_nat (size_of h s)\<rparr>"] by (simp add: finished_def)
qed

lemma finished_jump:
  assumes "finished c F off h0 ss p h m" "s \<in> set ss" "t \<in> set ss"
    and "kind (h0 s) = SegJump (Some t) \<and> -128 < dist off h0 s t \<and> dist off h0 s t < 128 \<or>
         kind (h0 s) = SegLongJump (Some t) \<and> -1000000 < dist off h0 s t \<and> dist off h0 s t < 1000000"
  shows "reaches m (Running (st\<lparr>rip := p s\<rparr>)) (Running (st\<lparr>taken := taken st @ [(p s, p t)], rip := p t\<rparr>))"
proof -
  have "area c p h ss m" "kind (h s) = kind (h0 s)" "sint (p t - get_end (h s)) = dist off h0 s t"
    using assms(1-3) by (auto simp: finished_def)
  with assms(2,4) show ?thesis
    using run_jump [of c p h ss m s t "st\<lparr>rip := p s\<rparr>"] run_long_jump [of c p h ss m s t "st\<lparr>rip := p s\<rparr>"] by auto
qed

end
