(* ===== verification/ShadowJne.thy ===== *)
theory ShadowJne
  imports ShadowRuns
begin

text \<open>
  The forward shadow of a conditional branch: \<open>setup_jne_shadow\<close>, with and without indirect
  targets, for a destination at most 129 bytes after the source. With indirect targets the area has an
  indirect pointer to the input, without it there is none.
\<close>

section \<open>The segments\<close>

definition jne_order :: "nat list" where
  "jne_order = [4, 5, 7, 6, 0, 8, 1, 9, 2, 3]"

text \<open>The entry and the pretest; the number of bytes they add with indirect targets.\<close>

definition entry_seg :: "indirect \<Rightarrow> segment" where
  "entry_seg c = (case c of None \<Rightarrow> make_Nop 1 | Some (tp, ip, t) \<Rightarrow> make_SetPosInReg 0 None tp 14)"

definition and_seg :: "indirect \<Rightarrow> segment" where
  "and_seg c = (case c of None \<Rightarrow> make_EaxAndOne | Some _ \<Rightarrow> make_EaxAndOneIndir)"

definition jne_pre :: "indirect \<Rightarrow> nat" where
  "jne_pre c = (if c = None then 0 else 12)"

definition jne_base :: "indirect \<Rightarrow> nat" where
  "jne_base c = 17 + jne_pre c"

text \<open>The pointer of a jne shadow has no target.\<close>

definition input_cell :: "indirect \<Rightarrow> bool" where
  "input_cell c = (case c of None \<Rightarrow> True | Some (tp, ip, t) \<Rightarrow> t = None)"

lemma entry_seg_simps [simp]:
  "m_pos (entry_seg c) = 0" "s_size (kind (entry_seg c)) = (if c = None then 1 else 10)"
  "m_pos (and_seg c) = 0" "s_size (kind (and_seg c)) = (if c = None then 3 else 6)"
  by (auto simp: entry_seg_def and_seg_def make_Nop_def make_SetPosInReg_def make_EaxAndOne_def
      make_EaxAndOneIndir_def split: option.splits)

text \<open>Bytes from the entry; \<open>d\<close> is the distance from source to destination.\<close>

definition jne_gap :: "nat \<Rightarrow> nat" where
  "jne_gap d = (d - 9) div 2"

definition jne_off :: "indirect \<Rightarrow> nat \<Rightarrow> nat \<Rightarrow> nat" where
  "jne_off c d s =
     (if s = 4 then 0 else if s = 5 then (if c = None then 3 else 12)
      else jne_pre c + (if s = 7 then 8 else if s = 6 then 15
      else if s = 0 then d + 10 - 2 * jne_gap d else if s = 8 then d + 15 - jne_gap d
      else if s = 1 then d + 17 else if s = 9 then d + 24 else if s = 2 then d + 28 else d + 151))"

definition jne_segments :: "indirect \<Rightarrow> segs \<Rightarrow> addr \<Rightarrow> nat \<Rightarrow> bool" where
  "jne_segments c h S d \<longleftrightarrow>
     h 0 = \<lparr>kind = SegEaxWrite 1, m_pos = 0, m_hex = 0xb8 # le_bytes 4 (1 :: 32 word)\<rparr> \<and>
     h 1 = \<lparr>kind = SegEaxWrite 2, m_pos = S + word_of_nat d, m_hex = 0xb8 # le_bytes 4 (2 :: 32 word)\<rparr> \<and>
     h 2 = \<lparr>kind = SegRetq 120, m_pos = 0, m_hex = []\<rparr> \<and> h 3 = \<lparr>kind = SegRetq 120, m_pos = 0, m_hex = []\<rparr> \<and>
     h 4 = entry_seg c \<and> h 5 = and_seg c \<and>
     h 6 = \<lparr>kind = SegJneEaxZero (Some 1), m_pos = S - 2, m_hex = []\<rparr> \<and>
     h 7 = \<lparr>kind = SegLongJump (Some 6), m_pos = 0, m_hex = []\<rparr> \<and>
     h 8 = \<lparr>kind = SegJump (Some 2), m_pos = 0, m_hex = []\<rparr> \<and>
     h 9 = \<lparr>kind = SegJump (Some 3), m_pos = 0, m_hex = []\<rparr>"

text \<open>The indirect pointer the driver uses for the input.\<close>

definition cell_of_input :: "addr \<times> addr \<Rightarrow> branch_shadow \<Rightarrow> indirect" where
  "cell_of_input cell bs = (if m_use_indirect_targets bs then Some (snd cell, fst cell, None) else None)"

lemma jne_table_segments:
  assumes "m_src bs < m_dst bs" "m_use_indirect_targets bs \<longrightarrow> m_indirect_shadow_input bs = snd cell"
    and "m_src bs \<noteq> 0" "m_dst bs = m_src bs + word_of_nat d"
  shows "\<exists>h. jne_table bs = Inr h \<and> jne_segments (cell_of_input cell bs) h (m_src bs) d"
  using assms(2-4) assms(1)
  by (simp add: cell_of_input_def entry_seg_def and_seg_def jne_table_def make_JneEaxZero_def add_offset_def jne_offset_def Let_def jne_segments_def
      seg_table_def make_EaxWrite_def make_Retq_def make_Nop_def make_EaxAndOne_def make_LongJump_def
      make_Jump_def store_val_le)

section \<open>Placement\<close>

definition jne_before :: "segs \<Rightarrow> segs" where
  "jne_before h = place_back 2 6 [7, 5, 4] h"

definition jne_between :: "nat \<Rightarrow> segs \<Rightarrow> segs" where
  "jne_between d h = place_back (word_of_nat (jne_gap d)) 1 [8, 0] (jne_before h)"

lemma jne_before_pos:
  assumes "jne_segments c h S d"
  shows "jne_before h = h(7 := (h 7)\<lparr>m_pos := S - 9\<rparr>, 5 := (h 5)\<lparr>m_pos := S - (if c = None then 14 else 17)\<rparr>,
    4 := (h 4)\<lparr>m_pos := S - word_of_nat (jne_base c)\<rparr>)"
  using assms by (simp add: jne_before_def jne_segments_def set_end_def get_size_seg_def jne_base_def jne_pre_def)

lemma jne_between_pos:
  assumes "jne_segments c h S d"
  shows "jne_between d h = (jne_before h)
    (8 := (h 8)\<lparr>m_pos := S + word_of_nat d - 2 - word_of_nat (jne_gap d)\<rparr>,
     0 := (h 0)\<lparr>m_pos := S + (word_of_nat d - 7) - 2 * word_of_nat (jne_gap d)\<rparr>)"
  using assms by (simp add: jne_between_def jne_before_pos jne_segments_def set_end_def get_size_seg_def)

definition jne_added :: "shadow \<Rightarrow> segs \<Rightarrow> nat \<Rightarrow> shadow" where
  "jne_added sh h d = sh\<lparr>m_entry_segment := Some 4, seg := jne_between d h, m_segments := [4, 5, 7, 6, 0, 8, 1],
     m_loose_segments := [9, 2, 3]\<rparr>"


lemma jne_spacing:
  assumes "jne_segments c h S d" "9 \<le> d" "d \<le> 129"
    and "m_segments sh = [4, 5, 7, 6]" "m_loose_segments sh = [0, 8]" "seg sh = jne_before h"
  shows "loose_spacing sh 1 = Inr (word_of_nat (jne_gap d))"
proof -
  have "loose_spacing sh 1 = Inr (word_of_nat ((d - 2 - 7) div 2))"
  proof (rule spacing_value)
    have "word_of_nat (d - 2) = (word_of_nat d - 2 :: addr)" using assms(2) by simp
    then show "m_pos (seg sh 1) - get_end (seg sh (last (m_segments sh))) = word_of_nat (d - 2)"
      using assms by (simp add: jne_before_pos jne_segments_def get_end_def get_size_seg_def)
    show "sum_list (map (\<lambda>s. get_size_seg (seg sh s)) (m_loose_segments sh)) = word_of_nat 7"
      using assms by (simp add: jne_before_pos jne_segments_def get_size_seg_def)
  qed (use assms in simp_all)
  then show ?thesis by (simp add: jne_gap_def)
qed

lemma jne_add:
  assumes "jne_segments c h S d" "9 \<le> d" "d \<le> 129" "S - 2 < S + word_of_nat d" "S \<noteq> 2" "S + word_of_nat d \<noteq> 0"
    and "m_segments sh = []" "m_loose_segments sh = []" "\<not> m_finalized sh" "m_entry_segment sh = None" "seg sh = h"
  shows "bind_res (add_entry 4 sh) (add_all [5, 7, 6, 0, 8, 1, 9, 2, 3]) = Inr (jne_added sh h d)"
proof -
  let ?sh1 = "sh\<lparr>m_entry_segment := Some 4, m_loose_segments := [4, 5, 7]\<rparr>"
  let ?sh2 = "sh\<lparr>m_entry_segment := Some 4, seg := jne_before h, m_segments := [4, 5, 7, 6], m_loose_segments := [0, 8]\<rparr>"
  note h = assms(1) [unfolded jne_segments_def]
  have 1: "bind_res (add_entry 4 sh) (add_all [5, 7, 6, 0, 8, 1, 9, 2, 3]) = add_all [6, 0, 8, 1, 9, 2, 3] ?sh1"
    using assms(7-11) h by (simp add: add_entry_def add_loose)
  have "m_pos (jne_before h 0) = 0" "m_pos (jne_before h 8) = 0"
    using h by (simp_all add: jne_before_pos [OF assms(1)])
  then have 2: "add_all [6, 0, 8, 1, 9, 2, 3] ?sh1 = add_all [1, 9, 2, 3] ?sh2"
    using assms(5,7-11) h by (simp add: add_first add_loose jne_before_def [symmetric] del: place_back.simps)
  have "add_segment 1 ?sh2 = Inr (?sh2\<lparr>seg := jne_between d h, m_segments := [4, 5, 7, 6, 0, 8, 1], m_loose_segments := []\<rparr>)"
  proof (subst add_between [where sp = "word_of_nat (jne_gap d)"])
    show "loose_spacing ?sh2 1 = Inr (word_of_nat (jne_gap d))" using assms(1-3) by (intro jne_spacing) simp_all
    have "jne_gap d \<le> 60" using assms(3) by (simp add: jne_gap_def)
    then show "sint (word_of_nat (jne_gap d) :: addr) < 10000"
      using sint_dist [of "word_of_nat (jne_gap d)" 0 "jne_gap d" 0 0] by simp
  qed (use assms h in \<open>simp_all add: jne_before_pos [OF assms(1)] jne_between_def\<close>)
  moreover have "m_pos (jne_between d h s) = 0" if "s \<in> {9, 2, 3}" for s
    using h that by (auto simp: jne_between_pos [OF assms(1)] jne_before_pos [OF assms(1)])
  ultimately have "add_all [1, 9, 2, 3] ?sh2 = Inr (jne_added sh h d)"
    using assms(9) by (simp add: add_loose jne_added_def)
  with 1 2 show ?thesis by simp
qed

text \<open>The three segments after the destination.\<close>

definition jne_placed :: "nat \<Rightarrow> addr \<Rightarrow> segs \<Rightarrow> segs" where
  "jne_placed d S h = (jne_between d h)
     (9 := (h 9)\<lparr>m_pos := S + word_of_nat d + 7\<rparr>, 2 := (h 2)\<lparr>m_pos := S + word_of_nat d + 11\<rparr>,
      3 := (h 3)\<lparr>m_pos := S + word_of_nat d + 134\<rparr>)"

lemma valid_pointer:
  assumes "unat (p :: addr) < 281474976710656"
  shows "and p 0xff000000000000 = 0"
proof -
  have "p = take_bit 48 p"
    using assms by (intro word_unat_eq_iff [THEN iffD2]) (simp add: unsigned_take_bit_eq take_bit_nat_eq_self)
  moreover have "and (take_bit 48 p) (push_bit 48 q) = 0" for q by (rule bit_word_eqI) (auto simp: bit_simps)
  moreover have "(0xff000000000000 :: addr) = push_bit 48 0xff" by (simp add: push_bit_eq_mult)
  ultimately show ?thesis by metis
qed

lemma jne_rest:
  assumes "jne_segments c h S d" "unat (S + word_of_nat d) < 140737488355328"
  shows "place_rest (jne_added sh h d) = Inr (sh\<lparr>m_entry_segment := Some 4, seg := jne_placed d S h, m_segments := jne_order,
     m_loose_segments := [9, 2, 3]\<rparr>)"
proof -
  note h = assms(1) [unfolded jne_segments_def]
  let ?D = "S + word_of_nat d"
  have v: "and (?D + word_of_nat k) 0xff000000000000 = 0" if "k < 1000" for k
    using that assms(2) by (intro valid_pointer) (subst unat_add_of_nat, simp_all)
  from v [of 5] v [of 9] v [of 132] show ?thesis
    using h by (simp add: place_rest_def jne_added_def set_pos_def get_end_def get_size_seg_def
      s_segment_spacing_def jne_between_pos [OF assms(1)] jne_before_pos [OF assms(1)] jne_placed_def jne_order_def add.assoc)
qed

section \<open>The layout\<close>

lemma jne_placed_sel:
  assumes "jne_segments c h S d" "s \<in> set jne_order"
  shows "kind (jne_placed d S h s) = kind (h s)" "m_hex (jne_placed d S h s) = m_hex (h s)"
  using assms(2)
  by (auto simp: jne_placed_def jne_between_pos [OF assms(1)] jne_before_pos [OF assms(1)] jne_order_def)

lemma jne_placed_pos:
  assumes "jne_segments c h S d" "9 \<le> d" "s \<in> set jne_order"
  shows "m_pos (jne_placed d S h s) = S - word_of_nat (jne_base c) + word_of_nat (jne_off c d s)"
proof -
  have g: "2 * jne_gap d \<le> d" using assms(2) by (simp add: jne_gap_def)
  have "word_of_nat (d + 10 - 2 * jne_gap d) = (word_of_nat d + 10 - 2 * word_of_nat (jne_gap d) :: addr)"
    using g by (subst of_nat_diff) simp_all
  moreover have "word_of_nat (d + 15 - jne_gap d) = (word_of_nat d + 15 - word_of_nat (jne_gap d) :: addr)"
    using g by (subst of_nat_diff) simp_all
  moreover have "c = None \<or> (\<exists>y. c = Some y)" by (metis not_None_eq)
  ultimately show ?thesis
    using assms(1,3) unfolding jne_order_def
    by (elim disjE exE)
       (auto simp: jne_placed_def jne_between_pos [OF assms(1)] jne_before_pos [OF assms(1)] jne_off_def
        jne_segments_def jne_base_def jne_pre_def)
qed

lemma jne_sizes:
  assumes "jne_segments c h S d"
  shows "size_of h 4 = (if c = None then 1 else 10)" "size_of h 5 = (if c = None then 3 else 6)"
    "size_of h 7 = 5" "size_of h 6 = 4" "size_of h 0 = 5" "size_of h 8 = 2"
    "size_of h 1 = 5" "size_of h 9 = 2" "size_of h 2 = 121" "size_of h 3 = 121"
  using assms by (simp_all add: size_of_def jne_segments_def)

lemma entry_seg_ok:
  assumes "input_cell c" "kind (h i) = kind (entry_seg c)"
  shows "jumps_ok c off h ss i \<and> hex_ok (h i)"
  using assms
  by (cases c) (auto simp: entry_seg_def make_Nop_def make_SetPosInReg_def hex_ok_def cell_for_def input_cell_def)

lemma and_seg_ok:
  assumes "kind (h i) = kind (and_seg c)" "m_hex (h i) = m_hex (and_seg c)"
  shows "jumps_ok c off h ss i \<and> hex_ok (h i)"
  using assms by (cases c) (auto simp: and_seg_def make_EaxAndOne_def make_EaxAndOneIndir_def hex_ok_def)

lemma jne_laid_out:
  assumes "jne_segments c h S d" "9 \<le> d" "d \<le> 129" "input_cell c"
  shows "laid_out c (jne_off c d) (jne_placed d S h) jne_order (jne_pre c + d + 272)"
proof -
  let ?h = "jne_placed d S h"
  have g: "jne_gap d \<le> 60" "2 * jne_gap d \<le> d - 9" "d - 10 \<le> 2 * jne_gap d"
    using assms(2,3) by (simp_all add: jne_gap_def)
  have sz: "size_of ?h s = size_of h s" if "s \<in> set jne_order" for s
    using jne_placed_sel(1) [OF assms(1) that] by (simp add: size_of_def)
  note sz' = sz [unfolded jne_order_def, simplified]
  have "4 \<in> set jne_order" by (simp add: jne_order_def)
  then have "m_pos (?h 4) = S - word_of_nat (jne_base c)" using jne_placed_pos [OF assms(1,2)] by (simp add: jne_off_def)
  then have pos: "\<forall>s \<in> set jne_order. m_pos (?h s) = m_pos (?h (hd jne_order)) + word_of_nat (jne_off c d s)"
    using jne_placed_pos [OF assms(1,2)] by (simp add: jne_order_def)
  have sorted: "sorted_wrt (\<lambda>s t. jne_off c d s + size_of ?h s \<le> jne_off c d t) jne_order"
    using g assms(2) unfolding jne_order_def
    by (simp add: sz' jne_sizes [OF assms(1)] jne_sizes(7) [OF assms(1), simplified] jne_off_def jne_pre_def)
       (intro conjI impI; linarith)
  have tot: "\<forall>s \<in> set jne_order. jne_off c d s + size_of ?h s \<le> jne_pre c + d + 272"
    using g assms(2) unfolding jne_order_def
    by (simp add: sz' jne_sizes [OF assms(1)] jne_sizes(7) [OF assms(1), simplified] jne_off_def jne_pre_def)
       (intro conjI impI; linarith)
  have ends: "jumps_ok c (jne_off c d) ?h jne_order s \<and> hex_ok (?h s)" if "s \<in> {4, 5}" for s
  proof -
    have "s \<in> set jne_order" using that by (auto simp: jne_order_def)
    from jne_placed_sel [OF assms(1) this] have "kind (?h s) = kind (h s)" "m_hex (?h s) = m_hex (h s)" by simp_all
    moreover have "h 4 = entry_seg c" "h 5 = and_seg c" using assms(1) by (simp_all add: jne_segments_def)
    ultimately show ?thesis
      using that entry_seg_ok [of c ?h 4] and_seg_ok [of ?h 5 c] assms(4) by (elim insertE emptyE) simp_all
  qed
  have jumps: "jumps_ok c (jne_off c d) ?h jne_order s" if "s \<in> set jne_order" "s \<notin> {4, 5}" for s
    using that g assms(1) jne_placed_sel(1) [OF assms(1) that(1)] sz [OF that(1)] unfolding jne_order_def
    by (auto simp: dist_def jne_sizes [OF assms(1)] jne_off_def jne_segments_def)
  have hex: "hex_ok (?h s)" if "s \<in> set jne_order" "s \<notin> {4, 5}" for s
    using that assms(1) jne_placed_sel [OF assms(1) that(1)] unfolding jne_order_def
    by (auto simp: hex_ok_def jne_segments_def)
  have "distinct jne_order" "jne_off c d (hd jne_order) = 0" by (simp_all add: jne_order_def jne_off_def)
  then show ?thesis unfolding laid_out_def using pos sorted tot jumps hex ends by blast
qed

section \<open>Execution\<close>

lemma jne_next:
  "next_seg jne_order 4 5" "next_seg jne_order 5 7" "next_seg jne_order 6 0" "next_seg jne_order 0 8"
  "next_seg jne_order 1 9"
  by (simp_all add: jne_order_def next_seg_simps)

lemma and_one_cases: "and x 1 = (if odd x then 1 else 0 :: 32 word)"
  by (simp add: and_one_eq odd_iff_mod_2_eq_one)

text \<open>The input: the register, or the inner cell of the pointer.\<close>

definition input_in :: "indirect \<Rightarrow> memory \<Rightarrow> 32 word \<Rightarrow> 32 word \<Rightarrow> bool" where
  "input_in c m input v = (case c of None \<Rightarrow> v = input | Some (tp, ip, t) \<Rightarrow> code_at m ip (le_bytes 4 v))"

lemma jne_starts:
  assumes "jne_segments c h0 S d" "finished c F (jne_off c d) (jne_placed d S h0) jne_order p h m"
    and "input_cell c" "input_in c m (eax st) v"
  shows "\<exists>r. reaches m (Running (st\<lparr>rip := p 4\<rparr>))
    (Running (st\<lparr>r14 := r, eax := and v 1, zf := (and v 1 = 0), rip := p 7\<rparr>))"
proof -
  let ?h = "jne_placed d S h0"
  have area: "area c p h jne_order m" using assms(2) by (simp add: finished_def)
  have mem: "4 \<in> set jne_order" "5 \<in> set jne_order" by (simp_all add: jne_order_def)
  have kd: "kind (h s) = kind (h0 s)" if "s \<in> set jne_order" for s
    using assms(2) jne_placed_sel [OF assms(1) that] that by (simp add: finished_def)
  note k = assms(1) [unfolded jne_segments_def] and slide = finished_slide [OF assms(2)]
  show ?thesis
  proof (cases c)
    case None
    let ?st1 = "st\<lparr>eax := and v 1, zf := (and v 1 = 0)\<rparr>"
    have v: "v = eax st" using assms(4) None by (simp add: input_in_def)
    have "reaches m (Running (st\<lparr>rip := p 4\<rparr>)) (Running (st\<lparr>rip := p 4 + word_of_nat (size_of h 4)\<rparr>))"
      using run_nop [OF area mem(1), of 1 "st\<lparr>rip := p 4\<rparr>"] kd [OF mem(1)] k None by (simp add: entry_seg_def make_Nop_def)
    also have "reaches m \<dots> (Running (st\<lparr>rip := p 5\<rparr>))" by (rule slide [OF jne_next(1)])
    also have "reaches m \<dots> (Running (?st1\<lparr>rip := p 5 + word_of_nat (size_of h 5)\<rparr>))"
      using run_and [OF area mem(2), of "st\<lparr>rip := p 5\<rparr>"] kd [OF mem(2)] k None v
      by (simp add: and_seg_def make_EaxAndOne_def)
    also have "reaches m \<dots> (Running (?st1\<lparr>rip := p 7\<rparr>))" by (rule slide [OF jne_next(2)])
    finally show ?thesis by (intro exI [of _ "r14 st"]) simp
  next
    case (Some y)
    then obtain tp ip where c: "c = Some (tp, ip, None)" using assms(3) by (cases y) (auto simp: input_cell_def)
    let ?st1 = "st\<lparr>r14 := ip, eax := and v 1, zf := (and v 1 = 0)\<rparr>"
    have "kind (h 4) = SegSetPosInReg None tp 14" "kind (h 5) = SegEaxAndOneIndir"
      using kd [OF mem(1)] kd [OF mem(2)] k
      by (simp_all add: c entry_seg_def and_seg_def make_SetPosInReg_def make_EaxAndOneIndir_def)
    note k45 = this
    have "reaches m (Running (st\<lparr>rip := p 4\<rparr>)) (Running (st\<lparr>r14 := ip, rip := p 4 + word_of_nat (size_of h 4)\<rparr>))"
      using run_set_pos [OF area mem(1) k45(1) c, of "st\<lparr>rip := p 4\<rparr>"] by simp
    also have "reaches m \<dots> (Running (st\<lparr>r14 := ip, rip := p 5\<rparr>))"
      using slide [OF jne_next(1), of "st\<lparr>r14 := ip\<rparr>"] by simp
    also have "reaches m \<dots> (Running (?st1\<lparr>rip := p 5 + word_of_nat (size_of h 5)\<rparr>))"
      using run_and_indir [OF area mem(2) k45(2), of "st\<lparr>r14 := ip, rip := p 5\<rparr>"] assms(4) c by (simp add: input_in_def)
    also have "reaches m \<dots> (Running (?st1\<lparr>rip := p 7\<rparr>))" by (rule slide [OF jne_next(2)])
    finally show ?thesis by blast
  qed
qed

lemma jne_runs:
  assumes "jne_segments c h0 S d" "9 \<le> d" "d \<le> 129" "finished c F (jne_off c d) (jne_placed d S h0) jne_order p h m"
    and "input_cell c" "input_in c m (eax st) v"
  shows "\<exists>st'. reaches m (Running (st\<lparr>rip := p 4\<rparr>)) (Finished st') \<and> eax st' = (if odd v then 2 else 1) \<and>
    taken st' = taken st @ (if odd v then [(p 7, p 6), (p 6 + 2, p 1), (p 9, p 3)] else [(p 7, p 6), (p 8, p 2)])"
proof -
  let ?h = "jne_placed d S h0"
  have area: "area c p h jne_order m" using assms(4) by (simp add: finished_def)
  have mem: "4 \<in> set jne_order" "5 \<in> set jne_order" "7 \<in> set jne_order" "6 \<in> set jne_order" "0 \<in> set jne_order"
    "8 \<in> set jne_order" "1 \<in> set jne_order" "9 \<in> set jne_order" "2 \<in> set jne_order" "3 \<in> set jne_order"
    by (simp_all add: jne_order_def)
  have kd0: "kind (?h s) = kind (h0 s)" if "s \<in> set jne_order" for s using jne_placed_sel [OF assms(1) that] by simp
  have kd: "kind (h s) = kind (h0 s)" if "s \<in> set jne_order" for s
    using assms(4) kd0 [OF that] that by (simp add: finished_def)
  note k = assms(1) [unfolded jne_segments_def]
  have ds: "dist (jne_off c d) ?h s t = int (jne_off c d t) - int (jne_off c d s + s_size (kind (h0 s)))"
    if "s \<in> set jne_order" for s t using kd0 [OF that] by (simp add: dist_def size_of_def)
  have g: "jne_gap d \<le> 60" "2 * jne_gap d \<le> d - 9" "d - 10 \<le> 2 * jne_gap d"
    using assms(2,3) by (simp_all add: jne_gap_def)
  note slide = finished_slide [OF assms(4)] and jump = finished_jump [OF assms(4)]
  from jne_starts [OF assms(1,4-6)] obtain r where
    first: "reaches m (Running (st\<lparr>rip := p 4\<rparr>)) (Running (st\<lparr>r14 := r, eax := and v 1, zf := (and v 1 = 0), rip := p 7\<rparr>))" by blast
  let ?a = "and v 1" and ?st0 = "st\<lparr>r14 := r\<rparr>"
  let ?st1 = "?st0\<lparr>eax := ?a, zf := (?a = 0)\<rparr>"
  let ?st2 = "?st1\<lparr>taken := taken st @ [(p 7, p 6)]\<rparr>"
  have "reaches m (Running (?st1\<lparr>rip := p 7\<rparr>)) (Running (?st2\<lparr>rip := p 6\<rparr>))"
    using jump [OF mem(3,4), of ?st1] kd0 [OF mem(3)] k ds [OF mem(3)] by (simp add: jne_off_def)
  from reaches_trans [OF first this]
  have start: "reaches m (Running (st\<lparr>rip := p 4\<rparr>)) (Running (?st2\<lparr>rip := p 6\<rparr>))" .
  have d61: "sint (p 1 - get_end (h 6)) = dist (jne_off c d) ?h 6 1"
    using assms(4) mem unfolding finished_def by blast
  have "dist (jne_off c d) ?h 6 1 = int d - 2" using ds [OF mem(4)] k by (simp add: jne_off_def)
  with d61 assms(2,3) have rng: "-128 \<le> sint (p 1 - get_end (h 6))" "sint (p 1 - get_end (h 6)) < 128" by simp_all
  have j6: "kind (h 6) = SegJneEaxZero (Some 1)" using kd [OF mem(4)] k by simp
  note jne = run_jne [OF area mem(4) j6 _ rng, of "?st2\<lparr>rip := p 6\<rparr>"]
  show ?thesis
  proof (cases "odd v")
    case True
    then have a: "?a = 1" by (simp add: and_one_cases)
    let ?st3 = "?st2\<lparr>zf := False, taken := taken st @ [(p 7, p 6), (p 6 + 2, p 1)]\<rparr>"
    let ?st4 = "?st3\<lparr>eax := 2\<rparr>"
    from jne a have "reaches m (Running (?st2\<lparr>rip := p 6\<rparr>)) (Running (?st3\<lparr>rip := p 1\<rparr>))"
      by (simp add: jne_offset_def)
    also have "reaches m \<dots> (Running (?st4\<lparr>rip := p 1 + word_of_nat (size_of h 1)\<rparr>))"
      using run_write [OF area mem(7), of 2 "?st3\<lparr>rip := p 1\<rparr>"] kd [OF mem(7)] k by simp
    also have "reaches m \<dots> (Running (?st4\<lparr>rip := p 9\<rparr>))" by (rule slide [OF jne_next(5)])
    also have "reaches m \<dots> (Running (?st4\<lparr>taken := taken ?st4 @ [(p 9, p 3)], rip := p 3\<rparr>))"
      by (rule jump [OF mem(8,10)]) (use kd0 [OF mem(8)] k ds [OF mem(8)] in \<open>simp add: jne_off_def\<close>)
    also have "reaches m \<dots> (Finished (?st4\<lparr>taken := taken ?st4 @ [(p 9, p 3)], rip := p 3 + word_of_nat 120\<rparr>))"
      using run_retq [OF area mem(10), of 120 "?st4\<lparr>taken := taken ?st4 @ [(p 9, p 3)], rip := p 3\<rparr>"]
        kd [OF mem(10)] k by simp
    finally have "reaches m (Running (?st2\<lparr>rip := p 6\<rparr>))
      (Finished (?st4\<lparr>taken := taken ?st4 @ [(p 9, p 3)], rip := p 3 + word_of_nat 120\<rparr>))" .
    from reaches_trans [OF start this] True show ?thesis by (intro exI conjI) (assumption, simp_all)
  next
    case False
    then have a: "?a = 0" by (simp add: and_one_cases)
    let ?st4 = "?st2\<lparr>zf := True, eax := 1\<rparr>"
    from jne a have "reaches m (Running (?st2\<lparr>rip := p 6\<rparr>)) (Running (?st2\<lparr>zf := True, rip := p 6 + word_of_nat (size_of h 6)\<rparr>))"
      by simp
    also have "reaches m \<dots> (Running (?st2\<lparr>zf := True, rip := p 0\<rparr>))" by (rule slide [OF jne_next(3)])
    also have "reaches m \<dots> (Running (?st4\<lparr>rip := p 0 + word_of_nat (size_of h 0)\<rparr>))"
      using run_write [OF area mem(5), of 1 "?st2\<lparr>zf := True, rip := p 0\<rparr>"] kd [OF mem(5)] k by simp
    also have "reaches m \<dots> (Running (?st4\<lparr>rip := p 8\<rparr>))" by (rule slide [OF jne_next(4)])
    also have "reaches m \<dots> (Running (?st4\<lparr>taken := taken ?st4 @ [(p 8, p 2)], rip := p 2\<rparr>))"
      by (rule jump [OF mem(6,9)]) (use kd0 [OF mem(6)] k g ds [OF mem(6)] in \<open>simp add: jne_off_def\<close>)
    also have "reaches m \<dots> (Finished (?st4\<lparr>taken := taken ?st4 @ [(p 8, p 2)], rip := p 2 + word_of_nat 120\<rparr>))"
      using run_retq [OF area mem(9), of 120 "?st4\<lparr>taken := taken ?st4 @ [(p 8, p 2)], rip := p 2\<rparr>"]
        kd [OF mem(9)] k by simp
    finally have "reaches m (Running (?st2\<lparr>rip := p 6\<rparr>))
      (Finished (?st4\<lparr>taken := taken ?st4 @ [(p 8, p 2)], rip := p 2 + word_of_nat 120\<rparr>))" .
    from reaches_trans [OF start this] False show ?thesis by (intro exI conjI) (assumption, simp_all)
  qed
qed

end
