(* ===== verification/ShadowAttack.thy ===== *)
theory ShadowAttack
  imports ShadowJne
begin

text \<open>
  What the attack relies on: the shadow of a conditional branch has a branch whose address and
  destination agree with the victim's in the bits the branch predictor uses, and it is taken exactly
  for odd inputs.
\<close>

section \<open>Cells that do not overlap\<close>

definition apart :: "addr \<Rightarrow> addr \<Rightarrow> bool" where
  "apart a b \<longleftrightarrow> 8 \<le> unat (b - a) \<and> 8 \<le> unat (a - b)"

lemma apart_cells:
  assumes "apart a b" "in_cell a x"
  shows "\<not> in_cell b x"
proof
  assume "in_cell b x"
  define i j where "i = x - a" and "j = x - b"
  have ij: "unat i < 8" "unat j < 8" using assms(2) \<open>in_cell b x\<close> by (simp_all add: in_cell_def i_def j_def)
  have d: "b - a = i - j" "a - b = j - i" by (simp_all add: i_def j_def)
  show False
  proof (cases "unat j \<le> unat i")
    case True
    then show ?thesis using assms(1) ij unat_diff_le [OF True] by (simp add: apart_def d) linarith
  next
    case False
    then have "unat i \<le> unat j" by simp
    then show ?thesis using assms(1) ij unat_diff_le [of i j] by (simp add: apart_def d) linarith
  qed
qed

definition clear_of :: "addr \<Rightarrow> nat \<Rightarrow> addr \<Rightarrow> bool" where
  "clear_of F n a \<longleftrightarrow> unat F + n \<le> unat a \<and> unat a + 8 < 18446744073709551616 \<or> unat a + 8 \<le> unat F"

lemma clear_of_cell:
  assumes "clear_of F n a" "inside F n x"
  shows "\<not> in_cell a x"
proof
  assume "in_cell a x"
  moreover have "unat a + 8 < 18446744073709551616"
    using assms(1) unat_lt_64 [of F] by (auto simp: clear_of_def)
  ultimately have "inside a 8 x" using inside_iff [of a 8 x] by (simp add: in_cell_def)
  with assms show False by (auto simp: clear_of_def inside_def)
qed

text \<open>The four cells \<open>prepare_attack\<close> allocates with indirect targets.\<close>

definition cells_apart :: "addr \<times> addr \<Rightarrow> addr \<times> addr \<Rightarrow> bool" where
  "cells_apart c1 c2 = sorted_wrt apart [snd c1, fst c1, snd c2, fst c2]"

definition cells_clear :: "addr \<times> addr \<Rightarrow> addr \<times> addr \<Rightarrow> addr \<Rightarrow> nat \<Rightarrow> bool" where
  "cells_clear c1 c2 F n = list_all (clear_of F n) [snd c1, fst c1, snd c2, fst c2]"

lemma cells_outside_clear:
  "clear_of F n tp \<Longrightarrow> clear_of F n ip \<Longrightarrow> cells_outside (Some (tp, ip, t)) F n"
  using clear_of_cell by auto

lemma get_indirect_pointer_at:
  assumes "apart tp ip"
  shows "get_indirect_pointer ip tp v m x =
    (if in_cell ip x then le_bytes 8 v ! unat (x - ip) else if in_cell tp x then le_bytes 8 ip ! unat (x - tp) else m x)"
proof -
  let ?m1 = "write_bytes tp (le_bytes 8 ip) m"
  have "fetch ?m1 tp 8 = le_bytes 8 ip" by (rule fetch_code_n [OF code_at_written]) simp_all
  then have "get_indirect_pointer ip tp v m = write_bytes ip (le_bytes 8 v) ?m1"
    by (simp add: get_indirect_pointer_def set_indirect_pointer_value_def of_le_addr)
  then show ?thesis by (simp add: write_cell)
qed

lemma code_at_bytes:
  assumes "\<And>x. in_cell a x \<Longrightarrow> m x = bs ! unat (x - a)" "length bs = 8"
  shows "code_at m a bs"
  using assms by (auto simp: code_at_def in_cell_def unat_of_small)

lemma get_indirect_pointer_cells:
  assumes "apart tp ip"
  shows "cells_ok (Some (tp, ip, t)) (get_indirect_pointer ip tp v m)"
    and "code_at (get_indirect_pointer ip tp v m) ip (le_bytes 8 v)"
  using apart_cells [OF assms] by (auto simp: get_indirect_pointer_at [OF assms] intro!: code_at_bytes)

lemma get_indirect_pointer_other:
  "apart tp ip \<Longrightarrow> apart a tp \<Longrightarrow> apart a ip \<Longrightarrow> length bs = 8 \<Longrightarrow>
     code_at (get_indirect_pointer ip tp v m) a bs = code_at m a bs"
  using apart_cells by (intro code_at_cell) (auto simp: get_indirect_pointer_at)

lemma take_le_bytes: "le_bytes 8 (scast (x :: 32 word) :: addr) = le_bytes 4 x @ drop 4 (le_bytes 8 (scast x :: addr))"
proof -
  have "take 4 (le_bytes 8 (scast x :: addr)) = le_bytes 4 x"
  proof (rule nth_equalityI)
    fix i assume "i < length (take 4 (le_bytes 8 (scast x :: addr)))"
    then have i: "i < 4" by simp
    have "(ucast (drop_bit (8 * i) (scast x :: addr)) :: byte) = ucast (drop_bit (8 * i) x)"
      using i by (intro bit_word_eqI) (auto simp: bit_simps)
    then show "take 4 (le_bytes 8 (scast x :: addr)) ! i = le_bytes 4 x ! i" using i by (simp add: le_bytes_def)
  qed simp
  then show ?thesis by (metis append_take_drop_id)
qed

section \<open>Setting up\<close>

definition attack_ready :: "branch_shadow \<Rightarrow> addr \<Rightarrow> addr \<Rightarrow> bool" where
  "attack_ready bs src dst \<longleftrightarrow> m_src bs = src \<and> m_dst bs = dst \<and>
     (\<exists>h. m_shadow bs = Some (new_Shadow lbr_entry_bits src dst h))"

lemma prepare_attack_ready:
  assumes "prepare_attack src dst x c1 c2 bs m = Inr (bs1, m1)"
  shows "attack_ready bs1 src dst \<and> m_use_indirect_targets bs1 = m_use_indirect_targets bs \<and> src \<noteq> 0 \<and> dst \<noteq> 0"
  using assms by (auto simp: prepare_attack_def attack_ready_def Let_def split: if_splits)

text \<open>The target the driver stores with indirect targets.\<close>

definition cell_of_target :: "nat option \<Rightarrow> addr \<times> addr \<Rightarrow> branch_shadow \<Rightarrow> indirect" where
  "cell_of_target t cell bs = (if m_use_indirect_targets bs then Some (snd cell, fst cell, t) else None)"

lemma prepare_attack_cells:
  assumes "prepare_attack src dst x c1 c2 bs m = Inr (bs1, m1)" "m_use_indirect_targets bs \<longrightarrow> cells_apart c1 c2"
  shows "m_use_indirect_targets bs1 \<longrightarrow> m_indirect_shadow_input bs1 = snd c1 \<and> m_indirect_target_ptr bs1 = snd c2"
    and "cells_ok (cell_of_input c1 bs1) m1" "cells_ok (cell_of_target t c2 bs1) m1"
    and "input_in (cell_of_input c1 bs1) m1 input (if m_use_indirect_targets bs then x else input)"
proof -
  let ?m1 = "get_indirect_pointer (fst c1) (snd c1) (scast x) m"
  have use: "m_use_indirect_targets bs1 = m_use_indirect_targets bs" using prepare_attack_ready [OF assms(1)] by simp
  show "m_use_indirect_targets bs1 \<longrightarrow> m_indirect_shadow_input bs1 = snd c1 \<and> m_indirect_target_ptr bs1 = snd c2"
    using assms(1) by (auto simp: prepare_attack_def Let_def split: if_splits)
  have *: "cells_ok (cell_of_input c1 bs1) m1 \<and> cells_ok (cell_of_target t c2 bs1) m1 \<and>
      input_in (cell_of_input c1 bs1) m1 input (if m_use_indirect_targets bs then x else input)"
  proof (cases "m_use_indirect_targets bs")
    case True
    with assms(2) have ap: "apart (snd c1) (fst c1)" "apart (snd c2) (fst c2)" "apart (snd c1) (snd c2)" "apart (snd c1) (fst c2)"
      "apart (fst c1) (snd c2)" "apart (fst c1) (fst c2)" by (simp_all add: cells_apart_def)
    have m1: "m1 = get_indirect_pointer (fst c2) (snd c2) 0 ?m1"
      using assms(1) True by (auto simp: prepare_attack_def Let_def)
    note other = get_indirect_pointer_other [OF ap(2), where m = ?m1 and v = 0, folded m1]
    have "code_at m1 (snd c1) (le_bytes 8 (fst c1))" "code_at m1 (fst c1) (le_bytes 8 (scast x :: addr))"
      using other [OF ap(3,4), of "le_bytes 8 (fst c1)"] other [OF ap(5,6), of "le_bytes 8 (scast x :: addr)"]
        get_indirect_pointer_cells [OF ap(1), where v = "scast x" and m = m] by simp_all
    moreover from this(2) have "code_at m1 (fst c1) (le_bytes 4 x)" by (subst (asm) take_le_bytes) (simp add: code_at_append)
    moreover have "cells_ok (Some (snd c2, fst c2, t)) m1"
      unfolding m1 by (rule get_indirect_pointer_cells(1) [OF ap(2)])
    ultimately show ?thesis
      using apart_cells [OF ap(1)] True use by (auto simp: cell_of_input_def cell_of_target_def input_in_def)
  qed (simp add: cell_of_input_def cell_of_target_def input_in_def use)
  then show "cells_ok (cell_of_input c1 bs1) m1" "cells_ok (cell_of_target t c2 bs1) m1"
    "input_in (cell_of_input c1 bs1) m1 input (if m_use_indirect_targets bs then x else input)" by blast+
qed

lemma setup_jne_ok:
  assumes "attack_ready bs S D" "c = cell_of_input cell bs" "m_use_indirect_targets bs \<longrightarrow> m_indirect_shadow_input bs = snd cell"
    and "unat D = unat S + d" "9 \<le> d" "d \<le> 129"
    and "jne_base c < unat S" "unat D < 140737488355328" "mmap_result \<noteq> 0"
    and "F = new_base mmap_result (S - word_of_nat (jne_base c)) 32" "0 < unat F"
    and "unat F + (jne_pre c + d + 272) < 18446744073709551616"
    and "cells_ok c m" "cells_outside c F (jne_pre c + d + 272)"
  shows "\<exists>bs' m' sh' p h h0. setup_jne_shadow mmap_result bs m = Inr (p 4, bs', m') \<and>
    m_shadow bs' = Some sh' \<and> m_shadow_src bs' = p 6 + 2 \<and> jne_segments c h0 S d \<and>
    finished c F (jne_off c d) (jne_placed d S h0) jne_order p h m' \<and>
    m_finalized sh' \<and> m_segments sh' = jne_order \<and> m_entry_segment sh' = Some 4 \<and> m_mask sh' = get_mask 32 \<and>
    (\<forall>i. m_pos (seg sh' i) = p i \<and> (i \<in> set jne_order \<longrightarrow> kind (seg sh' i) = kind (h0 i))) \<and>
    low_bits 32 (p 6 + 2) = low_bits 32 S \<and> low_bits 32 (p 1) = low_bits 32 D \<and>
    (\<forall>x. \<not> inside F (jne_pre c + d + 272) x \<longrightarrow> m' x = m x)"
proof -
  from assms(1) obtain hh where sh0: "m_shadow bs = Some (new_Shadow lbr_entry_bits S D hh)" and S: "m_src bs = S" "m_dst bs = D"
    by (auto simp: attack_ready_def)
  have ic: "input_cell c" using assms(2) by (simp add: cell_of_input_def input_cell_def)
  have S17: "17 < unat S" using assms(7) by (simp add: jne_base_def)
  have u: "word_of_nat (unat a) = a" for a :: addr by simp
  have "D = word_of_nat (unat S + d)" using assms(4) u [of D] by simp
  then have D: "D = S + word_of_nat d" by (simp only: of_nat_add u)
  have lt: "S < D" using assms(4,5) by (simp add: word_less_nat_alt)
  have nz: "S \<noteq> 0" "S \<noteq> 2" "D \<noteq> 0" using assms(4) S17 by auto
  obtain h0 where h0: "jne_table bs = Inr h0" "jne_segments c h0 S d"
    using jne_table_segments [of bs cell d] S lt assms(2,3) nz D by auto
  let ?sh = "new_Shadow lbr_entry_bits S D h0"
  have "unat (S - 2) = unat S - 2" using S17 by (intro unat_diff_le [of 2, simplified]) simp
  then have "S - 2 < S + word_of_nat d" using lt D assms(4) by (simp add: word_less_nat_alt)
  then have add: "bind_res (add_entry 4 ?sh) (add_all [5, 7, 6, 0, 8, 1, 9, 2, 3]) = Inr (jne_added ?sh h0 d)"
    using h0(2) assms(5,6) nz D by (intro jne_add) (simp_all add: new_Shadow_def)
  let ?sh1 = "?sh\<lparr>m_entry_segment := Some 4, seg := jne_placed d S h0, m_segments := jne_order, m_loose_segments := [9, 2, 3]\<rparr>"
  have rest: "place_rest (jne_added ?sh h0 d) = Inr ?sh1"
    using h0(2) assms(8) D by (intro jne_rest) simp_all
  have p4: "m_pos (jne_placed d S h0 4) = S - word_of_nat (jne_base c)"
    using jne_placed_pos [OF h0(2) assms(5), of 4] by (simp add: jne_order_def jne_off_def)
  have "\<exists>sh' m' p h. finalize mmap_result (jne_added ?sh h0 d) m = Inr (sh', m') \<and> m_finalized sh' \<and>
      m_segments sh' = jne_order \<and> m_entry_segment sh' = Some 4 \<and> m_mask sh' = get_mask 32 \<and>
      (\<forall>i. m_pos (seg sh' i) = p i \<and> kind (seg sh' i) = kind (seg ?sh1 i)) \<and>
      (\<forall>s \<in> set jne_order. low_bits 32 (p s) = low_bits 32 (m_pos (seg ?sh1 s))) \<and>
      finished c F (jne_off c d) (seg ?sh1) jne_order p h m' \<and>
      (\<forall>x. \<not> inside F (jne_pre c + d + 272) x \<longrightarrow> m' x = (if uses_cell (seg ?sh1) jne_order then set_cell c p m else m) x)"
  proof (rule finalize_finished [OF _ _ rest])
    show "laid_out c (jne_off c d) (seg ?sh1) jne_order (jne_pre c + d + 272)" using jne_laid_out [OF h0(2) assms(5,6) ic] by simp
    show "F = new_base mmap_result (m_pos (seg ?sh1 (hd jne_order))) 32"
      using assms(10) p4 by (simp add: jne_order_def)
    show "jne_pre c + d + 272 < 2 ^ 62" using assms(6) by (simp add: jne_pre_def)
  qed (use assms in \<open>simp_all add: jne_added_def new_Shadow_def jne_order_def lbr_entry_bits_def\<close>)
  then obtain sh' m' p h where fin: "finalize mmap_result (jne_added ?sh h0 d) m = Inr (sh', m')"
    "m_finalized sh'" "m_segments sh' = jne_order" "m_entry_segment sh' = Some 4" "m_mask sh' = get_mask 32"
    and pk: "\<forall>i. m_pos (seg sh' i) = p i \<and> kind (seg sh' i) = kind (seg ?sh1 i)"
    and low: "\<forall>s \<in> set jne_order. low_bits 32 (p s) = low_bits 32 (m_pos (seg ?sh1 s))"
    and F: "finished c F (jne_off c d) (seg ?sh1) jne_order p h m'"
    and fr: "\<forall>x. \<not> inside F (jne_pre c + d + 272) x \<longrightarrow> m' x = (if uses_cell (seg ?sh1) jne_order then set_cell c p m else m) x"
    by (elim exE conjE) (rule that)
  have "set_cell c p m = m" using ic by (cases "(c, p, m)" rule: set_cell.cases) (auto simp: input_cell_def)
  with fr have frame: "\<forall>x. \<not> inside F (jne_pre c + d + 272) x \<longrightarrow> m' x = m x" by simp
  note pk = pk [simplified] and low = low [simplified] and F = F [simplified]
  have p: "p s = F + word_of_nat (jne_off c d s)" if "s \<in> set jne_order" for s
    using F that by (simp add: finished_def)
  have mem: "6 \<in> set jne_order" "1 \<in> set jne_order" "4 \<in> set jne_order" by (simp_all add: jne_order_def)
  have "unat (p 6) = unat F + (jne_pre c + 15)"
    unfolding p [OF mem(1)] using assms(12) by (subst unat_add_of_nat) (simp_all add: jne_off_def)
  then have p6: "p 6 \<noteq> 0" by auto
  have "low_bits 32 (p 6) = low_bits 32 (S - 2)"
    using low mem(1) jne_placed_pos [OF h0(2) assms(5) mem(1)] by (simp add: jne_off_def jne_base_def)
  then have l6: "low_bits 32 (p 6 + 2) = low_bits 32 S"
    using low_bits_shift [of 32 "p 6 + 2" "S"] take_bit_add_word [of 32 "p 6" 2] take_bit_add_word [of 32 "S - 2" 2]
    by (simp add: low_bits_take)
  have l1: "low_bits 32 (p 1) = low_bits 32 D"
    using low mem(2) jne_placed_pos [OF h0(2) assms(5) mem(2)] D by (simp add: jne_off_def jne_base_def)
  have done_setup: "setup_jne_shadow mmap_result bs m = Inr (p 4, bs\<lparr>m_shadow := Some sh', m_shadow_src := p 6 + 2\<rparr>, m')"
  proof -
    have "setup_jne_shadow mmap_result bs m =
        bind_res (bind_res (add_entry 4 ?sh) (add_all [5, 7, 6, 0, 8, 1, 9, 2, 3]))
          (\<lambda>sh2. bind_res (finalize mmap_result sh2 m) (\<lambda>(sh3, m'). finish_setup 6 jne_offset bs sh3 m'))"
      using sh0 h0(1) S lt by (simp add: setup_jne_shadow_def new_Shadow_def bind_res_def split: sum.split)
    also have "\<dots> = finish_setup 6 jne_offset bs sh' m'" unfolding add by (simp add: fin(1))
    also have "\<dots> = Inr (p 4, bs\<lparr>m_shadow := Some sh', m_shadow_src := p 6 + 2\<rparr>, m')"
      using p6 pk fin(4) by (simp add: finish_setup_def jne_offset_def add_offset_def get_entry_ptr_def)
    finally show ?thesis .
  qed
  have kd: "kind (seg sh' i) = kind (h0 i)" if "i \<in> set jne_order" for i
    using pk jne_placed_sel(1) [OF h0(2) that] by simp
  show ?thesis
    by (rule exI [of _ "bs\<lparr>m_shadow := Some sh', m_shadow_src := p 6 + 2\<rparr>"], rule exI [of _ m'],
        rule exI [of _ sh'], rule exI [of _ p], rule exI [of _ h], rule exI [of _ h0])
       (use done_setup h0 F fin pk kd l6 l1 frame in simp)
qed

section \<open>The address the victim's branch is mapped to\<close>

lemma unat_high: "unat (and y (not (mask k))) = unat (y :: addr) div 2 ^ k * 2 ^ k"
proof -
  have "and y (not (mask k)) = push_bit k (drop_bit k y)" by (rule bit_word_eqI) (auto simp: bit_simps)
  then have "unat (and y (not (mask k))) = take_bit LENGTH(64) (push_bit k (unat (drop_bit k y)))"
    by (simp only: unsigned_push_bit_eq)
  also have "unat (drop_bit k y) = drop_bit k (take_bit LENGTH(64) (unat y))" by (rule unsigned_drop_bit_eq)
  also have "take_bit LENGTH(64) (unat y) = unat y" using unat_lt_64 [of y] by (simp add: take_bit_nat_eq_self)
  also have "push_bit k (drop_bit k (unat y)) = unat y div 2 ^ k * 2 ^ k" by (simp add: push_bit_eq_mult drop_bit_eq_div)
  also have "take_bit LENGTH(64) (unat y div 2 ^ k * 2 ^ k) = unat y div 2 ^ k * 2 ^ k"
  proof -
    have "unat y div 2 ^ k * 2 ^ k \<le> unat y" by (rule div_times_less_eq_dividend)
    also have "\<dots> < 2 ^ LENGTH(64)" by (rule unsigned_less)
    finally show ?thesis by (rule take_bit_nat_eq_self)
  qed
  finally show ?thesis .
qed

lemma or_low_high:
  assumes "k \<le> 64"
  shows "unat (or (and x (mask k)) (and y (not (mask k))) :: addr) = unat x mod 2 ^ k + unat y div 2 ^ k * 2 ^ k"
proof -
  have low: "unat (and x (mask k)) = unat x mod 2 ^ k"
    by (simp only: take_bit_eq_mask [symmetric] unsigned_take_bit_eq) (rule take_bit_eq_mod)
  have "2 ^ k dvd (2 ^ 64 :: nat)" by (rule le_imp_power_dvd [OF assms])
  then obtain c where c: "(2 ^ 64 :: nat) = 2 ^ k * c" by blast
  have "unat y < 2 ^ 64" using unat_lt_64 [of y] by simp
  then have "unat y < c * 2 ^ k" unfolding c by (simp only: mult.commute)
  then have "unat y div 2 ^ k < c" by (rule less_mult_imp_div_less)
  then have "(unat y div 2 ^ k + 1) * 2 ^ k \<le> c * 2 ^ k" by (intro mult_right_mono) simp_all
  then have "2 ^ k + unat y div 2 ^ k * 2 ^ k \<le> 2 ^ 64" unfolding c by (simp add: mult.commute)
  moreover have "unat x mod 2 ^ k + unat y div 2 ^ k * 2 ^ k < 2 ^ k + unat y div 2 ^ k * 2 ^ k" by simp
  ultimately have "unat x mod 2 ^ k + unat y div 2 ^ k * 2 ^ k < 2 ^ 64" by (rule order.strict_trans2 [rotated])
  then have "unat (and x (mask k) + and y (not (mask k))) = unat x mod 2 ^ k + unat y div 2 ^ k * 2 ^ k"
    by (subst unat_plus_small) (simp_all add: low unat_high)
  moreover have "and x (mask k) + and y (not (mask k)) = or (and x (mask k)) (and y (not (mask k)))"
    by (rule disjunctive_add) (auto simp: bit_simps)
  ultimately show ?thesis by simp
qed

lemma new_base_value:
  assumes "n \<le> 64"
  shows "unat (new_base mm old n) = unat old mod 2 ^ n + unat (entry_of mm old (mask n)) div 2 ^ n * 2 ^ n"
  unfolding new_base_def get_mask_mask by (rule or_low_high [OF assms])

text \<open>Where \<open>allocate\<close> puts the entry, with the rounding it gets wrong for offset 0.\<close>

lemma entry_of_value:
  assumes "unat mm + 8589934592 \<le> 18446744073709551616"
    and mm: "unat mm = q * 4294967296 + r" "r < 4294967296" and t: "unat old mod 4294967296 = t"
  shows "unat (entry_of mm old (mask 32)) = (if r \<le> t then q * 4294967296 + t else q * 4294967296 + t + 4294967295)"
proof -
  let ?m = "mask 32 :: addr" and ?e = "and mm (not (mask 32)) + and old (mask 32)"
  have lt: "t < 4294967296" using t by auto
  have "unat (and mm (not ?m)) = q * 4294967296" using unat_high [of mm 32] mm by simp
  moreover have "unat (and old ?m) = t"
    using unat_and_low_32 [of old] t by (simp add: mask_eq_exp_minus_1)
  ultimately have e: "unat ?e = q * 4294967296 + t"
    using assms(1) mm lt by (subst unat_plus_small) simp_all
  have m: "unat ?m = 4294967295" by (simp add: mask_eq_exp_minus_1)
  have "?e < mm \<longleftrightarrow> t < r" using e mm by (simp add: word_less_nat_alt)
  moreover have "unat (?e + ?m) = q * 4294967296 + t + 4294967295"
    using e m mm lt assms(1) by (subst unat_plus_small) simp_all
  ultimately show ?thesis using e by (simp add: entry_of_def Let_def)
qed

lemma new_base_cases:
  assumes "unat mm + 8589934592 \<le> 18446744073709551616"
    and mm: "unat mm = q * 4294967296 + r" "r < 4294967296" and t: "unat old mod 4294967296 = t"
  shows "unat (new_base mm old 32) = (if r \<le> t \<or> t = 0 then q * 4294967296 + t else (q + 1) * 4294967296 + t)"
proof -
  have lt: "t < 4294967296" using t by auto
  have "unat (new_base mm old 32) = t + unat (entry_of mm old (mask 32)) div 4294967296 * 4294967296"
    using new_base_value [of 32 mm old] t by simp
  moreover have "(q * 4294967296 + t + 4294967295) div 4294967296 = (if t = 0 then q else q + 1)"
    using lt by auto
  moreover have "(q * 4294967296 + t) div 4294967296 = q" using lt by simp
  ultimately show ?thesis
    using entry_of_value [OF assms] by (auto split: if_splits)
qed

lemma aligned_ptr_value:
  assumes "m_finalized sh" "m_entry_segment sh = Some e" "m_mask sh = get_mask 32" "m_segments sh = f # ss"
    and "m_pos (seg sh e) = F" "m_pos (seg sh f) = F" "get_end (seg sh (last (f # ss))) = F + word_of_nat extent"
    and "low_bits 32 (F + word_of_nat k) = low_bits 32 x" "k \<le> extent" "extent < 4294967296"
    and "4294967296 \<le> unat F" "unat F + extent < 18446744073709551616" "x \<noteq> 0"
  shows "get_aligned_ptr x sh = Inr (F + word_of_nat k)"
proof -
  let ?B = "4294967296 :: nat"
  define a0 where "a0 = or (and x (get_mask 32)) (and F (not (get_mask 32)))"
  have xlow: "unat x mod ?B = (unat F + k) mod ?B"
  proof -
    have "take_bit 32 (F + word_of_nat k) = take_bit 32 x" using assms(8) by (simp add: low_bits_take)
    then have "unat (take_bit 32 (F + word_of_nat k)) = unat (take_bit 32 x)" by (rule arg_cong)
    moreover have "unat (take_bit 32 y) = unat y mod ?B" for y :: addr
      by (simp only: unsigned_take_bit_eq) (simp add: take_bit_eq_mod)
    moreover have "unat (F + word_of_nat k) = unat F + k" using assms(9,12) by (intro unat_add_of_nat) simp
    ultimately show ?thesis by simp
  qed
  have a0: "unat a0 = unat x mod ?B + unat F div ?B * ?B"
    using or_low_high [of 32 x F] by (simp add: a0_def get_mask_mask)
  have smb: "set_masked_base x F (get_mask 32) = Inr a0"
    using assms(11,13) by (auto simp: set_masked_base_def apply_mask_def apply_rmask_def a0_def)
  define q r where "q = unat F div ?B" and "r = unat F mod ?B"
  have F: "unat F = q * ?B + r" "r < ?B" by (simp_all add: q_def r_def)
  have Fmod: "(unat F + k) mod ?B = (r + k) mod ?B"
    unfolding F(1) add.assoc by (rule mod_mult_self3)
  have Fk: "unat (F + word_of_nat k) = unat F + k" using assms(9,12) by (intro unat_add_of_nat) simp
  have Fe: "unat (F + word_of_nat extent) = unat F + extent" using assms(12) by (intro unat_add_of_nat) simp
  have "bind_res (if a0 < F then add_offset a0 (get_mask 32 + 1) else Inr a0) Inr = Inr (F + word_of_nat k)"
  proof (cases "r + k < ?B")
    case True
    have "(unat F + k) mod ?B = r + k" unfolding Fmod using True by simp
    then have "unat a0 = unat F + k" using a0 xlow F by (simp add: q_def [symmetric])
    then have "a0 = F + word_of_nat k" "\<not> a0 < F" using Fk by (simp_all add: word_less_nat_alt word_unat_eq_iff)
    then show ?thesis by simp
  next
    case False
    have "r + k = (r + k - ?B) + ?B" using False by simp
    then have "(r + k) mod ?B = ((r + k - ?B) + ?B) mod ?B" by (rule arg_cong)
    also have "((r + k - ?B) + ?B) mod ?B = r + k - ?B" using F(2) assms(9,10) by simp
    finally have "(unat F + k) mod ?B = r + k - ?B" unfolding Fmod .
    then have a: "unat a0 + ?B = unat F + k" using a0 xlow F False by (simp add: q_def [symmetric])
    then have "a0 < F" using assms(9,10) by (simp add: word_less_nat_alt)
    moreover have "a0 \<noteq> 0" using a assms(11,9,10) False F by auto
    moreover have "a0 + (get_mask 32 + 1) = F + word_of_nat k"
    proof -
      have "get_mask 32 + 1 = (word_of_nat ?B :: addr)" by (simp add: get_mask_def push_bit_eq_mult)
      then have "a0 + (get_mask 32 + 1) = word_of_nat (unat a0 + ?B)" by simp
      also have "\<dots> = word_of_nat (unat F + k)" by (simp only: a)
      also have "\<dots> = F + word_of_nat k" by simp
      finally show ?thesis .
    qed
    ultimately show ?thesis by (simp add: add_offset_def)
  qed
  moreover have "\<not> F + word_of_nat k < F" "\<not> F + word_of_nat k > F + word_of_nat extent"
    using Fk Fe assms(9) by (simp_all add: word_less_nat_alt)
  ultimately show ?thesis
    using assms(1-7) smb by (auto simp: get_aligned_ptr_def get_entry_ptr_def Let_def)
qed

end
