(* ===== verification/ShadowProps.thy ===== *)
theory ShadowProps
  imports ShadowAttack
begin

text \<open>
  The properties of the shadow area and of the jne shadow, with a victim branch of 32 bytes at
  \<open>0x400100\<close> as the example.
\<close>

section \<open>The example\<close>

definition ex_bs :: "bool \<Rightarrow> branch_shadow" where
  "ex_bs indir = \<lparr>m_src = 0, m_dst = 0, m_use_indirect_targets = indir, m_indirect_target_ptr = 0,
     m_indirect_shadow_input = 0, m_shadow = None, m_shadow_src = 0\<rparr>"

lemma ex_prepare: "\<exists>bs m'. prepare_attack 0x400100 0x400120 x c1 c2 (ex_bs indir) m = Inr (bs, m')"
  by (simp add: prepare_attack_def ex_bs_def Let_def)

lemma ex_base: "unat (new_base 0x7f0000001000 (0x400100 - 17) 32) = 0x7f00004000ef"
    "unat (new_base 0x7f0000001000 (0x400100 - 29) 32) = 0x7f00004000e3"
  by (subst new_base_cases [where q = "0x7f00" and r = "0x1000" and t = "0x4000ef"], simp_all)
     (subst new_base_cases [where q = "0x7f00" and r = "0x1000" and t = "0x4000e3"], simp_all)

section \<open>Memory\<close>

text \<open>
  The value stored through an indirect pointer is the value read back, when the two cells do
  not overlap; nothing outside the two cells changes.
\<close>
lemma indirect_pointer_roundtrip:
  assumes "\<forall>i < 8. \<forall>j < 8. ptr_inner + word_of_nat i \<noteq> ptr_outer + word_of_nat j"
  shows "get_indirect_pointer_value ptr_outer (get_indirect_pointer ptr_inner ptr_outer v m) = v \<and>
    (\<forall>x. (\<forall>i < 8. x \<noteq> ptr_inner + word_of_nat i \<and> x \<noteq> ptr_outer + word_of_nat i) \<longrightarrow>
       get_indirect_pointer ptr_inner ptr_outer v m x = m x)"
proof -
  have near: "unat (x - a) < 8 \<longleftrightarrow> (\<exists>i < 8. x = a + word_of_nat i)" for x a :: addr
  proof
    assume "unat (x - a) < 8"
    moreover have "x = a + word_of_nat (unat (x - a))" by simp
    ultimately show "\<exists>i < 8. x = a + word_of_nat i" by blast
  next
    assume "\<exists>i < 8. x = a + word_of_nat i"
    then show "unat (x - a) < 8" by (auto simp: unat_of_small)
  qed
  have at: "write_bytes a (le_bytes 8 w) m' x =
      (if \<exists>i < 8. x = a + word_of_nat i then le_bytes 8 w ! unat (x - a) else m' x)" for a w m' x
    by (subst write_bytes_at) (simp_all add: near)
  have rd: "fetch (write_bytes a (le_bytes 8 (w :: addr)) m') a 8 = le_bytes 8 w" for a w m'
  proof (rule fetch_code_n)
    show "code_at (write_bytes a (le_bytes 8 w) m') a (le_bytes 8 w)"
      unfolding code_at_def by (auto simp: at unat_of_small)
  qed simp
  let ?m1 = "write_bytes ptr_outer (le_bytes 8 ptr_inner) m"
  have id: "(of_le (le_bytes 8 (w :: addr)) :: addr) = w" for w
    unfolding of_le_bytes by (rule bit_word_eqI) (auto simp: bit_simps dest: bit_imp_le_length)
  have g: "get_indirect_pointer ptr_inner ptr_outer v m = write_bytes ptr_inner (le_bytes 8 v) ?m1"
    by (simp add: get_indirect_pointer_def set_indirect_pointer_value_def rd id)
  have "fetch (write_bytes ptr_inner (le_bytes 8 v) ?m1) ptr_outer 8 = fetch ?m1 ptr_outer 8"
    unfolding fetch_def using assms by (intro map_cong) (auto simp: at, metis)
  then have "get_indirect_pointer_value ptr_outer (get_indirect_pointer ptr_inner ptr_outer v m) = v"
    by (simp add: get_indirect_pointer_value_def g rd id)
  moreover have "get_indirect_pointer ptr_inner ptr_outer v m x = m x"
    if "\<forall>i < 8. x \<noteq> ptr_inner + word_of_nat i \<and> x \<noteq> ptr_outer + word_of_nat i" for x
    using that by (auto simp: g at)
  ultimately show ?thesis by blast
qed

lemma indirect_pointer_example:
  "get_indirect_pointer_value 0x2000 (get_indirect_pointer 0x1000 0x2000 7 (\<lambda>_. 0)) = 7"
proof -
  have "(0x1000 :: addr) + word_of_nat i \<noteq> 0x2000 + word_of_nat j" if "i < 8" "j < 8" for i j
  proof
    assume "(0x1000 :: addr) + word_of_nat i = 0x2000 + word_of_nat j"
    then have "unat ((0x1000 :: addr) + word_of_nat i) = unat ((0x2000 :: addr) + word_of_nat j)" by (rule arg_cong)
    then show False using that by (simp add: unat_add_of_nat)
  qed
  then show ?thesis using indirect_pointer_roundtrip [of "0x1000" "0x2000" 7 "\<lambda>_. 0"] by blast
qed

section \<open>Placement in the mapping\<close>

lemma unat_low_32: "unat (low_bits 32 y) = unat y mod 4294967296"
  unfolding low_bits_take by (simp only: unsigned_take_bit_eq) (simp add: take_bit_eq_mod)

text \<open>\<open>relocate\<close> moves the first segment to \<open>new_base\<close> and the others by the same distance.\<close>

lemma relocate_base:
  assumes "m_segments sh = first # rest" "distinct (first # rest)" "m_mask sh = get_mask 32" "m_align_bits sh = 32"
    and "mm \<noteq> 0"
  obtains sh' where "relocate mm sh = Inr sh'" "m_pos (seg sh' first) = new_base mm (m_pos (seg sh first)) 32"
    and "\<And>s. s \<in> set (first # rest) \<Longrightarrow>
      seg sh' s = (seg sh s)\<lparr>m_pos := m_pos (seg sh s) + (m_pos (seg sh' first) - m_pos (seg sh first))\<rparr>"
    and "\<And>s. s \<in> set (first # rest) \<Longrightarrow> low_bits 32 (m_pos (seg sh' s)) = low_bits 32 (m_pos (seg sh s))"
    and "\<And>s. s \<notin> set (first # rest) \<Longrightarrow> seg sh' s = seg sh s"
proof -
  obtain sh' off am where r: "relocate mm sh = Inr sh'"
    "sh' = sh\<lparr>seg := (\<lambda>s. if s \<in> set (first # rest) then apply_offset off (seg sh s) else seg sh s), m_mem := Some am\<rparr>"
    "\<And>x. low_bits 32 (x + off) = low_bits 32 x" "m_pos (seg sh first) + off = new_base mm (m_pos (seg sh first)) 32"
    by (rule relocate_ok [OF assms(1,2,5,3,4)]) (use that in \<open>simp add: new_base_def\<close>)
  have o: "new_base mm (m_pos (seg sh first)) 32 - m_pos (seg sh first) = off" unfolding r(4) [symmetric] by simp
  show thesis by (rule that [OF r(1)]) (simp_all add: r(2-4) o apply_offset_def)
qed

text \<open>
  C28. \<open>relocate\<close> succeeds on a mapping. The first segment moves into the first 4 GiB of the mapping and
  the other placed segments move by the same distance, so that each keeps its low 32 address bits and
  its content; the remaining segments stay. Excepted is a first segment whose low bits are all zero with
  a mapping that is not aligned to 4 GiB.
\<close>
theorem relocation_in_mapping:
  assumes "m_segments sh = first # rest" and "distinct (first # rest)"
    and "m_mask sh = get_mask 32" and "m_align_bits sh = 32"
    and "mm \<noteq> 0" and "unat mm + 8589934592 \<le> 18446744073709551616"
    and "low_bits 32 (m_pos (seg sh first)) \<noteq> 0 \<or> low_bits 32 mm = 0"
  shows "\<exists>sh'. relocate mm sh = Inr sh' \<and>
    unat mm \<le> unat (m_pos (seg sh' first)) \<and> unat (m_pos (seg sh' first)) < unat mm + 4294967296 \<and>
    (\<forall>s \<in> set (first # rest).
       seg sh' s = (seg sh s)\<lparr>m_pos := m_pos (seg sh s) + (m_pos (seg sh' first) - m_pos (seg sh first))\<rparr> \<and>
       low_bits 32 (m_pos (seg sh' s)) = low_bits 32 (m_pos (seg sh s))) \<and>
    (\<forall>s. s \<notin> set (first # rest) \<longrightarrow> seg sh' s = seg sh s)"
proof -
  let ?old = "m_pos (seg sh first)"
  obtain q r where mm: "unat mm = q * 4294967296 + r" "r < 4294967296"
    using that [of "unat mm div 4294967296" "unat mm mod 4294967296"] by simp
  obtain t where t: "unat ?old mod 4294967296 = t" "t < 4294967296" using that by simp
  have "t \<noteq> 0 \<or> r = 0"
    using assms(7) unat_low_32 [of ?old] unat_low_32 [of mm] mm t by (auto simp: unat_eq_zero unat_gt_0)
  moreover have "unat (new_base mm ?old 32) = (if r \<le> t \<or> t = 0 then q * 4294967296 + t else (q + 1) * 4294967296 + t)"
    by (rule new_base_cases [OF assms(6) mm t(1)])
  ultimately have "unat mm \<le> unat (new_base mm ?old 32) \<and> unat (new_base mm ?old 32) < unat mm + 4294967296"
    using mm t(2) by (auto split: if_splits)
  then show ?thesis by (metis relocate_base [OF assms(1-5)])
qed

definition ex_area :: "addr \<Rightarrow> shadow" where
  "ex_area a = (new_Shadow 32 0x400100 0x400120 (\<lambda>i. (make_Nop 1)\<lparr>m_pos := a + word_of_nat (16 * i)\<rparr>))\<lparr>m_segments := [0, 1]\<rparr>"

lemma ex_area_sel:
  "m_segments (ex_area a) = [0, 1]" "m_mask (ex_area a) = get_mask 32" "m_align_bits (ex_area a) = 32"
  "m_pos (seg (ex_area a) 0) = a"
  by (simp_all add: ex_area_def new_Shadow_def)

lemma relocation_in_mapping_witness:
  "\<exists>sh'. relocate 0x7f0000001000 (ex_area 0x4000ef) = Inr sh' \<and>
     low_bits 32 (m_pos (seg sh' 1)) = low_bits 32 (m_pos (seg (ex_area 0x4000ef) 1))"
proof -
  have "low_bits 32 (m_pos (seg (ex_area 0x4000ef) 0)) \<noteq> 0" unfolding ex_area_sel by (simp add: low_bits_def get_mask_def)
  then show ?thesis
    using relocation_in_mapping [OF ex_area_sel(1) _ ex_area_sel(2,3), of "0x7f0000001000" "0x4000ef"] by auto
qed

text \<open>
  C38. In the excepted case, low bits that are all zero and a mapping that is not aligned, the rounding adds
  the mask instead of the alignment: the first segment moves to the last multiple of 4 GiB in front of
  the mapping.
\<close>
theorem relocation_before_mapping:
  assumes "m_segments sh = first # rest" and "distinct (first # rest)"
    and "m_mask sh = get_mask 32" and "m_align_bits sh = 32"
    and "mm \<noteq> 0" and "unat mm + 8589934592 \<le> 18446744073709551616"
    and "low_bits 32 (m_pos (seg sh first)) = 0" and "low_bits 32 mm \<noteq> 0"
  shows "\<exists>sh'. relocate mm sh = Inr sh' \<and> m_pos (seg sh' first) < mm \<and>
    unat (m_pos (seg sh' first)) = unat mm div 4294967296 * 4294967296"
proof -
  let ?old = "m_pos (seg sh first)"
  obtain q r where mm: "unat mm = q * 4294967296 + r" "r < 4294967296"
    using that [of "unat mm div 4294967296" "unat mm mod 4294967296"] by simp
  have t: "unat ?old mod 4294967296 = 0" using assms(7) unat_low_32 [of ?old] by simp
  have "0 < r" using assms(8) unat_low_32 [of mm] mm by (cases r) (simp_all add: unat_eq_zero)
  moreover have b: "unat (new_base mm ?old 32) = q * 4294967296" using new_base_cases [OF assms(6) mm t] by simp
  ultimately have "new_base mm ?old 32 < mm" using mm by (simp add: word_less_nat_alt)
  moreover have "unat mm div 4294967296 = q" using mm by simp
  ultimately show ?thesis using b by (metis relocate_base [OF assms(1-5)])
qed

lemma relocation_before_mapping_witness:
  "\<exists>sh'. relocate 0x7f0000001000 (ex_area 0x100000000) = Inr sh' \<and> m_pos (seg sh' 0) < 0x7f0000001000"
proof -
  have "low_bits 32 (m_pos (seg (ex_area 0x100000000) 0)) = 0" "low_bits 32 (0x7f0000001000 :: addr) \<noteq> 0"
    unfolding ex_area_sel by (simp_all add: low_bits_def get_mask_def)
  then show ?thesis
    using relocation_before_mapping [OF ex_area_sel(1) _ ex_area_sel(2,3), of "0x7f0000001000" "0x100000000"] by auto
qed

section \<open>The jne shadow\<close>

text \<open>
  The bytes of the area in front of the source, without and with indirect targets; what a run reads
  as its input; and where the indirect pointers may lie: apart from each other and off the area.
\<close>

definition lead :: "bool \<Rightarrow> nat" where
  "lead indir = (if indir then 29 else 17)"

definition effective_input :: "bool \<Rightarrow> 32 word \<Rightarrow> 32 word \<Rightarrow> 32 word" where
  "effective_input indir stored input = (if indir then stored else input)"

definition pointers_fit :: "bool \<Rightarrow> addr \<times> addr \<Rightarrow> addr \<times> addr \<Rightarrow> addr \<Rightarrow> nat \<Rightarrow> bool" where
  "pointers_fit indir c1 c2 F n = (indir \<longrightarrow> cells_apart c1 c2 \<and> cells_clear c1 c2 F n)"

lemma pointers_fit_cells:
  assumes "prepare_attack S D x c1 c2 bs0 m0 = Inr (bs, m)" "pointers_fit (m_use_indirect_targets bs0) c1 c2 F n"
  shows "cells_ok (cell_of_input c1 bs) m" "cells_outside (cell_of_input c1 bs) F n"
    "cells_ok (cell_of_target t c2 bs) m" "cells_outside (cell_of_target t c2 bs) F n"
    "m_use_indirect_targets bs \<longrightarrow> m_indirect_shadow_input bs = snd c1 \<and> m_indirect_target_ptr bs = snd c2"
    "input_in (cell_of_input c1 bs) m input (effective_input (m_use_indirect_targets bs0) x input)"
proof -
  have use: "m_use_indirect_targets bs = m_use_indirect_targets bs0" using prepare_attack_ready [OF assms(1)] by simp
  have ap: "m_use_indirect_targets bs0 \<longrightarrow> cells_apart c1 c2" using assms(2) by (simp add: pointers_fit_def)
  show "cells_outside (cell_of_input c1 bs) F n" "cells_outside (cell_of_target t c2 bs) F n"
    using assms(2) cells_outside_clear [of F n "snd c1" "fst c1"] cells_outside_clear [of F n "snd c2" "fst c2"]
    by (auto simp: pointers_fit_def cells_clear_def cell_of_input_def cell_of_target_def use simp del: cells_outside.simps(2))
  show "cells_ok (cell_of_input c1 bs) m" "cells_ok (cell_of_target t c2 bs) m"
    "m_use_indirect_targets bs \<longrightarrow> m_indirect_shadow_input bs = snd c1 \<and> m_indirect_target_ptr bs = snd c2"
    "input_in (cell_of_input c1 bs) m input (effective_input (m_use_indirect_targets bs0) x input)"
    using prepare_attack_cells [OF assms(1) ap] by (simp_all add: effective_input_def)
qed

text \<open>The setup, in the terms of the driver.\<close>

definition jne_placeable :: "bool \<Rightarrow> addr \<times> addr \<Rightarrow> addr \<times> addr \<Rightarrow> addr \<Rightarrow> addr \<Rightarrow> addr \<Rightarrow> nat \<Rightarrow> bool" where
  "jne_placeable indir c1 c2 mm S D d \<longleftrightarrow>
     (let F = new_base mm (S - word_of_nat (lead indir)) 32; n = lead indir + d + 255 in
      unat D = unat S + d \<and> 9 \<le> d \<and> d \<le> 129 \<and> lead indir < unat S \<and> unat D < 140737488355328 \<and> mm \<noteq> 0 \<and>
      0 < unat F \<and> unat F + n < 18446744073709551616 \<and> pointers_fit indir c1 c2 F n)"

definition jne_done ::
  "bool \<Rightarrow> indirect \<Rightarrow> addr \<Rightarrow> addr \<Rightarrow> addr \<Rightarrow> nat \<Rightarrow> 32 word \<Rightarrow> (nat \<Rightarrow> addr) \<Rightarrow> segs \<Rightarrow> segs \<Rightarrow> shadow \<Rightarrow> memory \<Rightarrow> bool" where
  "jne_done b c F S D d x p h h0 sh' m' \<longleftrightarrow> jne_segments c h0 S d \<and>
    finished c F (jne_off c d) (jne_placed d S h0) jne_order p h m' \<and>
    m_finalized sh' \<and> m_segments sh' = jne_order \<and> m_entry_segment sh' = Some 4 \<and> m_mask sh' = get_mask 32 \<and>
    (\<forall>i. m_pos (seg sh' i) = p i \<and> (i \<in> set jne_order \<longrightarrow> kind (seg sh' i) = kind (h0 i))) \<and>
    low_bits 32 (p 6 + 2) = low_bits 32 S \<and> low_bits 32 (p 1) = low_bits 32 D \<and>
    (\<forall>input. input_in c m' input (effective_input b x input)) \<and>
    jne_base c = lead b \<and> 9 \<le> d \<and> d \<le> 129 \<and> unat F + (lead b + d + 255) < 18446744073709551616 \<and> input_cell c \<and>
    (\<forall>s \<in> set jne_order. unat (p s) = unat F + jne_off c d s)"

lemma jne_setup:
  assumes "prepare_attack S D x c1 c2 bs0 m0 = Inr (bs, m)" "jne_placeable (m_use_indirect_targets bs0) c1 c2 mm S D d"
    and "b = m_use_indirect_targets bs0" "c = cell_of_input c1 bs" "F = new_base mm (S - word_of_nat (lead b)) 32"
  shows "\<exists>bs' m' sh' p h h0. setup_jne_shadow mm bs m = Inr (p 4, bs', m') \<and> m_shadow bs' = Some sh' \<and>
    m_shadow_src bs' = p 6 + 2 \<and> jne_done b c F S D d x p h h0 sh' m'"
proof -
  let ?n = "lead b + d + 255"
  from prepare_attack_ready [OF assms(1)] have ready: "attack_ready bs S D"
    and use: "m_use_indirect_targets bs = b" using assms(3) by simp_all
  have base: "jne_base c = lead b" "jne_pre c + d + 272 = ?n"
    using use by (auto simp: assms(4) cell_of_input_def jne_base_def jne_pre_def lead_def)
  have pl: "unat D = unat S + d" "9 \<le> d" "d \<le> 129" "jne_base c < unat S" "unat D < 140737488355328" "mm \<noteq> 0"
    "0 < unat F" "unat F + (jne_pre c + d + 272) < 18446744073709551616"
    and fit: "pointers_fit (m_use_indirect_targets bs0) c1 c2 F ?n"
    using assms(2) unfolding assms(3,5) jne_placeable_def base Let_def by (simp_all add: assms(3))
  note cells = pointers_fit_cells [OF assms(1) fit]
  have F: "F = new_base mm (S - word_of_nat (jne_base c)) 32" using assms(5) base by simp
  have "m_use_indirect_targets bs \<longrightarrow> m_indirect_shadow_input bs = snd c1" using cells(5) by blast
  from setup_jne_ok [OF ready assms(4) this pl(1-6) F pl(7,8)] cells(1,2)
  obtain bs' m' sh' p h h0 where
    R: "setup_jne_shadow mm bs m = Inr (p 4, bs', m')"
    "m_shadow bs' = Some sh'" "m_shadow_src bs' = p 6 + 2" "jne_segments c h0 S d"
    and fin: "finished c F (jne_off c d) (jne_placed d S h0) jne_order p h m'"
    and sh: "m_finalized sh'" "m_segments sh' = jne_order" "m_entry_segment sh' = Some 4" "m_mask sh' = get_mask 32"
    and pk: "\<forall>i. m_pos (seg sh' i) = p i \<and> (i \<in> set jne_order \<longrightarrow> kind (seg sh' i) = kind (h0 i))"
    and low: "low_bits 32 (p 6 + 2) = low_bits 32 S" "low_bits 32 (p 1) = low_bits 32 D"
    and frame: "\<forall>x. \<not> inside F ?n x \<longrightarrow> m' x = m x"
    unfolding base(2) assms(4) [symmetric] by blast
  have "input_in c m' input (effective_input b x input)" for input
  proof (cases c)
    case None
    then show ?thesis using cells(6) [of input] by (simp add: input_in_def assms(3,4))
  next
    case (Some y)
    obtain tp ip t where c: "c = Some (tp, ip, t)" using Some by (cases y) auto
    have out: "\<not> inside F ?n z" if "in_cell ip z" for z using cells(2) c that unfolding assms(4) [symmetric] by auto
    have "code_at m' ip (le_bytes 4 (effective_input b x input)) = code_at m ip (le_bytes 4 (effective_input b x input))"
      using frame out by (intro code_at_cong) (simp_all add: in_cell_def)
    then show ?thesis using cells(6) [of input] c by (simp add: input_in_def assms(3) assms(4) [symmetric])
  qed
  moreover have "\<forall>s \<in> set jne_order. unat (p s) = unat F + jne_off c d s"
  proof
    fix s assume s: "s \<in> set jne_order"
    have "jne_off c d s \<le> jne_pre c + d + 272" by (auto simp: jne_off_def jne_pre_def)
    then have "unat (F + word_of_nat (jne_off c d s)) = unat F + jne_off c d s"
      using pl(8) by (intro unat_add_of_nat) simp
    then show "unat (p s) = unat F + jne_off c d s" using fin s by (simp add: finished_def)
  qed
  moreover have "input_cell c" by (simp add: assms(4) cell_of_input_def input_cell_def)
  ultimately have "jne_done b c F S D d x p h h0 sh' m'"
    unfolding jne_done_def using R(4) fin sh pk low base pl by simp
  with R show ?thesis by blast
qed

lemma jne_shadow_runs:
  assumes "prepare_attack S D x c1 c2 bs0 m0 = Inr (bs, m)" "jne_placeable (m_use_indirect_targets bs0) c1 c2 mm S D d"
  shows "\<exists>entry bs' m'. setup_jne_shadow mm bs m = Inr (entry, bs', m') \<and>
    low_bits 32 (m_shadow_src bs') = low_bits 32 S \<and>
    (\<forall>input. \<exists>fuel log. (\<forall>k \<ge> fuel. execute_ptr k m' entry input =
         Some (if odd (effective_input (m_use_indirect_targets bs0) x input) then 2 else 1, log)) \<and>
       ((\<exists>t. (m_shadow_src bs', t) \<in> set log) = odd (effective_input (m_use_indirect_targets bs0) x input)) \<and>
       (\<forall>t. (m_shadow_src bs', t) \<in> set log \<longrightarrow> low_bits 32 t = low_bits 32 D))"
proof -
  let ?b = "m_use_indirect_targets bs0" and ?c = "cell_of_input c1 bs"
  from jne_setup [OF assms refl refl refl] obtain bs' m' sh' p h h0 where
    R: "setup_jne_shadow mm bs m = Inr (p 4, bs', m')" "m_shadow_src bs' = p 6 + 2"
    and done_: "jne_done ?b ?c (new_base mm (S - word_of_nat (lead ?b)) 32) S D d x p h h0 sh' m'"
    by blast
  from done_ have seg: "jne_segments ?c h0 S d"
    and F: "finished ?c (new_base mm (S - word_of_nat (lead ?b)) 32) (jne_off ?c d) (jne_placed d S h0) jne_order p h m'"
    and low: "low_bits 32 (p 6 + 2) = low_bits 32 S" "low_bits 32 (p 1) = low_bits 32 D"
    and inp: "\<forall>input. input_in ?c m' input (effective_input ?b x input)"
    and d: "9 \<le> d" "d \<le> 129" and space: "unat (new_base mm (S - word_of_nat (lead ?b)) 32) + (lead ?b + d + 255) < 18446744073709551616"
    and ic: "input_cell ?c"
    and u: "\<forall>s \<in> set jne_order. unat (p s) = unat (new_base mm (S - word_of_nat (lead ?b)) 32) + jne_off ?c d s"
    unfolding jne_done_def by - (elim conjE, assumption)+
  have g: "jne_gap d \<le> 60" "2 * jne_gap d \<le> d - 9" using d by (simp_all add: jne_gap_def)
  let ?F = "new_base mm (S - word_of_nat (lead ?b)) 32"
  have p6: "unat (p 6 + 2) = unat ?F + jne_pre ?c + 17"
    using u space by (subst unat_plus_small) (simp_all add: jne_order_def jne_off_def jne_pre_def lead_def)
  have other: "p 7 \<noteq> p 6 + 2" "p 9 \<noteq> p 6 + 2" "p 8 \<noteq> p 6 + 2"
    using p6 u g d by (auto simp: jne_order_def jne_off_def)
  have "\<exists>fuel log. (\<forall>k \<ge> fuel. execute_ptr k m' (p 4) input = Some (if odd (effective_input ?b x input) then 2 else 1, log)) \<and>
       ((\<exists>t. (p 6 + 2, t) \<in> set log) = odd (effective_input ?b x input)) \<and> (\<forall>t. (p 6 + 2, t) \<in> set log \<longrightarrow> low_bits 32 t = low_bits 32 D)"
    for input :: "32 word"
  proof -
    let ?st = "\<lparr>rip = p 4, eax = input, r13 = 0, r14 = 0, zf = False, taken = []\<rparr>" and ?v = "effective_input ?b x input"
    have "input_in ?c m' (eax ?st) ?v" using inp by simp
    from jne_runs [OF seg d F ic this] obtain st' where
      run: "reaches m' (Running ?st) (Finished st')" "eax st' = (if odd ?v then 2 else 1)"
      and log: "taken st' = (if odd ?v then [(p 7, p 6), (p 6 + 2, p 1), (p 9, p 3)] else [(p 7, p 6), (p 8, p 2)])"
      by auto
    from reaches_execute [OF run(1)] obtain fuel where
      "\<forall>k \<ge> fuel. execute_ptr k m' (p 4) input = Some (eax st', taken st')" by auto
    with run(2) log other low(2) show ?thesis
      by (intro exI [of _ fuel] exI [of _ "taken st'"]) auto
  qed
  with R(1,2) low(1) show ?thesis by (intro exI [of _ "p 4"] exI [of _ bs'] exI [of _ m']) simp
qed

text \<open>
  C10. For a forward branch of 9 to 129 bytes the setup succeeds; the shadow branch has the low 32
  address bits of the victim's branch; the code returns 2 for odd and 1 for even inputs; and it
  takes the shadow branch exactly for odd inputs, to an address with the low bits of the victim's
  destination. Without indirect targets the input is the argument of the run, with indirect
  targets, the default, it is the value stored when the attack was prepared.
\<close>
theorem jne_shadow_correct:
  assumes "prepare_attack S D x c1 c2 bs0 m0 = Inr (bs, m)" "jne_placeable (m_use_indirect_targets bs0) c1 c2 mm S D d"
  shows "\<exists>entry bs' m'. setup_jne_shadow mm bs m = Inr (entry, bs', m') \<and>
    low_bits 32 (m_shadow_src bs') = low_bits 32 S \<and>
    (\<forall>input. \<exists>fuel log. (\<forall>k \<ge> fuel. execute_ptr k m' entry input =
         Some (if odd (effective_input (m_use_indirect_targets bs0) x input) then 2 else 1, log)) \<and>
       ((\<exists>t. (m_shadow_src bs', t) \<in> set log) = odd (effective_input (m_use_indirect_targets bs0) x input)) \<and>
       (\<forall>t. (m_shadow_src bs', t) \<in> set log \<longrightarrow> low_bits 32 t = low_bits 32 D))"
  by (rule jne_shadow_runs [OF assms])

lemma ex_placeable:
  "jne_placeable (m_use_indirect_targets (ex_bs indir)) (0x500000, 0x500010) (0x500020, 0x500030)
     0x7f0000001000 0x400100 0x400120 32"
  using ex_base
  by (cases indir)
     (simp_all add: jne_placeable_def ex_bs_def lead_def pointers_fit_def cells_apart_def cells_clear_def
       apart_def clear_of_def Let_def)

lemma jne_shadow_correct_witness:
  "\<exists>bs m entry bs' m' fuel log.
    prepare_attack 0x400100 0x400120 7 (0x500000, 0x500010) (0x500020, 0x500030) (ex_bs True) (\<lambda>_. 0) = Inr (bs, m) \<and>
    setup_jne_shadow 0x7f0000001000 bs m = Inr (entry, bs', m') \<and>
    low_bits 32 (m_shadow_src bs') = low_bits 32 0x400100 \<and> execute_ptr fuel m' entry 0 = Some (2, log)"
proof -
  from ex_prepare obtain bs m where
    p: "prepare_attack 0x400100 0x400120 7 (0x500000, 0x500010) (0x500020, 0x500030) (ex_bs True) (\<lambda>_. 0) = Inr (bs, m)"
    by blast
  have "odd (effective_input (m_use_indirect_targets (ex_bs True)) 7 0)"
    by (simp add: effective_input_def ex_bs_def)
  note eff = this
  from jne_shadow_correct [OF p ex_placeable] obtain entry bs' m' where
    R: "setup_jne_shadow 0x7f0000001000 bs m = Inr (entry, bs', m')" "low_bits 32 (m_shadow_src bs') = low_bits 32 0x400100"
    and run: "\<exists>fuel log. (\<forall>k \<ge> fuel. execute_ptr k m' entry 0 =
      Some (if odd (effective_input (m_use_indirect_targets (ex_bs True)) 7 0) then 2 else 1, log))" by blast
  from run eff obtain fuel log where "\<forall>k \<ge> fuel. execute_ptr k m' entry 0 = Some (2, log)" by auto
  with p R show ?thesis by blast
qed

lemma jne_at_source:
  assumes "prepare_attack S D x c1 c2 bs0 m0 = Inr (bs, m)" "jne_placeable (m_use_indirect_targets bs0) c1 c2 mm S D d"
    and "4294967296 \<le> unat (new_base mm (S - word_of_nat (lead (m_use_indirect_targets bs0))) 32)"
  shows "\<exists>entry bs' sh' m'. setup_jne_shadow mm bs m = Inr (entry, bs', m') \<and> m_shadow bs' = Some sh' \<and>
    get_aligned_ptr S sh' = Inr (m_shadow_src bs') \<and> is_jne (m_shadow_src bs') m' \<and> m_shadow_src bs' \<noteq> 0"
proof -
  let ?b = "m_use_indirect_targets bs0" and ?c = "cell_of_input c1 bs"
  define A where "A = new_base mm (S - word_of_nat (lead ?b)) 32"
  have S: "S \<noteq> 0" using prepare_attack_ready [OF assms(1)] by simp
  from jne_setup [OF assms(1,2) refl refl A_def] obtain bs' m' sh' p h h0 where
    R: "setup_jne_shadow mm bs m = Inr (p 4, bs', m')" "m_shadow bs' = Some sh'" "m_shadow_src bs' = p 6 + 2"
    and done_: "jne_done ?b ?c A S D d x p h h0 sh' m'"
    by blast
  from done_ have seg: "jne_segments ?c h0 S d"
    and F: "finished ?c A (jne_off ?c d) (jne_placed d S h0) jne_order p h m'"
    and sh: "m_finalized sh'" "m_segments sh' = jne_order" "m_entry_segment sh' = Some 4" "m_mask sh' = get_mask 32"
    and pk: "\<forall>i. m_pos (seg sh' i) = p i \<and> (i \<in> set jne_order \<longrightarrow> kind (seg sh' i) = kind (h0 i))"
    and low: "low_bits 32 (p 6 + 2) = low_bits 32 S"
    and base: "jne_base ?c = lead ?b" and d: "d \<le> 129"
    and space: "unat A + (lead ?b + d + 255) < 18446744073709551616"
    unfolding jne_done_def by - (elim conjE, assumption)+
  have p: "p s = A + word_of_nat (jne_off ?c d s)" if "s \<in> set jne_order" for s
    using F that by (simp add: finished_def)
  have pre: "jne_pre ?c + 17 = lead ?b" "lead ?b \<le> 29" using base by (simp_all add: jne_base_def lead_def)
  have mem: "3 \<in> set jne_order" "4 \<in> set jne_order" "6 \<in> set jne_order" by (simp_all add: jne_order_def)
  have src: "p 6 + 2 = A + word_of_nat (lead ?b)"
    unfolding pre(1) [symmetric] using p [OF mem(3)] by (simp add: jne_off_def)
  have "get_aligned_ptr S sh' = Inr (A + word_of_nat (lead ?b))"
  proof (rule aligned_ptr_value [OF sh(1,3,4)])
    show "m_segments sh' = 4 # [5, 7, 6, 0, 8, 1, 9, 2, 3]" using sh(2) by (simp add: jne_order_def)
    show "m_pos (seg sh' 4) = A" "m_pos (seg sh' 4) = A" using pk p [OF mem(2)] by (simp_all add: jne_off_def)
    have "size_of h0 3 = 121" using jne_sizes(10) [OF seg] .
    then show "get_end (seg sh' (last (4 # [5, 7, 6, 0, 8, 1, 9, 2, 3]))) = A + word_of_nat (lead ?b + d + 255)"
      unfolding pre(1) [symmetric]
      using pk p [OF mem(1)] mem(1) by (simp add: get_end_def get_size_seg_def size_of_def jne_off_def)
    show "low_bits 32 (A + word_of_nat (lead ?b)) = low_bits 32 S" using low src by simp
  qed (use assms(3) [folded A_def] S pre d space in simp_all)
  moreover have "is_jne (p 6 + 2) m'"
  proof -
    have "area ?c p h jne_order m'" using F by (simp add: finished_def)
    from area_code [OF this mem(3)] have c: "code_at m' (p 6) (seg_code ?c p h 6)" .
    have "kind (h 6) = SegJneEaxZero (Some 1)"
      using F mem(3) jne_placed_sel(1) [OF seg mem(3)] seg by (simp add: finished_def jne_segments_def)
    then have "seg_code ?c p h 6 = [0x85, 0xc0, 0x75, ucast (p 1 - get_end (h 6))]"
      by (simp add: seg_code_def size_of_def)
    with c show ?thesis by (simp add: is_jne_def add.assoc)
  qed
  moreover have "unat (A + word_of_nat (lead ?b)) = unat A + lead ?b" using space by (intro unat_add_of_nat) simp
  then have "unat (p 6 + 2) \<noteq> 0" unfolding src using assms(3) [folded A_def] by linarith
  then have "p 6 + 2 \<noteq> 0" by (metis unat_0)
  ultimately show ?thesis using R src by auto
qed

text \<open>
  C20. After the setup, the address the victim's branch is looked up at is the address of the shadow
  branch, and a jne instruction is there; so the assertion of \<open>t1_run_jne\<close> holds.
\<close>
theorem jne_at_aligned_source:
  assumes "prepare_attack S D x c1 c2 bs0 m0 = Inr (bs, m)" "jne_placeable (m_use_indirect_targets bs0) c1 c2 mm S D d"
    and "4294967296 \<le> unat (new_base mm (S - word_of_nat (lead (m_use_indirect_targets bs0))) 32)"
  shows "\<exists>entry bs' sh' m'. setup_jne_shadow mm bs m = Inr (entry, bs', m') \<and> m_shadow bs' = Some sh' \<and>
    get_aligned_ptr S sh' = Inr (m_shadow_src bs') \<and> is_jne (m_shadow_src bs') m'"
  using jne_at_source [OF assms] by blast

lemma jne_at_aligned_source_witness:
  "\<exists>bs m entry bs' sh' m'.
    prepare_attack 0x400100 0x400120 7 (0x500000, 0x500010) (0x500020, 0x500030) (ex_bs True) (\<lambda>_. 0) = Inr (bs, m) \<and>
    setup_jne_shadow 0x7f0000001000 bs m = Inr (entry, bs', m') \<and>
    m_shadow bs' = Some sh' \<and> get_aligned_ptr 0x400100 sh' = Inr (m_shadow_src bs') \<and> is_jne (m_shadow_src bs') m'"
proof -
  from ex_prepare obtain bs m where
    p: "prepare_attack 0x400100 0x400120 7 (0x500000, 0x500010) (0x500020, 0x500030) (ex_bs True) (\<lambda>_. 0) = Inr (bs, m)"
    by blast
  have "4294967296 \<le> unat (new_base 0x7f0000001000 (0x400100 - word_of_nat (lead (m_use_indirect_targets (ex_bs True)))) 32)"
    using ex_base by (simp add: lead_def ex_bs_def)
  from jne_at_aligned_source [OF p ex_placeable this] p show ?thesis by blast
qed

end
