(* ===== verification/BtbFlush.thy ===== *)
theory BtbFlush
  imports ShadowProps
begin

text \<open>
  \<open>misc/BpuUtils.cpp\<close>: the code that is executed to clear the branch predictor before an
  attack. The calls of the code generated here are runs of \<open>xrun\<close> limited by \<open>fuel\<close>; the
  taken jumps are collected. What \<open>mmap\<close> and \<open>rand\<close> return is an argument.
\<close>

section \<open>The jump slide\<close>

definition slot :: "byte list" where
  "slot = [0xeb, 0x02, 0xeb, 0x02, 0xeb, 0xfc]"

text \<open>
  The inner loop: \<open>i\<close> is an \<open>int\<close> that stays far below its limit for the slides used;
  \<open>bound\<close> is \<open>jump_size - 6\<close>, computed without sign.
\<close>

function fill_slide :: "addr \<Rightarrow> nat \<Rightarrow> nat \<Rightarrow> memory \<Rightarrow> memory" where
  "fill_slide p i bound m =
     (if i < bound then fill_slide p (i + 6) bound (write_bytes (p + word_of_nat i) (slot @ [0xc3]) m) else m)"
  by auto
termination by (relation "measure (\<lambda>(p, i, bound, m). bound - i)") auto

declare fill_slide.simps [simp del]

type_synonym jumps = "(addr \<times> addr) list"

definition call_code :: "nat \<Rightarrow> memory \<Rightarrow> addr \<Rightarrow> 32 word \<Rightarrow> jumps res" where
  "call_code fuel m entry a =
     (case execute_ptr fuel m entry a of None \<Rightarrow> Inl OutOfFuel | Some (_, js) \<Rightarrow> Inr js)"

definition map_aligned :: "addr \<Rightarrow> addr \<Rightarrow> 64 word \<Rightarrow> addr res" where
  "map_aligned mmap_result target sz =
     bind_res (allocate mmap_result (AlignedMem target sz lbr_entry_bits)) (\<lambda>(ok, am).
       if ok then as_ptr am else Inl Abort)"

text \<open>The two rounds of the outer loop, for \<open>offset\<close> 0 and 1.\<close>

definition do_sequential_jumps ::
  "nat \<Rightarrow> addr \<Rightarrow> 64 word \<Rightarrow> addr \<Rightarrow> memory \<Rightarrow> (jumps \<times> memory) res" where
  "do_sequential_jumps fuel mmap_result entries target m =
     (let jump_size = entries * 6; bound = unat (jump_size - 6) in
      bind_res (map_aligned mmap_result target (jump_size + 20)) (\<lambda>p.
        let m0 = fill_slide p 0 bound m in
        bind_res (call_code fuel m0 p 0) (\<lambda>js0.
          let m1 = fill_slide p 1 bound m0 in
          bind_res (call_code fuel m1 (p + 1) 0) (\<lambda>js1. Inr (js0 @ js1, m1)))))"

section \<open>Repeated jumps\<close>

definition repeat_func :: "byte list" where
  "repeat_func = [0x83, 0xe0, 0x01, 0x85, 0xc0, 0x75, 0x07,
     0x48, 0xc7, 0xc1, 0x01, 0x00, 0x00, 0x00, 0x48, 0xc7, 0xc1, 0x02, 0x00, 0x00, 0x00, 0xc3]"

text \<open>The length \<open>strlen\<close> finds: the bytes before the first zero.\<close>

definition strlen :: "byte list \<Rightarrow> nat" where
  "strlen bs = length (takeWhile (\<lambda>b. b \<noteq> 0) bs)"

text \<open>The inner loop runs while \<open>i\<close>, shifted from \<open>RAND_MAX\<close>, is positive.\<close>

fun repeat_bits :: "nat \<Rightarrow> memory \<Rightarrow> addr \<Rightarrow> nat \<Rightarrow> 32 word \<Rightarrow> jumps res" where
  "repeat_bits fuel m p i val =
     (if i > 0 then
        bind_res (call_code fuel m p val) (\<lambda>js.
        bind_res (repeat_bits fuel m p (i div 2) (drop_bit 1 val)) (\<lambda>js'. Inr (js @ js')))
      else Inr [])"

declare repeat_bits.simps [simp del]

fun repeat_rounds :: "nat \<Rightarrow> memory \<Rightarrow> addr \<Rightarrow> 32 word list \<Rightarrow> jumps res" where
  "repeat_rounds fuel m p [] = Inr []"
| "repeat_rounds fuel m p (v # vs) =
     bind_res (repeat_bits fuel m p 2147483647 v) (\<lambda>js.
     bind_res (repeat_rounds fuel m p vs) (\<lambda>js'. Inr (js @ js')))"

definition do_repeated_jumps ::
  "nat \<Rightarrow> addr \<Rightarrow> (nat \<Rightarrow> 32 word) \<Rightarrow> addr \<Rightarrow> memory \<Rightarrow> (jumps \<times> memory) res" where
  "do_repeated_jumps fuel mmap_result rand target m =
     bind_res (map_aligned mmap_result target (word_of_nat (strlen repeat_func))) (\<lambda>p.
       let m1 = write_bytes p repeat_func m in
       bind_res (repeat_rounds fuel m1 p (map rand [0..<10])) (\<lambda>js. Inr (js, m1)))"

definition ASSUMED_BTB_ENTRY_COUNT :: "64 word" where
  "ASSUMED_BTB_ENTRY_COUNT = 8192"

definition mess_btb ::
  "nat \<Rightarrow> addr \<times> addr \<Rightarrow> (nat \<Rightarrow> 32 word) \<Rightarrow> addr \<Rightarrow> memory \<Rightarrow> (jumps \<times> memory) res" where
  "mess_btb fuel maps rand target m =
     bind_res (assert_res ''make sure target is not NULL'' (target \<noteq> 0)) (\<lambda>_.
     bind_res (do_sequential_jumps fuel (fst maps) ASSUMED_BTB_ENTRY_COUNT (target - 128) m) (\<lambda>(js, m1).
     bind_res (do_repeated_jumps fuel (snd maps) rand target m1) (\<lambda>(js', m2). Inr (js @ js', m2))))"

section \<open>The bytes of the slide\<close>

lemma unat_minus_6:
  fixes w :: addr
  shows "unat (w - 6) = (if 6 \<le> unat w then unat w - 6 else unat w + 18446744073709551610)"
proof -
  show ?thesis
  proof (cases "6 \<le> unat w")
    case True
    then have "(6 :: addr) \<le> w" by (simp add: word_le_nat_alt)
    then show ?thesis using True by (simp add: unat_sub)
  next
    case False
    then have "unat w \<in> {0, 1, 2, 3, 4, 5}" by auto
    then show ?thesis by (auto dest!: word_of_natI)
  qed
qed

lemma length_slot [simp]: "length slot = 6"
  by (simp add: slot_def)

lemma fill_slide_at:
  assumes "i + 6 * n < bound + 6" "bound \<le> i + 6 * n" "6 * n < 18446744073709551000"
  shows "fill_slide p i bound m x =
    (let d = unat (x - (p + word_of_nat i)) in
     if d < 6 * n then slot ! (d mod 6) else if d = 6 * n \<and> n > 0 then 0xc3 else m x)"
  using assms
proof (induction n arbitrary: i m)
  case 0
  then show ?case by (subst fill_slide.simps) simp
next
  case (Suc n)
  let ?m = "write_bytes (p + word_of_nat i) (slot @ [0xc3]) m"
  let ?d = "unat (x - (p + word_of_nat i))"
  have "x - (p + word_of_nat (i + 6)) = (x - (p + word_of_nat i)) - 6" by simp
  then have d: "unat (x - (p + word_of_nat (i + 6))) = (if 6 \<le> ?d then ?d - 6 else ?d + 18446744073709551610)"
    by (simp only: unat_minus_6)
  have m: "?m x = (if ?d < 7 then (slot @ [0xc3]) ! ?d else m x)"
    by (subst write_bytes_at) (simp_all add: slot_def)
  have "i < bound" using Suc.prems by simp
  then have "fill_slide p i bound m x = fill_slide p (i + 6) bound ?m x"
    by (subst fill_slide.simps) simp
  also have "\<dots> = (let d = unat (x - (p + word_of_nat (i + 6))) in
     if d < 6 * n then slot ! (d mod 6) else if d = 6 * n \<and> n > 0 then 0xc3 else ?m x)"
    using Suc.prems by (intro Suc.IH) simp_all
  also have "\<dots> = (if ?d < 6 * Suc n then slot ! (?d mod 6) else if ?d = 6 * Suc n \<and> Suc n > 0 then 0xc3 else m x)"
  proof (cases "6 \<le> ?d")
    case True
    then have "(?d - 6) mod 6 = ?d mod 6" by (simp add: le_mod_geq)
    with True show ?thesis unfolding d m Let_def
      by (cases "?d = 6") (auto simp: slot_def nth_append)
  next
    case False
    then have "(slot @ [0xc3]) ! ?d = slot ! (?d mod 6)" by (simp add: nth_append)
    with False Suc.prems(3) show ?thesis unfolding d m Let_def by simp
  qed
  finally show ?case by (simp only: Let_def)
qed

section \<open>Running the slide\<close>

definition slot_jumps :: "addr \<Rightarrow> jumps" where
  "slot_jumps a = [(a, a + 4), (a + 4, a + 2), (a + 2, a + 6)]"

definition slide_jumps :: "addr \<Rightarrow> nat \<Rightarrow> jumps" where
  "slide_jumps q n = concat (map (\<lambda>k. slot_jumps (q + word_of_nat (6 * k))) [0..<n])"

lemma scast_fc: "(scast (0xfc :: byte) :: addr) = - 4"
  by code_simp

lemma scast_2: "(scast (2 :: byte) :: addr) = 2"
  by code_simp

lemma run_slot:
  assumes "code_at m (rip s) slot"
  shows "reaches m (Running s) (Running (s\<lparr>taken := taken s @ slot_jumps (rip s), rip := rip s + 6\<rparr>))"
proof -
  let ?a = "rip s"
  let ?s1 = "jump_to (?a + 4) s" and ?s2 = "jump_to (?a + 2) (jump_to (?a + 4) s)"
  have c: "code_at m ?a [0xeb, 0x02]" "code_at m (?a + 2) [0xeb, 0x02]" "code_at m (?a + 4) [0xeb, 0xfc]"
    using assms by (simp_all add: slot_def add.assoc)
  have "reaches m (Running s) (Running ?s1)"
    using c(1) by (intro reaches_step) (simp add: step_jmp add.commute)
  also have "reaches m (Running ?s1) (Running ?s2)"
    using c(3) step_jmp [of m ?s1 "0xfc"]
    by (intro reaches_step) (simp only: scast_fc, simp add: jump_to_def)
  also have "reaches m (Running ?s2) (Running (jump_to (?a + 6) ?s2))"
    using c(2) step_jmp [of m ?s2 2]
    by (intro reaches_step) (simp only: scast_2, simp add: jump_to_def)
  also have "jump_to (?a + 6) ?s2 = s\<lparr>taken := taken s @ slot_jumps ?a, rip := ?a + 6\<rparr>"
    by (simp add: jump_to_def slot_jumps_def)
  finally show ?thesis .
qed

lemma run_slots:
  assumes "\<And>k. k < n \<Longrightarrow> code_at m (rip s + word_of_nat (6 * k)) slot"
  shows "reaches m (Running s) (Running (s\<lparr>taken := taken s @ slide_jumps (rip s) n, rip := rip s + word_of_nat (6 * n)\<rparr>))"
  using assms
proof (induction n)
  case 0
  then show ?case by (simp add: slide_jumps_def)
next
  case (Suc n)
  let ?s = "s\<lparr>taken := taken s @ slide_jumps (rip s) n, rip := rip s + word_of_nat (6 * n)\<rparr>"
  have "reaches m (Running s) (Running ?s)" using Suc by simp
  also have "reaches m (Running ?s) (Running (?s\<lparr>taken := taken ?s @ slot_jumps (rip ?s), rip := rip ?s + 6\<rparr>))"
    using Suc.prems [of n] by (intro run_slot) simp
  also have "?s\<lparr>taken := taken ?s @ slot_jumps (rip ?s), rip := rip ?s + 6\<rparr> =
      s\<lparr>taken := taken s @ slide_jumps (rip s) (Suc n), rip := rip s + word_of_nat (6 * Suc n)\<rparr>"
    by (simp add: slide_jumps_def)
  finally show ?case .
qed

lemma slide_code:
  assumes "i + 6 * n < bound + 6" "bound \<le> i + 6 * n" "6 * n < 18446744073709551000" "0 < n"
  shows "k < n \<Longrightarrow> code_at (fill_slide p i bound m) (p + word_of_nat i + word_of_nat (6 * k)) slot"
    and "fill_slide p i bound m (p + word_of_nat i + word_of_nat (6 * n)) = 0xc3"
proof -
  have at: "fill_slide p i bound m (p + word_of_nat i + word_of_nat d) =
      (if d < 6 * n then slot ! (d mod 6) else 0xc3)" if "d \<le> 6 * n" for d
  proof -
    have "unat (p + word_of_nat i + word_of_nat d - (p + word_of_nat i)) = d"
      using that assms(3) by (simp only: add_diff_cancel_left') (simp add: unat_of_small)
    then show ?thesis using that assms(4) by (subst fill_slide_at [OF assms(1-3)]) (simp only: Let_def, simp)
  qed
  from at [of "6 * n"] show "fill_slide p i bound m (p + word_of_nat i + word_of_nat (6 * n)) = 0xc3"
    by simp
  assume "k < n"
  show "code_at (fill_slide p i bound m) (p + word_of_nat i + word_of_nat (6 * k)) slot"
    unfolding code_at_def
  proof (intro allI impI)
    fix j
    assume j: "j < length slot"
    then have "6 * k + j < 6 * n" using \<open>k < n\<close> by simp
    moreover have "(6 * k + j) mod 6 = j" using j by simp
    ultimately show "fill_slide p i bound m (p + word_of_nat i + word_of_nat (6 * k) + word_of_nat j) = slot ! j"
      using at [of "6 * k + j"] by (simp add: add.assoc)
  qed
qed

lemma call_slide:
  assumes "i + 6 * n < bound + 6" "bound \<le> i + 6 * n" "6 * n < 18446744073709551000" "0 < n"
  shows "\<exists>fuel. \<forall>k \<ge> fuel. call_code k (fill_slide p i bound m) (p + word_of_nat i) x =
    Inr (slide_jumps (p + word_of_nat i) n)"
proof -
  let ?m = "fill_slide p i bound m" and ?q = "p + word_of_nat i"
  let ?s = "\<lparr>rip = ?q, eax = x, r13 = 0, r14 = 0, zf = False, taken = []\<rparr>"
  let ?t = "?s\<lparr>taken := slide_jumps ?q n, rip := ?q + word_of_nat (6 * n)\<rparr>"
  have "reaches ?m (Running ?s) (Running ?t)"
    using run_slots [of n ?m ?s] slide_code(1) [OF assms] by simp
  also have "reaches ?m (Running ?t) (Finished ?t)"
    using slide_code(2) [OF assms] by (intro reaches_step step_ret) simp
  finally show ?thesis using reaches_execute [of ?m ?q x] by (fastforce simp: call_code_def)
qed

end
