(* ===== verification/BtbProps.thy ===== *)
theory BtbProps
  imports BtbFlush
begin

text \<open>
  What clearing the branch predictor does: the jumps that are executed, and that one of them has an
  address the predictor cannot tell from the address of the victim's branch.
\<close>

section \<open>The sources of the slide\<close>

definition slide_offsets :: "nat \<Rightarrow> nat list" where
  "slide_offsets n = concat (map (\<lambda>k. [6 * k, 6 * k + 4, 6 * k + 2]) [0..<n])"

lemma slide_sources: "map fst (slide_jumps q n) = map (\<lambda>j. q + word_of_nat j) (slide_offsets n)"
  by (induction n) (simp_all add: slide_jumps_def slide_offsets_def slot_jumps_def algebra_simps)

lemma length_slide_offsets [simp]: "length (slide_offsets n) = 3 * n"
  by (induction n) (simp_all add: slide_offsets_def)

lemma set_slide_offsets: "set (slide_offsets n @ map Suc (slide_offsets n)) = {..<6 * n}"
proof (induction n)
  case (Suc n)
  define A where "A = slide_offsets n"
  define a where "a = 6 * n"
  have "slide_offsets (Suc n) = A @ [a, a + 4, a + 2]"
    by (simp add: slide_offsets_def A_def a_def)
  then have "set (slide_offsets (Suc n) @ map Suc (slide_offsets (Suc n))) =
      set (A @ map Suc A) \<union> {a, Suc a, a + 2, Suc (a + 2), a + 4, Suc (a + 4)}"
    by (simp only: set_append set_map image_Un list.set image_insert image_empty) blast
  also have "\<dots> = {..<a} \<union> {a, Suc a, a + 2, Suc (a + 2), a + 4, Suc (a + 4)}"
    by (simp only: A_def a_def Suc)
  also have "\<dots> = {..<6 * Suc n}" by (rule set_eqI) (simp add: a_def, arith)
  finally show ?case .
qed (simp add: slide_offsets_def)

lemma distinct_slide_offsets: "distinct (slide_offsets n @ map Suc (slide_offsets n))"
  by (rule card_distinct) (simp only: set_slide_offsets, simp)

lemma slide_sources_both:
  "map fst (slide_jumps p n @ slide_jumps (p + 1) n) =
     map (\<lambda>j. p + word_of_nat j) (slide_offsets n @ map Suc (slide_offsets n))"
  by (simp add: slide_sources algebra_simps)

lemma inj_offset: "n \<le> 18446744073709551616 \<Longrightarrow> inj_on (\<lambda>j. p + word_of_nat j :: addr) {..<n}"
proof (rule inj_onI)
  fix i j
  assume ij: "i \<in> {..<n}" "j \<in> {..<n}" "n \<le> 18446744073709551616"
    and "p + word_of_nat i = p + word_of_nat j"
  then have "unat (word_of_nat i :: addr) = unat (word_of_nat j :: addr)" by simp
  moreover have "unat (word_of_nat i :: addr) = i" using ij by (intro unat_of_small) simp
  moreover have "unat (word_of_nat j :: addr) = j" using ij by (intro unat_of_small) simp
  ultimately show "i = j" by simp
qed

lemma slide_sources_distinct:
  assumes "6 * n \<le> 18446744073709551616"
  shows "distinct (map fst (slide_jumps p n @ slide_jumps (p + 1) n))"
  unfolding slide_sources_both distinct_map set_slide_offsets
  using distinct_slide_offsets inj_offset [OF assms] by blast

lemma slide_sources_set:
  "fst ` set (slide_jumps p n @ slide_jumps (p + 1) n) = (\<lambda>j. p + word_of_nat j) ` {..<6 * n}"
  using arg_cong [OF slide_sources_both [of p n], of set] by (simp only: set_map set_slide_offsets)

section \<open>The slide runs\<close>

lemma map_aligned_value:
  "mm \<noteq> 0 \<Longrightarrow> map_aligned mm target sz = Inr (entry_of mm target (mask 32))"
  by (simp add: map_aligned_def allocate_def AlignedMem_def as_ptr_def lbr_entry_bits_def Let_def
      mask_eq_exp_minus_1 push_bit_eq_mult)

lemma do_sequential_jumps_runs:
  assumes mm: "mm \<noteq> 0" and two: "2 \<le> unat entries" and most: "unat entries \<le> 134217728"
    and p: "p = entry_of mm target (mask 32)" and n: "n = unat entries - 1"
  shows "\<exists>m' fuel. \<forall>k \<ge> fuel. do_sequential_jumps k mm entries target m =
    Inr (slide_jumps p n @ slide_jumps (p + 1) n, m')"
proof -
  have js: "unat (entries * 6) = unat entries * 6"
    using most by (intro trans [OF unat_mult_small]) simp_all
  then have "(6 :: addr) \<le> entries * 6" using two by (simp add: word_le_nat_alt)
  then have bound: "unat (entries * 6 - 6) = 6 * n" using js by (simp add: unat_sub n)
  let ?m0 = "fill_slide p 0 (6 * n) m"
  let ?m1 = "fill_slide p 1 (6 * n) ?m0"
  have small: "6 * n < 18446744073709551000" "0 < n" using two most by (auto simp: n)
  obtain f0 where f0: "\<forall>k \<ge> f0. call_code k ?m0 p 0 = Inr (slide_jumps p n)"
    using call_slide [of 0 n "6 * n" p m 0] small by auto
  obtain f1 where f1: "\<forall>k \<ge> f1. call_code k ?m1 (p + 1) 0 = Inr (slide_jumps (p + 1) n)"
    using call_slide [of 1 n "6 * n" p ?m0 0] small by auto
  have "do_sequential_jumps k mm entries target m = Inr (slide_jumps p n @ slide_jumps (p + 1) n, ?m1)"
    if "k \<ge> max f0 f1" for k
    using that f0 f1 map_aligned_value [OF mm, of target]
    by (simp add: do_sequential_jumps_def Let_def bound p)
  then show ?thesis by blast
qed

text \<open>
  C19. With between 2 and 2^27 entries the two passes over the slide return after executing exactly
  one taken jump at each of the \<open>6 * (entries - 1)\<close> consecutive addresses from its start.
\<close>
theorem do_sequential_jumps_covers:
  assumes "mm \<noteq> 0" "2 \<le> unat entries" "unat entries \<le> 134217728"
  shows "\<exists>js m' fuel. (\<forall>k \<ge> fuel. do_sequential_jumps k mm entries target m = Inr (js, m')) \<and>
    distinct (map fst js) \<and>
    fst ` set js = (\<lambda>j. entry_of mm target (mask 32) + word_of_nat j) ` {..<6 * (unat entries - 1)}"
proof -
  let ?n = "unat entries - 1" and ?p = "entry_of mm target (mask 32)"
  from do_sequential_jumps_runs [OF assms refl refl] obtain m' fuel where
    "\<forall>k \<ge> fuel. do_sequential_jumps k mm entries target m = Inr (slide_jumps ?p ?n @ slide_jumps (?p + 1) ?n, m')"
    by blast
  moreover have "distinct (map fst (slide_jumps ?p ?n @ slide_jumps (?p + 1) ?n))"
    using assms(3) by (intro slide_sources_distinct) simp
  ultimately show ?thesis using slide_sources_set by blast
qed

theorem do_sequential_jumps_covers_witness:
  "\<exists>js m' fuel. (\<forall>k \<ge> fuel. do_sequential_jumps k 0x7f0000001000 8192 0x400080 (\<lambda>_. 0) = Inr (js, m')) \<and>
    card (fst ` set js) = 49146"
proof -
  from do_sequential_jumps_covers [of "0x7f0000001000" 8192 "0x400080" "\<lambda>_. 0"] obtain js m' fuel where
    js: "\<forall>k \<ge> fuel. do_sequential_jumps k 0x7f0000001000 8192 0x400080 (\<lambda>_. 0) = Inr (js, m')"
      "fst ` set js = (\<lambda>j. entry_of 0x7f0000001000 0x400080 (mask 32) + word_of_nat j) ` {..<49146}"
    by auto
  have "card (fst ` set js) = card {..<49146 :: nat}"
    unfolding js(2) by (rule card_image, rule inj_offset) simp
  with js(1) show ?thesis by auto
qed

section \<open>Repeated jumps\<close>

lemma code_at_write_bytes:
  assumes "length bs \<le> 18446744073709551615"
  shows "code_at (write_bytes p bs m) p bs"
  unfolding code_at_def
proof (intro allI impI)
  fix i assume "i < length bs"
  then show "write_bytes p bs m (p + word_of_nat i) = bs ! i"
    using assms by (subst write_bytes_at) (simp_all add: unat_of_small)
qed

lemma scast_7: "(scast (7 :: byte) :: addr) = 7"
  by code_simp

lemma call_repeat:
  assumes "code_at m p repeat_func"
  shows "\<exists>fuel. \<forall>k \<ge> fuel. call_code k m p v = Inr (if bit v 0 then [(p + 5, p + 14)] else [])"
proof -
  let ?b = "and v 1"
  let ?js = "if ?b = 0 then [] else [(p + 5, p + 14)]"
  define st where "st q js = \<lparr>rip = q, eax = ?b, r13 = 0, r14 = 0, zf = (?b = 0), taken = js\<rparr>" for q js
  let ?s = "\<lparr>rip = p, eax = v, r13 = 0, r14 = 0, zf = False, taken = []\<rparr>"
  have c: "code_at m p [0x83, 0xe0, 0x01]" "code_at m (p + 3) [0x85, 0xc0]" "code_at m (p + 5) [0x75, 0x07]"
    "code_at m (p + 7) [0x48, 0xc7, 0xc1]" "code_at m (p + 14) [0x48, 0xc7, 0xc1]" "code_at m (p + 21) [0xc3]"
    using assms by (simp_all add: repeat_func_def add.assoc)
  have b: "?b = 0 \<longleftrightarrow> \<not> bit v 0" by (simp add: and_one_eq bit_0 even_iff_mod_2_eq_zero)
  have mov: "xstep m (st q js) = Running (st (q + 7) js)" if "code_at m q [0x48, 0xc7, 0xc1]" for q js
    using that by (simp add: xstep_def st_def skip_to_def add.assoc)
  have "reaches m (Running ?s) (Running (st (p + 3) []))"
    using c(1) step_and_one [of m ?s] by (intro reaches_step) (simp add: st_def skip_to_def)
  also have "reaches m (Running (st (p + 3) [])) (Running (st (p + 5) []))"
  proof (rule reaches_step)
    have "xstep m (st (p + 3) []) = Running (st (p + 3 + 2) [])"
      using c(2) step_test [of m "st (p + 3) []"] by (simp add: st_def skip_to_def)
    then show "xstep m (st (p + 3) []) = Running (st (p + 5) [])" by (simp add: add.assoc)
  qed
  also have "reaches m (Running (st (p + 5) [])) (Running (st (p + 14) ?js))"
  proof (cases "?b = 0")
    case True
    have "xstep m (st (p + 5) []) = Running (st (p + 5 + 2) [])"
      using c(3) step_jne [of m "st (p + 5) []" 7] True by (simp add: st_def skip_to_def)
    then have "reaches m (Running (st (p + 5) [])) (Running (st (p + 7) []))"
      by (intro reaches_step) (simp add: add.assoc)
    also have "reaches m (Running (st (p + 7) [])) (Running (st (p + 7 + 7) []))"
      by (rule reaches_step [OF mov [OF c(4)]])
    finally show ?thesis using True by (simp add: add.assoc)
  next
    case False
    have "p + 5 + 2 + 7 = p + 14" by (simp add: add.assoc)
    then show ?thesis
      using False c(3) step_jne [of m "st (p + 5) []" 7]
      by (intro reaches_step) (simp add: st_def jump_to_def scast_7)
  qed
  also have "reaches m (Running (st (p + 14) ?js)) (Running (st (p + 21) ?js))"
  proof (rule reaches_step)
    have "p + 14 + 7 = p + 21" by (simp add: add.assoc)
    then show "xstep m (st (p + 14) ?js) = Running (st (p + 21) ?js)" by (simp only: mov [OF c(5)])
  qed
  also have "reaches m (Running (st (p + 21) ?js)) (Finished (st (p + 21) ?js))"
    using c(6) by (intro reaches_step step_ret) (simp add: st_def)
  finally show ?thesis
    using reaches_execute [of m p v] by (fastforce simp: call_code_def st_def b)
qed

text \<open>The bits of the random value, lowest first, decide the jumps.\<close>

definition bit_jumps :: "addr \<Rightarrow> nat \<Rightarrow> 32 word \<Rightarrow> jumps" where
  "bit_jumps p n v = concat (map (\<lambda>b. if bit v b then [(p + 5, p + 14)] else []) [0..<n])"

lemma bit_jumps_Suc:
  "bit_jumps p (Suc n) v = (if bit v 0 then [(p + 5, p + 14)] else []) @ bit_jumps p n (drop_bit 1 v)"
proof -
  have "[0..<Suc n] = 0 # map Suc [0..<n]" by (simp add: upt_conv_Cons map_Suc_upt del: upt_Suc)
  then show ?thesis by (simp add: bit_jumps_def bit_drop_bit_eq comp_def del: upt_Suc)
qed

lemma repeat_bits_runs:
  assumes "\<And>v. call_code k m p v = Inr (if bit v 0 then [(p + 5, p + 14)] else [])"
  shows "repeat_bits k m p (2 ^ n - 1) v = Inr (bit_jumps p n v)"
proof (induction n arbitrary: v)
  case 0
  then show ?case by (subst repeat_bits.simps) (simp add: bit_jumps_def)
next
  case (Suc n)
  have "(2 ^ Suc n - 1) div 2 = (2 ^ n - 1 :: nat)" by simp
  moreover have "0 < (2 ^ Suc n - 1 :: nat)" using one_less_power [of "2 :: nat" "Suc n"] by simp
  ultimately show ?case
    using Suc assms [of v] by (subst repeat_bits.simps) (simp only: bit_jumps_Suc if_True bind_res_Inr)
qed

lemma repeat_rounds_runs:
  assumes "\<And>v. call_code k m p v = Inr (if bit v 0 then [(p + 5, p + 14)] else [])"
  shows "repeat_rounds k m p vs = Inr (concat (map (bit_jumps p 31) vs))"
  using repeat_bits_runs [OF assms, of 31] by (induction vs) simp_all

lemma repeated_jumps_run:
  assumes "mm \<noteq> 0"
  shows "\<exists>m' fuel. \<forall>k \<ge> fuel. do_repeated_jumps k mm rand target m =
    Inr (concat (map (bit_jumps (entry_of mm target (mask 32)) 31) (map rand [0..<10])), m')"
proof -
  let ?p = "entry_of mm target (mask 32)"
  let ?m = "write_bytes ?p repeat_func m"
  have code: "code_at ?m ?p repeat_func" by (rule code_at_write_bytes) (simp add: repeat_func_def)
  obtain f where f: "\<And>v k. k \<ge> f v \<Longrightarrow> call_code k ?m ?p v = Inr (if bit v 0 then [(?p + 5, ?p + 14)] else [])"
    using call_repeat [OF code] by metis
  define fuel where "fuel = Max (range f)"
  have "f v \<le> fuel" for v unfolding fuel_def by (rule Max_ge) simp_all
  then have "repeat_rounds k ?m ?p vs = Inr (concat (map (bit_jumps ?p 31) vs))" if "k \<ge> fuel" for k vs
    using that f by (intro repeat_rounds_runs) (meson order_trans)
  then show ?thesis
    by (intro exI [of _ ?m] exI [of _ fuel])
      (simp add: do_repeated_jumps_def map_aligned_value [OF assms] Let_def del: upt_Suc)
qed

text \<open>
  C34. The repeated jumps return; the conditional jump behind the target is taken for those of the
  31 low bits of the ten random values that are set, in this order.
\<close>
theorem do_repeated_jumps_bits:
  assumes "mm \<noteq> 0"
  shows "\<exists>m' fuel. \<forall>k \<ge> fuel. do_repeated_jumps k mm rand target m =
    Inr (concat (map (bit_jumps (entry_of mm target (mask 32)) 31) (map rand [0..<10])), m')"
  by (rule repeated_jumps_run [OF assms])

theorem do_repeated_jumps_bits_witness:
  "\<exists>m' fuel. \<forall>k \<ge> fuel. do_repeated_jumps k 0x7f0000001000 (\<lambda>j. if j = 0 then 5 else 0) 0x400100 (\<lambda>_. 0) =
    Inr ([(0x7f0000400105, 0x7f000040010e), (0x7f0000400105, 0x7f000040010e)], m')"
proof -
  have p: "entry_of 0x7f0000001000 0x400100 (mask 32) = 0x7f0000400100"
    by (simp add: entry_of_def mask_eq_exp_minus_1)
  have "bit_jumps q 31 0 = []" for q by (simp add: bit_jumps_def)
  moreover have "bit_jumps 0x7f0000400100 31 5 = [(0x7f0000400105, 0x7f000040010e), (0x7f0000400105, 0x7f000040010e)]"
    by (simp add: bit_jumps_def upt_rec bit_numeral_rec)
  moreover have "[0..<10] = 0 # [Suc 0..<10]" by (simp add: upt_conv_Cons)
  ultimately have "concat (map (bit_jumps 0x7f0000400100 31) (map (\<lambda>j. if j = 0 then 5 else 0) [0..<10])) =
      [(0x7f0000400105, 0x7f000040010e), (0x7f0000400105, 0x7f000040010e)]"
    by simp
  then show ?thesis
    using do_repeated_jumps_bits [of "0x7f0000001000" "\<lambda>j. if j = 0 then 5 else 0" "0x400100" "\<lambda>_. 0"] p by simp
qed

section \<open>The predictor entry of the victim\<close>

lemma low_32_add: "unat (low_bits 32 (a + word_of_nat d)) = (unat a + d) mod 4294967296"
proof -
  have "unat (a + word_of_nat d) = (unat a + d) mod 18446744073709551616"
    by (simp add: unat_word_ariths unat_of_nat take_bit_eq_mod mod_simps)
  moreover have "(x mod 18446744073709551616) mod 4294967296 = x mod (4294967296 :: nat)" for x
    by (rule mod_mod_cancel) simp
  ultimately show ?thesis by (simp only: unat_low_32)
qed

lemma entry_near:
  assumes "unat mm + 8589934592 \<le> 18446744073709551616"
  shows "\<exists>j \<in> {128, 129}. low_bits 32 (entry_of mm (target - 128) (mask 32) + word_of_nat j) = low_bits 32 target"
proof -
  let ?p = "entry_of mm (target - 128) (mask 32)"
  define t where "t = unat (target - 128) mod 4294967296"
  obtain q r where mm: "unat mm = q * 4294967296 + r" "r < 4294967296"
    using that [of "unat mm div 4294967296" "unat mm mod 4294967296"] by simp
  have "unat (low_bits 32 (target - 128 + word_of_nat 128)) = (unat (target - 128) + 128) mod 4294967296"
    by (rule low_32_add)
  then have tgt: "unat (low_bits 32 target) = (t + 128) mod 4294967296"
    by (simp add: t_def mod_simps)
  have p: "unat ?p = (if r \<le> t then q * 4294967296 + t else q * 4294967296 + t + 4294967295)"
    by (rule entry_of_value [OF assms mm]) (simp add: t_def)
  define j where "j = (if r \<le> t then 128 else 129 :: nat)"
  have "unat (low_bits 32 (?p + word_of_nat j)) = (unat ?p + j) mod 4294967296"
    by (rule low_32_add)
  also have "unat ?p + j = (if r \<le> t then q else Suc q) * 4294967296 + (t + 128)"
    by (simp add: p j_def)
  finally have "unat (low_bits 32 (?p + word_of_nat j)) = unat (low_bits 32 target)"
    by (simp only: tgt mod_mult_self3)
  then have "low_bits 32 (?p + word_of_nat j) = low_bits 32 target" by (simp only: word_unat_eq_iff)
  then show ?thesis by (intro bexI [of _ j]) (auto simp: j_def)
qed

lemma mess_btb_runs:
  assumes "target \<noteq> 0" "fst maps \<noteq> 0" "snd maps \<noteq> 0"
    and "unat (fst maps) + 8589934592 \<le> 18446744073709551616"
  shows "\<exists>js m' fuel. (\<forall>k \<ge> fuel. mess_btb k maps rand target m = Inr (js, m')) \<and>
    (\<exists>a \<in> fst ` set js. low_bits lbr_entry_bits a = low_bits lbr_entry_bits target)"
proof -
  let ?p = "entry_of (fst maps) (target - 128) (mask 32)"
  define js where "js = slide_jumps ?p 8191 @ slide_jumps (?p + 1) 8191"
  have entries: "8191 = unat ASSUMED_BTB_ENTRY_COUNT - 1" "2 \<le> unat ASSUMED_BTB_ENTRY_COUNT"
    "unat ASSUMED_BTB_ENTRY_COUNT \<le> 134217728"
    by (simp_all add: ASSUMED_BTB_ENTRY_COUNT_def)
  from do_sequential_jumps_runs [OF assms(2) entries(2,3) refl entries(1), of "target - 128" m] obtain m1 f where
    js: "\<forall>k \<ge> f. do_sequential_jumps k (fst maps) ASSUMED_BTB_ENTRY_COUNT (target - 128) m = Inr (js, m1)"
    unfolding js_def by blast
  have src: "fst ` set js = (\<lambda>j. ?p + word_of_nat j) ` {..<6 * 8191}"
    unfolding js_def by (rule slide_sources_set)
  obtain m2 g js' where js': "\<forall>k \<ge> g. do_repeated_jumps k (snd maps) rand target m1 = Inr (js', m2)"
    using repeated_jumps_run [OF assms(3), of rand target m1] by blast
  have run: "\<forall>k \<ge> max f g. mess_btb k maps rand target m = Inr (js @ js', m2)"
    using js js' assms(1) by (simp add: mess_btb_def)
  obtain j where j: "j \<in> {128, 129}" "low_bits 32 (?p + word_of_nat j) = low_bits 32 target"
    using entry_near [OF assms(4)] by blast
  have "?p + word_of_nat j \<in> fst ` set js" unfolding src using j(1) by (intro imageI) auto
  then have "?p + word_of_nat j \<in> fst ` set (js @ js')" by (simp add: image_Un)
  with j(2) have "\<exists>a \<in> fst ` set (js @ js'). low_bits lbr_entry_bits a = low_bits lbr_entry_bits target"
    unfolding lbr_entry_bits_def by (rule bexI)
  with run show ?thesis by blast
qed

text \<open>
  C12. Clearing the predictor returns, and among the jumps it has executed is one whose address
  agrees with the address of the victim's branch in the low 32 bits that index the predictor.
\<close>
theorem mess_btb_aliases_victim:
  assumes "target \<noteq> 0" "fst maps \<noteq> 0" "snd maps \<noteq> 0"
    and "unat (fst maps) + 8589934592 \<le> 18446744073709551616"
  shows "\<exists>js m' fuel. (\<forall>k \<ge> fuel. mess_btb k maps rand target m = Inr (js, m')) \<and>
    (\<exists>a \<in> fst ` set js. low_bits lbr_entry_bits a = low_bits lbr_entry_bits target)"
  by (rule mess_btb_runs [OF assms])

theorem mess_btb_aliases_victim_witness:
  "\<exists>js m' fuel. (\<forall>k \<ge> fuel. mess_btb k (0x7f0000001000, 0x7f8000001000) (\<lambda>_. 5) 0x400100 (\<lambda>_. 0) = Inr (js, m')) \<and>
    (\<exists>a \<in> fst ` set js. low_bits lbr_entry_bits a = 0x400100)"
proof -
  have "low_bits lbr_entry_bits 0x400100 = 0x400100"
    by (simp add: low_bits_def get_mask_def lbr_entry_bits_def)
  then show ?thesis
    using mess_btb_aliases_victim [of "0x400100" "(0x7f0000001000, 0x7f8000001000)" "\<lambda>_. 5" "\<lambda>_. 0"] by simp
qed

end
