(* ===== verification/LbrModule.thy ===== *)
theory LbrModule
  imports ShadowMemory "HOL-Library.Signed_Division"
begin

text \<open>
  The kernel module that dumps the last branch records
  (\<open>module_lbr_chardev/module/lbr_tools.h\<close>, \<open>lbr_tools.c\<close> and
  \<open>lbr_dumper.c\<close>). The model-specific registers of a processor are a function from register
  numbers to 64-bit values; \<open>rdmsr\<close> and \<open>wrmsr\<close> split a value into \<open>%edx\<close>
  and \<open>%eax\<close>. The device keeps one dump and a byte index into it. Messages to the kernel log
  are not modelled; \<open>put_user\<close> succeeds.
\<close>

section \<open>Registers\<close>

type_synonym msrs = "32 word \<Rightarrow> 64 word"

definition rd_eax :: "msrs \<Rightarrow> 32 word \<Rightarrow> 32 word" where
  "rd_eax msr ecx = ucast (msr ecx)"

definition rd_edx :: "msrs \<Rightarrow> 32 word \<Rightarrow> 32 word" where
  "rd_edx msr ecx = ucast (drop_bit 32 (msr ecx))"

definition wrmsr :: "32 word \<Rightarrow> 32 word \<Rightarrow> 32 word \<Rightarrow> msrs \<Rightarrow> msrs" where
  "wrmsr ecx edx eax msr = msr(ecx := or (push_bit 32 (ucast edx)) (ucast eax))"

definition lbr_count :: nat where
  "lbr_count = 32"

definition MSR_LBR_NHM_FROM :: int where "MSR_LBR_NHM_FROM = 0x680"
definition MSR_LBR_NHM_TO :: int where "MSR_LBR_NHM_TO = 0x6c0"
definition MSR_LBR_INFO_0 :: int where "MSR_LBR_INFO_0 = 0xdc0"
definition MSR_LBR_SELECT :: "32 word" where "MSR_LBR_SELECT = 0x1c8"
definition MSR_LBR_TOS :: "32 word" where "MSR_LBR_TOS = 0x1c9"
definition MSR_IA32_DEBUGCTLMSR :: "32 word" where "MSR_IA32_DEBUGCTLMSR = 0x1d9"

record lbr_data =
  msrf :: "32 word"
  msrt :: "32 word"
  axf :: "32 word"
  dxf :: "32 word"
  axt :: "32 word"
  dxt :: "32 word"
  MSR_LBR_INFO_a :: "32 word"
  MSR_LBR_INFO_d :: "32 word"

section \<open>Reading the stack of branch records\<close>

definition read_lbr_tos :: "msrs \<Rightarrow> int" where
  "read_lbr_tos msr = sint (rd_eax msr MSR_LBR_TOS)"

definition read_lbr_entry :: "msrs \<Rightarrow> int \<Rightarrow> int \<Rightarrow> int \<Rightarrow> lbr_data" where
  "read_lbr_entry msr f t i =
     \<lparr>msrf = word_of_int f, msrt = word_of_int t,
      axf = rd_eax msr (word_of_int f), dxf = rd_edx msr (word_of_int f),
      axt = rd_eax msr (word_of_int t), dxt = rd_edx msr (word_of_int t),
      MSR_LBR_INFO_a = rd_eax msr (word_of_int (MSR_LBR_INFO_0 + i)),
      MSR_LBR_INFO_d = rd_edx msr (word_of_int (MSR_LBR_INFO_0 + i))\<rparr>"

text \<open>The macro \<open>read_next\<close>, and the 32 copies of it; \<open>smod\<close> is the remainder of C.\<close>

definition read_next :: "msrs \<Rightarrow> lbr_data list \<times> int \<times> int \<Rightarrow> lbr_data list \<times> int \<times> int" where
  "read_next msr st = (case st of (data, i, o') \<Rightarrow>
     (data[nat o' := read_lbr_entry msr (MSR_LBR_NHM_FROM + i) (MSR_LBR_NHM_TO + i) i],
      (i + 1) smod int lbr_count, (o' + 1) smod int lbr_count))"

definition read_lbr :: "msrs \<Rightarrow> lbr_data list \<Rightarrow> lbr_data list" where
  "read_lbr msr data =
     fst ((read_next msr ^^ lbr_count) (data, read_lbr_tos msr, int lbr_count - 1))"

definition addr_64mask :: "64 word" where "addr_64mask = push_bit 48 1 - 1"
definition mispred_32mask :: "64 word" where "mispred_32mask = push_bit 31 1"
definition cycles_32mask :: "64 word" where "cycles_32mask = push_bit 16 1 - 1"

definition lbr_data_get_from :: "lbr_data \<Rightarrow> 64 word" where
  "lbr_data_get_from d = and addr_64mask (push_bit 32 (ucast (dxf d)) + ucast (axf d))"

definition lbr_data_get_to :: "lbr_data \<Rightarrow> 64 word" where
  "lbr_data_get_to d = and addr_64mask (push_bit 32 (ucast (dxt d)) + ucast (axt d))"

definition lbr_data_get_mispred :: "lbr_data \<Rightarrow> 32 word" where
  "lbr_data_get_mispred d = ucast (and mispred_32mask (ucast (MSR_LBR_INFO_d d)))"

definition lbr_data_get_cycle_count :: "lbr_data \<Rightarrow> 32 word" where
  "lbr_data_get_cycle_count d = ucast (and cycles_32mask (ucast (MSR_LBR_INFO_a d)))"

section \<open>Switching recording on and off\<close>

definition lbr_enable_inline :: "msrs \<Rightarrow> msrs" where
  "lbr_enable_inline = wrmsr MSR_IA32_DEBUGCTLMSR 0 (0 + 1)"

definition lbr_disable_inline :: "msrs \<Rightarrow> msrs" where
  "lbr_disable_inline = wrmsr MSR_IA32_DEBUGCTLMSR 0 0"

definition lbr_filter_inline :: "32 word \<Rightarrow> 32 word \<Rightarrow> msrs \<Rightarrow> msrs" where
  "lbr_filter_inline edx eax = wrmsr MSR_LBR_SELECT edx eax"

definition enable_LBR :: "msrs \<Rightarrow> msrs" where
  "enable_LBR msr = lbr_filter_inline 0 1 (lbr_enable_inline msr)"

definition disable_LBR :: "msrs \<Rightarrow> msrs" where
  "disable_LBR msr = lbr_filter_inline 0 0 (lbr_disable_inline msr)"

text \<open>
  One thread per processor 0 to 3; \<open>created\<close> tells for which of them
  \<open>kthread_create\<close> succeeded. The registers are those after the threads have run.
\<close>

type_synonym cpus = "nat \<Rightarrow> msrs"

definition run_on :: "(msrs \<Rightarrow> msrs) \<Rightarrow> nat \<Rightarrow> cpus \<Rightarrow> cpus" where
  "run_on f c cpus = cpus(c := f (cpus c))"

text \<open>
  One thread per processor; they are bound before the error check, which is taken to have no effect on a
  thread that could not be created. Threads that are woken run at once.
\<close>

definition all_enable_LBR :: "(nat \<Rightarrow> bool) \<Rightarrow> cpus \<Rightarrow> cpus" where
  "all_enable_LBR created cpus =
     (if created 0 \<and> created 1 \<and> created 2 \<and> created 3
      then run_on enable_LBR 3 (run_on enable_LBR 2 (run_on enable_LBR 1 (run_on enable_LBR 0 cpus)))
      else cpus)"

definition all_disable_LBR :: "(nat \<Rightarrow> bool) \<Rightarrow> cpus \<Rightarrow> cpus" where
  "all_disable_LBR created cpus =
     (if created 0 \<and> created 1 \<and> created 2 \<and> created 3
      then run_on disable_LBR 3 (run_on disable_LBR 2 (run_on disable_LBR 1 (run_on disable_LBR 0 cpus)))
      else cpus)"

section \<open>The device\<close>

record lbr_device =
  lbr_data_index :: nat
  dumped :: "lbr_data list option"

definition lbr_data_size :: nat where
  "lbr_data_size = 32 * lbr_count"

text \<open>The bytes of a record in memory.\<close>

definition struct_bytes :: "lbr_data \<Rightarrow> byte list" where
  "struct_bytes d = concat (map (le_bytes 4)
     [msrf d, msrt d, axf d, dxf d, axt d, dxt d, MSR_LBR_INFO_a d, MSR_LBR_INFO_d d])"

definition dump_LBR :: "msrs \<Rightarrow> lbr_data list \<Rightarrow> lbr_data list" where
  "dump_LBR msr data = read_lbr msr data"

text \<open>The major number, or an error; \<open>kmalloc\<close> returns the given records.\<close>

definition start_function ::
  "int \<Rightarrow> (nat \<Rightarrow> bool) \<Rightarrow> lbr_data list option \<Rightarrow> cpus \<Rightarrow> int \<times> cpus \<times> lbr_device option" where
  "start_function major_num created kmalloc cpus =
     (if major_num < 0 then (major_num, cpus, None)
      else (0, all_enable_LBR created cpus, Some \<lparr>lbr_data_index = 0, dumped = kmalloc\<rparr>))"

definition end_function :: "(nat \<Rightarrow> bool) \<Rightarrow> cpus \<Rightarrow> cpus" where
  "end_function created cpus = all_disable_LBR created cpus"

definition device_ioctl ::
  "nat \<Rightarrow> (nat \<Rightarrow> bool) \<Rightarrow> cpus \<Rightarrow> lbr_device \<Rightarrow> cpus \<times> lbr_device" where
  "device_ioctl cpu created cpus dev =
     (let cpus1 = run_on lbr_disable_inline cpu cpus
      in (all_enable_LBR created cpus1,
          dev\<lparr>lbr_data_index := 0, dumped := map_option (dump_LBR (cpus1 cpu)) (dumped dev)\<rparr>))"

text \<open>The loop of \<open>device_read\<close>: the bytes handed to the user and the new index.\<close>

fun read_loop :: "nat \<Rightarrow> byte list \<Rightarrow> nat \<Rightarrow> byte list \<times> nat" where
  "read_loop 0 d idx = ([], idx)"
| "read_loop (Suc len) d idx =
     (if idx < lbr_data_size then
        (case read_loop len d (Suc idx) of (bs, idx') \<Rightarrow> (d ! idx # bs, idx'))
      else ([], idx))"

definition device_read :: "nat \<Rightarrow> lbr_device \<Rightarrow> (byte list \<times> lbr_device) res" where
  "device_read len dev =
     (let idx = (if lbr_data_index dev = lbr_data_size then 0 else lbr_data_index dev) in
      if len = 0 then Inr ([], dev\<lparr>lbr_data_index := idx\<rparr>)
      else (case dumped dev of
              None \<Rightarrow> Inl NullDeref
            | Some data \<Rightarrow>
                (case read_loop len (concat (map struct_bytes data)) idx of
                   (bs, idx') \<Rightarrow> Inr (bs, dev\<lparr>lbr_data_index := idx'\<rparr>))))"

section \<open>What a dump holds\<close>

lemma smod_small: "0 \<le> a \<Longrightarrow> a < 32 \<Longrightarrow> (a + 1) smod 32 = (a + 1) mod 32" for a :: int
  by (simp add: signed_modulo_int_def)

lemma read_next_iterate:
  assumes "length data = 32" "0 \<le> t" "t < 32" "n \<le> 32"
  shows "(read_next msr ^^ n) (data, t, 31) =
    (fold (\<lambda>k ds. ds[(31 + k) mod 32 := read_lbr_entry msr (0x680 + (t + int k) mod 32)
        (0x6c0 + (t + int k) mod 32) ((t + int k) mod 32)]) [0..<n] data,
     (t + int n) mod 32, (31 + int n) mod 32)"
  using assms(4)
proof (induction n)
  case (Suc n)
  have a: "((t + int n) mod 32 + 1) smod 32 = (t + int (Suc n)) mod 32"
    by (subst smod_small) (simp_all add: mod_simps ac_simps)
  have b: "((31 + int n) mod 32 + 1) smod 32 = (31 + int (Suc n)) mod 32"
    by (subst smod_small) (simp_all add: mod_simps ac_simps)
  have c: "nat ((31 + int n) mod 32) = (31 + n) mod 32"
    by (simp add: nat_mod_distrib nat_add_distrib)
  from Suc show ?case
    by (simp add: read_next_def lbr_count_def MSR_LBR_NHM_FROM_def MSR_LBR_NHM_TO_def a b c del: of_nat_Suc)
qed (use assms in simp)

lemma fold_update_other:
  "(\<And>k. k \<in> set ks \<Longrightarrow> g k \<noteq> j) \<Longrightarrow> fold (\<lambda>k ds. ds[g k := f k]) ks data ! j = data ! j"
  by (induction ks arbitrary: data) simp_all

lemma fold_update_length [simp]: "length (fold (\<lambda>k ds. ds[g k := f k]) ks data) = length data"
  by (induction ks arbitrary: data) simp_all

lemma fold_update_nth:
  assumes "distinct ks" "inj_on g (set ks)" "k \<in> set ks" "g k < length data"
  shows "fold (\<lambda>k ds. ds[g k := f k]) ks data ! g k = f k"
  using assms
proof (induction ks arbitrary: data)
  case (Cons a ks)
  show ?case
  proof (cases "k = a")
    case True
    have "\<And>x. x \<in> set ks \<Longrightarrow> g x \<noteq> g a"
    proof
      fix x
      assume "x \<in> set ks" and "g x = g a"
      then have "x = a" using Cons.prems(2) by (intro inj_onD [of g "set (a # ks)" x a]) simp_all
      with \<open>x \<in> set ks\<close> Cons.prems(1) show False by simp
    qed
    then have "fold (\<lambda>k ds. ds[g k := f k]) ks (data[g a := f a]) ! g a = data[g a := f a] ! g a"
      by (rule fold_update_other)
    with True Cons.prems(4) show ?thesis by simp
  next
    case False
    with Cons.prems have "k \<in> set ks" by simp
    with Cons show ?thesis by (simp add: inj_on_def)
  qed
qed simp

definition entry_at :: "msrs \<Rightarrow> nat \<Rightarrow> lbr_data" where
  "entry_at msr i = read_lbr_entry msr (0x680 + int i) (0x6c0 + int i) (int i)"

lemma length_read_lbr [simp]:
  assumes "length data = 32" "0 \<le> read_lbr_tos msr" "read_lbr_tos msr < 32"
  shows "length (read_lbr msr data) = 32"
  using assms by (simp add: read_lbr_def lbr_count_def read_next_iterate)

lemma read_lbr_nth:
  assumes "length data = 32" "read_lbr_tos msr = int t" "t < 32" "k < 32"
  shows "read_lbr msr data ! k = entry_at msr ((t + 1 + k) mod 32)"
proof -
  define j where "j = (k + 1) mod 32"
  have j: "j < 32" "(31 + j) mod 32 = k" using assms(4) by (auto simp: j_def mod_simps) 
  have inj: "inj_on (\<lambda>k :: nat. (31 + k) mod 32) (set [0..<32])"
  proof (rule inj_onI)
    fix a b :: nat
    assume "a \<in> set [0..<32]" "b \<in> set [0..<32]" and "(31 + a) mod 32 = (31 + b) mod 32"
    moreover have "(31 + c) mod 32 = (if c = 0 then 31 else c - 1)" if "c < 32" for c :: nat
      using that by (cases c) simp_all
    ultimately show "a = b" by (auto split: if_splits)
  qed
  let ?f = "\<lambda>k. read_lbr_entry msr (0x680 + (int t + int k) mod 32) (0x6c0 + (int t + int k) mod 32)
      ((int t + int k) mod 32)"
  have "read_lbr msr data = fold (\<lambda>k ds. ds[(31 + k) mod 32 := ?f k]) [0..<32] data"
    using assms(1-3) by (simp add: read_lbr_def lbr_count_def read_next_iterate)
  then have "read_lbr msr data ! k = ?f j"
    using fold_update_nth [of "[0..<32]" "\<lambda>k. (31 + k) mod 32" j data ?f] inj j assms(1) by simp
  moreover have "(int t + int j) mod 32 = int ((t + 1 + k) mod 32)"
    by (simp add: j_def zmod_int mod_simps ac_simps)
  ultimately show ?thesis by (simp add: entry_at_def)
qed

end
