(* ===== verification/LbrReader.thy ===== *)
theory LbrReader
  imports LbrModule Complex_Main
begin

text \<open>
  The user side of the branch records: \<open>misc/LbrReader.cpp\<close> reads the dump from the device
  file and \<open>misc/LbrStats.cpp\<close> and \<open>misc/MiniStatistics.cpp\<close> collect measurements.
  The buffer is a list of bytes, as \<open>read\<close> fills it; \<open>malloc\<close> and the results of
  \<open>stat\<close> and \<open>open\<close> are arguments. A \<open>bool\<close> function that ends without a
  \<open>return\<close> yields \<open>None\<close>. A \<open>double\<close> is a real number: rounding is not modelled.
\<close>

section \<open>Records in the buffer\<close>

definition word_at :: "byte list \<Rightarrow> nat \<Rightarrow> 32 word" where
  "word_at bs n = of_le (take 4 (drop n bs))"

definition data_of :: "byte list \<Rightarrow> lbr_data" where
  "data_of bs = \<lparr>msrf = word_at bs 0, msrt = word_at bs 4, axf = word_at bs 8, dxf = word_at bs 12,
     axt = word_at bs 16, dxt = word_at bs 20, MSR_LBR_INFO_a = word_at bs 24, MSR_LBR_INFO_d = word_at bs 28\<rparr>"

definition data_at :: "byte list \<Rightarrow> nat \<Rightarrow> lbr_data" where
  "data_at buf i = data_of (take 32 (drop (32 * i) buf))"

definition put_bytes :: "nat \<Rightarrow> byte list \<Rightarrow> byte list \<Rightarrow> byte list" where
  "put_bytes n bs buf = take n buf @ bs @ drop (n + length bs) buf"

section \<open>The reader\<close>

record lbr_reader =
  m_lbr_data :: "byte list option"
  m_fd_lbr :: int

definition open_device :: "bool \<Rightarrow> int \<Rightarrow> lbr_reader \<Rightarrow> bool \<times> lbr_reader" where
  "open_device exists fd rd =
     (if \<not> exists then (False, rd)
      else if fd < 0 then (False, rd\<lparr>m_fd_lbr := fd\<rparr>)
      else (True, rd\<lparr>m_fd_lbr := fd\<rparr>))"

definition close_device :: "lbr_reader \<Rightarrow> lbr_reader" where
  "close_device rd = rd\<lparr>m_fd_lbr := - 1\<rparr>"

text \<open>The system call of \<open>dump_lbr_inline\<close> ends in \<open>device_ioctl\<close> on this processor.\<close>

definition dump_lbr_inline ::
  "nat \<Rightarrow> (nat \<Rightarrow> bool) \<Rightarrow> int \<Rightarrow> cpus \<times> lbr_device \<Rightarrow> cpus \<times> lbr_device" where
  "dump_lbr_inline cpu created fd k = (if fd > 0 then device_ioctl cpu created (fst k) (snd k) else k)"

definition dump_lbr ::
  "nat \<Rightarrow> (nat \<Rightarrow> bool) \<Rightarrow> lbr_reader \<Rightarrow> cpus \<times> lbr_device \<Rightarrow> (cpus \<times> lbr_device) res" where
  "dump_lbr cpu created rd k =
     bind_res (assert_res ''LBR file descriptor is larger than 0'' (m_fd_lbr rd > 0)) (\<lambda>_.
       Inr (dump_lbr_inline cpu created (m_fd_lbr rd) k))"

text \<open>The loop of \<open>read_lbr\<close>; \<open>rd\<close> is the system call \<open>read\<close> on the file.\<close>

fun read_entries :: "(nat \<Rightarrow> 'd \<Rightarrow> (byte list \<times> 'd) res) \<Rightarrow> nat list \<Rightarrow> byte list \<Rightarrow> 'd \<Rightarrow> (byte list \<times> 'd) res" where
  "read_entries rd [] buf dev = Inr (buf, dev)"
| "read_entries rd (i # is) buf dev =
     bind_res (rd 32 dev) (\<lambda>(bs, dev'). read_entries rd is (put_bytes (32 * i) bs buf) dev')"

definition read_lbr_file ::
  "byte list option \<Rightarrow> lbr_reader \<Rightarrow> lbr_device \<Rightarrow> (bool option \<times> lbr_reader \<times> lbr_device) res" where
  "read_lbr_file malloc rd dev =
     (if m_fd_lbr rd < 1 then Inr (Some False, rd, dev)
      else case (if m_lbr_data rd = None then malloc else m_lbr_data rd) of
             None \<Rightarrow> Inl Abort
           | Some buf \<Rightarrow> bind_res (read_entries device_read [0..<lbr_count] buf dev) (\<lambda>(buf', dev').
               Inr (None, rd\<lparr>m_lbr_data := Some buf'\<rparr>, dev')))"

definition get_data_ptr :: "lbr_reader \<Rightarrow> byte list res" where
  "get_data_ptr rd = (case m_lbr_data rd of
       None \<Rightarrow> Inl (AssertFail ''struct lbr_data * is NULL, check return value of read_lbr!!'')
     | Some buf \<Rightarrow> Inr buf)"

section \<open>Statistics\<close>

record mini_statistics =
  m_vals :: "real list"
  ms_count :: nat
  m_total :: real

definition add_val :: "real \<Rightarrow> mini_statistics \<Rightarrow> mini_statistics" where
  "add_val new_val st = st\<lparr>m_vals := m_vals st @ [new_val], ms_count := ms_count st + 1,
     m_total := m_total st + new_val\<rparr>"

definition mean :: "mini_statistics \<Rightarrow> real" where
  "mean st = m_total st / real (ms_count st)"

text \<open>The body of the loop adds \<open>(v - avg, 2)\<close>, whose value is its right operand.\<close>

fun sum_sdiffs :: "real \<Rightarrow> real list \<Rightarrow> real \<Rightarrow> real" where
  "sum_sdiffs avg [] sdiffs = sdiffs"
| "sum_sdiffs avg (v # vs) sdiffs = sum_sdiffs avg vs (sdiffs + snd (v - avg, 2))"

definition stddev :: "mini_statistics \<Rightarrow> real" where
  "stddev st = sqrt (sum_sdiffs (mean st) (m_vals st) 0 / real (ms_count st))"

record lbr_stats =
  m_hits :: mini_statistics
  m_cycles :: mini_statistics
  m_count :: int

definition add_measurement :: "bool \<Rightarrow> 32 word \<Rightarrow> lbr_stats \<Rightarrow> lbr_stats" where
  "add_measurement hit cycles st = st\<lparr>m_hits := add_val (if hit then 1 else 0) (m_hits st),
     m_cycles := add_val (real (unat cycles)) (m_cycles st), m_count := m_count st + 1\<rparr>"

text \<open>The loop over the records: whether one was found, its verdict and its cycles.\<close>

fun search :: "addr \<Rightarrow> lbr_data list \<Rightarrow> bool \<times> bool \<times> 32 word \<Rightarrow> bool \<times> bool \<times> 32 word" where
  "search src [] st = st"
| "search src (d # ds) st = search src ds
     (if lbr_data_get_from d = src then (True, lbr_data_get_mispred d \<noteq> 0, lbr_data_get_cycle_count d) else st)"

definition add_from_lbr_data :: "byte list \<Rightarrow> addr \<Rightarrow> lbr_stats \<Rightarrow> lbr_stats" where
  "add_from_lbr_data buf src_address st =
     (case search src_address (map (data_at buf) [0..<lbr_count]) (False, False, 0) of
        (found, hit, cycles) \<Rightarrow> if found then add_measurement hit cycles st else st)"

section \<open>From the registers to the buffer\<close>

lemma of_le_bytes_4 [simp]: "(of_le (le_bytes 4 (w :: 32 word)) :: 32 word) = w"
  unfolding of_le_bytes by (rule bit_word_eqI) (auto simp: bit_simps)

lemma length_struct_bytes [simp]: "length (struct_bytes d) = 32"
  by (simp add: struct_bytes_def)

lemma data_of_struct [simp]: "data_of (struct_bytes d) = d"
  by (cases d) (simp add: data_of_def struct_bytes_def word_at_def)

lemma length_put_bytes [simp]: "n + length bs \<le> length buf \<Longrightarrow> length (put_bytes n bs buf) = length buf"
  by (simp add: put_bytes_def)

lemma length_structs [simp]: "length (concat (map struct_bytes ds)) = 32 * length ds"
  by (induction ds) simp_all

lemma read_loop_slice:
  "n + idx \<le> 1024 \<Longrightarrow> length d = 1024 \<Longrightarrow> read_loop n d idx = (take n (drop idx d), idx + n)"
proof (induction n arbitrary: idx)
  case (Suc n)
  then have "drop idx d = d ! idx # drop (Suc idx) d" by (simp add: Cons_nth_drop_Suc)
  with Suc show ?case by (simp add: lbr_data_size_def lbr_count_def)
qed simp

lemma slice_structs: "i < length ds \<Longrightarrow> take 32 (drop (32 * i) (concat (map struct_bytes ds))) = struct_bytes (ds ! i)"
proof (induction ds arbitrary: i)
  case (Cons d ds)
  then show ?case by (cases i) simp_all
qed simp

text \<open>
  What the reader relies on: a file whose unread bytes a read returns in order and consumes. The
  reader copies a file of 1024 bytes, record by record.
\<close>

locale sequential_file =
  fixes rd :: "nat \<Rightarrow> 'd \<Rightarrow> (byte list \<times> 'd) res"
    and ahead :: "'d \<Rightarrow> byte list"
    and at_end :: "'d \<Rightarrow> 'd"
  assumes read_ahead: "0 < n \<Longrightarrow> n \<le> length (ahead dev) \<Longrightarrow>
      \<exists>dev'. rd n dev = Inr (take n (ahead dev), dev') \<and> ahead dev' = drop n (ahead dev) \<and> at_end dev' = at_end dev"
    and exhausted: "ahead dev = [] \<Longrightarrow> at_end dev = dev"
begin

lemma put_next:
  assumes "i < 32" "length d = 1024" "length buf = 1024" "take (32 * i) buf = take (32 * i) d"
  shows "take (32 * Suc i) (put_bytes (32 * i) (take 32 (drop (32 * i) d)) buf) = take (32 * Suc i) d"
proof -
  have "take (32 * Suc i) d = take (32 * i) d @ take 32 (drop (32 * i) d)"
    by (simp add: take_add [symmetric] add.commute)
  with assms show ?thesis by (simp add: put_bytes_def min_def)
qed

lemma read_entries_from:
  assumes "length d = 1024" "length buf = 1024" "i \<le> 32"
    and "take (32 * i) buf = take (32 * i) d" "ahead dev = drop (32 * i) d"
  shows "read_entries rd [i..<32] buf dev = Inr (d, at_end dev)"
  using assms
proof (induction "32 - i" arbitrary: i buf dev)
  case 0
  then have "ahead dev = []" by simp
  from exhausted [OF this] 0 show ?case by simp
next
  case (Suc n)
  then have i: "i < 32" by simp
  have "0 < (32 :: nat)" "32 \<le> length (ahead dev)" using Suc.prems i by simp_all
  from read_ahead [OF this] obtain dev' where
    dev': "rd 32 dev = Inr (take 32 (drop (32 * i) d), dev')" "ahead dev' = drop 32 (ahead dev)" "at_end dev' = at_end dev"
    using Suc.prems(5) by metis
  have "read_entries rd [Suc i..<32] (put_bytes (32 * i) (take 32 (drop (32 * i) d)) buf) dev' = Inr (d, at_end dev')"
    using Suc.hyps(2) Suc.prems i put_next [OF i Suc.prems(1,2,4)] dev'(2)
    by (intro Suc.hyps(1)) (simp_all add: add.commute)
  with dev'(1,3) i show ?case by (simp add: upt_conv_Cons del: upt_Suc)
qed

lemma read_entries_all:
  "length (ahead dev) = 1024 \<Longrightarrow> length buf = 1024 \<Longrightarrow> read_entries rd [0..<32] buf dev = Inr (ahead dev, at_end dev)"
  using read_entries_from [of "ahead dev" buf 0 dev] by simp

end

text \<open>The device with a dump, until its end is reached, is such a file.\<close>

definition unread :: "lbr_device \<Rightarrow> byte list" where
  "unread dev = (case dumped dev of
       None \<Rightarrow> []
     | Some ds \<Rightarrow> if length ds = lbr_count then drop (lbr_data_index dev) (concat (map struct_bytes ds)) else [])"

definition read_out :: "lbr_device \<Rightarrow> lbr_device" where
  "read_out dev = (if unread dev = [] then dev else dev\<lparr>lbr_data_index := lbr_data_size\<rparr>)"

lemma device_read_ahead:
  assumes "0 < n" "n \<le> length (unread dev)"
  shows "\<exists>dev'. device_read n dev = Inr (take n (unread dev), dev') \<and> unread dev' = drop n (unread dev) \<and>
    read_out dev' = read_out dev"
proof -
  from assms obtain ds where ds: "dumped dev = Some ds" "length ds = 32"
    and u: "unread dev = drop (lbr_data_index dev) (concat (map struct_bytes ds))"
    by (auto simp: unread_def lbr_count_def split: option.splits if_splits)
  let ?d = "concat (map struct_bytes ds)" and ?i = "lbr_data_index dev"
  let ?dev = "dev\<lparr>lbr_data_index := ?i + n\<rparr>"
  have le: "n + ?i \<le> 1024" "?i \<noteq> 1024" using assms u ds(2) by auto
  then have "read_loop n ?d ?i = (take n (unread dev), ?i + n)"
    using ds(2) by (simp add: read_loop_slice u)
  then have "device_read n dev = Inr (take n (unread dev), ?dev)"
    using assms(1) ds le by (simp add: device_read_def lbr_data_size_def lbr_count_def)
  moreover have "unread ?dev = drop n (unread dev)"
    using ds u by (simp add: unread_def lbr_count_def add.commute)
  moreover have "read_out ?dev = read_out dev"
  proof (cases "drop n (unread dev) = []")
    case True
    with le u ds(2) have "?i + n = 1024" by simp
    with True calculation(2) assms show ?thesis
      by (cases dev) (auto simp: read_out_def lbr_data_size_def lbr_count_def)
  next
    case False
    with calculation(2) show ?thesis by (cases dev) (auto simp: read_out_def)
  qed
  ultimately show ?thesis by blast
qed

interpretation dump_file: sequential_file device_read unread read_out
  by unfold_locales (use device_read_ahead in blast, simp add: read_out_def)

lemma read_lbr_file_dump:
  assumes "dumped dev = Some ds" "length ds = 32" "lbr_data_index dev = 0" "m_fd_lbr rd \<ge> 1"
    and "(if m_lbr_data rd = None then malloc else m_lbr_data rd) = Some buf" "length buf = 1024"
  shows "read_lbr_file malloc rd dev =
    Inr (None, rd\<lparr>m_lbr_data := Some (concat (map struct_bytes ds))\<rparr>, dev\<lparr>lbr_data_index := 1024\<rparr>)"
proof -
  have "unread dev = concat (map struct_bytes ds)" using assms(1-3) by (simp add: unread_def lbr_count_def)
  moreover have "length (concat (map struct_bytes ds)) = 1024" using assms(2) by simp
  moreover have "read_out dev = dev\<lparr>lbr_data_index := 1024\<rparr>"
  proof -
    have "unread dev \<noteq> []" using calculation by (metis list.size(3) zero_neq_numeral)
    then show ?thesis by (simp add: read_out_def lbr_data_size_def lbr_count_def)
  qed
  ultimately have "read_entries device_read [0..<32] buf dev =
      Inr (concat (map struct_bytes ds), dev\<lparr>lbr_data_index := 1024\<rparr>)"
    using dump_file.read_entries_all [of dev buf] assms(6) by simp
  with assms(4,5) show ?thesis by (simp add: read_lbr_file_def lbr_count_def)
qed

lemma data_at_structs: "i < length ds \<Longrightarrow> data_at (concat (map struct_bytes ds)) i = ds ! i"
  by (simp add: data_at_def slice_structs)

lemma get_from_bits: "lbr_data_get_from d = take_bit 48 (or (push_bit 32 (ucast (dxf d))) (ucast (axf d)))"
proof -
  have "push_bit 32 (ucast (dxf d)) + ucast (axf d) = (or (push_bit 32 (ucast (dxf d))) (ucast (axf d)) :: 64 word)"
    by (rule disjunctive_add) (auto simp: bit_simps dest: bit_imp_le_length)
  moreover have "addr_64mask = mask 48" by (simp add: addr_64mask_def mask_eq_exp_minus_1 push_bit_eq_mult)
  ultimately show ?thesis by (simp add: lbr_data_get_from_def take_bit_eq_mask and.commute)
qed

lemma get_from_entry: "lbr_data_get_from (entry_at msr i) = take_bit 48 (msr (word_of_nat (0x680 + i)))"
  unfolding get_from_bits
  by (rule bit_word_eqI) (auto simp: entry_at_def read_lbr_entry_def rd_eax_def rd_edx_def bit_simps)

end
