(* ===== verification/LbrProps.thy ===== *)
theory LbrProps
  imports LbrReader
begin

text \<open>
  Properties of the branch record path: from the registers of the processor through the dump of the
  kernel module and the device file to the measurement, and the states the device is left in.
\<close>

section \<open>The device\<close>

lemma recording:
  "enable_LBR msr MSR_IA32_DEBUGCTLMSR = 1" "lbr_disable_inline msr MSR_IA32_DEBUGCTLMSR = 0"
  by (simp_all add: enable_LBR_def lbr_filter_inline_def lbr_enable_inline_def lbr_disable_inline_def
      wrmsr_def MSR_LBR_SELECT_def MSR_IA32_DEBUGCTLMSR_def)

text \<open>
  C31. After a dump the processor that took it records branches again exactly if all four threads
  could be created and it is one of the processors 0 to 3; otherwise recording stays off.
\<close>
theorem ioctl_reenables_recording:
  "fst (device_ioctl cpu created cpus dev) cpu MSR_IA32_DEBUGCTLMSR =
     (if cpu < 4 \<and> list_all created [0, 1, 2, 3] then 1 else 0)"
proof -
  have "cpu < 4 \<longleftrightarrow> cpu = 0 \<or> cpu = 1 \<or> cpu = 2 \<or> cpu = 3" by auto
  then show ?thesis
    by (auto simp: device_ioctl_def all_enable_LBR_def run_on_def Let_def recording)
qed

text \<open>
  The states of the device: after the module is loaded with memory for the dump, any sequence of
  dumps and reads on any processors.
\<close>

inductive device_state :: "lbr_device \<Rightarrow> bool" where
  loaded: "length ds = lbr_count \<Longrightarrow>
     start_function major_num created (Some ds) cpus = (0, cpus', Some dev) \<Longrightarrow> device_state dev"
| dumping: "device_state dev \<Longrightarrow> device_ioctl cpu created cpus dev = (cpus', dev') \<Longrightarrow> device_state dev'"
| reading: "device_state dev \<Longrightarrow> device_read len dev = Inr (bs, dev') \<Longrightarrow> device_state dev'"

lemma length_read_next: "length (fst ((read_next msr ^^ n) st)) = length (fst st)"
proof -
  have "length (fst (read_next msr st)) = length (fst st)" for st by (cases st) (simp add: read_next_def)
  then show ?thesis by (induction n) simp_all
qed

lemma length_dump [simp]: "length (dump_LBR msr ds) = length ds"
  using length_read_next [where n = lbr_count and st = "(ds, read_lbr_tos msr, int lbr_count - 1)"]
  by (simp add: dump_LBR_def read_lbr_def)

definition in_dump :: "lbr_device \<Rightarrow> nat" where
  "in_dump dev = (if lbr_data_index dev = lbr_data_size then 0 else lbr_data_index dev)"

lemma read_loop_dump:
  assumes "length d = lbr_data_size" "i \<le> lbr_data_size"
  shows "read_loop n d i = (take n (drop i d), min (i + n) lbr_data_size)"
  using assms(2)
proof (induction n arbitrary: i)
  case (Suc n)
  show ?case
  proof (cases "i < lbr_data_size")
    case True
    then have "drop i d = d ! i # drop (Suc i) d"
      by (intro Cons_nth_drop_Suc [symmetric]) (simp only: assms(1))
    with Suc True show ?thesis by simp
  next
    case False
    with Suc.prems assms(1) show ?thesis by simp
  qed
qed simp

lemma device_read_dump:
  assumes "dumped dev = Some ds" "length ds = lbr_count" "lbr_data_index dev \<le> lbr_data_size"
  shows "device_read len dev =
    Inr (take len (drop (in_dump dev) (concat (map struct_bytes ds))),
         dev\<lparr>lbr_data_index := min (in_dump dev + len) lbr_data_size\<rparr>)"
proof -
  have "length (concat (map struct_bytes ds)) = lbr_data_size" using assms(2) by (simp add: lbr_data_size_def)
  from read_loop_dump [OF this, of "in_dump dev" len] assms show ?thesis
    by (simp add: device_read_def in_dump_def [symmetric] Let_def) (simp add: in_dump_def min_def)
qed

lemma device_invariant:
  assumes "device_state dev"
  shows "\<exists>ds. dumped dev = Some ds \<and> length ds = lbr_count \<and> lbr_data_index dev \<le> lbr_data_size"
  using assms
proof induction
  case (loaded ds major_num created cpus cpus' dev)
  then show ?case by (auto simp: start_function_def split: if_splits)
next
  case (dumping dev cpu created cpus cpus' dev')
  then show ?case by (auto simp: device_ioctl_def Let_def)
next
  case (reading dev len bs dev')
  then obtain ds where ds: "dumped dev = Some ds" "length ds = lbr_count" "lbr_data_index dev \<le> lbr_data_size" by blast
  from reading.hyps(2) show ?case unfolding device_read_dump [OF ds] using ds by auto
qed

text \<open>
  C30. In every state of the device a read with room for a byte returns at least one, the next of the
  dump, and does not move past its end; at the end it starts again, so a reader never sees the end of
  the file.
\<close>
theorem device_read_progress:
  assumes "device_state dev" "0 < len"
  shows "\<exists>ds. dumped dev = Some ds \<and>
    device_read len dev = Inr (take len (drop (in_dump dev) (concat (map struct_bytes ds))),
      dev\<lparr>lbr_data_index := min (in_dump dev + len) lbr_data_size\<rparr>) \<and>
    take len (drop (in_dump dev) (concat (map struct_bytes ds))) \<noteq> []"
proof -
  from device_invariant [OF assms(1)] obtain ds where
    ds: "dumped dev = Some ds" "length ds = lbr_count" "lbr_data_index dev \<le> lbr_data_size" by blast
  have "in_dump dev < length (concat (map struct_bytes ds))"
    using ds(2,3) by (auto simp: in_dump_def lbr_data_size_def lbr_count_def)
  with ds device_read_dump [OF ds, of len] assms(2) show ?thesis by (auto simp del: length_structs)
qed

lemma device_read_progress_witness:
  "\<exists>bs dev'. device_read 32 \<lparr>lbr_data_index = 0, dumped = Some (replicate 32 (entry_at (\<lambda>_. 0) 0))\<rparr> =
     Inr (bs, dev') \<and> bs \<noteq> []"
proof -
  let ?dev = "\<lparr>lbr_data_index = 0, dumped = Some (replicate 32 (entry_at (\<lambda>_. 0) 0))\<rparr>"
  have "device_state ?dev"
    by (rule loaded [of "replicate 32 (entry_at (\<lambda>_. 0) 0)" 240 "\<lambda>_. True" "\<lambda>_ _. 0"])
      (simp_all add: start_function_def lbr_count_def)
  have "0 < (32 :: nat)" by simp
  from device_read_progress [OF \<open>device_state ?dev\<close> this] show ?thesis by (elim exE conjE) (intro exI conjI)
qed

section \<open>The whole path\<close>

lemma disable_keeps: "r \<noteq> MSR_IA32_DEBUGCTLMSR \<Longrightarrow> lbr_disable_inline msr r = msr r"
  by (simp add: lbr_disable_inline_def wrmsr_def)

lemma register_other:
  "i < 32 \<Longrightarrow> word_of_nat (0x680 + i) \<noteq> MSR_IA32_DEBUGCTLMSR"
  "i < 32 \<Longrightarrow> word_of_nat (0x6c0 + i) \<noteq> MSR_IA32_DEBUGCTLMSR"
  "i < 32 \<Longrightarrow> word_of_nat (0xdc0 + i) \<noteq> MSR_IA32_DEBUGCTLMSR"
  unfolding MSR_IA32_DEBUGCTLMSR_def word_unat_eq_iff
  by (simp_all add: unat_of_nat_32 del: of_nat_add)

lemma disable_entry:
  assumes "i < 32"
  shows "lbr_disable_inline msr (0x680 + word_of_nat i) = msr (0x680 + word_of_nat i)"
    "lbr_disable_inline msr (0x6c0 + word_of_nat i) = msr (0x6c0 + word_of_nat i)"
    "lbr_disable_inline msr (0xdc0 + word_of_nat i) = msr (0xdc0 + word_of_nat i)"
  using register_other [OF assms] by (simp_all add: disable_keeps)

lemma entry_at_disable: "i < 32 \<Longrightarrow> entry_at (lbr_disable_inline msr) i = entry_at msr i"
  by (simp add: entry_at_def read_lbr_entry_def rd_eax_def rd_edx_def MSR_LBR_INFO_0_def disable_entry)

lemma dump_entries:
  assumes "length ds = 32" "read_lbr_tos msr = int t" "t < 32" "k < 32"
  shows "dump_LBR (lbr_disable_inline msr) ds ! k = entry_at msr ((t + 1 + k) mod 32)"
proof -
  have "read_lbr_tos (lbr_disable_inline msr) = int t"
    using assms(2) by (simp add: read_lbr_tos_def rd_eax_def lbr_disable_inline_def wrmsr_def
        MSR_LBR_TOS_def MSR_IA32_DEBUGCTLMSR_def)
  then show ?thesis using assms by (simp add: dump_LBR_def read_lbr_nth entry_at_disable)
qed

lemma dump_then_read:
  assumes "dumped dev = Some ds" "length ds = 32" "read_lbr_tos (cpus cpu) = int t" "t < 32" "m_fd_lbr rd \<ge> 1"
    and "(if m_lbr_data rd = None then malloc else m_lbr_data rd) = Some buf" "length buf = 1024"
  shows "read_lbr_file malloc rd (snd (dump_lbr_inline cpu created (m_fd_lbr rd) (cpus, dev))) =
    Inr (None,
      rd\<lparr>m_lbr_data := Some (concat (map struct_bytes (dump_LBR (lbr_disable_inline (cpus cpu)) ds)))\<rparr>,
      (snd (dump_lbr_inline cpu created (m_fd_lbr rd) (cpus, dev)))\<lparr>lbr_data_index := 1024\<rparr>)"
  using assms by (intro read_lbr_file_dump)
    (auto simp: dump_lbr_inline_def device_ioctl_def Let_def run_on_def)

text \<open>
  C13. A dump followed by a read leaves the 32 branch records in the buffer of the reader, oldest
  first: record \<open>k\<close> comes from register pair \<open>(t + 1 + k) mod 32\<close>, where \<open>t\<close> is the
  top of the stack, so the newest is the last one.
\<close>
theorem branch_records_in_order:
  assumes "dumped dev = Some ds" "length ds = 32" "read_lbr_tos (cpus cpu) = int t" "t < 32" "m_fd_lbr rd \<ge> 1"
    and "(if m_lbr_data rd = None then malloc else m_lbr_data rd) = Some buf" "length buf = 1024"
  shows "\<exists>rd' dev' buf'. read_lbr_file malloc rd (snd (dump_lbr_inline cpu created (m_fd_lbr rd) (cpus, dev))) =
      Inr (None, rd', dev') \<and> get_data_ptr rd' = Inr buf' \<and>
    (\<forall>k < 32. data_at buf' k = entry_at (cpus cpu) ((t + 1 + k) mod 32) \<and>
       lbr_data_get_from (data_at buf' k) = take_bit 48 (cpus cpu (word_of_nat (0x680 + (t + 1 + k) mod 32))))"
proof -
  let ?es = "dump_LBR (lbr_disable_inline (cpus cpu)) ds"
  have "length ?es = 32" using assms(2) by simp
  then have "data_at (concat (map struct_bytes ?es)) k = entry_at (cpus cpu) ((t + 1 + k) mod 32)" if "k < 32" for k
    using that dump_entries [OF assms(2-4) that] by (simp add: data_at_structs)
  then show ?thesis
    using dump_then_read [where cpus = cpus and cpu = cpu, OF assms] by (auto simp: get_data_ptr_def get_from_entry)
qed

section \<open>Measurements\<close>

lemma search_append: "search src (xs @ ys) st = search src ys (search src xs st)"
  by (induction xs arbitrary: st) auto

lemma search_none: "\<forall>d \<in> set ds. lbr_data_get_from d \<noteq> src \<Longrightarrow> search src ds st = st"
  by (induction ds) auto

text \<open>
  C29. A measurement is added exactly if some record has the address of the shadow branch. It is the
  newest such record that counts, its cycles are added, and it counts as a hit if its
  misprediction bit is set.
\<close>
theorem newest_record_measured:
  "add_from_lbr_data buf src st =
    (let ks = filter (\<lambda>k. lbr_data_get_from (data_at buf k) = src) [0..<32]; d = data_at buf (last ks) in
     if ks = [] then st
     else add_measurement (bit (MSR_LBR_INFO_d d) 31) (take_bit 16 (MSR_LBR_INFO_a d)) st)"
proof -
  have mis: "(lbr_data_get_mispred d \<noteq> 0) = bit (MSR_LBR_INFO_d d) 31" for d
  proof -
    have "lbr_data_get_mispred d = and (push_bit 31 1) (MSR_LBR_INFO_d d)"
      unfolding lbr_data_get_mispred_def mispred_32mask_def
      by (rule bit_word_eqI) (auto simp: bit_simps)
    also have "(\<dots> \<noteq> 0) = bit (MSR_LBR_INFO_d d) 31"
      by (simp only: bit_iff_and_push_bit_not_eq_0 and.commute)
    finally show ?thesis .
  qed
  have cyc: "lbr_data_get_cycle_count d = take_bit 16 (MSR_LBR_INFO_a d)" for d
  proof -
    have "cycles_32mask = mask 16" by (simp add: cycles_32mask_def mask_eq_exp_minus_1 push_bit_eq_mult)
    moreover have "ucast (and (mask 16) (ucast w) :: 64 word) = take_bit 16 (w :: 32 word)" for w
      by (rule bit_word_eqI) (auto simp: bit_simps)
    ultimately show ?thesis by (simp only: lbr_data_get_cycle_count_def)
  qed
  have "search src (map (data_at buf) ks) s =
      (let ks' = filter (\<lambda>k. lbr_data_get_from (data_at buf k) = src) ks; d = data_at buf (last ks') in
       if ks' = [] then s else (True, bit (MSR_LBR_INFO_d d) 31, take_bit 16 (MSR_LBR_INFO_a d)))" for ks s
    by (induction ks arbitrary: s rule: rev_induct) (simp_all add: search_append mis cyc Let_def)
  then show ?thesis by (simp add: add_from_lbr_data_def lbr_count_def Let_def del: upt_Suc)
qed

text \<open>
  The standard deviation of any measurements is the square root of 2, whatever was measured:
  the comma in the sum keeps only the 2.
\<close>
theorem stddev_constant:
  assumes "vs \<noteq> []"
  shows "stddev (fold add_val vs \<lparr>m_vals = [], ms_count = 0, m_total = 0\<rparr>) = sqrt 2"
proof -
  let ?st = "\<lambda>vs. fold add_val vs \<lparr>m_vals = [], ms_count = 0, m_total = 0\<rparr>"
  have st: "m_vals (?st vs) = vs" "ms_count (?st vs) = length vs" for vs
    by (induction vs rule: rev_induct) (simp_all add: add_val_def)
  have "sum_sdiffs a xs s = s + 2 * real (length xs)" for a xs s
    by (induction xs arbitrary: s) simp_all
  then show ?thesis using assms by (simp add: stddev_def st)
qed

theorem stddev_constant_witness:
  "stddev (fold add_val [1, 1, 1] \<lparr>m_vals = [], ms_count = 0, m_total = 0\<rparr>) = sqrt 2"
  by (rule stddev_constant) simp

section \<open>Examples\<close>

lemma branch_records_in_order_witness:
  "\<exists>rd' dev' buf'. read_lbr_file (Some (replicate 1024 0)) \<lparr>m_lbr_data = None, m_fd_lbr = 3\<rparr>
      (snd (dump_lbr_inline 1 (\<lambda>_. True) 3
        (\<lambda>_ r. if r = 0x1c9 then 5 else ucast r, \<lparr>lbr_data_index = 7, dumped = Some (replicate 32 (entry_at (\<lambda>_. 0) 0))\<rparr>))) =
      Inr (None, rd', dev') \<and> get_data_ptr rd' = Inr buf' \<and> lbr_data_get_from (data_at buf' 31) = 0x685"
proof -
  let ?cpus = "\<lambda>_ :: nat. \<lambda>r :: 32 word. if r = 0x1c9 then 5 else ucast r :: 64 word"
  let ?ds = "replicate 32 (entry_at (\<lambda>_. 0) 0)"
  have "read_lbr_tos (?cpus 1) = int 5"
    by (simp add: read_lbr_tos_def rd_eax_def MSR_LBR_TOS_def)
  from branch_records_in_order [of "\<lparr>lbr_data_index = 7, dumped = Some ?ds\<rparr>" ?ds ?cpus 1 5
      "\<lparr>m_lbr_data = None, m_fd_lbr = 3\<rparr>" "Some (replicate 1024 0)" "replicate 1024 0" "\<lambda>_. True", OF _ _ this]
  obtain rd' dev' buf' where rd:
    "read_lbr_file (Some (replicate 1024 0)) \<lparr>m_lbr_data = None, m_fd_lbr = 3\<rparr>
      (snd (dump_lbr_inline 1 (\<lambda>_. True) 3 (?cpus, \<lparr>lbr_data_index = 7, dumped = Some ?ds\<rparr>))) =
      Inr (None, rd', dev')" "get_data_ptr rd' = Inr buf'"
    and "\<forall>k < 32. lbr_data_get_from (data_at buf' k) = take_bit 48 (?cpus 1 (word_of_nat (0x680 + (5 + 1 + k) mod 32)))"
    by auto
  note this(3)
  moreover have "take_bit 48 (?cpus 1 (word_of_nat (0x680 + (5 + 1 + 31) mod 32))) = 0x685"
    by (simp add: take_bit_eq_mask mask_eq_exp_minus_1)
  moreover have "(31 :: nat) < 32" by simp
  ultimately have "lbr_data_get_from (data_at buf' 31) = 0x685" by (simp only:)
  with rd show ?thesis by blast
qed

end
