(* ===== verification/Victims.thy ===== *)
theory Victims
  imports ShadowMemory
begin

text \<open>
  The victim functions (\<open>shared/victim_shared.c\<close>), compiled once into the tool and once into
  the enclave, the searches for the addresses of their branches, and the record of the addresses
  the enclave reports (\<open>untrusted/victim.c\<close>, \<open>trusted/sample_trusted.cpp\<close>). The code
  of a victim is the memory from the address of the function on.
\<close>

section \<open>Execution\<close>

text \<open>The inline assembly: the register \<open>%eax\<close> and the zero flag.\<close>

definition victim_jne :: "32 word \<Rightarrow> 32 word" where
  "victim_jne number =
     (let eax = and number 1;
          zf = (and eax eax = 0)
      in if \<not> zf then 2 else 1)"

datatype victim_label = target_if | target_else

text \<open>
  The retpoline overwrites the return address on the stack with \<open>%r14\<close>. The move is made
  when the carry and the zero flag are clear; \<open>test\<close> clears the carry flag.
\<close>

definition victim_ret :: "32 word \<Rightarrow> 32 word" where
  "victim_ret number =
     (let eax = and number 1;
          zf = (and eax eax = 0);
          cf = False;
          r14 = (if \<not> cf \<and> \<not> zf then target_else else target_if);
          return_to = r14
      in case return_to of target_if \<Rightarrow> 1 | target_else \<Rightarrow> 2)"

section \<open>Searches\<close>

definition victim_jne_len :: nat where "victim_jne_len = 142"
definition victim_ret_len :: nat where "victim_ret_len = 0x138"

definition get_victim_jne_src :: "memory \<Rightarrow> addr \<Rightarrow> addr" where
  "get_victim_jne_src m func =
     (let ptr = (\<lambda>i. m (func + word_of_nat i)) in
      case find (\<lambda>i. ptr i = 0x75) [0..<victim_jne_len] of
        Some i \<Rightarrow> func + word_of_nat i
      | None \<Rightarrow> 0)"

definition get_victim_jne_dst :: "memory \<Rightarrow> addr \<Rightarrow> addr" where
  "get_victim_jne_dst m func =
     (let ptr = (\<lambda>i. m (func + word_of_nat i)) in
      case find (\<lambda>i. ptr i = 0xc7 \<and> ptr (i + 1) = 0x45 \<and> ptr (i + 3) = 0x02 \<and> ptr (i + 4) = 0x00)
             [0..<victim_jne_len] of
        Some i \<Rightarrow> func + word_of_nat i
      | None \<Rightarrow> 0)"

definition get_victim_ret_retpoline :: "memory \<Rightarrow> addr \<Rightarrow> addr" where
  "get_victim_ret_retpoline m func =
     (let ptr = (\<lambda>i. m (func + word_of_nat i)) in
      case find (\<lambda>i. ptr i = 0xc3 \<and> ptr (i + 1) = 0x90) [0..<victim_ret_len] of
        Some i \<Rightarrow> func + word_of_nat i
      | None \<Rightarrow> 0)"

definition get_victim_ret_else :: "memory \<Rightarrow> addr \<Rightarrow> addr" where
  "get_victim_ret_else m func =
     (let ptr = (\<lambda>i. m (func + word_of_nat i)) in
      case find (\<lambda>i. ptr i = 0x90 \<and> ptr (i + 1) = 0xb8 \<and> ptr (i + 2) = 0x02) [0..<victim_ret_len] of
        Some i \<Rightarrow> func + word_of_nat (i + 1)
      | None \<Rightarrow> 0)"

definition get_victim_ret_if :: "memory \<Rightarrow> addr \<Rightarrow> addr" where
  "get_victim_ret_if m func =
     (let ptr = (\<lambda>i. m (func + word_of_nat i)) in
      case find (\<lambda>i. ptr i = 0x90 \<and> ptr (i + 1) = 0xb8 \<and> ptr (i + 2) = 0x01) [0..<victim_ret_len] of
        Some i \<Rightarrow> func + word_of_nat (i + 1)
      | None \<Rightarrow> 0)"

section \<open>Addresses inside the enclave\<close>

record enclave_victims =
  victim_enc_jne_func :: addr
  victim_enc_jne_src :: addr
  victim_enc_jne_dst :: addr
  victim_enc_ret_func :: addr
  victim_enc_ret_ret :: addr
  victim_enc_ret_if :: addr
  victim_enc_ret_else :: addr

definition no_victims :: enclave_victims where
  "no_victims = \<lparr>victim_enc_jne_func = 0, victim_enc_jne_src = 0, victim_enc_jne_dst = 0,
     victim_enc_ret_func = 0, victim_enc_ret_ret = 0, victim_enc_ret_if = 0, victim_enc_ret_else = 0\<rparr>"

definition ocall_set_branch_victim_jne ::
  "addr \<Rightarrow> addr \<Rightarrow> addr \<Rightarrow> enclave_victims \<Rightarrow> enclave_victims res" where
  "ocall_set_branch_victim_jne func src dst v =
     (let v1 = v\<lparr>victim_enc_jne_func := func, victim_enc_jne_src := src, victim_enc_jne_dst := dst\<rparr> in
      bind_res (assert_res ''src is non-NULL'' (src \<noteq> 0)) (\<lambda>_.
      bind_res (assert_res ''dst is non-NULL'' (dst \<noteq> 0)) (\<lambda>_. Inr v1)))"

definition ocall_set_branch_victim_ret ::
  "addr \<Rightarrow> addr \<Rightarrow> addr \<Rightarrow> addr \<Rightarrow> enclave_victims \<Rightarrow> enclave_victims" where
  "ocall_set_branch_victim_ret func r i e v =
     v\<lparr>victim_enc_ret_func := func, victim_enc_ret_ret := r, victim_enc_ret_if := i, victim_enc_ret_else := e\<rparr>"

definition ecall_setup :: "memory \<Rightarrow> addr \<Rightarrow> addr \<Rightarrow> enclave_victims \<Rightarrow> enclave_victims res" where
  "ecall_setup m e_victim_jne e_victim_ret v =
     bind_res (ocall_set_branch_victim_jne e_victim_jne (get_victim_jne_src m e_victim_jne)
                 (get_victim_jne_dst m e_victim_jne) v) (\<lambda>v1.
       Inr (ocall_set_branch_victim_ret e_victim_ret (get_victim_ret_retpoline m e_victim_ret)
              (get_victim_ret_if m e_victim_ret) (get_victim_ret_else m e_victim_ret) v1))"

section \<open>The launch token and the enclave\<close>

text \<open>
  \<open>misc/Enclave.cpp\<close>. What \<open>fopen\<close>, \<open>freopen\<close> and \<open>sgx_create_enclave\<close> do is an
  argument; a file is a natural number. Functions that end without a \<open>return\<close> yield
  \<open>None\<close>.
\<close>

record enclave =
  m_eid :: "64 word"
  m_token_fp :: "nat option"

definition open_token :: "nat option \<Rightarrow> nat option \<Rightarrow> enclave \<Rightarrow> bool \<times> enclave" where
  "open_token fopen_rb fopen_wb e =
     (case fopen_rb of
        Some f \<Rightarrow> (True, e\<lparr>m_token_fp := Some f\<rparr>)
      | None \<Rightarrow> (fopen_wb \<noteq> None, e\<lparr>m_token_fp := fopen_wb\<rparr>))"

definition close_token :: "enclave \<Rightarrow> bool option \<times> enclave" where
  "close_token e = (None, e\<lparr>m_token_fp := None\<rparr>)"

definition save_token :: "nat option \<Rightarrow> enclave \<Rightarrow> bool option \<times> enclave" where
  "save_token freopen_wb e =
     (if m_token_fp e = None then (Some False, e) else (None, e\<lparr>m_token_fp := freopen_wb\<rparr>))"

text \<open>\<open>created\<close>: the new enclave's number and whether the token was updated, if it succeeds.\<close>

definition initialize_enclave ::
  "nat option \<Rightarrow> nat option \<Rightarrow> nat option \<Rightarrow> (64 word \<times> bool) option \<Rightarrow> enclave \<Rightarrow> (64 word \<times> enclave) res" where
  "initialize_enclave fopen_rb fopen_wb freopen_wb created e =
     (case open_token fopen_rb fopen_wb e of (opened, e1) \<Rightarrow>
        if \<not> opened then Inl Abort
        else (case created of
                None \<Rightarrow> let e2 = snd (close_token e1) in Inr (0, e2\<lparr>m_eid := 0\<rparr>)
              | Some (eid, updated) \<Rightarrow>
                  let e2 = e1\<lparr>m_eid := eid\<rparr>;
                      e3 = (if updated then snd (save_token freopen_wb e2) else e2);
                      e4 = snd (close_token e3)
                  in Inr (m_eid e4, e4)))"

text \<open>The enclave's \<open>ecall_setup\<close>, when the call reaches it.\<close>

definition exfiltrate_addresses ::
  "bool \<Rightarrow> memory \<Rightarrow> addr \<Rightarrow> addr \<Rightarrow> enclave_victims \<Rightarrow> (bool \<times> enclave_victims) res" where
  "exfiltrate_addresses success m e_victim_jne e_victim_ret v =
     (if success then bind_res (ecall_setup m e_victim_jne e_victim_ret v) (\<lambda>v'. Inr (True, v'))
      else Inr (False, v))"

definition test_victim_jne :: "(32 word \<Rightarrow> bool) \<Rightarrow> 32 word \<Rightarrow> 32 word" where
  "test_victim_jne success input = (if success input then victim_jne input else - 1)"

definition test_victim_ret :: "(32 word \<Rightarrow> bool) \<Rightarrow> 32 word \<Rightarrow> 32 word" where
  "test_victim_ret success input = (if success input then victim_ret input else - 1)"

section \<open>Properties\<close>

lemma victim_jne_parity: "victim_jne n = (if odd n then 2 else 1)"
  by (simp add: victim_jne_def and_one_eq even_iff_mod_2_eq_zero)

lemma victim_ret_parity: "victim_ret n = (if odd n then 2 else 1)"
  by (simp add: victim_ret_def and_one_eq even_iff_mod_2_eq_zero)

text \<open>
  The two victims compute the same function of their input, so the retpoline victim leaves
  for the same side as the conditional one.
\<close>
lemma victims_agree: "victim_jne n = victim_ret n"
  by (simp add: victim_jne_parity victim_ret_parity)

lemma jne_src_found:
  assumes "get_victim_jne_src m func = a" "a \<noteq> 0"
  shows "\<exists>i < victim_jne_len. a = func + word_of_nat i \<and> m a = 0x75 \<and> (\<forall>j < i. m (func + word_of_nat j) \<noteq> 0x75)"
  using assms by (auto simp: get_victim_jne_src_def find_Some_iff Let_def nth_upt split: option.splits)

lemma jne_dst_found:
  assumes "get_victim_jne_dst m func = a" "a \<noteq> 0"
  shows "\<exists>i < victim_jne_len. a = func + word_of_nat i \<and> [m a, m (a + 1), m (a + 3), m (a + 4)] = [0xc7, 0x45, 0x02, 0x00]"
  using assms by (auto simp: get_victim_jne_dst_def find_Some_iff Let_def nth_upt ac_simps split: option.splits)

text \<open>
  C39. When the enclave has reported its addresses, the source it reported is the first byte 0x75 of
  its conditional victim and the destination is a store of the value 2 in the same function.
\<close>
theorem exfiltrated_branch:
  assumes "exfiltrate_addresses success m f_jne f_ret v = Inr (True, v')"
  shows "(\<exists>i < victim_jne_len. victim_enc_jne_src v' = f_jne + word_of_nat i \<and> m (victim_enc_jne_src v') = 0x75 \<and>
            (\<forall>j < i. m (f_jne + word_of_nat j) \<noteq> 0x75)) \<and>
         (\<exists>i < victim_jne_len. victim_enc_jne_dst v' = f_jne + word_of_nat i \<and>
            [m (victim_enc_jne_dst v'), m (victim_enc_jne_dst v' + 1), m (victim_enc_jne_dst v' + 3),
             m (victim_enc_jne_dst v' + 4)] = [0xc7, 0x45, 0x02, 0x00])"
proof -
  from assms have "victim_enc_jne_src v' = get_victim_jne_src m f_jne" "victim_enc_jne_src v' \<noteq> 0"
    "victim_enc_jne_dst v' = get_victim_jne_dst m f_jne" "victim_enc_jne_dst v' \<noteq> 0"
    by (auto simp: exfiltrate_addresses_def ecall_setup_def ocall_set_branch_victim_jne_def
        ocall_set_branch_victim_ret_def Let_def split: if_splits)
  then show ?thesis using jne_src_found [of m f_jne] jne_dst_found [of m f_jne] by simp
qed

definition ex_victim :: "byte list" where
  "ex_victim = [0x75, 0x04, 0xc7, 0x45, 0xfc, 0x02, 0x00]"

lemma exfiltrated_branch_witness:
  "\<exists>v'. exfiltrate_addresses True (write_bytes 0x1000 ex_victim (\<lambda>_. 0)) 0x1000 0x2000 no_victims = Inr (True, v') \<and>
     victim_enc_jne_src v' = 0x1000"
proof -
  let ?m = "write_bytes 0x1000 ex_victim (\<lambda>_. 0)"
  have up: "[0..<142] = [0, 1, 2] @ [3..<142]" by (simp add: upt_rec)
  have "get_victim_jne_src ?m 0x1000 = 0x1000" "get_victim_jne_dst ?m 0x1000 = 0x1002"
    unfolding get_victim_jne_src_def get_victim_jne_dst_def victim_jne_len_def up
    by (simp_all add: ex_victim_def)
  then obtain v' where v: "exfiltrate_addresses True ?m 0x1000 0x2000 no_victims = Inr (True, v')"
    by (simp add: exfiltrate_addresses_def ecall_setup_def ocall_set_branch_victim_jne_def)
  from exfiltrated_branch [OF v] obtain i where
    i: "victim_enc_jne_src v' = 0x1000 + word_of_nat i" "\<forall>j < i. ?m (0x1000 + word_of_nat j) \<noteq> 0x75" by blast
  have "i = 0" using i(2) by (cases i) (auto simp: ex_victim_def dest: spec [of _ 0])
  with v i show ?thesis by simp
qed

end
