(* ===== verification/Experiments.thy ===== *)
theory Experiments
  imports BtbProps LbrProps Victims
begin

text \<open>
  The experiments of the driver (\<open>t1_run_jne\<close> to \<open>t13_run_enc_ret\<close> in
  \<open>BranchShadow.cpp\<close>) and the choice among them in \<open>main.cpp\<close>. Executions that only
  leave traces in the branch predictor are events of the driver's history. The mappings used to
  clear the predictor are new and released again, so memory is the same afterwards. The machine
  below the program is a record: the results of \<open>malloc\<close>, \<open>mmap\<close> and \<open>rand\<close>,
  the registers a dump sees, and the addresses of the victims.
\<close>

section \<open>State\<close>

datatype event =
    BtbCleared jumps
  | VictimJne "32 word"
  | VictimRet "32 word"
  | EnclaveCreated "64 word"
  | EcallSetup "64 word"
  | EcallVictimJneTest "64 word" "32 word"
  | EcallVictimRetTest "64 word" "32 word"
  | EcallVictimJne "64 word" "32 word"
  | EcallVictimRet "64 word" "32 word"
  | ShadowRun addr "32 word" "32 word" jumps
  | LbrDumped int

record env =
  indirect_cells :: "(addr \<times> addr) \<times> (addr \<times> addr)"
  shadow_map :: addr
  btb_maps :: "addr \<times> addr"
  rand_values :: "nat \<Rightarrow> 32 word"
  registers :: cpus
  this_cpu :: nat
  threads_created :: "nat \<Rightarrow> bool"
  reader_buffer :: "byte list option"
  victim_jne_at :: addr
  victim_ret_at :: addr

record driver =
  m_bs :: branch_shadow
  m_memory :: memory
  m_enclave :: "enclave option"
  m_attack_eid :: "64 word"
  m_lbrReader :: lbr_reader
  m_lbr_fd :: int
  m_stats :: lbr_stats
  m_training_rounds :: int
  m_device :: lbr_device
  m_enc_victims :: enclave_victims
  history :: "event list"

definition note_event :: "event \<Rightarrow> driver \<Rightarrow> driver res" where
  "note_event e d = Inr (d\<lparr>history := history d @ [e]\<rparr>)"

fun run_all :: "(driver \<Rightarrow> driver res) list \<Rightarrow> driver \<Rightarrow> driver res" where
  "run_all [] d = Inr d"
| "run_all (f # fs) d = bind_res (f d) (run_all fs)"

text \<open>The macro \<open>run_training\<close>: the rounds of the loop and once more.\<close>

definition run_training :: "(driver \<Rightarrow> driver res) \<Rightarrow> driver \<Rightarrow> driver res" where
  "run_training x d =
     bind_res (run_all (replicate (nat (m_training_rounds d)) x) d) x"

section \<open>Steps of an experiment\<close>

definition prepare :: "env \<Rightarrow> addr \<Rightarrow> addr \<Rightarrow> 32 word \<Rightarrow> driver \<Rightarrow> driver res" where
  "prepare env src dst shadow_input d =
     bind_res (prepare_attack src dst shadow_input (fst (indirect_cells env)) (snd (indirect_cells env))
                 (m_bs d) (m_memory d)) (\<lambda>(bs', m').
       Inr (d\<lparr>m_bs := bs', m_memory := m', m_lbr_fd := m_fd_lbr (m_lbrReader d),
              m_attack_eid := (case m_enclave d of None \<Rightarrow> m_attack_eid d | Some e \<Rightarrow> m_eid e)\<rparr>))"

definition setup_with ::
  "(addr \<Rightarrow> branch_shadow \<Rightarrow> memory \<Rightarrow> (addr \<times> branch_shadow \<times> memory) res) \<Rightarrow> env \<Rightarrow> driver \<Rightarrow> (addr \<times> driver) res" where
  "setup_with setup_shadow env d =
     bind_res (setup_shadow (shadow_map env) (m_bs d) (m_memory d)) (\<lambda>(entry, bs', m').
       Inr (entry, d\<lparr>m_bs := bs', m_memory := m'\<rparr>))"

definition clear_btb :: "nat \<Rightarrow> env \<Rightarrow> driver \<Rightarrow> driver res" where
  "clear_btb fuel env d =
     (case m_shadow (m_bs d) of
        None \<Rightarrow> Inl NullDeref
      | Some sh \<Rightarrow>
          bind_res (mess_btb fuel (btb_maps env) (rand_values env) (m_vic_src sh) (m_memory d)) (\<lambda>(js, _).
            note_event (BtbCleared js) d))"

definition run_shadow :: "nat \<Rightarrow> addr \<Rightarrow> 32 word \<Rightarrow> driver \<Rightarrow> driver res" where
  "run_shadow fuel entry shadow_input d =
     (case execute_ptr fuel (m_memory d) entry shadow_input of
        None \<Rightarrow> Inl OutOfFuel
      | Some (retval, js) \<Rightarrow> note_event (ShadowRun entry shadow_input retval js) d)"

definition finish_attack :: "env \<Rightarrow> driver \<Rightarrow> (addr \<times> driver) res" where
  "finish_attack env d =
     (let dev1 = snd (dump_lbr_inline (this_cpu env) (threads_created env) (m_lbr_fd d) (registers env, m_device d))
      in bind_res (read_lbr_file (reader_buffer env) (m_lbrReader d) dev1) (\<lambda>(_, rd', dev2).
         bind_res (get_data_ptr rd') (\<lambda>data.
           let src = m_shadow_src (m_bs d) in
           Inr (src, d\<lparr>m_bs := (m_bs d)\<lparr>m_shadow := None, m_src := 0, m_dst := 0\<rparr>,
                      m_lbrReader := rd', m_stats := add_from_lbr_data data src (m_stats d),
                      m_device := dev2, history := history d @ [LbrDumped (m_lbr_fd d)]\<rparr>))))"

definition jne_src :: "env \<Rightarrow> driver \<Rightarrow> addr" where
  "jne_src env d = get_victim_jne_src (m_memory d) (victim_jne_at env)"

definition jne_dst :: "env \<Rightarrow> driver \<Rightarrow> addr" where
  "jne_dst env d = get_victim_jne_dst (m_memory d) (victim_jne_at env)"

definition ret_retpoline :: "env \<Rightarrow> driver \<Rightarrow> addr" where
  "ret_retpoline env d = get_victim_ret_retpoline (m_memory d) (victim_ret_at env)"

definition ret_if :: "env \<Rightarrow> driver \<Rightarrow> addr" where
  "ret_if env d = get_victim_ret_if (m_memory d) (victim_ret_at env)"

definition ret_else :: "env \<Rightarrow> driver \<Rightarrow> addr" where
  "ret_else env d = get_victim_ret_else (m_memory d) (victim_ret_at env)"

text \<open>The calls into the enclave use the number \<open>prepare_attack\<close> has stored.\<close>

definition ecall_victim_jne :: "32 word \<Rightarrow> driver \<Rightarrow> driver res" where
  "ecall_victim_jne number d = note_event (EcallVictimJne (m_attack_eid d) number) d"

definition ecall_victim_ret :: "32 word \<Rightarrow> driver \<Rightarrow> driver res" where
  "ecall_victim_ret number d = note_event (EcallVictimRet (m_attack_eid d) number) d"

definition expect_jne :: "driver \<Rightarrow> driver res" where
  "expect_jne d =
     (case m_shadow (m_bs d) of
        None \<Rightarrow> Inl NullDeref
      | Some sh \<Rightarrow>
          bind_res (get_aligned_ptr (m_src (m_bs d)) sh) (\<lambda>p.
            if p = 0 then Inl NullDeref
            else bind_res (assert_res ''expecting a jne at aligned src address'' (is_jne p (m_memory d))) (\<lambda>_. Inr d)))"

section \<open>The experiments\<close>

type_synonym test_run = "nat \<Rightarrow> env \<Rightarrow> 32 word \<Rightarrow> 32 word \<Rightarrow> driver \<Rightarrow> (addr \<times> driver) res"

definition t1_run_jne :: test_run where
  "t1_run_jne fuel env victim_input shadow_input d =
     bind_res (prepare env (jne_src env d) (jne_dst env d) shadow_input d) (\<lambda>d1.
     bind_res (setup_with setup_jne_shadow env d1) (\<lambda>(entry, d2).
     bind_res (run_all [expect_jne, clear_btb fuel env, run_training (note_event (VictimJne victim_input)),
                        run_shadow fuel entry shadow_input] d2) (finish_attack env)))"

definition t9_run_jne_jmp :: test_run where
  "t9_run_jne_jmp fuel env victim_input shadow_input d =
     bind_res (prepare env (jne_src env d) (jne_dst env d) shadow_input d) (\<lambda>d1.
     bind_res (setup_with setup_jmp_shadow env d1) (\<lambda>(entry, d2).
     bind_res (run_all [clear_btb fuel env, run_training (note_event (VictimJne victim_input)),
                        run_shadow fuel entry shadow_input] d2) (finish_attack env)))"

definition t2_run_ret :: test_run where
  "t2_run_ret fuel env victim_input shadow_input d =
     bind_res (prepare env (ret_retpoline env d) (ret_else env d) shadow_input d) (\<lambda>d1.
     bind_res (setup_with setup_jne_shadow env d1) (\<lambda>(entry, d2).
     bind_res (run_all [clear_btb fuel env, run_training (note_event (VictimRet victim_input)),
                        run_shadow fuel entry shadow_input] d2) (finish_attack env)))"

definition t10_run_ret_reverse_shadow_input :: test_run where
  "t10_run_ret_reverse_shadow_input fuel env victim_input shadow_input d =
     (let shadow_input = shadow_input + 1 in
     bind_res (prepare env (ret_retpoline env d) (ret_else env d) shadow_input d) (\<lambda>d1.
     bind_res (setup_with setup_jne_shadow env d1) (\<lambda>(entry, d2).
     bind_res (run_all [clear_btb fuel env, run_training (note_event (VictimRet victim_input)),
                        run_shadow fuel entry shadow_input] d2) (finish_attack env))))"

definition t5_run_ret2 :: test_run where
  "t5_run_ret2 fuel env victim_input shadow_input d =
     bind_res (add_offset (ret_else env d) 2) (\<lambda>dst.
     bind_res (prepare env (ret_retpoline env d) dst shadow_input d) (\<lambda>d1.
     bind_res (setup_with setup_jne_shadow env d1) (\<lambda>(entry, d2).
     bind_res (run_all [clear_btb fuel env, run_training (run_shadow fuel entry shadow_input),
                        note_event (VictimRet victim_input), run_shadow fuel entry shadow_input] d2)
       (finish_attack env))))"

definition t6_run_ret2_check :: test_run where
  "t6_run_ret2_check fuel env victim_input shadow_input d =
     bind_res (add_offset (ret_else env d) 2) (\<lambda>dst.
     bind_res (prepare env (ret_retpoline env d) dst shadow_input d) (\<lambda>d1.
     bind_res (setup_with setup_jne_shadow env d1) (\<lambda>(entry, d2).
     bind_res (run_all [clear_btb fuel env, run_training (run_shadow fuel entry shadow_input),
                        run_shadow fuel entry shadow_input] d2)
       (finish_attack env))))"

definition t7_run_ret_jmp :: test_run where
  "t7_run_ret_jmp fuel env victim_input shadow_input d =
     bind_res (prepare env (ret_retpoline env d) (ret_else env d) shadow_input d) (\<lambda>d1.
     bind_res (setup_with setup_jmp_shadow env d1) (\<lambda>(entry, d2).
     bind_res (run_all [clear_btb fuel env, run_training (run_shadow fuel entry shadow_input),
                        note_event (VictimRet victim_input), run_shadow fuel entry shadow_input] d2)
       (finish_attack env)))"

definition t12_run_enc_ret_jmp :: test_run where
  "t12_run_enc_ret_jmp fuel env victim_input shadow_input d =
     bind_res (prepare env (ret_retpoline env d) (ret_else env d) shadow_input d) (\<lambda>d1.
     bind_res (setup_with setup_jmp_shadow env d1) (\<lambda>(entry, d2).
     bind_res (run_all [clear_btb fuel env, run_training (ecall_victim_ret victim_input),
                        run_shadow fuel entry shadow_input] d2) (finish_attack env)))"

definition t11_run_ret_jmp :: test_run where
  "t11_run_ret_jmp fuel env victim_input shadow_input d =
     bind_res (prepare env (ret_retpoline env d) (ret_if env d) shadow_input d) (\<lambda>d1.
     bind_res (setup_with setup_jmp_shadow_rev env d1) (\<lambda>(entry, d2).
     bind_res (run_all [clear_btb fuel env, run_training (run_shadow fuel entry shadow_input),
                        note_event (VictimRet victim_input), run_shadow fuel entry shadow_input] d2)
       (finish_attack env)))"

definition t8_run_ret_jmp_to_other :: test_run where
  "t8_run_ret_jmp_to_other fuel env victim_input shadow_input d =
     bind_res (add_offset (ret_else env d) 2) (\<lambda>dst.
     bind_res (prepare env (ret_retpoline env d) dst shadow_input d) (\<lambda>d1.
     bind_res (setup_with setup_jmp_shadow env d1) (\<lambda>(entry, d2).
     bind_res (run_all [clear_btb fuel env, run_training (run_shadow fuel entry shadow_input),
                        note_event (VictimRet victim_input), run_shadow fuel entry shadow_input] d2)
       (finish_attack env))))"

definition t3_run_enc_jne :: test_run where
  "t3_run_enc_jne fuel env victim_input shadow_input d =
     bind_res (prepare env (victim_enc_jne_src (m_enc_victims d)) (victim_enc_jne_dst (m_enc_victims d))
                 shadow_input d) (\<lambda>d1.
     bind_res (setup_with setup_jne_shadow env d1) (\<lambda>(entry, d2).
     bind_res (run_all [clear_btb fuel env, run_training (ecall_victim_jne victim_input),
                        run_shadow fuel entry shadow_input] d2) (finish_attack env)))"

definition t4_run_enc_ret :: test_run where
  "t4_run_enc_ret fuel env victim_input shadow_input d =
     bind_res (prepare env (victim_enc_ret_ret (m_enc_victims d)) (victim_enc_ret_else (m_enc_victims d))
                 shadow_input d) (\<lambda>d1.
     bind_res (setup_with setup_jne_shadow env d1) (\<lambda>(entry, d2).
     bind_res (run_all [clear_btb fuel env, run_training (ecall_victim_ret victim_input),
                        run_shadow fuel entry shadow_input] d2) (finish_attack env)))"

definition t13_run_enc_ret :: test_run where
  "t13_run_enc_ret fuel env victim_input shadow_input d =
     bind_res (prepare env (victim_enc_ret_ret (m_enc_victims d)) (victim_enc_ret_else (m_enc_victims d))
                 shadow_input d) (\<lambda>d1.
     bind_res (setup_with setup_jmp_shadow env d1) (\<lambda>(entry, d2).
     bind_res (run_all [clear_btb fuel env, run_training (ecall_victim_ret victim_input),
                        run_shadow fuel entry shadow_input] d2) (finish_attack env)))"

end
