(* ===== verification/ExperimentProps.thy ===== *)
theory ExperimentProps
  imports Experiments
begin

text \<open>
  Properties of the experiments: what every step keeps, and the whole of the first experiment with a
  forward victim branch.
\<close>

section \<open>What a setup keeps\<close>

definition same_victim :: "shadow \<Rightarrow> shadow \<Rightarrow> bool" where
  "same_victim sh sh' \<longleftrightarrow> m_vic_src sh' = m_vic_src sh \<and> m_vic_dst sh' = m_vic_dst sh"

lemma place_segment_victim: "place_segment s sh = Inr sh' \<Longrightarrow> same_victim sh sh'"
  by (auto simp: place_segment_def same_victim_def split: if_splits)

lemma add_segment_victim: "add_segment s sh = Inr sh' \<Longrightarrow> same_victim sh sh'"
  by (auto simp: add_segment_def place_segment_victim split: if_splits)
    (auto simp: same_victim_def)

lemma add_entry_victim: "add_entry s sh = Inr sh' \<Longrightarrow> same_victim sh sh'"
  using add_segment_victim [of s "sh\<lparr>m_entry_segment := Some s\<rparr>" sh']
  by (auto simp: add_entry_def same_victim_def)

lemma add_all_victim: "add_all ss sh = Inr sh' \<Longrightarrow> same_victim sh sh'"
proof (induction ss arbitrary: sh)
  case (Cons s ss)
  from Cons.prems obtain sh1 where "add_segment s sh = Inr sh1" "add_all ss sh1 = Inr sh'" by auto
  with Cons.IH [of sh1] add_segment_victim [of s sh sh1] show ?case by (simp add: same_victim_def)
qed (simp add: same_victim_def)

lemma place_rest_victim: "place_rest sh = Inr sh' \<Longrightarrow> same_victim sh sh'"
  by (auto simp: place_rest_def same_victim_def split: if_splits)

lemma relocate_victim: "relocate mm sh = Inr sh' \<Longrightarrow> same_victim sh sh'"
  by (auto simp: relocate_def same_victim_def apply_base_def Let_def split: list.splits if_splits)

lemma write_code_victim: "write_code sh m = Inr (sh', m') \<Longrightarrow> same_victim sh sh'"
  by (auto simp: write_code_def same_victim_def Let_def)

lemma same_victim_trans [trans]: "same_victim a b \<Longrightarrow> same_victim b c \<Longrightarrow> same_victim a c"
  by (simp add: same_victim_def)

lemma finalize_victim:
  assumes "finalize mm sh m = Inr (sh', m')"
  shows "same_victim sh sh'"
proof -
  from assms obtain sh1 sh2 where "place_rest sh = Inr sh1" "relocate mm sh1 = Inr sh2" "write_code sh2 m = Inr (sh', m')"
    by (auto simp: finalize_def)
  then have "same_victim sh sh1" "same_victim sh1 sh2" "same_victim sh2 sh'"
    by (simp_all add: place_rest_victim relocate_victim write_code_victim)
  then show ?thesis by (simp add: same_victim_def)
qed

lemma jne_setup_keeps:
  assumes "setup_jne_shadow mm bs m = Inr (entry, bs', m')" "m_shadow bs = Some sh"
  shows "m_src bs' = m_src bs \<and> (\<exists>sh'. m_shadow bs' = Some sh' \<and> same_victim sh sh')"
proof -
  from assms obtain h sh1 sh2 sh3 m1 where
    e: "add_entry 4 (sh\<lparr>seg := h\<rparr>) = Inr sh1"
    and a: "(if m_src bs < m_dst bs then add_all [5, 7, 6, 0, 8, 1, 9, 2, 3] sh1
             else add_all [5, 7, 0, 8, 1, 9, 6, 10, 2, 3] sh1) = Inr sh2"
    and f: "finalize mm sh2 m = Inr (sh3, m1)" and s: "finish_setup 6 jne_offset bs sh3 m1 = Inr (entry, bs', m')"
    by (auto simp: setup_jne_shadow_def simp del: add_all.simps)
  have "same_victim (sh\<lparr>seg := h\<rparr>) sh1" using e by (rule add_entry_victim)
  also have "same_victim sh1 sh2" using a add_all_victim by (auto simp del: add_all.simps split: if_splits)
  also have "same_victim sh2 sh3" using f by (rule finalize_victim)
  finally have "same_victim sh sh3" by (simp add: same_victim_def)
  then show ?thesis using s by (auto simp: finish_setup_def)
qed

section \<open>What every step keeps\<close>

text \<open>The events in which an enclave is created or called.\<close>

fun uses_enclave :: "event \<Rightarrow> bool" where
  "uses_enclave (EnclaveCreated _) = True"
| "uses_enclave (EcallSetup _) = True"
| "uses_enclave (EcallVictimJneTest _ _) = True"
| "uses_enclave (EcallVictimRetTest _ _) = True"
| "uses_enclave (EcallVictimJne _ _) = True"
| "uses_enclave (EcallVictimRet _ _) = True"
| "uses_enclave _ = False"

text \<open>With \<open>b\<close> false the history has grown without use of an enclave.\<close>

definition goes :: "bool \<Rightarrow> driver \<Rightarrow> driver \<Rightarrow> bool" where
  "goes b d d' \<longleftrightarrow> m_lbrReader d' = m_lbrReader d \<and> m_training_rounds d' = m_training_rounds d \<and>
     m_enclave d' = m_enclave d \<and>
     (\<exists>es. history d' = history d @ es \<and> (b \<or> (\<forall>e \<in> set es. \<not> uses_enclave e)))"

definition step_goes :: "bool \<Rightarrow> (driver \<Rightarrow> driver res) \<Rightarrow> bool" where
  "step_goes b f \<longleftrightarrow> (\<forall>d d'. f d = Inr d' \<longrightarrow> goes b d d')"

lemma goes_refl [simp]: "goes b d d"
  by (simp add: goes_def)

lemma goes_trans [trans]: "goes b d1 d2 \<Longrightarrow> goes b d2 d3 \<Longrightarrow> goes b d1 d3"
  unfolding goes_def by (elim conjE exE) (simp, auto)

lemma goes_event: "b \<or> \<not> uses_enclave e \<Longrightarrow> step_goes b (note_event e)"
  by (auto simp: step_goes_def goes_def note_event_def)

lemma goes_run_all: "\<forall>f \<in> set fs. step_goes b f \<Longrightarrow> step_goes b (run_all fs)"
  unfolding step_goes_def
proof (induction fs)
  case (Cons f fs)
  show ?case
  proof (intro allI impI)
    fix d d' assume "run_all (f # fs) d = Inr d'"
    then obtain d1 where "f d = Inr d1" "run_all fs d1 = Inr d'" by auto
    with Cons show "goes b d d'" using goes_trans [of b d d1 d'] by simp
  qed
qed simp

lemma goes_training: "step_goes b x \<Longrightarrow> step_goes b (run_training x)"
proof -
  assume x: "step_goes b x"
  have "\<forall>f \<in> set (replicate n x @ [x]). step_goes b f" for n using x by auto
  then have all: "step_goes b (run_all (replicate n x @ [x]))" for n by (rule goes_run_all)
  have "run_all (fs @ [x]) d = bind_res (run_all fs d) x" for fs d
  proof (induction fs arbitrary: d)
    case Nil
    then show ?case by (cases "x d") simp_all
  next
    case (Cons f fs)
    then show ?case by (cases "f d") simp_all
  qed
  then have "run_training x d = run_all (replicate (nat (m_training_rounds d)) x @ [x]) d" for d
    by (simp add: run_training_def)
  with all show ?thesis by (simp add: step_goes_def)
qed

lemma goes_clear: "step_goes b (clear_btb fuel env)"
  by (auto simp: step_goes_def clear_btb_def note_event_def goes_def split: option.splits)

lemma goes_shadow: "step_goes b (run_shadow fuel entry i)"
  by (auto simp: step_goes_def run_shadow_def note_event_def goes_def split: option.splits)

lemma goes_expect: "step_goes b expect_jne"
  by (auto simp: step_goes_def expect_jne_def Let_def split: option.splits if_splits)

lemma goes_ecall: "step_goes True (ecall_victim_jne i)" "step_goes True (ecall_victim_ret i)"
  by (auto simp: step_goes_def ecall_victim_jne_def ecall_victim_ret_def note_event_def goes_def)

lemma goes_prepare: "prepare env s t i d = Inr d' \<Longrightarrow> goes b d d'"
  by (auto simp: prepare_def goes_def)

lemma goes_setup: "setup_with f env d = Inr (entry, d') \<Longrightarrow> goes b d d'"
  by (auto simp: setup_with_def goes_def)

lemmas goes_intros = goes_run_all goes_training goes_clear goes_shadow goes_expect goes_ecall goes_event

text \<open>The common shape: prepare, set up, steps, finish.\<close>

lemma experiment_goes:
  assumes "bind_res (prepare env s t i d) (\<lambda>d1. bind_res (setup_with f env d1) (\<lambda>(entry, d2).
      bind_res (run_all (fs entry) d2) (finish_attack env))) = Inr (r, d')"
    and "\<And>entry. \<forall>g \<in> set (fs entry). step_goes b g"
  shows "\<exists>d1. goes b d d1 \<and> finish_attack env d1 = Inr (r, d')"
proof -
  from assms(1) obtain d1 entry d2 d3 where
    d: "prepare env s t i d = Inr d1" "setup_with f env d1 = Inr (entry, d2)" "run_all (fs entry) d2 = Inr d3"
    and fin: "finish_attack env d3 = Inr (r, d')" by auto
  have "goes b d d1" using d(1) by (rule goes_prepare)
  also have "goes b d1 d2" using d(2) by (rule goes_setup)
  also have "goes b d2 d3" using d(3) goes_run_all [OF assms(2)] by (simp add: step_goes_def)
  finally show ?thesis using fin by blast
qed

section \<open>The first experiment\<close>

lemma run_note:
  "run_all (replicate n (note_event e)) d = Inr (d\<lparr>history := history d @ replicate n e\<rparr>)"
  by (induction n arbitrary: d) (simp_all add: note_event_def)

lemma training_note:
  "run_training (note_event e) d = Inr (d\<lparr>history := history d @ replicate (Suc (nat (m_training_rounds d))) e\<rparr>)"
  by (simp add: run_training_def run_note note_event_def replicate_append_same)

text \<open>What the end of an experiment needs: an open device with a dump, and a buffer.\<close>

definition reader_ready :: "env \<Rightarrow> driver \<Rightarrow> bool" where
  "reader_ready env d \<longleftrightarrow> m_fd_lbr (m_lbrReader d) \<ge> 1 \<and>
     (\<exists>ds. dumped (m_device d) = Some ds \<and> length ds = 32) \<and>
     (\<exists>t < 32. read_lbr_tos (registers env (this_cpu env)) = int t) \<and>
     (\<exists>buf. (if m_lbr_data (m_lbrReader d) = None then reader_buffer env else m_lbr_data (m_lbrReader d)) = Some buf \<and>
        length buf = 1024)"

lemma finish_ready:
  assumes "reader_ready env d" "m_lbr_fd d = m_fd_lbr (m_lbrReader d)"
  shows "\<exists>d'. finish_attack env d = Inr (m_shadow_src (m_bs d), d') \<and>
    history d' = history d @ [LbrDumped (m_lbr_fd d)]"
proof -
  from assms(1) obtain ds t buf where r: "dumped (m_device d) = Some ds" "length ds = 32"
    "read_lbr_tos (registers env (this_cpu env)) = int t" "t < 32" "m_fd_lbr (m_lbrReader d) \<ge> 1"
    "(if m_lbr_data (m_lbrReader d) = None then reader_buffer env else m_lbr_data (m_lbrReader d)) = Some buf"
    "length buf = 1024"
    unfolding reader_ready_def by blast
  note dump_then_read [where cpus = "registers env" and cpu = "this_cpu env" and created = "threads_created env", OF r]
  then show ?thesis using assms(2) by (simp add: finish_attack_def get_data_ptr_def Let_def)
qed

lemma reader_ready_same:
  "m_lbrReader d' = m_lbrReader d \<Longrightarrow> m_device d' = m_device d \<Longrightarrow> reader_ready env d' = reader_ready env d"
  by (simp add: reader_ready_def)

lemma jne_experiment_runs:
  assumes S: "S = jne_src env d" and D: "D = jne_dst env d" and b: "b = m_use_indirect_targets (m_bs d)"
    and place: "jne_placeable b (fst (indirect_cells env)) (snd (indirect_cells env)) (shadow_map env) S D k"
    and map: "4294967296 \<le> unat (new_base (shadow_map env) (S - word_of_nat (lead b)) 32)"
    and btb: "fst (btb_maps env) \<noteq> 0" "snd (btb_maps env) \<noteq> 0"
      "unat (fst (btb_maps env)) + 8589934592 \<le> 18446744073709551616"
    and rd: "reader_ready env d"
  shows "\<exists>fuel r d' entry js js'. (\<forall>n \<ge> fuel. t1_run_jne n env v i d = Inr (r, d')) \<and>
    low_bits 32 r = low_bits 32 S \<and>
    history d' = history d @ [BtbCleared js] @ replicate (Suc (nat (m_training_rounds d))) (VictimJne v) @
      [ShadowRun entry i (victim_jne i) js', LbrDumped (m_fd_lbr (m_lbrReader d))] \<and>
    (\<exists>a \<in> fst ` set js. low_bits 32 a = low_bits 32 S) \<and> ((\<exists>t. (r, t) \<in> set js') = odd i)"
proof -
  have "17 \<le> lead b" by (simp add: lead_def)
  then have nz: "S \<noteq> 0" "D \<noteq> 0" using place by (auto simp: jne_placeable_def Let_def)
  let ?c1 = "fst (indirect_cells env)" and ?c2 = "snd (indirect_cells env)" and ?mm = "shadow_map env"
  let ?sh0 = "new_Shadow lbr_entry_bits S D (\<lambda>_. make_Nop 1)"
  obtain bs1 m1 where prep: "prepare_attack S D i ?c1 ?c2 (m_bs d) (m_memory d) = Inr (bs1, m1)"
    and bs1: "m_src bs1 = S" "m_shadow bs1 = Some ?sh0"
    using nz by (cases "m_use_indirect_targets (m_bs d)") (simp_all add: prepare_attack_def Let_def)
  note place' = place [unfolded b] and map' = map [unfolded b]
  from jne_at_source [OF prep place' map'] obtain entry bs2 sh2 m2 where
    set: "setup_jne_shadow ?mm bs1 m1 = Inr (entry, bs2, m2)" "m_shadow bs2 = Some sh2"
    and al: "get_aligned_ptr S sh2 = Inr (m_shadow_src bs2)" "is_jne (m_shadow_src bs2) m2" "m_shadow_src bs2 \<noteq> 0" by blast
  have eff: "effective_input (m_use_indirect_targets (m_bs d)) i i = i" by (simp add: effective_input_def)
  from jne_shadow_runs [OF prep place'] obtain entry' bs' m' where
    "setup_jne_shadow ?mm bs1 m1 = Inr (entry', bs', m')" and
    low': "low_bits 32 (m_shadow_src bs') = low_bits 32 S" and
    ex': "\<forall>input. \<exists>fuel log. (\<forall>k \<ge> fuel. execute_ptr k m' entry' input =
         Some (if odd (effective_input (m_use_indirect_targets (m_bs d)) i input) then 2 else 1, log)) \<and>
       ((\<exists>t. (m_shadow_src bs', t) \<in> set log) = odd (effective_input (m_use_indirect_targets (m_bs d)) i input)) \<and>
       (\<forall>t. (m_shadow_src bs', t) \<in> set log \<longrightarrow> low_bits 32 t = low_bits 32 D)"
    by (elim exE conjE) (rule that)
  with set(1) have same: "entry' = entry" "bs' = bs2" "m' = m2" by simp_all
  note low = low' [unfolded same]
  from spec [OF ex', of i] have
    "\<exists>fuel log. (\<forall>k \<ge> fuel. execute_ptr k m2 entry i = Some (victim_jne i, log)) \<and>
       ((\<exists>t. (m_shadow_src bs2, t) \<in> set log) = odd i)"
    unfolding same victim_jne_parity eff by (elim exE conjE) (intro exI conjI)
  then obtain f1 js' where f1: "\<forall>n \<ge> f1. execute_ptr n m2 entry i = Some (victim_jne i, js')"
    and odd: "(\<exists>t. (m_shadow_src bs2, t) \<in> set js') = odd i" by blast
  from jne_setup_keeps [OF set(1)] set(2) bs1 have keep: "m_src bs2 = S" "m_vic_src sh2 = S"
    by (auto simp: same_victim_def new_Shadow_def)
  from mess_btb_runs [OF nz(1) btb, of "rand_values env" m2] obtain js m3 f2 where
    f2: "\<forall>n \<ge> f2. mess_btb n (btb_maps env) (rand_values env) S m2 = Inr (js, m3)"
    and hits: "\<exists>a \<in> fst ` set js. low_bits 32 a = low_bits 32 S" by (auto simp: lbr_entry_bits_def)
  let ?d1 = "d\<lparr>m_bs := bs1, m_memory := m1, m_lbr_fd := m_fd_lbr (m_lbrReader d),
    m_attack_eid := (case m_enclave d of None \<Rightarrow> m_attack_eid d | Some e \<Rightarrow> m_eid e)\<rparr>"
  define d2 where "d2 = ?d1\<lparr>m_bs := bs2, m_memory := m2\<rparr>"
  let ?d5 = "d2\<lparr>history := history d @ [BtbCleared js] @
    replicate (Suc (nat (m_training_rounds d))) (VictimJne v) @ [ShadowRun entry i (victim_jne i) js']\<rparr>"
  have sel: "m_bs d2 = bs2" "m_memory d2 = m2" "history d2 = history d" "m_training_rounds d2 = m_training_rounds d"
    "m_lbrReader d2 = m_lbrReader d" "m_lbr_fd d2 = m_fd_lbr (m_lbrReader d)" "m_device d2 = m_device d"
    by (simp_all add: d2_def)
  have p: "prepare env S D i d = Inr ?d1" by (simp add: prepare_def prep)
  have s: "setup_with setup_jne_shadow env ?d1 = Inr (entry, d2)"
    using set(1) by (simp add: setup_with_def d2_def)
  have e: "expect_jne d2 = Inr d2" using set(2) keep(1) al by (simp add: expect_jne_def sel)
  have run: "run_all [expect_jne, clear_btb n env, run_training (note_event (VictimJne v)), run_shadow n entry i] d2 = Inr ?d5"
    if "n \<ge> max f1 f2" for n
    using that f1 f2 set(2) keep(2)
    by (simp add: e sel clear_btb_def training_note run_shadow_def note_event_def)
  have "reader_ready env ?d5" using rd reader_ready_same [of ?d5 d env] by (simp add: sel)
  from finish_ready [OF this] obtain d' where fin: "finish_attack env ?d5 = Inr (m_shadow_src bs2, d')"
    "history d' = history ?d5 @ [LbrDumped (m_fd_lbr (m_lbrReader d))]" by (auto simp: sel)
  have "t1_run_jne n env v i d = Inr (m_shadow_src bs2, d')" if "n \<ge> max f1 f2" for n
    unfolding t1_run_jne_def S [symmetric] D [symmetric] p s run [OF that] fin(1) bind_res_Inr prod.case ..
  then show ?thesis
    using low fin(2) hits odd
    by (intro exI [of _ "max f1 f2"] exI [of _ "m_shadow_src bs2"] exI [of _ d'] exI [of _ entry]
        exI [of _ js] exI [of _ js'] conjI) simp_all
qed

end
