(* ===== verification/MainProgram.thy ===== *)
theory MainProgram
  imports ExperimentProps
begin

text \<open>
  \<open>main.cpp\<close>: the options, the preparation of the reader and of the enclave, and the choice of
  the experiment; then the properties of a whole run. Option parsing, logging and the change of the
  working directory are left out.
\<close>

section \<open>The program\<close>

record options =
  f_no_sgx :: bool
  f_no_indirect :: bool
  f_victim_input :: "32 word option"
  f_shadow_input :: "32 word option"
  f_test_type :: "int option"

text \<open>What the calls made during the preparation return.\<close>

record startup =
  lbr_file_exists :: bool
  lbr_file_fd :: int
  token_rb :: "nat option"
  token_wb :: "nat option"
  token_reopened :: "nat option"
  created_enclave :: "(64 word \<times> bool) option"
  setup_ok :: bool
  ecall_ok :: "32 word \<Rightarrow> bool"
  e_victim_jne_at :: addr
  e_victim_ret_at :: addr

definition prepare_lbr :: "startup \<Rightarrow> driver \<Rightarrow> driver res" where
  "prepare_lbr st d =
     (let rd = \<lparr>m_lbr_data = None, m_fd_lbr = - 1\<rparr> in
      if lbr_file_exists st then
        (case open_device (lbr_file_exists st) (lbr_file_fd st) rd of
           (opened, rd') \<Rightarrow> if \<not> opened then Inl Abort else Inr (d\<lparr>m_lbrReader := rd'\<rparr>))
      else Inr (d\<lparr>m_lbrReader := rd\<rparr>))"

definition prepare_enclave :: "startup \<Rightarrow> driver \<Rightarrow> driver res" where
  "prepare_enclave st d =
     bind_res (initialize_enclave (token_rb st) (token_wb st) (token_reopened st) (created_enclave st)
                 \<lparr>m_eid = 0, m_token_fp = None\<rparr>) (\<lambda>(eid, e).
       if eid = 0 then Inl Abort
       else bind_res (note_event (EnclaveCreated eid) d) (\<lambda>d1.
            bind_res (note_event (EcallSetup (m_eid e)) d1) (\<lambda>d2.
            bind_res (exfiltrate_addresses (setup_ok st) (m_memory d2) (e_victim_jne_at st) (e_victim_ret_at st)
                        (m_enc_victims d2)) (\<lambda>(ok, v).
              if \<not> ok then Inl Abort else Inr (d2\<lparr>m_enclave := Some e, m_enc_victims := v\<rparr>)))))"

text \<open>\<open>sanity_check_victims\<close>: one assertion that a victim, run as \<open>e\<close>, returns what is expected.\<close>

definition expect_value :: "event \<Rightarrow> 32 word \<Rightarrow> 32 word \<Rightarrow> driver \<Rightarrow> driver res" where
  "expect_value e retval expected d =
     bind_res (note_event e d) (\<lambda>d1.
     bind_res (assert_res ''sanity check'' (retval = expected)) (\<lambda>_. Inr d1))"

definition sanity_check_victims :: "(32 word \<Rightarrow> bool) \<Rightarrow> driver \<Rightarrow> (bool \<times> driver) res" where
  "sanity_check_victims success d =
     bind_res (run_all
       [expect_value (VictimJne 0) (victim_jne 0) 1, expect_value (VictimJne 1) (victim_jne 1) 2,
        expect_value (VictimJne 2) (victim_jne 2) 1, expect_value (VictimJne 3) (victim_jne 3) 2,
        expect_value (VictimRet 0) (victim_ret 0) 1, expect_value (VictimRet 1) (victim_ret 1) 2,
        expect_value (VictimRet 2) (victim_ret 2) 1, expect_value (VictimRet 3) (victim_ret 3) 2] d) (\<lambda>d1.
     bind_res (case m_enclave d1 of
         None \<Rightarrow> Inr d1
       | Some e \<Rightarrow> run_all
           [expect_value (EcallVictimJneTest (m_eid e) 0) (test_victim_jne success 0) 1,
            expect_value (EcallVictimJneTest (m_eid e) 1) (test_victim_jne success 1) 2,
            expect_value (EcallVictimJneTest (m_eid e) 2) (test_victim_jne success 2) 1,
            expect_value (EcallVictimJneTest (m_eid e) 3) (test_victim_jne success 3) 2,
            expect_value (EcallVictimRetTest (m_eid e) 0) (test_victim_ret success 0) 1,
            expect_value (EcallVictimRetTest (m_eid e) 1) (test_victim_ret success 1) 2,
            expect_value (EcallVictimRetTest (m_eid e) 2) (test_victim_ret success 2) 1,
            expect_value (EcallVictimRetTest (m_eid e) 3) (test_victim_ret success 3) 2] d1) (\<lambda>d2.
       Inr (True, d2)))"

definition run_test :: "int \<Rightarrow> test_run" where
  "run_test test_type =
     (if test_type = 1 then t1_run_jne
      else if test_type = 2 then t2_run_ret
      else if test_type = 3 then t3_run_enc_jne
      else if test_type = 4 then t4_run_enc_ret
      else if test_type = 5 then t5_run_ret2
      else if test_type = 6 then t6_run_ret2_check
      else if test_type = 7 then t7_run_ret_jmp
      else if test_type = 8 then t8_run_ret_jmp_to_other
      else if test_type = 9 then t9_run_jne_jmp
      else if test_type = 10 then t10_run_ret_reverse_shadow_input
      else if test_type = 11 then t11_run_ret_jmp
      else if test_type = 12 then t12_run_enc_ret_jmp
      else if test_type = 13 then t13_run_enc_ret
      else (\<lambda>_ _ _ _ _. Inl Abort))"

definition value_or :: "'a \<Rightarrow> 'a option \<Rightarrow> 'a" where
  "value_or x v = (case v of None \<Rightarrow> x | Some y \<Rightarrow> y)"

definition main_program :: "options \<Rightarrow> startup \<Rightarrow> nat \<Rightarrow> env \<Rightarrow> driver \<Rightarrow> (addr \<times> driver) res" where
  "main_program opts st fuel env d =
     (let victim_input = value_or 1 (f_victim_input opts);
          shadow_input = value_or 1 (f_shadow_input opts);
          test_type = value_or 1 (f_test_type opts) in
      if f_no_sgx opts \<and> (test_type < 1 \<or> test_type > 2) then Inl Abort
      else
        let d0 = d\<lparr>m_training_rounds := 100,
                   m_bs := (m_bs d)\<lparr>m_use_indirect_targets := \<not> f_no_indirect opts\<rparr>\<rparr> in
        bind_res (prepare_lbr st d0) (\<lambda>d1.
        bind_res (if f_no_sgx opts then Inr d1 else prepare_enclave st d1) (\<lambda>d2.
        bind_res (sanity_check_victims (ecall_ok st) d2) (\<lambda>(_, d3).
          run_test test_type fuel env victim_input shadow_input d3))))"

section \<open>Every experiment\<close>

lemma experiment_dst_goes:
  assumes "bind_res dst (\<lambda>t. bind_res (prepare env s t i d) (\<lambda>d1. bind_res (setup_with f env d1) (\<lambda>(entry, d2).
      bind_res (run_all (fs entry) d2) (finish_attack env)))) = Inr (r, d')"
    and "\<And>entry. \<forall>g \<in> set (fs entry). step_goes b g"
  shows "\<exists>d1. goes b d d1 \<and> finish_attack env d1 = Inr (r, d')"
proof -
  from assms(1) obtain t where "bind_res (prepare env s t i d) (\<lambda>d1. bind_res (setup_with f env d1) (\<lambda>(entry, d2).
      bind_res (run_all (fs entry) d2) (finish_attack env))) = Inr (r, d')"
    unfolding bind_res_eq_Inr [of dst] by blast
  from experiment_goes [OF this assms(2)] show ?thesis .
qed

lemma plain_tests_go:
  "t1_run_jne fuel env v i d = Inr (r, d') \<Longrightarrow> \<exists>d1. goes False d d1 \<and> finish_attack env d1 = Inr (r, d')"
  "t2_run_ret fuel env v i d = Inr (r, d') \<Longrightarrow> \<exists>d1. goes False d d1 \<and> finish_attack env d1 = Inr (r, d')"
  "t5_run_ret2 fuel env v i d = Inr (r, d') \<Longrightarrow> \<exists>d1. goes False d d1 \<and> finish_attack env d1 = Inr (r, d')"
  "t6_run_ret2_check fuel env v i d = Inr (r, d') \<Longrightarrow> \<exists>d1. goes False d d1 \<and> finish_attack env d1 = Inr (r, d')"
  "t7_run_ret_jmp fuel env v i d = Inr (r, d') \<Longrightarrow> \<exists>d1. goes False d d1 \<and> finish_attack env d1 = Inr (r, d')"
  "t8_run_ret_jmp_to_other fuel env v i d = Inr (r, d') \<Longrightarrow> \<exists>d1. goes False d d1 \<and> finish_attack env d1 = Inr (r, d')"
  "t9_run_jne_jmp fuel env v i d = Inr (r, d') \<Longrightarrow> \<exists>d1. goes False d d1 \<and> finish_attack env d1 = Inr (r, d')"
  "t10_run_ret_reverse_shadow_input fuel env v i d = Inr (r, d') \<Longrightarrow> \<exists>d1. goes False d d1 \<and> finish_attack env d1 = Inr (r, d')"
  "t11_run_ret_jmp fuel env v i d = Inr (r, d') \<Longrightarrow> \<exists>d1. goes False d d1 \<and> finish_attack env d1 = Inr (r, d')"
  unfolding t1_run_jne_def t2_run_ret_def t5_run_ret2_def t6_run_ret2_check_def t7_run_ret_jmp_def
    t8_run_ret_jmp_to_other_def t9_run_jne_jmp_def t10_run_ret_reverse_shadow_input_def t11_run_ret_jmp_def Let_def
  by (erule experiment_goes experiment_dst_goes, (auto intro!: goes_intros)[1])+

lemma enclave_tests_go:
  "t3_run_enc_jne fuel env v i d = Inr (r, d') \<Longrightarrow> \<exists>d1. goes True d d1 \<and> finish_attack env d1 = Inr (r, d')"
  "t4_run_enc_ret fuel env v i d = Inr (r, d') \<Longrightarrow> \<exists>d1. goes True d d1 \<and> finish_attack env d1 = Inr (r, d')"
  "t12_run_enc_ret_jmp fuel env v i d = Inr (r, d') \<Longrightarrow> \<exists>d1. goes True d d1 \<and> finish_attack env d1 = Inr (r, d')"
  "t13_run_enc_ret fuel env v i d = Inr (r, d') \<Longrightarrow> \<exists>d1. goes True d d1 \<and> finish_attack env d1 = Inr (r, d')"
  unfolding t3_run_enc_jne_def t4_run_enc_ret_def t12_run_enc_ret_jmp_def t13_run_enc_ret_def
  by (erule experiment_goes experiment_dst_goes, (auto intro!: goes_intros)[1])+

lemma run_test_goes:
  assumes "run_test n fuel env v i d = Inr (r, d')"
  shows "1 \<le> n \<and> n \<le> 13 \<and> (\<exists>d1. goes (n \<in> {3, 4, 12, 13}) d d1 \<and> finish_attack env d1 = Inr (r, d'))"
  using assms unfolding run_test_def
  by (simp split: if_splits) (simp_all add: plain_tests_go enclave_tests_go)

lemma prepare_lbr_keeps:
  "prepare_lbr st d = Inr d' \<Longrightarrow> history d' = history d \<and> m_enclave d' = m_enclave d \<and>
     (\<not> lbr_file_exists st \<longrightarrow> m_lbrReader d' = \<lparr>m_lbr_data = None, m_fd_lbr = - 1\<rparr>)"
  by (auto simp: prepare_lbr_def open_device_def Let_def split: if_splits)

lemma prepare_enclave_keeps:
  "prepare_enclave st d = Inr d' \<Longrightarrow> m_lbrReader d' = m_lbrReader d"
  by (auto simp: prepare_enclave_def note_event_def split: if_splits)

lemma expect_value_Inr:
  "expect_value e r x d = (if r = x then Inr (d\<lparr>history := history d @ [e]\<rparr>) else Inl (AssertFail ''sanity check''))"
  by (simp add: expect_value_def note_event_def assert_res_def)

lemma goes_expect_value: "step_goes True (expect_value e r x)"
  by (simp add: step_goes_def goes_def expect_value_Inr)

lemma sanity_check_keeps:
  assumes "sanity_check_victims success d = Inr (r, d')"
  shows "m_lbrReader d' = m_lbrReader d"
proof -
  have all: "run_all fs d1 = Inr d2 \<Longrightarrow> \<forall>f \<in> set fs. step_goes True f \<Longrightarrow> m_lbrReader d2 = m_lbrReader d1" for fs d1 d2
    using goes_run_all [of fs True] by (simp add: step_goes_def goes_def)
  from assms show ?thesis
    unfolding sanity_check_victims_def
    by (auto split: option.splits simp del: run_all.simps dest!: all simp: goes_expect_value)
qed

text \<open>The events of the sanity check that are there without an enclave.\<close>

definition checks :: "event list" where
  "checks = map VictimJne [0, 1, 2, 3] @ map VictimRet [0, 1, 2, 3]"

lemma sanity_check_plain:
  "m_enclave d = None \<Longrightarrow> sanity_check_victims success d = Inr (True, d\<lparr>history := history d @ checks\<rparr>)"
  by (simp add: sanity_check_victims_def expect_value_Inr victim_jne_parity victim_ret_parity checks_def)

lemma main_program_parts:
  assumes "main_program opts st fuel env d = Inr (r, d')"
  obtains d3 where "run_test (value_or 1 (f_test_type opts)) fuel env (value_or 1 (f_victim_input opts))
      (value_or 1 (f_shadow_input opts)) d3 = Inr (r, d')"
    and "\<not> lbr_file_exists st \<Longrightarrow> m_lbrReader d3 = \<lparr>m_lbr_data = None, m_fd_lbr = - 1\<rparr>"
    and "f_no_sgx opts \<Longrightarrow> value_or 1 (f_test_type opts) \<in> {1, 2}"
    and "f_no_sgx opts \<Longrightarrow> m_enclave d = None \<Longrightarrow> m_enclave d3 = None \<and> history d3 = history d @ checks"
proof -
  from assms have guard: "\<not> (f_no_sgx opts \<and> (value_or 1 (f_test_type opts) < 1 \<or> value_or 1 (f_test_type opts) > 2))"
    by (auto simp: main_program_def)
  let ?d0 = "d\<lparr>m_training_rounds := 100, m_bs := (m_bs d)\<lparr>m_use_indirect_targets := \<not> f_no_indirect opts\<rparr>\<rparr>"
  from assms guard obtain d1 d2 b d3 where p: "prepare_lbr st ?d0 = Inr d1"
    and e: "(if f_no_sgx opts then Inr d1 else prepare_enclave st d1) = Inr d2"
    and c: "sanity_check_victims (ecall_ok st) d2 = Inr (b, d3)"
    and run: "run_test (value_or 1 (f_test_type opts)) fuel env (value_or 1 (f_victim_input opts))
      (value_or 1 (f_shadow_input opts)) d3 = Inr (r, d')"
    by (auto simp: main_program_def Let_def)
  have "m_lbrReader d3 = m_lbrReader d1"
    using e prepare_enclave_keeps [of st d1 d2] sanity_check_keeps [OF c] by (auto split: if_splits)
  moreover have "m_enclave d3 = None \<and> history d3 = history d @ checks" if "f_no_sgx opts" "m_enclave d = None"
    using that e prepare_lbr_keeps [OF p] sanity_check_plain [of d2 "ecall_ok st"] c by auto
  ultimately show thesis using prepare_lbr_keeps [OF p] guard run by (intro that [of d3]) auto
qed

text \<open>
  C21. With the option that turns SGX off, a run that starts without an enclave and returns has executed
  one of the experiments 1 and 2. Its history has the sanity check of the two victims outside the enclave
  and then the experiment; no enclave has been created and none has been called, neither by the
  preparation nor by the sanity check nor by the experiment.
\<close>
theorem main_without_sgx:
  assumes "f_no_sgx opts" and "m_enclave d = None" and "main_program opts st fuel env d = Inr (r, d')"
  shows "value_or 1 (f_test_type opts) \<in> {1, 2} \<and> m_enclave d' = None \<and>
    (\<exists>es. history d' = history d @ map VictimJne [0, 1, 2, 3] @ map VictimRet [0, 1, 2, 3] @ es \<and>
      (\<forall>e \<in> set es. \<not> uses_enclave e))"
proof -
  from main_program_parts [OF assms(3)] obtain d2 where
    run: "run_test (value_or 1 (f_test_type opts)) fuel env (value_or 1 (f_victim_input opts))
      (value_or 1 (f_shadow_input opts)) d2 = Inr (r, d')"
    and d2: "m_enclave d2 = None" "history d2 = history d @ checks" "value_or 1 (f_test_type opts) \<in> {1, 2}"
    using assms(1,2) by metis
  from run_test_goes [OF run] d2(3) obtain d3 where
    g: "goes False d2 d3" and fin: "finish_attack env d3 = Inr (r, d')" by auto
  from g d2(1,2) obtain es where "m_enclave d3 = None" "history d3 = history d @ checks @ es" "\<forall>e \<in> set es. \<not> uses_enclave e"
    by (auto simp: goes_def)
  moreover have "m_enclave d' = m_enclave d3 \<and> history d' = history d3 @ [LbrDumped (m_lbr_fd d3)]"
    using fin by (auto simp: finish_attack_def Let_def)
  ultimately show ?thesis
    using d2(3) by (auto simp: checks_def intro: exI [of _ "es @ [LbrDumped (m_lbr_fd d3)]"])
qed

text \<open>
  C32. Without the device file no experiment returns: it is skipped with a warning, but the end of
  every experiment asserts that the records have been read.
\<close>
theorem main_needs_device:
  assumes "\<not> lbr_file_exists st"
  shows "main_program opts st fuel env d \<noteq> Inr (r, d')"
proof
  assume "main_program opts st fuel env d = Inr (r, d')"
  from main_program_parts [OF this] obtain d2 where
    run: "run_test (value_or 1 (f_test_type opts)) fuel env (value_or 1 (f_victim_input opts))
      (value_or 1 (f_shadow_input opts)) d2 = Inr (r, d')"
    and rd: "m_lbrReader d2 = \<lparr>m_lbr_data = None, m_fd_lbr = - 1\<rparr>"
    using assms by metis
  from run_test_goes [OF run] obtain b d3 where "goes b d2 d3" "finish_attack env d3 = Inr (r, d')" by blast
  with rd show False
    by (auto simp: goes_def finish_attack_def read_lbr_file_def get_data_ptr_def Let_def)
qed

section \<open>The first experiment\<close>

text \<open>
  C5. With a forward victim branch the first experiment returns the address of the shadow branch,
  which agrees with the victim's in the low 32 bits. Its history is: the predictor is cleared through
  an aliasing address, the victim runs once more than the number of training rounds, the shadow
  runs once and computes what the victim computes on its input, and then the records are dumped; the
  shadow branch is among the taken jumps exactly for odd inputs.
\<close>
theorem jne_experiment:
  assumes "S = jne_src env d" "D = jne_dst env d" "b = m_use_indirect_targets (m_bs d)"
    and "jne_placeable b (fst (indirect_cells env)) (snd (indirect_cells env)) (shadow_map env) S D k"
    and "4294967296 \<le> unat (new_base (shadow_map env) (S - word_of_nat (lead b)) 32)"
    and "fst (btb_maps env) \<noteq> 0" "snd (btb_maps env) \<noteq> 0"
      "unat (fst (btb_maps env)) + 8589934592 \<le> 18446744073709551616"
    and "reader_ready env d"
  shows "\<exists>fuel r d' entry js js'. (\<forall>n \<ge> fuel. t1_run_jne n env v i d = Inr (r, d')) \<and>
    low_bits 32 r = low_bits 32 S \<and>
    history d' = history d @ [BtbCleared js] @ replicate (Suc (nat (m_training_rounds d))) (VictimJne v) @
      [ShadowRun entry i (victim_jne i) js', LbrDumped (m_fd_lbr (m_lbrReader d))] \<and>
    (\<exists>a \<in> fst ` set js. low_bits 32 a = low_bits 32 S) \<and> ((\<exists>t. (r, t) \<in> set js') = odd i)"
  by (rule jne_experiment_runs [OF assms])

section \<open>Example\<close>

definition ex_memory :: memory where
  "ex_memory = (\<lambda>a. if a = 0x400100 then 0x75 else if a = 0x400120 then 0xc7 else if a = 0x400121 then 0x45
     else if a = 0x400123 then 0x02 else 0)"

definition ex_env :: env where
  "ex_env = \<lparr>indirect_cells = ((0x500000, 0x500010), (0x500020, 0x500030)), shadow_map = 0x7f0000001000,
     btb_maps = (0x7f1000001000, 0x7f2000001000), rand_values = (\<lambda>_. 5),
     registers = (\<lambda>_ r. if r = 0x1c9 then 5 else ucast r), this_cpu = 1, threads_created = (\<lambda>_. True),
     reader_buffer = Some (replicate 1024 0), victim_jne_at = 0x400100, victim_ret_at = 0x400200\<rparr>"

definition ex_driver :: driver where
  "ex_driver = \<lparr>m_bs = ex_bs True, m_memory = ex_memory, m_enclave = None, m_attack_eid = 0,
     m_lbrReader = \<lparr>m_lbr_data = None, m_fd_lbr = 3\<rparr>, m_lbr_fd = 0,
     m_stats = \<lparr>m_hits = \<lparr>m_vals = [], ms_count = 0, m_total = 0\<rparr>,
                m_cycles = \<lparr>m_vals = [], ms_count = 0, m_total = 0\<rparr>, m_count = 0\<rparr>,
     m_training_rounds = 100,
     m_device = \<lparr>lbr_data_index = 0, dumped = Some (replicate 32 (entry_at (\<lambda>_. 0) 0))\<rparr>,
     m_enc_victims = no_victims, history = []\<rparr>"

lemma ex_found: "get_victim_jne_src ex_memory 0x400100 = 0x400100" "get_victim_jne_dst ex_memory 0x400100 = 0x400120"
  by code_simp+

lemma ex_places: "jne_src ex_env ex_driver = 0x400100" "jne_dst ex_env ex_driver = 0x400120"
  by (simp_all add: jne_src_def jne_dst_def ex_env_def ex_driver_def ex_found)

lemma ex_ready: "reader_ready ex_env ex_driver"
  by (simp add: reader_ready_def ex_env_def ex_driver_def read_lbr_tos_def rd_eax_def MSR_LBR_TOS_def
      exI [of _ "5 :: nat"])

lemma ex_cells: "fst (indirect_cells ex_env) = (0x500000, 0x500010)" "snd (indirect_cells ex_env) = (0x500020, 0x500030)"
  by (simp_all add: ex_env_def)

lemma ex_map: "shadow_map ex_env = 0x7f0000001000" "fst (btb_maps ex_env) = 0x7f1000001000"
    "snd (btb_maps ex_env) = 0x7f2000001000"
  by (simp_all add: ex_env_def)

lemma ex_room: "4294967296 \<le> unat (new_base 0x7f0000001000 (0x400100 - word_of_nat (lead True)) 32)"
  using ex_base(2) by (simp add: lead_def)

lemma ex_driver_fits:
  "True = m_use_indirect_targets (m_bs ex_driver)"
  "jne_placeable True (fst (indirect_cells ex_env)) (snd (indirect_cells ex_env)) (shadow_map ex_env) 0x400100 0x400120 32"
  using ex_placeable [of True] unfolding ex_cells ex_map by (simp_all add: ex_driver_def ex_bs_def)

lemma jne_experiment_witness:
  "\<exists>fuel r d'. t1_run_jne fuel ex_env 1 1 ex_driver = Inr (r, d') \<and> low_bits 32 r = low_bits 32 0x400100"
proof -
  from jne_experiment [where k = 32 and v = 1 and i = 1, OF ex_places [symmetric] ex_driver_fits, unfolded ex_map, OF ex_room]
    ex_ready obtain fuel r d' where
    "\<forall>n \<ge> fuel. t1_run_jne n ex_env 1 1 ex_driver = Inr (r, d')" "low_bits 32 r = low_bits 32 0x400100"
    by auto
  then show ?thesis by blast
qed

definition ex_options :: options where
  "ex_options = \<lparr>f_no_sgx = True, f_no_indirect = False, f_victim_input = None, f_shadow_input = None, f_test_type = None\<rparr>"

definition ex_startup :: startup where
  "ex_startup = \<lparr>lbr_file_exists = True, lbr_file_fd = 3, token_rb = None, token_wb = None, token_reopened = None,
     created_enclave = None, setup_ok = False, ecall_ok = (\<lambda>_. False), e_victim_jne_at = 0, e_victim_ret_at = 0\<rparr>"

definition ex_checked :: driver where
  "ex_checked = ex_driver\<lparr>history := checks\<rparr>"

lemma ex_main: "main_program ex_options ex_startup fuel ex_env ex_driver = t1_run_jne fuel ex_env 1 1 ex_checked"
proof -
  have "ex_driver\<lparr>m_training_rounds := 100, m_bs := (m_bs ex_driver)\<lparr>m_use_indirect_targets := True\<rparr>,
      m_lbrReader := \<lparr>m_lbr_data = None, m_fd_lbr = 3\<rparr>\<rparr> = ex_driver"
    by (simp add: ex_driver_def ex_bs_def)
  moreover have "sanity_check_victims (\<lambda>_. False) ex_driver = Inr (True, ex_checked)"
    by (simp add: sanity_check_plain ex_checked_def) (simp add: ex_driver_def sanity_check_plain)
  ultimately show ?thesis
    by (simp add: main_program_def ex_options_def ex_startup_def value_or_def prepare_lbr_def open_device_def
        run_test_def Let_def)
qed

lemma ex_checked_same:
  "m_memory ex_checked = m_memory ex_driver" "m_bs ex_checked = m_bs ex_driver"
  "m_lbrReader ex_checked = m_lbrReader ex_driver" "m_device ex_checked = m_device ex_driver"
  by (simp_all add: ex_checked_def)

lemma main_without_sgx_witness:
  "\<exists>fuel r d' es. main_program ex_options ex_startup fuel ex_env ex_driver = Inr (r, d') \<and>
     history d' = history ex_driver @ map VictimJne [0, 1, 2, 3] @ map VictimRet [0, 1, 2, 3] @ es \<and>
     (\<forall>e \<in> set es. \<not> uses_enclave e)"
proof -
  have places: "0x400100 = jne_src ex_env ex_checked" "0x400120 = jne_dst ex_env ex_checked"
    using ex_places by (simp_all add: jne_src_def jne_dst_def ex_checked_same)
  have ready: "reader_ready ex_env ex_checked" using ex_ready reader_ready_same [of ex_checked ex_driver] by (simp add: ex_checked_same)
  from jne_experiment_runs [where k = 32 and v = 1 and i = 1, OF places ex_driver_fits [folded ex_checked_same(2)],
      unfolded ex_map, OF ex_room] ready
  obtain fuel r d' where "\<forall>n \<ge> fuel. t1_run_jne n ex_env 1 1 ex_checked = Inr (r, d')"
    by auto
  then have run: "main_program ex_options ex_startup fuel ex_env ex_driver = Inr (r, d')"
    by (simp add: ex_main)
  have "f_no_sgx ex_options" "m_enclave ex_driver = None" by (simp_all add: ex_options_def ex_driver_def)
  from main_without_sgx [OF this run] run show ?thesis by blast
qed

lemma main_needs_device_witness:
  "main_program ex_options (ex_startup\<lparr>lbr_file_exists := False\<rparr>) 1000 ex_env ex_driver \<noteq> Inr (0x400100, ex_driver)"
  by (rule main_needs_device) simp

end
