(* ===== verification/ShadowJmp.thy ===== *)
theory ShadowJmp
  imports ShadowProps
begin

text \<open>
  The forward shadows of an unconditional branch: \<open>setup_jmp_shadow\<close> and
  \<open>setup_jmp_shadow_rev\<close>, which place the same segments in the same order with the two sides
  exchanged. With indirect targets the area jumps through an indirect pointer to the destination.
\<close>

section \<open>The segments\<close>

definition jmp_order :: "nat list" where
  "jmp_order = [5, 4, 0, 6, 1, 7, 2, 3]"

text \<open>The segment at the destination, and the two the execution goes through after it.\<close>

definition jmp_target :: "bool \<Rightarrow> nat" where
  "jmp_target rv = (if rv then 0 else 1)"

definition jmp_long :: "bool \<Rightarrow> nat" where
  "jmp_long rv = (if rv then 6 else 7)"

definition jmp_end :: "bool \<Rightarrow> nat" where
  "jmp_end rv = (if rv then 2 else 3)"

definition src_size :: "indirect \<Rightarrow> nat" where
  "src_size c = (if c = None then 2 else 4)"

text \<open>The bytes in front of the source: the entry and two NOPs.\<close>

definition jmp_pre :: "indirect \<Rightarrow> nat" where
  "jmp_pre c = (if c = None then 3 else 12)"

definition jmp_entry :: "bool \<Rightarrow> indirect \<Rightarrow> segment" where
  "jmp_entry rv c =
     (case c of None \<Rightarrow> make_Nop 1 | Some (tp, ip, t) \<Rightarrow> make_SetPosInReg 0 (Some (jmp_target rv)) tp 13)"

definition jmp_src :: "bool \<Rightarrow> indirect \<Rightarrow> addr \<Rightarrow> segment" where
  "jmp_src rv c S = (case c of None \<Rightarrow> make_Jump S (Some (jmp_target rv)) | Some _ \<Rightarrow> make_JumpR13 S)"

lemma jmp_entry_simps [simp]:
  "m_pos (jmp_entry rv c) = 0" "s_size (kind (jmp_entry rv c)) = (if c = None then 1 else 10)"
  "m_pos (jmp_src rv c S) = S" "s_size (kind (jmp_src rv c S)) = src_size c"
  by (auto simp: jmp_entry_def jmp_src_def make_Nop_def make_SetPosInReg_def make_Jump_def make_JumpR13_def
      src_size_def split: option.splits)

definition jmp_gap :: "indirect \<Rightarrow> nat \<Rightarrow> nat" where
  "jmp_gap c d = (d - src_size c - 10) div 2"

definition jmp_segments :: "bool \<Rightarrow> indirect \<Rightarrow> segs \<Rightarrow> addr \<Rightarrow> nat \<Rightarrow> bool" where
  "jmp_segments rv c h S d \<longleftrightarrow>
     h 0 = \<lparr>kind = SegEaxWrite 1, m_pos = (if rv then S + word_of_nat d else 0), m_hex = 0xb8 # le_bytes 4 (1 :: 32 word)\<rparr> \<and>
     h 1 = \<lparr>kind = SegEaxWrite 2, m_pos = (if rv then 0 else S + word_of_nat d), m_hex = 0xb8 # le_bytes 4 (2 :: 32 word)\<rparr> \<and>
     h 2 = \<lparr>kind = SegRetq 120, m_pos = 0, m_hex = []\<rparr> \<and> h 3 = \<lparr>kind = SegRetq 120, m_pos = 0, m_hex = []\<rparr> \<and>
     h 4 = jmp_src rv c S \<and> h 5 = jmp_entry rv c \<and>
     h 6 = \<lparr>kind = SegLongJump (Some 2), m_pos = 0, m_hex = []\<rparr> \<and>
     h 7 = \<lparr>kind = SegLongJump (Some 3), m_pos = 0, m_hex = []\<rparr>"

definition any_jmp_table :: "bool \<Rightarrow> branch_shadow \<Rightarrow> segs" where
  "any_jmp_table rv bs = (if rv then jmp_rev_table bs else jmp_table bs)"

lemma jmp_table_segments:
  assumes "m_use_indirect_targets bs \<longrightarrow> m_indirect_target_ptr bs = snd cell" "m_dst bs = m_src bs + word_of_nat d"
  shows "jmp_segments rv (cell_of_target (Some (jmp_target rv)) cell bs) (any_jmp_table rv bs) (m_src bs) d"
  using assms
  by (simp add: cell_of_target_def any_jmp_table_def jmp_entry_def jmp_src_def jmp_table_def jmp_rev_table_def
      jmp_segments_def jmp_target_def seg_table_def make_EaxWrite_def make_Retq_def make_LongJump_def store_val_le)

section \<open>Placement\<close>

text \<open>Bytes from the entry.\<close>

definition jmp_off :: "bool \<Rightarrow> indirect \<Rightarrow> nat \<Rightarrow> nat \<Rightarrow> nat" where
  "jmp_off rv c d s =
     (if s = 5 then 0 else if s = 4 then jmp_pre c
      else if rv then jmp_pre c + d + (if s = 0 then 0 else if s = 6 then 7 else if s = 1 then 14 else if s = 7 then 21
        else if s = 2 then 28 else 151)
      else if s = 0 then jmp_pre c + d - 10 - 2 * jmp_gap c d else if s = 6 then jmp_pre c + d - 5 - jmp_gap c d
      else jmp_pre c + d + (if s = 1 then 0 else if s = 7 then 7 else if s = 2 then 14 else 137))"

definition jmp_placed :: "bool \<Rightarrow> indirect \<Rightarrow> nat \<Rightarrow> addr \<Rightarrow> segs \<Rightarrow> segs" where
  "jmp_placed rv c d S h = (\<lambda>s. if s \<in> set jmp_order
     then (h s)\<lparr>m_pos := S - word_of_nat (jmp_pre c) + word_of_nat (jmp_off rv c d s)\<rparr> else h s)"

text \<open>The distances a forward shadow may have: room for the code between, and a short jump.\<close>

definition jmp_dist :: "bool \<Rightarrow> indirect \<Rightarrow> nat \<Rightarrow> bool" where
  "jmp_dist rv c d \<longleftrightarrow> src_size c + (if rv then 0 else 10) \<le> d \<and> d \<le> (if c = None then 129 else 20000)"

definition jmp_first :: "segs \<Rightarrow> segs" where
  "jmp_first h = place_back 2 4 [5] h"

definition jmp_between :: "indirect \<Rightarrow> nat \<Rightarrow> segs \<Rightarrow> segs" where
  "jmp_between c d h = place_back (word_of_nat (jmp_gap c d)) 1 [6, 0] (jmp_first h)"

lemma jmp_first_pos:
  assumes "jmp_segments rv c h S d"
  shows "jmp_first h = h(5 := (h 5)\<lparr>m_pos := S - word_of_nat (jmp_pre c)\<rparr>)"
  using assms by (simp add: jmp_first_def jmp_segments_def set_end_def get_size_seg_def jmp_pre_def)

lemma jmp_between_pos:
  assumes "jmp_segments False c h S d"
  shows "jmp_between c d h = (jmp_first h)
    (6 := (h 6)\<lparr>m_pos := S + word_of_nat d - 5 - word_of_nat (jmp_gap c d)\<rparr>,
     0 := (h 0)\<lparr>m_pos := S + (word_of_nat d - 10) - 2 * word_of_nat (jmp_gap c d)\<rparr>)"
  using assms
  by (simp add: jmp_between_def jmp_first_pos [OF assms] jmp_segments_def set_end_def get_size_seg_def)

lemma jmp_spacing:
  assumes "jmp_segments False c h S d" "jmp_dist False c d"
    and "m_segments sh = [5, 4]" "m_loose_segments sh = [0, 6]" "seg sh = jmp_first h"
  shows "loose_spacing sh 1 = Inr (word_of_nat (jmp_gap c d))"
proof -
  have d: "src_size c + 10 \<le> d" "d \<le> 20000" using assms(2) by (auto simp: jmp_dist_def split: if_splits)
  have "loose_spacing sh 1 = Inr (word_of_nat ((d - src_size c - 10) div 2))"
  proof (rule spacing_value)
    have "word_of_nat (d - src_size c) = (word_of_nat d - word_of_nat (src_size c) :: addr)" using d by simp
    then show "m_pos (seg sh 1) - get_end (seg sh (last (m_segments sh))) = word_of_nat (d - src_size c)"
      using assms(1,3-5) by (simp add: jmp_first_pos [OF assms(1)] jmp_segments_def get_end_def get_size_seg_def)
    show "sum_list (map (\<lambda>s. get_size_seg (seg sh s)) (m_loose_segments sh)) = word_of_nat 10"
      using assms(1,3-5) by (simp add: jmp_first_pos [OF assms(1)] jmp_segments_def get_size_seg_def)
  qed (use assms d in simp_all)
  then show ?thesis by (simp add: jmp_gap_def)
qed

definition jmp_added :: "bool \<Rightarrow> indirect \<Rightarrow> shadow \<Rightarrow> segs \<Rightarrow> nat \<Rightarrow> shadow" where
  "jmp_added rv c sh h d = sh\<lparr>m_entry_segment := Some 5,
     seg := if rv then jmp_first h else jmp_between c d h,
     m_segments := if rv then [5, 4, 0] else [5, 4, 0, 6, 1],
     m_loose_segments := if rv then [6, 1, 7, 2, 3] else [7, 2, 3]\<rparr>"

lemma jmp_add:
  assumes "jmp_segments rv c h S d" "jmp_dist rv c d" "S < S + word_of_nat d" "S \<noteq> 0"
    and "m_segments sh = []" "m_loose_segments sh = []" "\<not> m_finalized sh" "m_entry_segment sh = None" "seg sh = h"
  shows "bind_res (add_entry 5 sh) (add_all [4, 0, 6, 1, 7, 2, 3]) = Inr (jmp_added rv c sh h d)"
proof -
  let ?sh1 = "sh\<lparr>m_entry_segment := Some 5, m_loose_segments := [5]\<rparr>"
  let ?sh2 = "sh\<lparr>m_entry_segment := Some 5, seg := jmp_first h, m_segments := [5, 4], m_loose_segments := []\<rparr>"
  note h = assms(1) [unfolded jmp_segments_def]
  have D: "S + word_of_nat d \<noteq> 0" using assms(3) by auto
  have 1: "bind_res (add_entry 5 sh) (add_all [4, 0, 6, 1, 7, 2, 3]) = add_all [4, 0, 6, 1, 7, 2, 3] ?sh1"
    using assms(5-9) h by (simp add: add_entry_def add_loose)
  have 2: "add_all [4, 0, 6, 1, 7, 2, 3] ?sh1 = add_all [0, 6, 1, 7, 2, 3] ?sh2"
    using assms(4-9) h by (simp add: add_first jmp_first_def [symmetric] del: place_back.simps)
  have sel: "jmp_first h s = h s" if "s \<noteq> 5" for s using that by (simp add: jmp_first_pos [OF assms(1)])
  have "add_all [0, 6, 1, 7, 2, 3] ?sh2 = Inr (jmp_added rv c sh h d)"
  proof (cases rv)
    case True
    then have "add_segment 0 ?sh2 = Inr (?sh2\<lparr>m_segments := [5, 4, 0]\<rparr>)"
      using assms(3,7) h D by (subst add_next) (simp_all add: sel)
    then show ?thesis using assms(7) h True by (simp add: add_loose sel jmp_added_def)
  next
    case False
    let ?sh3 = "?sh2\<lparr>m_loose_segments := [0, 6]\<rparr>"
    have seg: "jmp_segments False c h S d" and dist: "jmp_dist False c d" using assms(1,2) False by simp_all
    have "add_all [0, 6, 1, 7, 2, 3] ?sh2 = add_all [1, 7, 2, 3] ?sh3"
      using assms(7) h False by (simp add: add_loose sel)
    moreover have "add_segment 1 ?sh3 = Inr (?sh3\<lparr>seg := jmp_between c d h, m_segments := [5, 4, 0, 6, 1], m_loose_segments := []\<rparr>)"
    proof (subst add_between [where sp = "word_of_nat (jmp_gap c d)"])
      show "loose_spacing ?sh3 1 = Inr (word_of_nat (jmp_gap c d))" using seg dist by (intro jmp_spacing) simp_all
      have "jmp_gap c d < 10000" using dist by (auto simp: jmp_gap_def jmp_dist_def src_size_def split: if_splits)
      then show "sint (word_of_nat (jmp_gap c d) :: addr) < 10000"
        using sint_dist [of "word_of_nat (jmp_gap c d)" 0 "jmp_gap c d" 0 0] by simp
    qed (use assms(3,7) h False D in \<open>simp_all add: sel jmp_between_def\<close>)
    moreover have "jmp_between c d h s = h s" if "s \<in> {7, 2, 3}" for s
      using that sel by (auto simp: jmp_between_pos [OF seg])
    ultimately show ?thesis using assms(7) h False by (simp add: add_loose jmp_added_def)
  qed
  with 1 2 show ?thesis by simp
qed

lemma jmp_placed_rev:
  assumes "jmp_segments True c h S d"
  shows "(jmp_first h)(6 := (h 6)\<lparr>m_pos := S + word_of_nat d + 7\<rparr>, 1 := (h 1)\<lparr>m_pos := S + word_of_nat d + 14\<rparr>,
     7 := (h 7)\<lparr>m_pos := S + word_of_nat d + 21\<rparr>, 2 := (h 2)\<lparr>m_pos := S + word_of_nat d + 28\<rparr>,
     3 := (h 3)\<lparr>m_pos := S + word_of_nat d + 151\<rparr>) = jmp_placed True c d S h"
  using assms
  by (auto simp: fun_eq_iff jmp_placed_def jmp_first_pos [OF assms] jmp_order_def jmp_off_def jmp_segments_def)

lemma jmp_placed_forward:
  assumes "jmp_segments False c h S d" "jmp_dist False c d"
  shows "(jmp_between c d h)(7 := (h 7)\<lparr>m_pos := S + word_of_nat d + 7\<rparr>,
     2 := (h 2)\<lparr>m_pos := S + word_of_nat d + 14\<rparr>, 3 := (h 3)\<lparr>m_pos := S + word_of_nat d + 137\<rparr>) = jmp_placed False c d S h"
proof -
  have g: "2 * jmp_gap c d + 10 \<le> d" using assms(2) by (auto simp: jmp_gap_def jmp_dist_def)
  have "word_of_nat (jmp_pre c + d - 10 - 2 * jmp_gap c d) =
      (word_of_nat (jmp_pre c) + word_of_nat d - 10 - 2 * word_of_nat (jmp_gap c d) :: addr)"
    using g by (simp add: of_nat_diff)
  moreover have "word_of_nat (jmp_pre c + d - 5 - jmp_gap c d) =
      (word_of_nat (jmp_pre c) + word_of_nat d - 5 - word_of_nat (jmp_gap c d) :: addr)"
    using g by (simp add: of_nat_diff)
  ultimately show ?thesis
    using assms(1)
    by (auto simp: fun_eq_iff jmp_placed_def jmp_between_pos [OF assms(1)] jmp_first_pos [OF assms(1)]
        jmp_order_def jmp_off_def jmp_segments_def)
qed

lemma jmp_rest:
  assumes "jmp_segments rv c h S d" "jmp_dist rv c d" "unat (S + word_of_nat d) < 140737488355328"
  shows "place_rest (jmp_added rv c sh h d) = Inr (sh\<lparr>m_entry_segment := Some 5, seg := jmp_placed rv c d S h,
     m_segments := jmp_order, m_loose_segments := if rv then [6, 1, 7, 2, 3] else [7, 2, 3]\<rparr>)"
proof -
  note h = assms(1) [unfolded jmp_segments_def]
  let ?D = "S + word_of_nat d"
  have v: "and (?D + word_of_nat k) 0xff000000000000 = 0" if "k < 1000" for k
    using that assms(3) by (intro valid_pointer) (subst unat_add_of_nat, simp_all)
  note vs = v [of 5] v [of 12] v [of 19] v [of 26] v [of 149] v [of 135]
  show ?thesis
  proof (cases rv)
    case True
    have seg: "jmp_segments True c h S d" using assms(1) True by simp
    show ?thesis
      using vs h True
      by (simp add: place_rest_def jmp_added_def set_pos_def get_end_def get_size_seg_def s_segment_spacing_def
        jmp_placed_rev [OF seg, symmetric] jmp_first_pos [OF seg] jmp_order_def add.assoc)
  next
    case False
    have seg: "jmp_segments False c h S d" and dist: "jmp_dist False c d" using assms(1,2) False by simp_all
    show ?thesis
      using vs h False
      by (simp add: place_rest_def jmp_added_def set_pos_def get_end_def get_size_seg_def s_segment_spacing_def
        jmp_placed_forward [OF seg dist, symmetric] jmp_between_pos [OF seg] jmp_first_pos [OF seg] jmp_order_def add.assoc)
  qed
qed

section \<open>The layout\<close>

lemma jmp_placed_sel [simp]:
  "kind (jmp_placed rv c d S h s) = kind (h s)" "m_hex (jmp_placed rv c d S h s) = m_hex (h s)"
  by (simp_all add: jmp_placed_def)

lemma jmp_placed_size [simp]: "size_of (jmp_placed rv c d S h) s = size_of h s"
  by (simp add: size_of_def)

lemma jmp_sizes:
  assumes "jmp_segments rv c h S d"
  shows "size_of h 0 = 5" "size_of h 1 = 5" "size_of h 2 = 121" "size_of h 3 = 121" "size_of h 4 = src_size c"
    "size_of h 5 = (if c = None then 1 else 10)" "size_of h 6 = 5" "size_of h 7 = 5"
  using assms by (simp_all add: size_of_def jmp_segments_def)

text \<open>The pointer of a jmp shadow leads to its target.\<close>

definition target_cell :: "bool \<Rightarrow> indirect \<Rightarrow> bool" where
  "target_cell rv c = (case c of None \<Rightarrow> True | Some (tp, ip, t) \<Rightarrow> t = Some (jmp_target rv))"

lemma jmp_entry_ok:
  assumes "target_cell rv c" "kind (h i) = kind (jmp_entry rv c)"
  shows "jumps_ok c off h ss i \<and> hex_ok (h i)"
  using assms
  by (cases c) (auto simp: jmp_entry_def make_Nop_def make_SetPosInReg_def hex_ok_def cell_for_def target_cell_def)

lemma jmp_src_ok:
  assumes "kind (h i) = kind (jmp_src rv c S)" "m_hex (h i) = m_hex (jmp_src rv c S)" "jmp_target rv \<in> set ss"
    and "c = None \<longrightarrow> -128 < dist off h i (jmp_target rv) \<and> dist off h i (jmp_target rv) < 128"
  shows "jumps_ok c off h ss i \<and> hex_ok (h i)"
  using assms by (cases c) (auto simp: jmp_src_def make_Jump_def make_JumpR13_def hex_ok_def)

lemma jmp_laid_out:
  assumes "jmp_segments rv c h S d" "jmp_dist rv c d" "target_cell rv c"
  shows "laid_out c (jmp_off rv c d) (jmp_placed rv c d S h) jmp_order (jmp_pre c + d + 272)"
proof -
  let ?h = "jmp_placed rv c d S h"
  note sz = jmp_sizes [OF assms(1)]
  have d: "src_size c + (if rv then 0 else 10) \<le> d" "c = None \<Longrightarrow> d \<le> 129" using assms(2) by (auto simp: jmp_dist_def)
  have g: "\<not> rv \<Longrightarrow> 2 * jmp_gap c d + 10 + src_size c \<le> d" using d by (auto simp: jmp_gap_def)
  have pre: "jmp_pre c = size_of h 5 + 2" by (simp add: jmp_pre_def sz)
  have pos: "\<forall>s \<in> set jmp_order. m_pos (?h s) = m_pos (?h (hd jmp_order)) + word_of_nat (jmp_off rv c d s)"
    by (simp add: jmp_placed_def jmp_order_def jmp_off_def)
  have sorted: "sorted_wrt (\<lambda>s t. jmp_off rv c d s + size_of ?h s \<le> jmp_off rv c d t) jmp_order"
    using g d unfolding jmp_order_def
    by (cases rv; simp add: sz(1,3-5,7,8) sz(2) [simplified] jmp_off_def pre; (intro conjI)?; linarith)
  have tot: "\<forall>s \<in> set jmp_order. jmp_off rv c d s + size_of ?h s \<le> jmp_pre c + d + 272"
    using g d unfolding jmp_order_def
    by (cases rv; simp add: sz(1,3-5,7,8) sz(2) [simplified] jmp_off_def pre; (intro conjI)?; linarith)
  have k: "kind (?h 4) = kind (jmp_src rv c S)" "m_hex (?h 4) = m_hex (jmp_src rv c S)" "kind (?h 5) = kind (jmp_entry rv c)"
    using assms(1) by (simp_all add: jmp_segments_def)
  have "dist (jmp_off rv c d) ?h 4 (jmp_target rv) = int d - int (src_size c)"
    by (simp add: dist_def sz jmp_off_def jmp_target_def)
  then have "c = None \<longrightarrow> -128 < dist (jmp_off rv c d) ?h 4 (jmp_target rv) \<and> dist (jmp_off rv c d) ?h 4 (jmp_target rv) < 128"
    using d by (intro impI) (simp add: src_size_def split: if_splits)
  then have "jumps_ok c (jmp_off rv c d) ?h jmp_order 4 \<and> hex_ok (?h 4)"
    by (intro jmp_src_ok [where h = ?h and i = 4, OF k(1,2)]) (simp_all add: jmp_target_def jmp_order_def)
  moreover have "jumps_ok c (jmp_off rv c d) ?h jmp_order 5 \<and> hex_ok (?h 5)"
    by (rule jmp_entry_ok [where h = ?h and i = 5, OF assms(3) k(3)])
  moreover have "jumps_ok c (jmp_off rv c d) ?h jmp_order s \<and> hex_ok (?h s)" if "s \<in> set jmp_order" "s \<notin> {4, 5}" for s
    using that assms(1) unfolding jmp_order_def by (auto simp: jmp_segments_def hex_ok_def)
  moreover have "distinct jmp_order" "jmp_off rv c d (hd jmp_order) = 0" by (simp_all add: jmp_order_def jmp_off_def)
  ultimately show ?thesis unfolding laid_out_def using pos sorted tot by blast
qed

section \<open>Execution\<close>

lemma jmp_next:
  "next_seg jmp_order 5 4" "next_seg jmp_order (jmp_target rv) (jmp_long rv)"
  by (simp_all add: jmp_order_def next_seg_simps jmp_target_def jmp_long_def)

lemma jmp_runs:
  assumes "jmp_segments rv c h0 S d" "jmp_dist rv c d" "finished c F (jmp_off rv c d) (jmp_placed rv c d S h0) jmp_order p h m"
    and "target_cell rv c"
  shows "\<exists>st'. reaches m (Running (st\<lparr>rip := p 5\<rparr>)) (Finished st') \<and> eax st' = (if rv then 1 else 2) \<and>
    taken st' = taken st @ [(p 4, p (jmp_target rv)), (p (jmp_long rv), p (jmp_end rv))]"
proof -
  let ?h = "jmp_placed rv c d S h0" and ?t = "jmp_target rv" and ?l = "jmp_long rv" and ?e = "jmp_end rv"
  have area: "area c p h jmp_order m" using assms(3) by (simp add: finished_def)
  have mem: "5 \<in> set jmp_order" "4 \<in> set jmp_order" "?t \<in> set jmp_order" "?l \<in> set jmp_order" "?e \<in> set jmp_order"
    by (simp_all add: jmp_order_def jmp_target_def jmp_long_def jmp_end_def)
  have kd: "kind (h s) = kind (h0 s)" if "s \<in> set jmp_order" for s using assms(3) that by (simp add: finished_def)
  note k = assms(1) [unfolded jmp_segments_def] and sz = jmp_sizes [OF assms(1)]
  note slide = finished_slide [OF assms(3)] and jump = finished_jump [OF assms(3)]
  have d: "src_size c \<le> d" "c = None \<longrightarrow> d \<le> 129" "d \<le> 20000" using assms(2) by (auto simp: jmp_dist_def split: if_splits)
  have src: "\<exists>r. reaches m (Running (st\<lparr>rip := p 5\<rparr>)) (Running (st\<lparr>r13 := r, taken := taken st @ [(p 4, p ?t)], rip := p ?t\<rparr>))"
  proof (cases c)
    case None
    have "kind (h 5) = SegNop 1" "kind (?h 4) = SegJump (Some ?t)"
      using kd [OF mem(1)] k None by (simp_all add: jmp_entry_def jmp_src_def make_Nop_def make_Jump_def)
    note k54 = this
    have "dist (jmp_off rv c d) ?h 4 ?t = int d - 2"
      by (simp add: dist_def sz jmp_off_def jmp_target_def src_size_def None)
    then have j: "kind (?h 4) = SegJump (Some ?t) \<and> -128 < dist (jmp_off rv c d) ?h 4 ?t \<and> dist (jmp_off rv c d) ?h 4 ?t < 128 \<or>
       kind (?h 4) = SegLongJump (Some ?t) \<and> -1000000 < dist (jmp_off rv c d) ?h 4 ?t \<and> dist (jmp_off rv c d) ?h 4 ?t < 1000000"
      using k54 d None by simp
    have "reaches m (Running (st\<lparr>rip := p 5\<rparr>)) (Running (st\<lparr>rip := p 5 + word_of_nat (size_of h 5)\<rparr>))"
      using run_nop [OF area mem(1) k54(1), of "st\<lparr>rip := p 5\<rparr>"] by simp
    also have "reaches m \<dots> (Running (st\<lparr>rip := p 4\<rparr>))" by (rule slide [OF jmp_next(1)])
    also have "reaches m \<dots> (Running (st\<lparr>taken := taken st @ [(p 4, p ?t)], rip := p ?t\<rparr>))" by (rule jump [OF mem(2,3) j])
    finally show ?thesis by (intro exI [of _ "r13 st"]) simp
  next
    case (Some y)
    then obtain tp ip where c: "c = Some (tp, ip, Some ?t)" using assms(4) by (cases y) (auto simp: target_cell_def)
    have k54: "kind (h 5) = SegSetPosInReg (Some ?t) tp 13" "kind (h 4) = SegJumpR13"
      using kd [OF mem(1)] kd [OF mem(2)] k c by (simp_all add: jmp_entry_def jmp_src_def make_SetPosInReg_def make_JumpR13_def)
    have "sets_pos (kind (?h 5))" using k54(1) kd [OF mem(1)] by (simp add: sets_pos_def)
    then have "uses_cell ?h jmp_order" using mem(1) unfolding uses_cell_def by blast
    then have cell: "code_at m ip (le_bytes 8 (p ?t))" using assms(3) c by (simp add: finished_def)
    have "reaches m (Running (st\<lparr>rip := p 5\<rparr>)) (Running (st\<lparr>r13 := ip, rip := p 5 + word_of_nat (size_of h 5)\<rparr>))"
      using run_set_pos [OF area mem(1) k54(1) c, of "st\<lparr>rip := p 5\<rparr>"] by simp
    also have "reaches m \<dots> (Running (st\<lparr>r13 := ip, rip := p 4\<rparr>))"
      using slide [OF jmp_next(1), of "st\<lparr>r13 := ip\<rparr>"] by simp
    also have "reaches m \<dots> (Running (st\<lparr>r13 := ip, taken := taken st @ [(p 4, p ?t)], rip := p ?t\<rparr>))"
      using run_jump_r13 [OF area mem(2) k54(2), of "st\<lparr>r13 := ip, rip := p 4\<rparr>"] cell by simp
    finally show ?thesis by blast
  qed
  then obtain r where
    first: "reaches m (Running (st\<lparr>rip := p 5\<rparr>)) (Running (st\<lparr>r13 := r, taken := taken st @ [(p 4, p ?t)], rip := p ?t\<rparr>))" by blast
  let ?v = "if rv then 1 else 2" and ?st1 = "st\<lparr>r13 := r, taken := taken st @ [(p 4, p ?t)]\<rparr>"
  let ?st2 = "?st1\<lparr>eax := ?v\<rparr>"
  let ?st3 = "?st2\<lparr>taken := taken ?st2 @ [(p ?l, p ?e)], rip := p ?e\<rparr>"
  have kt: "kind (h ?t) = SegEaxWrite ?v" "kind (h ?e) = SegRetq 120" "kind (?h ?l) = SegLongJump (Some ?e)"
    using kd [OF mem(3)] kd [OF mem(5)] k by (simp_all add: jmp_target_def jmp_end_def jmp_long_def)
  have "dist (jmp_off rv c d) ?h ?l ?e = (if rv then 16 else 125)"
    by (simp add: dist_def sz jmp_off_def jmp_long_def jmp_end_def)
  with kt(3) have j: "kind (?h ?l) = SegJump (Some ?e) \<and> -128 < dist (jmp_off rv c d) ?h ?l ?e \<and> dist (jmp_off rv c d) ?h ?l ?e < 128 \<or>
       kind (?h ?l) = SegLongJump (Some ?e) \<and> -1000000 < dist (jmp_off rv c d) ?h ?l ?e \<and> dist (jmp_off rv c d) ?h ?l ?e < 1000000"
    by simp
  have "reaches m (Running (?st1\<lparr>rip := p ?t\<rparr>)) (Running (?st2\<lparr>rip := p ?t + word_of_nat (size_of h ?t)\<rparr>))"
    using run_write [OF area mem(3) kt(1), of "?st1\<lparr>rip := p ?t\<rparr>"] by simp
  also have "reaches m \<dots> (Running (?st2\<lparr>rip := p ?l\<rparr>))" by (rule slide [OF jmp_next(2)])
  also have "reaches m \<dots> (Running ?st3)" by (rule jump [OF mem(4,5) j])
  also have "reaches m \<dots> (Finished (?st3\<lparr>rip := p ?e + word_of_nat 120\<rparr>))"
    using run_retq [OF area mem(5) kt(2), of ?st3] by simp
  finally have "reaches m (Running (?st1\<lparr>rip := p ?t\<rparr>)) (Finished (?st3\<lparr>rip := p ?e + word_of_nat 120\<rparr>))" .
  from reaches_trans [OF first this] show ?thesis by (intro exI conjI) (assumption, simp_all)
qed

section \<open>The setups\<close>

definition setup_any_jmp :: "bool \<Rightarrow> addr \<Rightarrow> branch_shadow \<Rightarrow> memory \<Rightarrow> (addr \<times> branch_shadow \<times> memory) res" where
  "setup_any_jmp rv = (if rv then setup_jmp_shadow_rev else setup_jmp_shadow)"

text \<open>The bytes in front of the source, and when a forward jmp shadow fits.\<close>

definition jmp_lead :: "bool \<Rightarrow> nat" where
  "jmp_lead indir = (if indir then 12 else 3)"

definition jmp_placeable :: "bool \<Rightarrow> bool \<Rightarrow> addr \<times> addr \<Rightarrow> addr \<times> addr \<Rightarrow> addr \<Rightarrow> addr \<Rightarrow> addr \<Rightarrow> nat \<Rightarrow> bool" where
  "jmp_placeable rv indir c1 c2 mm S D d \<longleftrightarrow>
     (let F = new_base mm (S - word_of_nat (jmp_lead indir)) 32; n = jmp_lead indir + d + 272 in
      unat D = unat S + d \<and> (if indir then 4 else 2) + (if rv then 0 else 10) \<le> d \<and> d \<le> (if indir then 20000 else 129) \<and>
      jmp_lead indir < unat S \<and> unat D < 140737488355328 \<and> mm \<noteq> 0 \<and>
      0 < unat F \<and> unat F + n < 18446744073709551616 \<and> pointers_fit indir c1 c2 F n)"

lemma setup_jmp_ok:
  assumes "attack_ready bs S D" "c = cell_of_target (Some (jmp_target rv)) cell bs"
    and "m_use_indirect_targets bs \<longrightarrow> m_indirect_target_ptr bs = snd cell"
    and "unat D = unat S + d" "jmp_dist rv c d" "jmp_pre c < unat S" "unat D < 140737488355328" "mmap_result \<noteq> 0"
    and "F = new_base mmap_result (S - word_of_nat (jmp_pre c)) 32" "0 < unat F"
    and "unat F + (jmp_pre c + d + 272) < 18446744073709551616"
    and "cells_ok c m" "cells_outside c F (jmp_pre c + d + 272)"
  shows "\<exists>bs' m' p h h0. setup_any_jmp rv mmap_result bs m = Inr (p 5, bs', m') \<and>
    m_shadow_src bs' = p 4 \<and> jmp_segments rv c h0 S d \<and>
    finished c F (jmp_off rv c d) (jmp_placed rv c d S h0) jmp_order p h m' \<and>
    low_bits 32 (p 4) = low_bits 32 S \<and> low_bits 32 (p (jmp_target rv)) = low_bits 32 D"
proof -
  from assms(1) obtain hh where sh0: "m_shadow bs = Some (new_Shadow lbr_entry_bits S D hh)" and S: "m_src bs = S" "m_dst bs = D"
    by (auto simp: attack_ready_def)
  have tc: "target_cell rv c" using assms(2) by (simp add: cell_of_target_def target_cell_def)
  have u: "word_of_nat (unat a) = a" for a :: addr by simp
  have "D = word_of_nat (unat S + d)" using assms(4) u [of D] by simp
  then have D: "D = S + word_of_nat d" by (simp only: of_nat_add u)
  have d: "2 \<le> d" "d \<le> 20000" using assms(5) by (auto simp: jmp_dist_def src_size_def split: if_splits)
  have lt: "S < D" using assms(4) d by (simp add: word_less_nat_alt)
  have nz: "S \<noteq> 0" using assms(6) by auto
  define h0 where "h0 = any_jmp_table rv bs"
  have seg: "jmp_segments rv c h0 S d"
    using jmp_table_segments [OF assms(3), of d rv] S D assms(2) by (simp add: h0_def)
  let ?sh = "new_Shadow lbr_entry_bits S D h0"
  have add: "bind_res (add_entry 5 ?sh) (add_all [4, 0, 6, 1, 7, 2, 3]) = Inr (jmp_added rv c ?sh h0 d)"
    using seg assms(5) lt nz D by (intro jmp_add) (simp_all add: new_Shadow_def)
  let ?sh1 = "?sh\<lparr>m_entry_segment := Some 5, seg := jmp_placed rv c d S h0, m_segments := jmp_order,
    m_loose_segments := if rv then [6, 1, 7, 2, 3] else [7, 2, 3]\<rparr>"
  have rest: "place_rest (jmp_added rv c ?sh h0 d) = Inr ?sh1"
    using seg assms(5,7) D by (intro jmp_rest) simp_all
  have "\<exists>sh' m' p h. finalize mmap_result (jmp_added rv c ?sh h0 d) m = Inr (sh', m') \<and> m_finalized sh' \<and>
      m_segments sh' = jmp_order \<and> m_entry_segment sh' = Some 5 \<and> m_mask sh' = get_mask 32 \<and>
      (\<forall>i. m_pos (seg sh' i) = p i \<and> kind (seg sh' i) = kind (seg ?sh1 i)) \<and>
      (\<forall>s \<in> set jmp_order. low_bits 32 (p s) = low_bits 32 (m_pos (seg ?sh1 s))) \<and>
      finished c F (jmp_off rv c d) (seg ?sh1) jmp_order p h m' \<and>
      (\<forall>x. \<not> inside F (jmp_pre c + d + 272) x \<longrightarrow> m' x = (if uses_cell (seg ?sh1) jmp_order then set_cell c p m else m) x)"
  proof (rule finalize_finished [OF _ _ rest])
    show "laid_out c (jmp_off rv c d) (seg ?sh1) jmp_order (jmp_pre c + d + 272)"
      using jmp_laid_out [OF seg assms(5) tc] by simp
    show "F = new_base mmap_result (m_pos (seg ?sh1 (hd jmp_order))) 32"
      using assms(9) by (simp add: jmp_order_def jmp_placed_def jmp_off_def)
    show "jmp_pre c + d + 272 < 2 ^ 62" using d by (simp add: jmp_pre_def)
  qed (use assms in \<open>simp_all add: jmp_added_def new_Shadow_def jmp_order_def lbr_entry_bits_def\<close>)
  then obtain sh' m' p h where fin: "finalize mmap_result (jmp_added rv c ?sh h0 d) m = Inr (sh', m')"
    "m_entry_segment sh' = Some 5"
    and pk: "\<forall>i. m_pos (seg sh' i) = p i \<and> kind (seg sh' i) = kind (seg ?sh1 i)"
    and low: "\<forall>s \<in> set jmp_order. low_bits 32 (p s) = low_bits 32 (m_pos (seg ?sh1 s))"
    and F: "finished c F (jmp_off rv c d) (seg ?sh1) jmp_order p h m'"
    by (elim exE conjE) (rule that)
  have mem: "4 \<in> set jmp_order" "jmp_target rv \<in> set jmp_order" by (simp_all add: jmp_order_def jmp_target_def)
  have "low_bits 32 (p 4) = low_bits 32 S" "low_bits 32 (p (jmp_target rv)) = low_bits 32 D"
    using low mem D by (simp_all add: jmp_placed_def jmp_off_def jmp_target_def)
  moreover have "setup_any_jmp rv mmap_result bs m = Inr (p 5, bs\<lparr>m_shadow := Some sh', m_shadow_src := p 4\<rparr>, m')"
  proof -
    have "setup_any_jmp rv mmap_result bs m =
        bind_res (bind_res (add_entry 5 ?sh) (add_all [4, 0, 6, 1, 7, 2, 3]))
          (\<lambda>sh2. bind_res (finalize mmap_result sh2 m) (\<lambda>(sh3, m'). finish_setup 4 0 bs sh3 m'))"
      using sh0 S lt by (simp add: setup_any_jmp_def setup_jmp_shadow_def setup_jmp_shadow_rev_def h0_def any_jmp_table_def
          new_Shadow_def)
    also have "\<dots> = finish_setup 4 0 bs sh' m'" unfolding add by (simp add: fin(1))
    also have "\<dots> = Inr (p 5, bs\<lparr>m_shadow := Some sh', m_shadow_src := p 4\<rparr>, m')"
      using pk fin(2) by (simp add: finish_setup_def get_entry_ptr_def)
    finally show ?thesis .
  qed
  ultimately show ?thesis using F seg
    by (intro exI [of _ "bs\<lparr>m_shadow := Some sh', m_shadow_src := p 4\<rparr>"] exI [of _ m'] exI [of _ p] exI [of _ h] exI [of _ h0]) simp
qed

lemma jmp_shadow_runs:
  assumes "prepare_attack S D x c1 c2 bs0 m0 = Inr (bs, m)"
    and "jmp_placeable rv (m_use_indirect_targets bs0) c1 c2 mm S D d"
  shows "\<exists>entry bs' m'. setup_any_jmp rv mm bs m = Inr (entry, bs', m') \<and>
    low_bits 32 (m_shadow_src bs') = low_bits 32 S \<and>
    (\<exists>log t. (\<forall>input. \<exists>fuel. \<forall>k \<ge> fuel. execute_ptr k m' entry input = Some (if rv then 1 else 2, log)) \<and>
       hd log = (m_shadow_src bs', t) \<and> low_bits 32 t = low_bits 32 D \<and> (\<forall>u. (m_shadow_src bs', u) \<in> set log \<longrightarrow> u = t))"
proof -
  let ?b = "m_use_indirect_targets bs0" and ?c = "cell_of_target (Some (jmp_target rv)) c2 bs"
  from prepare_attack_ready [OF assms(1)] have ready: "attack_ready bs S D"
    and use: "m_use_indirect_targets bs = ?b" by simp_all
  have base: "jmp_pre ?c = jmp_lead ?b" by (simp add: cell_of_target_def jmp_pre_def jmp_lead_def use)
  define F where "F = new_base mm (S - word_of_nat (jmp_lead ?b)) 32"
  let ?n = "jmp_lead ?b + d + 272"
  have pl: "unat D = unat S + d" "jmp_dist rv ?c d" "jmp_pre ?c < unat S" "unat D < 140737488355328" "mm \<noteq> 0"
    "F = new_base mm (S - word_of_nat (jmp_pre ?c)) 32" "0 < unat F" "unat F + (jmp_pre ?c + d + 272) < 18446744073709551616"
    and fit: "pointers_fit ?b c1 c2 F ?n"
    using assms(2) unfolding jmp_placeable_def base F_def Let_def
    by (auto simp: jmp_dist_def cell_of_target_def src_size_def use split: if_splits)
  note cells = pointers_fit_cells [OF assms(1) fit]
  have "m_use_indirect_targets bs \<longrightarrow> m_indirect_target_ptr bs = snd c2" using cells(5) by blast
  from setup_jmp_ok [OF ready refl this pl] cells(3,4) [of "Some (jmp_target rv)"] obtain bs' m' p h h0 where
    R: "setup_any_jmp rv mm bs m = Inr (p 5, bs', m')" "m_shadow_src bs' = p 4" "jmp_segments rv ?c h0 S d"
    and fin: "finished ?c F (jmp_off rv ?c d) (jmp_placed rv ?c d S h0) jmp_order p h m'"
    and low: "low_bits 32 (p 4) = low_bits 32 S" "low_bits 32 (p (jmp_target rv)) = low_bits 32 D"
    unfolding base by blast
  let ?log = "[(p 4, p (jmp_target rv)), (p (jmp_long rv), p (jmp_end rv))]"
  have "target_cell rv ?c" by (simp add: cell_of_target_def target_cell_def)
  note run = jmp_runs [OF R(3) pl(2) fin this]
  have run_ok: "\<exists>fuel. \<forall>k \<ge> fuel. execute_ptr k m' (p 5) input = Some (if rv then 1 else 2, ?log)" for input
  proof -
    let ?st = "\<lparr>rip = p 5, eax = input, r13 = 0, r14 = 0, zf = False, taken = []\<rparr>"
    from run [of ?st] obtain st' where r: "reaches m' (Running ?st) (Finished st')"
      "eax st' = (if rv then 1 else 2)" "taken st' = ?log" by auto
    from reaches_execute [OF r(1)] show ?thesis unfolding r(2,3) .
  qed
  have "p (jmp_long rv) \<noteq> p 4"
  proof -
    have up: "unat (p s) = unat F + jmp_off rv ?c d s" if "s \<in> set jmp_order" "jmp_off rv ?c d s \<le> jmp_pre ?c + d + 272" for s
      using fin that pl(8) by (simp add: finished_def unat_add_of_nat)
    have "unat (p (jmp_long rv)) = unat F + (jmp_pre ?c + d + 7)" "unat (p 4) = unat F + jmp_pre ?c"
      using up [of "jmp_long rv"] up [of 4] by (simp_all add: jmp_order_def jmp_long_def jmp_off_def)
    then show ?thesis by auto
  qed
  with R low run_ok show ?thesis
    by (intro exI [of _ "p 5"] exI [of _ bs'] exI [of _ m'] conjI exI [of _ ?log] exI [of _ "p (jmp_target rv)"]) auto
qed

text \<open>
  C11. A forward jmp shadow, in either variant: the setup succeeds, the shadow branch agrees with
  the victim's branch in the low 32 address bits, and every run, whatever its input, takes it first,
  to an address with the low bits of the victim's destination, and returns the value of the side it
  leads to.
\<close>
theorem jmp_shadow_correct:
  assumes "prepare_attack S D x c1 c2 bs0 m0 = Inr (bs, m)"
    and "jmp_placeable rv (m_use_indirect_targets bs0) c1 c2 mm S D d"
  shows "\<exists>entry bs' m'. setup_any_jmp rv mm bs m = Inr (entry, bs', m') \<and>
    low_bits 32 (m_shadow_src bs') = low_bits 32 S \<and>
    (\<exists>log t. (\<forall>input. \<exists>fuel. \<forall>k \<ge> fuel. execute_ptr k m' entry input = Some (if rv then 1 else 2, log)) \<and>
       hd log = (m_shadow_src bs', t) \<and> low_bits 32 t = low_bits 32 D \<and> (\<forall>u. (m_shadow_src bs', u) \<in> set log \<longrightarrow> u = t))"
  by (rule jmp_shadow_runs [OF assms])

lemma ex_jmp_base: "unat (new_base 0x7f0000001000 (0x400100 - 12) 32) = 0x7f00004000f4"
  by (subst new_base_cases [where q = "0x7f00" and r = "0x1000" and t = "0x4000f4"]) simp_all

lemma jmp_shadow_correct_witness:
  "\<exists>bs m entry bs' m' fuel log.
    prepare_attack 0x400100 0x400120 7 (0x500000, 0x500010) (0x500020, 0x500030) (ex_bs True) (\<lambda>_. 0) = Inr (bs, m) \<and>
    setup_jmp_shadow_rev 0x7f0000001000 bs m = Inr (entry, bs', m') \<and>
    low_bits 32 (m_shadow_src bs') = low_bits 32 0x400100 \<and> execute_ptr fuel m' entry 0 = Some (1, log)"
proof -
  from ex_prepare obtain bs m where
    p: "prepare_attack 0x400100 0x400120 7 (0x500000, 0x500010) (0x500020, 0x500030) (ex_bs True) (\<lambda>_. 0) = Inr (bs, m)"
    by blast
  have "jmp_placeable True (m_use_indirect_targets (ex_bs True)) (0x500000, 0x500010) (0x500020, 0x500030)
     0x7f0000001000 0x400100 0x400120 32"
    using ex_jmp_base
    by (simp add: jmp_placeable_def ex_bs_def jmp_lead_def pointers_fit_def cells_apart_def cells_clear_def
       apart_def clear_of_def Let_def)
  from jmp_shadow_correct [OF p this] obtain entry bs' m' log where
    R: "setup_jmp_shadow_rev 0x7f0000001000 bs m = Inr (entry, bs', m')" "low_bits 32 (m_shadow_src bs') = low_bits 32 0x400100"
    and run: "\<forall>input. \<exists>fuel. \<forall>k \<ge> fuel. execute_ptr k m' entry input = Some (1, log)" by (auto simp: setup_any_jmp_def)
  from run obtain fuel where "\<forall>k \<ge> fuel. execute_ptr k m' entry 0 = Some (1, log)" by blast
  with p R show ?thesis by blast
qed

end
