(* ===== verification/Spec2Isabelle.thy ===== *)
theory Spec2Isabelle
  imports ConversionExample ConversionSafety AnalyzeModifyProps EdgeSplitProps RegLiveness MainProgram ShadowJmp
begin

text \<open>
  This development models the two programs of the repository that belong together: the branch
  conversion pass that was added to LLVM to hide the direction of conditional branches inside SGX
  enclaves from branch shadowing, and the tool that mounts branch shadowing attacks against
  victims, with its kernel module.

  \<^bold>\<open>The compiler side\<close> (\<open>llvm/\<close>). \<open>X86BranchConversion\<close> runs on machine
  functions: it gives every block with a conditional branch a lane of trampolines in a separate
  area, loads the address of the taken or the fall-through trampoline with LEA and CMOV into R15,
  and jumps through R15. It calls the target hooks of \<open>X86InstrInfo\<close> and the list operations of
  \<open>MachineBasicBlock\<close>.

  \<^item> \<open>Prelude\<close>: results (\<open>err + 'a\<close>; a failed assertion, \<open>llvm_unreachable\<close> or
    \<open>abort\<close> is a value) and intrusive lists with iterators. \<open>Words\<close>: machine words read as
    numbers.
  \<^item> \<open>X86Cond\<close>: \<open>X86::CondCode\<close> and the tables of \<open>X86InstrInfo.cpp\<close> between condition
    codes, jump, SETcc and CMOVcc opcodes and comparison predicates, with the interface
    \<open>cond_encoding\<close> (a table and its inverse) that four of them interpret.
  \<^item> \<open>MachineIR\<close>: operands, instructions, blocks (successors, predecessors, probabilities) and
    functions as records; a block pointer is a number, the heap maps it to the block. The code
    of a block is the list of its instructions; an iterator is a position in it.
  \<^item> \<open>BranchAnalysis\<close>, \<open>BranchInsertion\<close>, \<open>TerminatorUpdate\<close>: \<open>analyzeBranch\<close>,
    \<open>insertBranch\<close>, \<open>removeBranch\<close>, \<open>reverseBranchCondition\<close> and
    \<open>MachineBasicBlock::updateTerminator\<close>, judged by where a block goes in a flag state.
    \<open>AnalyzeModify\<close>, \<open>AnalyzeModifyProps\<close>: \<open>analyzeBranch\<close> when it may modify the block; its
    loop starts again after each change, and that it returns is part of the theorem.
  \<^item> \<open>BlockEdges\<close>, \<open>EdgeTransfer\<close>: every operation on successor lists, with the invariant that
    successor and predecessor lists mirror each other as multisets and that probability lists are
    empty or parallel; the step relation \<open>edge_step\<close> collects the operations.
  \<^item> \<open>LiveIns\<close>, \<open>RegLiveness\<close>: the live-in vectors of blocks, with the in-place merge of
    \<open>sortUniqueLiveIns\<close>, and the local liveness search \<open>computeRegisterLiveness\<close> against the
    backward data flow equations over register units.
  \<^item> \<open>EdgeSplit\<close>, \<open>EdgeSplitResult\<close>, \<open>EdgeSplitSem\<close>, \<open>EdgeSplitProps\<close>:
    \<open>SplitCriticalEdge\<close> composed of the edge, terminator and live-in operations; analysis commutes
    with the renaming of a destination, and a simulation (with \<open>summarised_steps\<close>, the interface
    between single and larger steps) shows that the split function runs as the original.
  \<^item> \<open>BranchProbability\<close>: \<open>BranchProbability\<close> and \<open>BlockFrequency\<close> on 32 and 64 bit
    words against exact rational arithmetic.
  \<^item> \<open>BranchConversion\<close>, \<open>LaneThreading\<close>, \<open>BlockEnds\<close>, \<open>EndConversion\<close>: the pass itself,
    function by function. Its main loop walks the list of blocks that it extends while walking; the
    model gives it fuel computed from the function, and \<open>conversion_total\<close> shows that the
    fuel suffices for every well-formed function.
  \<^item> \<open>MachineSem\<close>: an execution model of machine functions over an abstract machine (a record with
    the effect of straight-line instructions). The theories whose names start with \<open>Conversion\<close> hold the invariants of the
    pass and the simulation; \<open>forward_simulation\<close> is the interface between a step relation with
    stuttering and its consequences, interpreted on the original and the converted function.

  \<^bold>\<open>The attack side\<close> (\<open>shadow_code/\<close>, \<open>module_lbr_chardev/\<close>). The tool builds code whose
  branch has the low 32 address bits of a victim's branch, clears the branch predictor, runs the
  victim, runs the shadow and reads from the last branch records whether the shadow's branch was
  predicted.

  \<^item> \<open>ShadowMemory\<close>: pointers are 64 bit words, memory maps them to bytes; \<open>Pointers\<close> and
    \<open>AlignedMem\<close>. \<open>ShadowSegments\<close>: the segment classes, a shared pointer being an index.
    \<open>ShadowArea\<close>: placing, relocating and writing segments. \<open>BranchShadowing\<close>: the three
    shadows of the driver. \<open>ShadowExec\<close>: the x86-64 instructions these bytes encode, run with
    fuel; a run that returns does so for every larger fuel, and the theorems provide the fuel.
    \<open>ShadowCode\<close>, \<open>ShadowPlacement\<close>, \<open>ShadowFinal\<close>, \<open>ShadowRuns\<close>, \<open>ShadowJne\<close> and
    \<open>ShadowAttack\<close> are the lemmas behind \<open>ShadowProps\<close>; \<open>ShadowJmp\<close> has the two jmp
    shadows. An area uses at most one indirect pointer, a value of the type \<open>indirect\<close>: none with
    the option that turns indirect targets off, the pointer to the input or to the target otherwise.
  \<^item> \<open>BtbFlush\<close>, \<open>BtbProps\<close>: the generated code that clears the predictor.
  \<^item> \<open>LbrModule\<close>: the kernel module over the model-specific registers of each processor, and its
    device. \<open>LbrReader\<close>: the reader and the statistics; the interface \<open>sequential_file\<close> is what
    the reader relies on and the device provides. \<open>LbrProps\<close>: their properties, and the states of
    the device as an inductive predicate.
  \<^item> \<open>Victims\<close>: the victims, the searches for their branches and the enclave handle.
    \<open>Experiments\<close>: the thirteen experiments over a driver state with a history of events; the
    creation of the enclave and every call into it, by the preparation, the sanity check or an
    experiment, is an event. \<open>ExperimentProps\<close>, \<open>MainProgram\<close>: what they keep and do, and \<open>main\<close>.

  \<^bold>\<open>What the theorems show.\<close> For the pass: it terminates without a failed assertion on
  well-formed functions; the converted function returns exactly when the original does, in the same
  state up to R13 and R15; two runs that take different branches between the same blocks execute the
  same jumps through R15; and no conditional jump is left. For the hooks: the condition code tables are
  inverse to each other and sound for comparisons; branch analysis predicts where a block goes, and
  terminator repair preserves it; a split edge leaves the behaviour of the whole function unchanged; a
  register the liveness search calls dead is dead, unless the given instruction reads it, in which case
  it can be live, under conditions that are stated. For the tool: the shadow is placed, relocated and executed as
  intended for forward branches, with and without indirect targets, with the cases in which relocation leaves the mapping; clearing the
  predictor passes over an address that aliases the victim's; records arrive in the order of
  execution and the newest one is measured; a whole experiment does the steps in order, and without
  SGX no enclave is created or called. \<open>new_base\<close> is the address to which \<open>relocate\<close> moves the first
  segment, \<open>entry_of\<close> followed by \<open>apply_base\<close>; \<open>relocate_base\<close> shows it.

  \<^bold>\<open>Bounds.\<close> Forward jne shadows are 9 to 129 bytes long, the range of a short jump; jmp shadows
  have the same limit without indirect targets and 20000 bytes, where the spacing limit of
  \<open>place_segment\<close> lies, with them; the cells \<open>malloc\<close> returns for the indirect pointers do not overlap each other or
  the area; addresses are
  user addresses below \<open>2 ^ 47\<close> for victims and leave 8 GiB above a mapping. The slide has up to
  \<open>2 ^ 27\<close> entries (the tool uses 8192). Loop counters of type \<open>int\<close> are natural numbers where
  they cannot overflow. A \<open>double\<close> is a real number.

  \<^bold>\<open>Parameters.\<close> What is not in the repository is an argument: results of \<open>mmap\<close>, \<open>malloc\<close>,
  \<open>rand\<close>, \<open>open\<close>, \<open>kthread_create\<close> and the SGX calls, the registers a dump sees, the
  register file that TableGen generates, the order in which \<open>std::sort\<close> leaves equal elements, and the
  instruction semantics of the machine the converted code runs on.

  \<^bold>\<open>Not modelled.\<close> The rest of LLVM, which is not changed for this work: front ends, optimisers,
  other targets, instruction selection, scheduling, register allocation and object emission. Of the
  modelled files, the parts that do not concern branches: the other hooks of \<open>X86InstrInfo\<close>, PHI
  operands (no function of the model has PHI instructions), the upkeep of live intervals, dominators and
  loops when an edge is split, bundles, debug locations and printing. Of the tool: logging,
  option parsing, the bundled libraries, cache flushes (no effect on the state) and the copies of
  the setups in \<open>test/Test.cpp\<close>. The timing of instructions and the branch predictor itself are
  outside the model: the theorems end at addresses that alias and jumps that are taken.
\<close>

section \<open>The branch conversion pass\<close>

text \<open>
  C1. Semantic preservation, for well-formed functions that do not use R13 and R15 and in which a call at the
  end of a block without a successor does not return: running the converted function from states that agree outside R13 and
  R15 returns exactly when the original returns, in a state that agrees, and never gets stuck.
\<close>

theorem conversion_preserves:
  assumes "wf_fun F0" and "runOnMachineFunction False F0 = Inr F"
    and "avoids M F0" and "calls_stop M F0" and "inj_on (loc M) (set (layout F))"
    and "agree s s'" and "\<And>n. mrun M F0 n (mstart F0 s) \<noteq> Stuck"
  shows "(\<forall>n r. mrun M F0 n (mstart F0 s) = Returned r \<longrightarrow>
            (\<exists>k r'. mrun M F k (mstart F s') = Returned r' \<and> agree r r')) \<and>
         (\<forall>k r'. mrun M F k (mstart F s') = Returned r' \<longrightarrow>
            (\<exists>n r. mrun M F0 n (mstart F0 s) = Returned r \<and> agree r r')) \<and>
         (\<forall>k. mrun M F k (mstart F s') \<noteq> Stuck)"
  using conversion_runs [OF assms] by blast

theorem conversion_preserves_witness:
  "\<exists>F k r'. runOnMachineFunction False ex_fun = Inr F \<and>
     mrun ex_machine F k (mstart F (ex_state True 7)) = Returned r' \<and> agree (ex_state True 0) r'"
proof -
  from runOnMachineFunction_converted [OF ex_wf] obtain F where
    F: "runOnMachineFunction False ex_fun = Inr F" by blast
  from conversion_preserves [OF ex_wf F ex_avoids ex_calls_stop ex_loc_inj [OF F]
      ex_agree [of True 0 7] ex_never_stuck] ex_run [of 0] F
  show ?thesis by blast
qed

text \<open>
  C2. Obliviousness, under the same conditions: two runs of the original from a block to the same later block, moving only
  forward and without indirect jumps, execute the same sequence of jumps through R15 once converted,
  whatever branches they take and whatever state they start in.
\<close>

theorem conversion_oblivious:
  assumes "wf_fun F0" and "runOnMachineFunction False F0 = Inr F"
    and "inj_on (loc M) (set (layout F))" and "avoids M F0" and "calls_stop M F0"
    and "b \<in> set (layout F0)"
    and "forward_run M F0 n1 (Run b 0 s1)" and "mrun M F0 n1 (Run b 0 s1) = Run t 0 r1"
    and "forward_run M F0 n2 (Run b 0 s2)" and "mrun M F0 n2 (Run b 0 s2) = Run t 0 r2"
  shows "\<exists>k1 k2 r1' r2'. mrun M F k1 (Run b 0 s1) = Run t 0 r1' \<and> agree r1 r1' \<and>
    mrun M F k2 (Run b 0 s2) = Run t 0 r2' \<and> agree r2 r2' \<and>
    jump_trace M F k1 (Run b 0 s1) = jump_trace M F k2 (Run b 0 s2)"
  by (rule oblivious_runs [OF assms])

theorem conversion_oblivious_witness:
  "\<exists>F k1 k2 r1 r2. runOnMachineFunction False ex_fun = Inr F \<and>
    mrun ex_machine F k1 (Run 0 0 (ex_state True 0)) = Run 2 0 r1 \<and>
    mrun ex_machine F k2 (Run 0 0 (ex_state False 0)) = Run 2 0 r2 \<and>
    jump_trace ex_machine F k1 (Run 0 0 (ex_state True 0)) =
      jump_trace ex_machine F k2 (Run 0 0 (ex_state False 0))"
proof -
  from runOnMachineFunction_converted [OF ex_wf] obtain F where
    F: "runOnMachineFunction False ex_fun = Inr F" by blast
  from conversion_oblivious [OF ex_wf F ex_loc_inj [OF F] ex_avoids ex_calls_stop, of 0]
    ex_forward_jump [of 0] ex_forward_fall [of 0]
  have "\<exists>k1 k2 r1' r2'. mrun ex_machine F k1 (Run 0 0 (ex_state True 0)) = Run 2 0 r1' \<and>
      agree (ex_state True 0) r1' \<and>
      mrun ex_machine F k2 (Run 0 0 (ex_state False 0)) = Run 2 0 r2' \<and>
      agree (ex_state False 0) r2' \<and>
      jump_trace ex_machine F k1 (Run 0 0 (ex_state True 0)) =
        jump_trace ex_machine F k2 (Run 0 0 (ex_state False 0))"
    by (metis ex_layout(1) list.set_intros(1))
  with F show ?thesis by blast
qed

text \<open>
  C3. Totality and bounds: the pass converts every well-formed function without tripping an
  assertion or running out of fuel; the blocks are fresh and their number at most quadratic.
\<close>

theorem conversion_total:
  assumes "wf_fun F0"
  shows "\<exists>F. runOnMachineFunction False F0 = Inr F \<and> distinct (layout F) \<and>
    (\<forall>b\<in>set (layout F). b < fresh F) \<and>
    fresh F \<le> fresh F0 + 2 * length (layout F0) * (2 * length (layout F0) + 5) + 1"
  using runOnMachineFunction_converted [OF assms] unfolding converted_def by blast

theorem conversion_total_witness:
  "\<exists>F. runOnMachineFunction False ex_fun = Inr F \<and> distinct (layout F) \<and> fresh F \<le> 70"
  using conversion_total [OF ex_wf] by auto

text \<open>
  C4. Safety: the function converted from a well-formed one, whose blocks end in at most one
  conditional jump, has no conditional branch in any block, and its original
  blocks, which stay in their order, have no branch but the indirect jumps they had.
\<close>

theorem conversion_hides_branches:
  assumes "wf_fun F0" and "runOnMachineFunction False F0 = Inr F"
  shows "(\<forall>b\<in>set (layout F). \<forall>MI\<in>set (code F b). \<not> isConditionalBranch MI) \<and>
    filter (\<lambda>b. b \<in> set (layout F0)) (layout F) = layout F0 \<and>
    (\<forall>b\<in>set (layout F0). \<forall>MI\<in>set (code F b). isBranch MI \<longrightarrow>
       isIndirectBranch MI \<and> MI \<in> set (code F0 b))"
  using converted_branches [OF assms] .

theorem conversion_hides_branches_witness:
  "\<exists>F. runOnMachineFunction False ex_fun = Inr F \<and>
     isConditionalBranch (code ex_fun 0 ! 1) \<and>
     (\<forall>b\<in>set (layout F). \<forall>MI\<in>set (code F b). \<not> isConditionalBranch MI)"
proof -
  from runOnMachineFunction_converted [OF ex_wf] obtain F where
    F: "runOnMachineFunction False ex_fun = Inr F" by blast
  with conversion_hides_branches [OF ex_wf F] show ?thesis
    by (auto simp: ex_jcc_def desc_defs)
qed

end
